(* ===== verification/Nuts_Prelude.thy ===== *)
theory Nuts_Prelude
  imports Main "HOL-Library.Word" "HOL-Library.Monad_Syntax" "HOL-Library.Signed_Division"
begin

unbundle bit_operations_syntax

text \<open>
  Shared vocabulary of the development: the machine integers of the 32-bit target, the
  error codes of \<^verbatim>\<open>error.h\<close>, byte-addressed memory with little-endian access, and the
  generic lemmas the component theories use.

  Conventions. \<open>uint8_t\<close>, \<open>uint16_t\<close>, \<open>uint32_t\<close>, \<open>size_t\<close> and pointers are
  words, so their arithmetic wraps as on the target. A C \<open>int\<close> is an \<open>int\<close> brought
  back into 32-bit range by \<open>s32\<close> where the code's arithmetic may leave it (the build
  uses \<open>-O0\<close>, where the target wraps). An access outside the object it belongs to, or
  through a pointer that designates no live object, has no defined result: the model
  returns \<open>None\<close>, so that its absence is something a theorem states and proves.
\<close>

named_theorems const_defs "numeric constants of the headers"
named_theorems frame_simps "what an operation leaves unchanged"

section \<open>Machine integers\<close>

type_synonym u8 = "8 word"
type_synonym u16 = "16 word"
type_synonym u32 = "32 word"
type_synonym mem = "u32 \<Rightarrow> u8"

definition s32 :: "int \<Rightarrow> int" where
  "s32 x = signed_take_bit 31 x"

lemma s32_id: "- 2147483648 \<le> x \<Longrightarrow> x < 2147483648 \<Longrightarrow> s32 x = x"
  by (simp add: s32_def signed_take_bit_int_eq_self)

lemma s32_range: "- 2147483648 \<le> s32 x \<and> s32 x < 2147483648"
  using signed_take_bit_int_greater_eq_minus_exp [of 31 x] signed_take_bit_int_less_exp [of 31 x]
  by (simp add: s32_def)

lemma s32_s32 [simp]: "s32 (s32 x) = s32 x"
  using s32_range [of x] by (intro s32_id) auto

lemma word_of_int_s32 [simp]: "(word_of_int (s32 x) :: u32) = word_of_int x"
  by (simp add: s32_def word_of_int_eq_iff take_bit_signed_take_bit)

lemma round_up_exact: "(x :: nat) mod 4096 = 0 \<Longrightarrow> (x + 4095) div 4096 * 4096 = x"
  by (auto elim!: dvdE simp: mod_eq_0_iff_dvd)

lemma round_up_inexact:
  assumes "(x :: nat) mod 4096 \<noteq> 0"
  shows "(x + 4095) div 4096 * 4096 = x - x mod 4096 + 4096"
proof -
  define q r where "q = x div 4096" and "r = x mod 4096"
  have x: "x = r + 4096 * q" and r: "0 < r" "r < 4096"
    using assms by (simp_all add: q_def r_def)
  have "(r + 4095) div 4096 = 1" using r by (intro div_nat_eqI) simp_all
  moreover have "(x + 4095) div 4096 = (r + 4095) div 4096 + q"
    using div_mult_self2 [of 4096 "r + 4095" q] by (simp add: x ac_simps)
  ultimately show ?thesis using r by (simp add: x)
qed

lemma round_up_0: "((x :: nat) + 4095) div 4096 = 0 \<longleftrightarrow> x = 0"
  by (simp add: div_eq_0_iff)

lemma unat_of_nat_small: "x < 4294967296 \<Longrightarrow> unat (of_nat x :: u32) = x"
  by (simp add: unat_of_nat)

lemma of_nat_u32_inject:
  "i < 4294967296 \<Longrightarrow> j < 4294967296 \<Longrightarrow> (of_nat i :: u32) = of_nat j \<longleftrightarrow> i = j"
  by (metis unat_of_nat_small)

lemma unat_u32_less: "unat (w :: u32) < 4294967296"
  using unsigned_less [of w] by simp

lemma unat_Suc_less: "i < (n :: u32) \<Longrightarrow> unat (i + 1) = Suc (unat i)"
proof -
  assume "i < n"
  then have "unat i < unat n" by (simp add: word_less_nat_alt)
  then have "Suc (unat i) < 4294967296" using unat_u32_less [of n] by linarith
  then show ?thesis by (simp add: unat_word_ariths)
qed

lemma unat_pred: "(n :: u32) \<noteq> 0 \<Longrightarrow> Suc (unat (n - 1)) = unat n"
  using unat_minus_one [of n] unat_gt_0 [of n] by simp

lemma sint_small: "unat (w :: u32) < 2147483648 \<Longrightarrow> sint w = int (unat w)"
proof -
  assume w: "unat w < 2147483648"
  have "sint w = s32 (uint w)" by (simp add: sint_uint s32_def)
  also have "uint w = int (unat w)" by simp
  also have "s32 (int (unat w)) = int (unat w)" using w by (intro s32_id) linarith+
  finally show ?thesis .
qed

section \<open>Pages\<close>

text \<open>
  An address is its page frame (the upper 20 bits) plus its offset in the page. Frames are
  the 4096-aligned addresses.
\<close>

definition page_frame :: "u32 \<Rightarrow> u32" where
  "page_frame a = a AND 0xFFFFF000"

definition page_offset :: "u32 \<Rightarrow> u32" where
  "page_offset a = a AND 0xFFF"

lemma page_aligned_iff: "(a :: u32) mod 4096 = 0 \<longleftrightarrow> 4096 dvd unat a"
proof -
  have "a mod 4096 = 0 \<longleftrightarrow> unat (a mod 4096) = 0" by (simp only: unat_0_iff)
  then show ?thesis by (simp add: unat_mod mod_eq_0_iff_dvd)
qed

lemma page_aligned_add:
  "(a :: u32) mod 4096 = 0 \<Longrightarrow> b mod 4096 = 0 \<Longrightarrow> (a + b) mod 4096 = 0"
  by (simp add: page_aligned_iff unat_word_ariths dvd_mod_iff)

lemma page_aligned_mult: "((b :: u32) * 4096) mod 4096 = 0"
  by (simp add: page_aligned_iff unat_word_ariths dvd_mod_iff)

lemma page_aligned_minus:
  assumes "(a :: u32) mod 4096 = 0" and "b mod 4096 = 0"
  shows "(a - b) mod 4096 = 0"
proof -
  have "4096 dvd unat a" "4096 dvd unat b" using assms by (simp_all only: page_aligned_iff)
  then have "4096 dvd unat (a - b)" unfolding unat_sub_if' by (simp add: dvd_diff_nat)
  then show ?thesis by (simp only: page_aligned_iff)
qed

lemma page_offset_mod: "page_offset a = a mod 4096"
proof -
  have "a AND mask 12 = a mod 2 ^ 12" by (simp only: take_bit_eq_mask [symmetric] take_bit_eq_mod)
  then show ?thesis by (simp add: page_offset_def mask_eq_exp_minus_1)
qed

lemma unat_page_offset: "unat (page_offset a) = unat a mod 4096"
  by (simp add: page_offset_mod unat_mod)

lemma page_offset_less: "unat (page_offset a) < 4096"
  by (simp add: unat_page_offset)

lemma page_split: "page_frame a + page_offset a = a"
proof -
  have "page_frame a AND page_offset a = 0"
    by (simp add: page_frame_def page_offset_def and.assoc and.left_commute)
  then have "page_frame a + page_offset a = page_frame a OR page_offset a"
    by (rule disjunctive_add_eq_or)
  also have "\<dots> = a AND (0xFFFFF000 OR 0xFFF)"
    by (simp only: page_frame_def page_offset_def bit.conj_disj_distrib)
  also have "(0xFFFFF000 OR 0xFFF :: u32) = - 1" by simp
  finally show ?thesis by simp
qed

lemma page_frame_minus: "page_frame a = a - page_offset a"
  using page_split [of a] by (simp add: eq_diff_eq)

lemma unat_page_frame: "unat (page_frame a) = unat a - unat a mod 4096"
proof -
  have "page_offset a \<le> a" by (simp add: word_le_nat_alt unat_page_offset)
  then show ?thesis using unat_sub [of "page_offset a" a] by (simp add: page_frame_minus unat_page_offset)
qed

lemma page_frame_aligned: "page_frame a mod 4096 = 0"
  by (simp add: page_aligned_iff unat_page_frame)

lemma page_frame_id: "a mod 4096 = 0 \<Longrightarrow> page_frame a = a"
  by (simp add: page_frame_minus page_offset_mod)

lemma unat_page_add:
  assumes "(p :: u32) mod 4096 = 0" and "unat d < 4096"
  shows "unat (p + d) = unat p + unat d"
proof -
  from assms(1) have "4096 dvd unat p" by (simp only: page_aligned_iff)
  then obtain q where q: "unat p = 4096 * q" by (elim dvdE)
  then have "q < 1048576" using unat_u32_less [of p] by simp
  then have "unat p + unat d < 4294967296" using assms(2) q by linarith
  then show ?thesis by (simp add: unat_word_ariths(1))
qed

lemma page_frame_add:
  assumes "p mod 4096 = 0" and "unat d < 4096"
  shows "page_frame (p + d) = p" and "page_offset (p + d) = d"
proof -
  have "unat (page_offset (p + d)) = unat d"
    using assms by (simp add: unat_page_offset unat_page_add page_aligned_iff mod_add_left_eq [symmetric])
  then show o: "page_offset (p + d) = d" by (simp add: word_unat_eq_iff)
  show "page_frame (p + d) = p" by (simp add: page_frame_minus o)
qed

section \<open>Error codes (\<^verbatim>\<open>error.h\<close>)\<close>

definition EOK :: int where [const_defs]: "EOK = 0"
definition EIO :: int where [const_defs]: "EIO = 1"
definition EINVARG :: int where [const_defs]: "EINVARG = 2"
definition ENOMEM :: int where [const_defs]: "ENOMEM = 3"
definition EBADPATH :: int where [const_defs]: "EBADPATH = 4"
definition EINVALID :: int where [const_defs]: "EINVALID = 5"
definition EREADONLY :: int where [const_defs]: "EREADONLY = 6"
definition ETAKEN :: int where [const_defs]: "ETAKEN = 7"

text \<open>
  \<open>ISERR(v)\<close> is \<open>(v) < 0\<close>. On an \<open>int\<close> that is the signed comparison. On a
  pointer it compares with the null pointer constant, and pointers compare unsigned.
\<close>

definition ISERR :: "int \<Rightarrow> bool" where
  "ISERR v \<longleftrightarrow> v < 0"

definition ISERR_ptr :: "u32 \<Rightarrow> bool" where
  "ISERR_ptr p \<longleftrightarrow> p < 0"

definition ERRTOPTR :: "int \<Rightarrow> u32" where
  "ERRTOPTR e = word_of_int e"

definition PTRTOERR :: "u32 \<Rightarrow> int" where
  "PTRTOERR p = sint p"

lemma ISERR_ptr_False [simp]: "ISERR_ptr p = False"
  by (simp add: ISERR_ptr_def)

lemma PTRTOERR_ERRTOPTR: "PTRTOERR (ERRTOPTR e) = s32 e"
  by (simp add: PTRTOERR_def ERRTOPTR_def s32_def sint_uint uint_word_of_int_eq
      signed_take_bit_take_bit)

section \<open>Byte memory\<close>

text \<open>
  A region is given by its first address and its length; \<open>in_region p n a\<close> reads the
  distance from \<open>p\<close> modulo \<open>2 ^ 32\<close>, so it is right for regions that wrap too.
\<close>

definition in_region :: "u32 \<Rightarrow> u32 \<Rightarrow> u32 \<Rightarrow> bool" where
  "in_region p n a \<longleftrightarrow> a - p < n"

lemma page_frame_region: "page_frame a = p \<longleftrightarrow> p mod 4096 = 0 \<and> in_region p 4096 a"
proof
  assume p: "page_frame a = p"
  have "a - p = page_offset a" using page_split [of a] p by (metis add_diff_cancel_left')
  then show "p mod 4096 = 0 \<and> in_region p 4096 a"
    using page_frame_aligned [of a] page_offset_less [of a] p by (simp add: in_region_def word_less_nat_alt)
next
  assume "p mod 4096 = 0 \<and> in_region p 4096 a"
  then show "page_frame a = p"
    using page_frame_add(1) [of p "a - p"] by (simp add: in_region_def word_less_nat_alt)
qed

lemma in_page_cell:
  assumes "k < 1024" and "j < 4"
  shows "unat (4 * of_nat k + of_nat j :: u32) = 4 * k + j"
  using assms by (simp add: unat_word_ariths unat_of_nat)

lemma page_frame_cell:
  assumes "t mod 4096 = 0" and "k < 1024" and "j < 4"
  shows "page_frame (t + 4 * of_nat k + of_nat j) = t"
  using page_frame_add(1) [OF assms(1), of "4 * of_nat k + of_nat j"] in_page_cell [OF assms(2,3)] assms(2,3)
  by (simp add: add.assoc)

lemma cell_inject:
  assumes "(t :: u32) mod 4096 = 0" and "k < 1024" and "j < 4" and "k' < 1024" and "j' < 4"
    and "t + 4 * of_nat k + of_nat j = t + 4 * of_nat k' + of_nat j'"
  shows "k = k' \<and> j = j'"
proof -
  have "(4 * of_nat k + of_nat j :: u32) = 4 * of_nat k' + of_nat j'" using assms(6) by (simp add: add.assoc)
  then have "4 * k + j = 4 * k' + j'" using in_page_cell assms(2-5) by metis
  with assms(3,5) show ?thesis by presburger
qed

fun read_bytes :: "mem \<Rightarrow> u32 \<Rightarrow> nat \<Rightarrow> u8 list" where
  "read_bytes m p 0 = []"
| "read_bytes m p (Suc n) = m p # read_bytes m (p + 1) n"

fun write_bytes :: "mem \<Rightarrow> u32 \<Rightarrow> u8 list \<Rightarrow> mem" where
  "write_bytes m p [] = m"
| "write_bytes m p (b # bs) = write_bytes (m(p := b)) (p + 1) bs"

definition read16 :: "mem \<Rightarrow> u32 \<Rightarrow> u16" where
  "read16 m a = ucast (m a) OR push_bit 8 (ucast (m (a + 1)))"

definition read32 :: "mem \<Rightarrow> u32 \<Rightarrow> u32" where
  "read32 m a = ucast (m a) OR push_bit 8 (ucast (m (a + 1)))
     OR push_bit 16 (ucast (m (a + 2))) OR push_bit 24 (ucast (m (a + 3)))"

definition write16 :: "mem \<Rightarrow> u32 \<Rightarrow> u16 \<Rightarrow> mem" where
  "write16 m a v = m(a := ucast v, a + 1 := ucast (drop_bit 8 v))"

definition write32 :: "mem \<Rightarrow> u32 \<Rightarrow> u32 \<Rightarrow> mem" where
  "write32 m a v = m(a := ucast v, a + 1 := ucast (drop_bit 8 v),
     a + 2 := ucast (drop_bit 16 v), a + 3 := ucast (drop_bit 24 v))"

text \<open>
  \<open>fill xs i n f\<close> is the list \<open>xs\<close> with the \<open>n\<close> elements from \<open>i\<close> replaced by
  \<open>f 0\<close>, \<open>f 1\<close>, \<dots>: what a loop of assignments to consecutive indices computes.
\<close>

definition fill :: "'a list \<Rightarrow> nat \<Rightarrow> nat \<Rightarrow> (nat \<Rightarrow> 'a) \<Rightarrow> 'a list" where
  "fill xs i n f = map (\<lambda>j. if i \<le> j \<and> j < i + n then f (j - i) else xs ! j) [0..<length xs]"

lemma length_fill [simp]: "length (fill xs i n f) = length xs"
  by (simp add: fill_def)

lemma nth_fill [simp]:
  "j < length xs \<Longrightarrow> fill xs i n f ! j = (if i \<le> j \<and> j < i + n then f (j - i) else xs ! j)"
  by (simp add: fill_def)

lemma fill_0 [simp]: "fill xs i 0 f = xs"
  by (rule nth_equalityI) auto

lemma fill_Suc:
  "i < length xs \<Longrightarrow> fill (xs[i := f 0]) (Suc i) n (\<lambda>k. f (Suc k)) = fill xs i (Suc n) f"
  by (rule nth_equalityI) (auto simp: nth_list_update le_less Suc_diff_Suc)

lemma fill_fill: "fill (fill xs i n f) i n g = fill xs i n g"
  by (rule nth_equalityI) simp_all

lemma fill_same:
  "(\<And>k. k < n \<Longrightarrow> i + k < length xs \<Longrightarrow> xs ! (i + k) = f k) \<Longrightarrow> fill xs i n f = xs"
  by (rule nth_equalityI) (auto, metis le_add_diff_inverse less_diff_conv2 add.commute)

lemma fill_cong: "(\<And>k. k < n \<Longrightarrow> f k = g k) \<Longrightarrow> fill xs i n f = fill xs i n g"
  by (rule nth_equalityI) auto

lemma length_read_bytes [simp]: "length (read_bytes m p n) = n"
  by (induction n arbitrary: p) auto

lemma nth_read_bytes: "i < n \<Longrightarrow> read_bytes m p n ! i = m (p + of_nat i)"
proof (induction n arbitrary: p i)
  case 0
  then show ?case by simp
next
  case (Suc n)
  show ?case
  proof (cases i)
    case 0
    then show ?thesis by simp
  next
    case (Suc j)
    with Suc.prems Suc.IH [of j "p + 1"] show ?thesis
      by (simp add: add.assoc)
  qed
qed

lemma read_bytes_cong:
  "(\<And>i. i < n \<Longrightarrow> m (p + of_nat i) = m' (p + of_nat i)) \<Longrightarrow> read_bytes m p n = read_bytes m' p n"
  by (rule nth_equalityI) (simp_all add: nth_read_bytes)

lemma in_region_offset:
  "n \<le> 2 ^ 32 \<Longrightarrow> i < n \<Longrightarrow> unat (a + of_nat i - a :: u32) = i"
  by (simp add: unat_of_nat)

lemma write_bytes_spec:
  assumes "length bs \<le> 2 ^ 32"
  shows "write_bytes m p bs a = (if unat (a - p) < length bs then bs ! unat (a - p) else m a)"
  using assms
proof (induction bs arbitrary: m p)
  case Nil
  then show ?case by simp
next
  case (Cons b bs)
  have IH: "write_bytes (m(p := b)) (p + 1) bs a =
      (if unat (a - (p + 1)) < length bs then bs ! unat (a - (p + 1)) else (m(p := b)) a)"
    using Cons by simp
  show ?case
  proof (cases "a = p")
    case True
    have "unat (- 1 :: u32) = 2 ^ 32 - 1" by (simp add: unsigned_minus_1_eq_mask mask_eq_exp_minus_1)
    with True Cons.prems IH show ?thesis by simp
  next
    case False
    then have "a - p \<noteq> 0" by simp
    then have "unat (a - p) = Suc (unat (a - p - 1))"
      using unat_minus_one [of "a - p"] unat_gt_0 [of "a - p"] by simp
    then have "unat (a - p) = Suc (unat (a - (p + 1)))" by (simp add: diff_diff_eq)
    with IH False show ?thesis by simp
  qed
qed

lemma write_bytes_read_bytes:
  assumes "length bs \<le> 2 ^ 32"
  shows "read_bytes (write_bytes m p bs) p (length bs) = bs"
  using assms by (intro nth_equalityI) (simp_all add: nth_read_bytes write_bytes_spec unat_of_nat)

lemma read32_write32_same [simp]: "read32 (write32 m a v) a = v"
proof -
  have d: "a + 1 \<noteq> a + 2" "a + 1 \<noteq> a + 3" "a + 2 \<noteq> a + 3" "a \<noteq> a + 1" "a \<noteq> a + 2" "a \<noteq> a + 3"
    by simp_all
  show ?thesis
  proof (rule bit_word_eqI)
    fix n
    assume "n < LENGTH(32)"
    then consider "n < 8" | "8 \<le> n" "n < 16" | "16 \<le> n" "n < 24" | "24 \<le> n" "n < 32"
      by fastforce
    then show "bit (read32 (write32 m a v) a) n = bit v n"
      by cases (auto simp: read32_def write32_def bit_simps)
  qed
qed

lemma read32_cong:
  "m a = m' a \<Longrightarrow> m (a + 1) = m' (a + 1) \<Longrightarrow> m (a + 2) = m' (a + 2) \<Longrightarrow> m (a + 3) = m' (a + 3)
   \<Longrightarrow> read32 m a = read32 m' a"
  by (simp add: read32_def)

text \<open>
  Entries of a page-aligned table: writing one touches only bytes of that page, and no
  other entry of it.
\<close>

lemma of_nat_less_4: "j < 4 \<Longrightarrow> j = 0 \<or> j = 1 \<or> j = 2 \<or> j = (3 :: nat)"
  by linarith

lemma write32_page:
  assumes "t mod 4096 = 0" and "k < 1024" and "page_frame a \<noteq> t"
  shows "write32 m (t + 4 * of_nat k) v a = m a"
  using page_frame_cell [OF assms(1,2), of 0] page_frame_cell [OF assms(1,2), of 1]
    page_frame_cell [OF assms(1,2), of 2] page_frame_cell [OF assms(1,2), of 3] assms(3)
  by (auto simp: write32_def)

lemma read32_page_cong:
  assumes "t mod 4096 = 0" and "k < 1024" and "\<And>a. page_frame a = t \<Longrightarrow> m a = m' a"
  shows "read32 m (t + 4 * of_nat k) = read32 m' (t + 4 * of_nat k)"
  using page_frame_cell [OF assms(1,2), of 0] page_frame_cell [OF assms(1,2), of 1]
    page_frame_cell [OF assms(1,2), of 2] page_frame_cell [OF assms(1,2), of 3] assms(3)
  by (intro read32_cong) auto

lemma read32_write32_cell:
  assumes "t mod 4096 = 0" and "k < 1024" and "k' < 1024"
  shows "read32 (write32 m (t + 4 * of_nat k) v) (t + 4 * of_nat k')
    = (if k' = k then v else read32 m (t + 4 * of_nat k'))"
proof (cases "k' = k")
  case False
  have "write32 m (t + 4 * of_nat k) v (t + 4 * of_nat k' + of_nat j) = m (t + 4 * of_nat k' + of_nat j)"
    if "j < 4" for j
  proof -
    have "t + 4 * of_nat k' + of_nat j \<noteq> t + 4 * of_nat k + of_nat i" if "i < 4" for i
      using cell_inject [OF assms(1,3) \<open>j < 4\<close> assms(2) that] False by blast
    from this [of 0] this [of 1] this [of 2] this [of 3] show ?thesis by (simp add: write32_def)
  qed
  from this [of 0] this [of 1] this [of 2] this [of 3] False show ?thesis
    by (auto intro: read32_cong)
qed simp

lemma read32_write32_other_page:
  assumes "t mod 4096 = 0" and "k < 1024" and "t' mod 4096 = 0" and "k' < 1024" and "t' \<noteq> t"
  shows "read32 (write32 m (t + 4 * of_nat k) v) (t' + 4 * of_nat k') = read32 m (t' + 4 * of_nat k')"
  using assms by (intro read32_page_cong) (auto simp: write32_page)

end
