(* ===== verification/Heap.thy ===== *)
theory Heap
  imports Nuts_Prelude
begin

text \<open>
  The block allocator of \<^verbatim>\<open>src/memory/heap/heap.c\<close> and \<^verbatim>\<open>heap.h\<close>.

  A heap hands out 4096-byte blocks. Its table has one byte per block with the bits of
  \<^verbatim>\<open>heap.h\<close>: 0 taken, 6 first block of a chunk, 7 another block of the chunk follows. The
  table is a list of bytes of its declared length; reading or writing an entry outside
  it gives \<open>None\<close>.
\<close>

section \<open>Constants and state\<close>

definition NUTSOS_HEAP_SIZE_BYTES :: u32 where
  [const_defs]: "NUTSOS_HEAP_SIZE_BYTES = 512 * (1024 * 1024)"

definition NUTSOS_HEAP_BLOCK_SIZE :: u32 where
  [const_defs]: "NUTSOS_HEAP_BLOCK_SIZE = 4096"

definition NUTSOS_HEAP_ADDRESS :: u32 where
  [const_defs]: "NUTSOS_HEAP_ADDRESS = 0x01000000"

definition NUTSOS_HEAP_TABLE_ADDRESS :: u32 where
  [const_defs]: "NUTSOS_HEAP_TABLE_ADDRESS = 0x00007E00"

definition HEAP_BLOCK_TABLE_ENTRY_TAKEN :: u8 where
  [const_defs]: "HEAP_BLOCK_TABLE_ENTRY_TAKEN = 0b00000001"

definition HEAP_BLOCK_TABLE_ENTRY_FREE :: u8 where
  [const_defs]: "HEAP_BLOCK_TABLE_ENTRY_FREE = 0b00000000"

definition HEAP_BLOCK_MASK_TYPE :: u8 where
  [const_defs]: "HEAP_BLOCK_MASK_TYPE = 0b00000001"

definition HEAP_BLOCK_HAS_NEXT :: u8 where
  [const_defs]: "HEAP_BLOCK_HAS_NEXT = 0b10000000"

definition HEAP_BLOCK_IS_FIRST :: u8 where
  [const_defs]: "HEAP_BLOCK_IS_FIRST = 0b01000000"

record heap_table =
  entries :: "u8 list"
  total :: u32

record heap =
  table :: heap_table
  saddr :: u32

text \<open>The accesses \<open>table->entries[i]\<close>.\<close>

definition entry_get :: "heap_table \<Rightarrow> int \<Rightarrow> u8 option" where
  "entry_get t i = (if 0 \<le> i \<and> nat i < length (entries t) then Some (entries t ! nat i) else None)"

definition entry_set :: "heap_table \<Rightarrow> int \<Rightarrow> u8 \<Rightarrow> heap_table option" where
  "entry_set t i e = (if 0 \<le> i \<and> nat i < length (entries t)
     then Some (t\<lparr>entries := (entries t)[nat i := e]\<rparr>) else None)"

section \<open>Creating a heap\<close>

definition heap_validate_table :: "u32 \<Rightarrow> u32 \<Rightarrow> heap_table \<Rightarrow> int" where
  "heap_validate_table ptr end_ptr t =
     (let table_size = end_ptr - ptr;
          total_blocks = table_size div NUTSOS_HEAP_BLOCK_SIZE
      in if total t \<noteq> total_blocks then - EINVARG else 0)"

definition heap_validate_alignment :: "u32 \<Rightarrow> bool" where
  "heap_validate_alignment ptr \<longleftrightarrow> ptr mod NUTSOS_HEAP_BLOCK_SIZE = 0"

text \<open>
  \<open>memset(table->entries, HEAP_BLOCK_TABLE_ENTRY_FREE, total)\<close> on a table of bytes.
\<close>

definition entries_clear :: "heap_table \<Rightarrow> heap_table option" where
  "entries_clear t = (let n = unat (total t) in
     if n \<le> length (entries t)
     then Some (t\<lparr>entries := replicate n HEAP_BLOCK_TABLE_ENTRY_FREE @ drop n (entries t)\<rparr>)
     else None)"

text \<open>The old heap is returned unchanged where the code returns before writing to it.\<close>

definition heap_create :: "heap \<Rightarrow> u32 \<Rightarrow> u32 \<Rightarrow> heap_table \<Rightarrow> (int \<times> heap) option" where
  "heap_create h ptr end_ptr t =
     (if \<not> heap_validate_alignment ptr \<or> \<not> heap_validate_alignment end_ptr
      then Some (- EINVARG, h)
      else
        let h1 = \<lparr>table = t, saddr = ptr\<rparr>;
            res = heap_validate_table ptr end_ptr t
        in if res < 0 then Some (res, h1)
           else do {
             t1 \<leftarrow> entries_clear t;
             Some (0, h1\<lparr>table := t1\<rparr>)
           })"

section \<open>Searching and marking blocks\<close>

definition heap_align_value_to_upper :: "u32 \<Rightarrow> u32" where
  "heap_align_value_to_upper val =
     (if val mod NUTSOS_HEAP_BLOCK_SIZE = 0 then val
      else val - val mod NUTSOS_HEAP_BLOCK_SIZE + NUTSOS_HEAP_BLOCK_SIZE)"

definition heap_get_entry_type :: "u8 \<Rightarrow> u8" where
  "heap_get_entry_type entry = entry AND HEAP_BLOCK_MASK_TYPE"

text \<open>
  The loop of \<open>heap_get_next_free_block\<close> from index \<open>i\<close>, with its locals \<open>bc\<close> (blocks
  in the current run) and \<open>bs\<close> (where the run starts, -1 for none). The comparison
  \<open>bc == total_blocks\<close> is unsigned.
\<close>

function next_free_loop :: "heap_table \<Rightarrow> u32 \<Rightarrow> nat \<Rightarrow> int \<Rightarrow> int \<Rightarrow> int option" where
  "next_free_loop t total_blocks i bc bs =
     (if i < unat (total t) then
        do {
          e \<leftarrow> entry_get t (int i);
          (if heap_get_entry_type e \<noteq> HEAP_BLOCK_TABLE_ENTRY_FREE
           then next_free_loop t total_blocks (Suc i) 0 (- 1)
           else
             let bs' = (if bs = - 1 then int i else bs);
                 bc' = bc + 1
             in if word_of_int bc' = total_blocks then Some bs'
                else next_free_loop t total_blocks (Suc i) bc' bs')
        }
      else Some bs)"
  by pat_completeness auto
termination
  by (relation "measure (\<lambda>(t, n, i, bc, bs). unat (total t) - i)") auto

declare next_free_loop.simps [simp del]

definition heap_get_next_free_block :: "heap \<Rightarrow> u32 \<Rightarrow> int option" where
  "heap_get_next_free_block h total_blocks = do {
     bs \<leftarrow> next_free_loop (table h) total_blocks 0 0 (- 1);
     Some (if bs = - 1 then - ENOMEM else bs)
   }"

definition heap_block_to_address :: "heap \<Rightarrow> int \<Rightarrow> u32" where
  "heap_block_to_address h block = saddr h + word_of_int block * NUTSOS_HEAP_BLOCK_SIZE"

text \<open>The difference is cast to \<open>int\<close> and divided as a signed number (truncating).\<close>

definition heap_address_to_block :: "heap \<Rightarrow> u32 \<Rightarrow> int" where
  "heap_address_to_block h address = sint (address - saddr h) sdiv 4096"

text \<open>The loop of \<open>heap_mark_blocks_taken\<close>; \<open>entry\<close> is the value for the next block.\<close>

function mark_taken_loop :: "heap_table \<Rightarrow> int \<Rightarrow> int \<Rightarrow> u8 \<Rightarrow> heap_table option" where
  "mark_taken_loop t i end_block entry =
     (if i \<le> end_block then
        do {
          t' \<leftarrow> entry_set t i entry;
          mark_taken_loop t' (i + 1) end_block
            (if i \<noteq> end_block - 1
             then HEAP_BLOCK_TABLE_ENTRY_TAKEN OR HEAP_BLOCK_HAS_NEXT
             else HEAP_BLOCK_TABLE_ENTRY_TAKEN)
        }
      else Some t)"
  by pat_completeness auto
termination
  by (relation "measure (\<lambda>(t, i, e, x). nat (e + 1 - i))") auto

declare mark_taken_loop.simps [simp del]

definition heap_mark_blocks_taken :: "heap \<Rightarrow> int \<Rightarrow> int \<Rightarrow> heap option" where
  "heap_mark_blocks_taken h start_block total_blocks = do {
     let end_block = start_block + total_blocks - 1;
     let entry = HEAP_BLOCK_TABLE_ENTRY_TAKEN OR HEAP_BLOCK_IS_FIRST;
     let entry' = (if total_blocks > 1 then entry OR HEAP_BLOCK_HAS_NEXT else entry);
     t \<leftarrow> mark_taken_loop (table h) start_block end_block entry';
     Some (h\<lparr>table := t\<rparr>)
   }"

text \<open>A result of 0 is the null pointer the code returns when no block is found.\<close>

definition heap_malloc_blocks :: "heap \<Rightarrow> u32 \<Rightarrow> (u32 \<times> heap) option" where
  "heap_malloc_blocks h total_blocks = do {
     start_block \<leftarrow> heap_get_next_free_block h total_blocks;
     (if start_block < 0 then Some (0, h)
      else do {
        let address = heap_block_to_address h start_block;
        h' \<leftarrow> heap_mark_blocks_taken h start_block (sint total_blocks);
        Some (address, h')
      })
   }"

function mark_free_loop :: "heap_table \<Rightarrow> int \<Rightarrow> heap_table option" where
  "mark_free_loop t i =
     (if i < sint (total t) then
        do {
          e \<leftarrow> entry_get t i;
          t' \<leftarrow> entry_set t i HEAP_BLOCK_TABLE_ENTRY_FREE;
          (if e AND HEAP_BLOCK_HAS_NEXT = 0 then Some t'
           else mark_free_loop t' (i + 1))
        }
      else Some t)"
  by pat_completeness auto
termination
  by (relation "measure (\<lambda>(t, i). nat (sint (total t) - i))") (auto simp: entry_set_def split: if_splits)

declare mark_free_loop.simps [simp del]

definition heap_mark_blocks_free :: "heap \<Rightarrow> int \<Rightarrow> heap option" where
  "heap_mark_blocks_free h starting_block = do {
     t \<leftarrow> mark_free_loop (table h) starting_block;
     Some (h\<lparr>table := t\<rparr>)
   }"

section \<open>Allocation and release\<close>

definition heap_malloc :: "heap \<Rightarrow> u32 \<Rightarrow> (u32 \<times> heap) option" where
  "heap_malloc h sz =
     (let aligned_size = heap_align_value_to_upper sz;
          total_blocks = aligned_size div NUTSOS_HEAP_BLOCK_SIZE
      in heap_malloc_blocks h total_blocks)"

definition heap_free :: "heap \<Rightarrow> u32 \<Rightarrow> heap option" where
  "heap_free h ptr = heap_mark_blocks_free h (heap_address_to_block h ptr)"

section \<open>The table's meaning\<close>

text \<open>
  \<open>run_entry n k\<close> is the table byte of block \<open>k\<close> of a chunk of \<open>n\<close> blocks, as the
  comment in \<^verbatim>\<open>heap.h\<close> describes it, and \<open>chunk_at es b n\<close> says that a chunk of \<open>n\<close>
  blocks starts at block \<open>b\<close>. In a well-formed table every entry is free or belongs to
  a chunk.
\<close>

definition run_entry :: "nat \<Rightarrow> nat \<Rightarrow> u8" where
  "run_entry n k = HEAP_BLOCK_TABLE_ENTRY_TAKEN
     OR (if k = 0 then HEAP_BLOCK_IS_FIRST else 0)
     OR (if Suc k < n then HEAP_BLOCK_HAS_NEXT else 0)"

definition is_free :: "u8 \<Rightarrow> bool" where
  "is_free e \<longleftrightarrow> heap_get_entry_type e = HEAP_BLOCK_TABLE_ENTRY_FREE"

definition run_free :: "u8 list \<Rightarrow> nat \<Rightarrow> nat \<Rightarrow> bool" where
  "run_free es b n \<longleftrightarrow> b + n \<le> length es \<and> (\<forall>k < n. is_free (es ! (b + k)))"

definition chunk_at :: "u8 list \<Rightarrow> nat \<Rightarrow> nat \<Rightarrow> bool" where
  "chunk_at es b n \<longleftrightarrow> 0 < n \<and> b + n \<le> length es \<and> (\<forall>k < n. es ! (b + k) = run_entry n k)"

definition table_wf :: "u8 list \<Rightarrow> bool" where
  "table_wf es \<longleftrightarrow> (\<forall>i < length es. es ! i = HEAP_BLOCK_TABLE_ENTRY_FREE
     \<or> (\<exists>b n. chunk_at es b n \<and> b \<le> i \<and> i < b + n))"

text \<open>
  The heap's own shape: the table has the declared length and the pool it describes, block
  aligned, lies above address 0 and ends within the address space.
\<close>

definition heap_shape :: "heap \<Rightarrow> bool" where
  "heap_shape h \<longleftrightarrow> length (entries (table h)) = unat (total (table h))
     \<and> unat (total (table h)) < 524288
     \<and> saddr h mod 4096 = 0 \<and> 0 < saddr h
     \<and> unat (saddr h) + 4096 * unat (total (table h)) \<le> 2 ^ 32"

definition heap_wf :: "heap \<Rightarrow> bool" where
  "heap_wf h \<longleftrightarrow> heap_shape h \<and> table_wf (entries (table h))"

lemma run_entry_not_free [simp]: "\<not> is_free (run_entry n k)"
  by (simp add: is_free_def run_entry_def heap_get_entry_type_def const_defs)

lemma run_entry_next [simp]: "run_entry n k AND HEAP_BLOCK_HAS_NEXT = 0 \<longleftrightarrow> \<not> Suc k < n"
  by (simp add: run_entry_def const_defs)

lemma run_entry_first [simp]: "run_entry n k AND HEAP_BLOCK_IS_FIRST = 0 \<longleftrightarrow> k \<noteq> 0"
  by (simp add: run_entry_def const_defs)

lemma is_free_FREE [simp]: "is_free HEAP_BLOCK_TABLE_ENTRY_FREE"
  by (simp add: is_free_def heap_get_entry_type_def const_defs)

lemma run_entry_neq_FREE [simp]: "run_entry n k \<noteq> HEAP_BLOCK_TABLE_ENTRY_FREE"
  using run_entry_not_free [of n k] is_free_FREE by metis

section \<open>What the loops compute\<close>

lemma mark_taken_loop_fill:
  assumes "i + m \<le> length (entries t)" and "m + d = n" and "0 < m \<Longrightarrow> e = run_entry n d"
  shows "mark_taken_loop t (int i) (int (i + m) - 1) e
    = Some (t\<lparr>entries := fill (entries t) i m (\<lambda>k. run_entry n (k + d))\<rparr>)"
  using assms
proof (induction m arbitrary: i d e t)
  case 0
  then show ?case by (simp add: mark_taken_loop.simps)
next
  case (Suc m)
  let ?t = "t\<lparr>entries := (entries t)[i := run_entry n d]\<rparr>"
  let ?e = "if int i \<noteq> int (i + Suc m) - 1 - 1
     then HEAP_BLOCK_TABLE_ENTRY_TAKEN OR HEAP_BLOCK_HAS_NEXT else HEAP_BLOCK_TABLE_ENTRY_TAKEN"
  have next_entry: "0 < m \<Longrightarrow> ?e = run_entry n (Suc d)"
    using Suc.prems(2) by (auto simp: run_entry_def const_defs)
  have "mark_taken_loop t (int i) (int (i + Suc m) - 1) e
      = mark_taken_loop ?t (int (Suc i)) (int (Suc i + m) - 1) ?e"
    using Suc.prems by (subst mark_taken_loop.simps) (simp add: entry_set_def ac_simps)
  also have "\<dots> = Some (?t\<lparr>entries := fill (entries ?t) (Suc i) m (\<lambda>k. run_entry n (k + Suc d))\<rparr>)"
    using Suc.prems next_entry by (intro Suc.IH) simp_all
  also have "fill (entries ?t) (Suc i) m (\<lambda>k. run_entry n (k + Suc d))
      = fill (entries t) i (Suc m) (\<lambda>k. run_entry n (k + d))"
    using fill_Suc [of i "entries t" "\<lambda>k. run_entry n (k + d)" m] Suc.prems(1) by simp
  finally show ?case by simp
qed

lemma mark_taken_loop_out:
  assumes "i \<le> length (entries t)" and "length (entries t) < i + m"
  shows "mark_taken_loop t (int i) (int (i + m) - 1) e = None"
  using assms
proof (induction m arbitrary: i e t)
  case 0
  then show ?case by simp
next
  case (Suc m)
  show ?case
  proof (cases "i < length (entries t)")
    case True
    with Suc.prems Suc.IH [where i = "Suc i"] show ?thesis
      by (subst mark_taken_loop.simps) (simp add: entry_set_def ac_simps)
  next
    case False
    then show ?thesis
      by (subst mark_taken_loop.simps) (simp add: entry_set_def)
  qed
qed

lemma heap_mark_blocks_taken_spec:
  assumes "b \<le> length (entries (table h))"
  shows "heap_mark_blocks_taken h (int b) (int n) =
    (if b + n \<le> length (entries (table h))
     then Some (h\<lparr>table := (table h)\<lparr>entries := fill (entries (table h)) b n (run_entry n)\<rparr>\<rparr>)
     else None)"
proof -
  let ?e = "if 1 < int n then HEAP_BLOCK_TABLE_ENTRY_TAKEN OR HEAP_BLOCK_IS_FIRST OR HEAP_BLOCK_HAS_NEXT
     else HEAP_BLOCK_TABLE_ENTRY_TAKEN OR HEAP_BLOCK_IS_FIRST"
  have e: "0 < n \<Longrightarrow> ?e = run_entry n 0"
    by (simp add: run_entry_def const_defs)
  show ?thesis
    using assms e mark_taken_loop_fill [of b n "table h" 0 n ?e]
      mark_taken_loop_out [of b "table h" n ?e]
    by (auto simp: heap_mark_blocks_taken_def Let_def not_le or.assoc)
qed

lemma mark_free_loop_fill:
  assumes "0 < m" and "i + m \<le> length (entries t)"
    and "length (entries t) = unat (total t)" and "unat (total t) < 2147483648"
    and "\<And>k. k < m \<Longrightarrow> (entries t ! (i + k)) AND HEAP_BLOCK_HAS_NEXT = 0 \<longleftrightarrow> \<not> Suc k < m"
  shows "mark_free_loop t (int i)
    = Some (t\<lparr>entries := fill (entries t) i m (\<lambda>_. HEAP_BLOCK_TABLE_ENTRY_FREE)\<rparr>)"
  using assms
proof (induction m arbitrary: i t)
  case 0
  then show ?case by simp
next
  case (Suc m)
  let ?t = "t\<lparr>entries := (entries t)[i := HEAP_BLOCK_TABLE_ENTRY_FREE]\<rparr>"
  have "int i < int (unat (total t))" using Suc.prems(2,3) by linarith
  then have i: "int i < sint (total t)" "i < length (entries t)"
    using sint_small [OF Suc.prems(4)] Suc.prems(2) by simp_all
  have step: "mark_free_loop t (int i)
      = (if entries t ! i AND HEAP_BLOCK_HAS_NEXT = 0 then Some ?t else mark_free_loop ?t (int (Suc i)))"
    using i by (subst mark_free_loop.simps) (simp add: entry_get_def entry_set_def ac_simps)
  have fill_step: "fill (entries ?t) (Suc i) m (\<lambda>_. HEAP_BLOCK_TABLE_ENTRY_FREE)
      = fill (entries t) i (Suc m) (\<lambda>_. HEAP_BLOCK_TABLE_ENTRY_FREE)"
    using fill_Suc [of i "entries t" "\<lambda>_. HEAP_BLOCK_TABLE_ENTRY_FREE" m] i(2) by simp
  show ?case
  proof (cases "m = 0")
    case True
    then have "entries t ! i AND HEAP_BLOCK_HAS_NEXT = 0" using Suc.prems(5) [of 0] by simp
    with step fill_step True show ?thesis by simp
  next
    case False
    have next_bits: "(entries ?t ! (Suc i + k)) AND HEAP_BLOCK_HAS_NEXT = 0 \<longleftrightarrow> \<not> Suc k < m" if "k < m" for k
      using that Suc.prems(5) [of "Suc k"] by simp
    have "entries t ! i AND HEAP_BLOCK_HAS_NEXT \<noteq> 0" using Suc.prems(5) [of 0] False by simp
    moreover have "mark_free_loop ?t (int (Suc i))
        = Some (?t\<lparr>entries := fill (entries ?t) (Suc i) m (\<lambda>_. HEAP_BLOCK_TABLE_ENTRY_FREE)\<rparr>)"
      using False Suc.prems next_bits by (intro Suc.IH) simp_all
    ultimately show ?thesis using step fill_step by simp
  qed
qed

text \<open>
  The search. \<open>scan_inv es n i bc\<close> holds when the loop reaches index \<open>i\<close> with a current
  run of \<open>bc\<close> free blocks: the run is maximal to the left and no run of \<open>n\<close> free blocks
  starts before it.
\<close>

definition scan_inv :: "u8 list \<Rightarrow> nat \<Rightarrow> nat \<Rightarrow> nat \<Rightarrow> bool" where
  "scan_inv es n i bc \<longleftrightarrow> bc \<le> i \<and> (\<forall>j. i - bc \<le> j \<and> j < i \<longrightarrow> is_free (es ! j))
     \<and> (bc < i \<longrightarrow> \<not> is_free (es ! (i - bc - 1)))
     \<and> (\<forall>b. run_free es b n \<longrightarrow> i - bc \<le> b)"

definition trailing_run :: "u8 list \<Rightarrow> nat \<Rightarrow> bool" where
  "trailing_run es b \<longleftrightarrow> b < length es \<and> (\<forall>j. b \<le> j \<and> j < length es \<longrightarrow> is_free (es ! j))
     \<and> (0 < b \<longrightarrow> \<not> is_free (es ! (b - 1)))"

text \<open>
  The value the search returns: the first run that is long enough; else, the start of the
  free run at the end of the table, whatever its length; else -1.
\<close>

definition scan_result :: "u8 list \<Rightarrow> nat \<Rightarrow> int \<Rightarrow> bool" where
  "scan_result es n r \<longleftrightarrow>
     (\<exists>b. r = int b \<and> run_free es b n \<and> (\<forall>b'. run_free es b' n \<longrightarrow> b \<le> b'))
     \<or> ((\<nexists>b. run_free es b n) \<and> (\<exists>b. r = int b \<and> trailing_run es b))
     \<or> ((\<nexists>b. run_free es b n) \<and> r = - 1 \<and> (es = [] \<or> \<not> is_free (last es)))"

lemma run_free_taken:
  "run_free es b n \<Longrightarrow> b \<le> j \<Longrightarrow> j < b + n \<Longrightarrow> is_free (es ! j)"
  by (auto simp: run_free_def dest: spec [of _ "j - b"])

lemma scan_inv_taken:
  assumes "scan_inv es n i bc" and "bc < n" and "\<not> is_free (es ! i)"
  shows "scan_inv es n (Suc i) 0"
proof -
  have "Suc i \<le> b" if run: "run_free es b n" for b
  proof (rule ccontr)
    assume "\<not> Suc i \<le> b"
    moreover have "i - bc \<le> b" using assms(1) run by (simp add: scan_inv_def)
    ultimately have "is_free (es ! i)"
      using assms(2) run_free_taken [OF run, of i] by simp
    with assms(3) show False by simp
  qed
  with assms(3) show ?thesis by (auto simp: scan_inv_def)
qed

lemma scan_inv_free:
  assumes "scan_inv es n i bc" and "is_free (es ! i)"
  shows "scan_inv es n (Suc i) (Suc bc)"
  using assms by (auto simp: scan_inv_def less_Suc_eq)

lemma scan_inv_found:
  assumes "scan_inv es n i bc" and "is_free (es ! i)" and "Suc bc = n" and "i < length es"
  shows "scan_result es n (int (i - bc))"
proof -
  have bc: "bc \<le> i" and free: "\<And>j. i - bc \<le> j \<Longrightarrow> j < i \<Longrightarrow> is_free (es ! j)"
    and first: "\<And>b. run_free es b n \<Longrightarrow> i - bc \<le> b"
    using assms(1) by (auto simp: scan_inv_def)
  have "is_free (es ! (i - bc + k))" if "k < n" for k
    using that assms(2,3) bc free [of "i - bc + k"] by (cases "k = bc") simp_all
  then have "run_free es (i - bc) n"
    using assms(3,4) bc by (simp add: run_free_def)
  with first show ?thesis unfolding scan_result_def by blast
qed

lemma scan_inv_end:
  assumes "scan_inv es n (length es) bc" and "bc < n"
  shows "scan_result es n (if bc = 0 then - 1 else int (length es - bc))"
proof -
  have no_run: "\<nexists>b. run_free es b n"
    using assms by (auto simp: scan_inv_def run_free_def)
  show ?thesis
  proof (cases "bc = 0")
    case True
    have "es = [] \<or> \<not> is_free (last es)"
      using assms(1) True by (auto simp: scan_inv_def last_conv_nth)
    with True no_run show ?thesis by (auto simp: scan_result_def)
  next
    case False
    have "trailing_run es (length es - bc)"
      using assms(1) False by (auto simp: scan_inv_def trailing_run_def)
    with False no_run show ?thesis by (auto simp: scan_result_def)
  qed
qed

lemma next_free_loop_scan:
  assumes "length (entries t) = unat (total t)" and "unat (total t) < 2147483648"
    and "n = unat nb" and "bc < n" and "i \<le> unat (total t)"
    and "scan_inv (entries t) n i bc"
  shows "\<exists>r. next_free_loop t nb i (int bc) (if bc = 0 then - 1 else int (i - bc)) = Some r
    \<and> scan_result (entries t) n r"
  using assms
proof (induction "unat (total t) - i" arbitrary: i bc)
  case 0
  then have "i = length (entries t)" by simp
  then have i: "i = length (entries t)" using "0.prems"(1,5) by simp
  have "scan_inv (entries t) n (length (entries t)) bc" using "0.prems"(6) by (simp only: i)
  then have "scan_result (entries t) n (if bc = 0 then - 1 else int (i - bc))"
    unfolding i using "0.prems"(4) by (rule scan_inv_end)
  moreover have "next_free_loop t nb i (int bc) (if bc = 0 then - 1 else int (i - bc))
      = Some (if bc = 0 then - 1 else int (i - bc))"
    using 0 by (subst next_free_loop.simps) simp
  ultimately show ?case by blast
next
  case (Suc d)
  let ?e = "entries t ! i"
  let ?bs = "if bc = 0 then - 1 else int (i - bc)"
  from Suc.hyps(2) have i: "i < length (entries t)" "i < unat (total t)" using Suc.prems(1) by simp_all
  have bc: "bc \<le> i" using Suc.prems(6) by (simp add: scan_inv_def)
  have bs: "(if ?bs = - 1 then int i else ?bs) = int (i - bc)" by simp
  have cmp: "1 + of_nat bc = nb \<longleftrightarrow> Suc bc = n"
  proof -
    have "1 + of_nat bc = (of_nat (Suc bc) :: u32)" by simp
    moreover have "unat (of_nat (Suc bc) :: u32) = Suc bc"
      using bc i Suc.prems(2) by (intro unat_of_nat_small) simp
    ultimately show ?thesis using Suc.prems(3) by (metis word_unat_eq_iff)
  qed
  have unfold: "next_free_loop t nb i (int bc) ?bs =
      (if \<not> is_free ?e then next_free_loop t nb (Suc i) 0 (- 1)
       else if Suc bc = n then Some (int (i - bc))
       else next_free_loop t nb (Suc i) (int (Suc bc)) (int (i - bc)))"
    by (subst next_free_loop.simps)
      (simp add: i entry_get_def is_free_def Let_def bs cmp ac_simps del: of_nat_diff)
  consider "\<not> is_free ?e" | "is_free ?e" "Suc bc = n" | "is_free ?e" "Suc bc < n"
    using Suc.prems(4) by fastforce
  then show ?case
  proof cases
    case 1
    with Suc.hyps Suc.prems scan_inv_taken [OF Suc.prems(6,4)] i unfold
      Suc.hyps(1) [of "Suc i" 0] show ?thesis by simp
  next
    case 2
    with scan_inv_found [OF Suc.prems(6)] i unfold show ?thesis by simp
  next
    case 3
    with Suc.hyps Suc.prems scan_inv_free [OF Suc.prems(6)] i unfold
      Suc.hyps(1) [of "Suc i" "Suc bc"] show ?thesis by simp
  qed
qed

lemma next_free_loop_range:
  assumes "length (entries t) = unat (total t)" and "- 1 \<le> bs" and "bs < int i"
    and "i \<le> unat (total t)"
  shows "\<exists>r. next_free_loop t nb i bc bs = Some r \<and> - 1 \<le> r \<and> r < int (unat (total t))"
  using assms
proof (induction "unat (total t) - i" arbitrary: i bc bs)
  case 0
  then show ?case by (subst next_free_loop.simps) simp
next
  case (Suc d)
  then have i: "i < length (entries t)" "i < unat (total t)" by simp_all
  let ?bs = "if bs = - 1 then int i else bs"
  have "next_free_loop t nb i bc bs =
      (if \<not> is_free (entries t ! i) then next_free_loop t nb (Suc i) 0 (- 1)
       else if word_of_int (bc + 1) = nb then Some ?bs
       else next_free_loop t nb (Suc i) (bc + 1) ?bs)"
    using i by (subst next_free_loop.simps) (simp add: entry_get_def is_free_def Let_def)
  moreover have "?bs < int (unat (total t))"
    using Suc.prems(3) of_nat_less_iff [of i "unat (total t)", where 'a = int] i(2) by (simp only: split: if_split) linarith
  moreover have "- 1 \<le> ?bs" "?bs < int (Suc i)"
    using Suc.prems(2,3) by auto
  ultimately show ?case
    using Suc.hyps(1) [of "Suc i" "- 1" 0] Suc.hyps(1) [of "Suc i" ?bs "bc + 1"] Suc.hyps(2)
      Suc.prems i by simp
qed

section \<open>Sizes and addresses\<close>

definition blocks_for :: "u32 \<Rightarrow> nat" where
  "blocks_for sz = unat (heap_align_value_to_upper sz div NUTSOS_HEAP_BLOCK_SIZE)"

lemma heap_align_value_to_upper_spec:
  "unat (heap_align_value_to_upper sz) = ((unat sz + 4095) div 4096 * 4096) mod 2 ^ 32"
proof (cases "unat sz mod 4096 = 0")
  case True
  then have "unat (sz mod 4096) = 0" by (simp add: unat_mod)
  then have "sz mod 4096 = 0" by (rule unat_0_iff [THEN iffD1])
  moreover have "(unat sz + 4095) div 4096 * 4096 = unat sz" using True by (rule round_up_exact)
  moreover have "unat sz < 2 ^ 32" using unsigned_less [of sz] by simp
  ultimately show ?thesis by (simp add: heap_align_value_to_upper_def const_defs)
next
  case False
  let ?r = "unat sz mod 4096"
  have lt: "unat sz < 4294967296" using unsigned_less [of sz] by simp
  have r: "unat (sz mod 4096) = ?r" by (simp add: unat_mod)
  then have nz: "sz mod 4096 \<noteq> 0" using False by (metis unat_0)
  have le: "sz mod 4096 \<le> sz" by (simp add: word_le_nat_alt r)
  have "unat (sz - sz mod 4096) = unat sz - ?r" using unat_sub [OF le] r by simp
  then have "unat (sz - sz mod 4096 + 4096) = (unat sz - ?r + 4096) mod 4294967296"
    by (simp add: unat_word_ariths)
  moreover have "(unat sz + 4095) div 4096 * 4096 = unat sz - ?r + 4096" using False by (rule round_up_inexact)
  ultimately show ?thesis using nz by (simp add: heap_align_value_to_upper_def const_defs)
qed

lemma blocks_for_exact:
  assumes "unat sz \<le> 4294963200"
  shows "blocks_for sz = (unat sz + 4095) div 4096"
proof -
  have "(unat sz + 4095) div 4096 * 4096 < 2 ^ 32" using assms by simp
  then show ?thesis
    by (simp add: blocks_for_def const_defs unat_div heap_align_value_to_upper_spec)
qed

lemma blocks_for_bound: "blocks_for sz < 1048576"
proof -
  have "unat (heap_align_value_to_upper sz) < 4294967296"
    using unsigned_less [of "heap_align_value_to_upper sz"] by simp
  then show ?thesis by (simp add: blocks_for_def const_defs unat_div)
qed

lemma blocks_for_0_iff: "unat sz \<le> 4294963200 \<Longrightarrow> blocks_for sz = 0 \<longleftrightarrow> sz = 0"
proof -
  assume "unat sz \<le> 4294963200"
  then have "blocks_for sz = (unat sz + 4095) div 4096" by (rule blocks_for_exact)
  moreover have "(unat sz + 4095) div 4096 = 0 \<longleftrightarrow> unat sz = 0" by (rule round_up_0)
  ultimately show ?thesis by (simp only: unat_0_iff)
qed

lemma sint_blocks:
  "sint (heap_align_value_to_upper sz div NUTSOS_HEAP_BLOCK_SIZE) = int (blocks_for sz)"
  using blocks_for_bound [of sz] sint_small [of "heap_align_value_to_upper sz div NUTSOS_HEAP_BLOCK_SIZE"]
  by (simp add: blocks_for_def)

definition block_addr :: "heap \<Rightarrow> nat \<Rightarrow> u32" where
  "block_addr h b = saddr h + of_nat b * 4096"

lemma heap_block_to_address_nat [simp]: "heap_block_to_address h (int b) = block_addr h b"
  by (simp add: heap_block_to_address_def block_addr_def const_defs)

lemma unat_block_offset:
  "b < 524288 \<Longrightarrow> unat (of_nat b * 4096 :: u32) = 4096 * b"
  by (simp add: unat_word_ariths unat_of_nat)

lemma unat_block_addr:
  assumes "heap_shape h" and "b < length (entries (table h))"
  shows "unat (block_addr h b) = unat (saddr h) + 4096 * b"
proof -
  have "b < 524288" "unat (saddr h) + 4096 * b < 2 ^ 32"
    using assms by (simp_all add: heap_shape_def)
  then show ?thesis by (simp add: block_addr_def unat_word_ariths(1) unat_block_offset)
qed

lemma block_addr_nz:
  assumes "heap_shape h" and "b < length (entries (table h))"
  shows "block_addr h b \<noteq> 0"
proof -
  have "0 < unat (saddr h)" using assms(1) by (simp add: heap_shape_def word_less_nat_alt)
  then have "unat (block_addr h b) \<noteq> 0" using unat_block_addr [OF assms] by simp
  then show ?thesis by auto
qed

lemma block_addr_inject:
  assumes "heap_shape h" and "b < length (entries (table h))" and "c < length (entries (table h))"
    and "block_addr h b = block_addr h c"
  shows "b = c"
proof -
  have "unat (saddr h) + 4096 * b = unat (saddr h) + 4096 * c"
    using unat_block_addr [OF assms(1,2)] unat_block_addr [OF assms(1,3)] assms(4) by metis
  then show ?thesis by linarith
qed

lemma heap_address_to_block_addr:
  assumes "b < 524288"
  shows "heap_address_to_block h (block_addr h b) = int b"
proof -
  have "unat (of_nat b * 4096 :: u32) < 2147483648"
    using assms by (simp add: unat_block_offset)
  then have "sint (of_nat b * 4096 :: u32) = int (4096 * b)"
    using assms sint_small unat_block_offset by metis
  then show ?thesis
    by (simp add: heap_address_to_block_def block_addr_def signed_divide_int_def sgn_if)
qed

section \<open>Allocation\<close>

definition mark_run :: "heap \<Rightarrow> nat \<Rightarrow> nat \<Rightarrow> heap" where
  "mark_run h b n = h\<lparr>table := (table h)\<lparr>entries := fill (entries (table h)) b n (run_entry n)\<rparr>\<rparr>"

definition clear_run :: "heap \<Rightarrow> nat \<Rightarrow> nat \<Rightarrow> heap" where
  "clear_run h b n =
     h\<lparr>table := (table h)\<lparr>entries := fill (entries (table h)) b n (\<lambda>_. HEAP_BLOCK_TABLE_ENTRY_FREE)\<rparr>\<rparr>"

abbreviation blocks :: "heap \<Rightarrow> u8 list" where
  "blocks h \<equiv> entries (table h)"

lemma mark_run_simps [simp]:
  "entries (table (mark_run h b n)) = fill (blocks h) b n (run_entry n)"
  "total (table (mark_run h b n)) = total (table h)"
  "saddr (mark_run h b n) = saddr h"
  by (simp_all add: mark_run_def)

lemma clear_run_simps [simp]:
  "entries (table (clear_run h b n)) = fill (blocks h) b n (\<lambda>_. HEAP_BLOCK_TABLE_ENTRY_FREE)"
  "total (table (clear_run h b n)) = total (table h)"
  "saddr (clear_run h b n) = saddr h"
  by (simp_all add: clear_run_def)

lemma heap_shape_run [simp]:
  "heap_shape (mark_run h b n) = heap_shape h"
  "heap_shape (clear_run h b n) = heap_shape h"
  by (simp_all add: heap_shape_def)

lemma block_addr_run [simp]:
  "block_addr (mark_run h b n) c = block_addr h c"
  "block_addr (clear_run h b n) c = block_addr h c"
  by (simp_all add: block_addr_def)

lemma heap_malloc_search:
  assumes "heap_shape h"
  shows "heap_malloc h sz = Some (0, h) \<and> (0 < blocks_for sz \<longrightarrow> scan_result (blocks h) (blocks_for sz) (- 1))
    \<or> (\<exists>b < length (blocks h).
         heap_malloc h sz = (if b + blocks_for sz \<le> length (blocks h)
           then Some (block_addr h b, mark_run h b (blocks_for sz)) else None)
         \<and> (0 < blocks_for sz \<longrightarrow> scan_result (blocks h) (blocks_for sz) (int b)))"
proof -
  let ?nb = "heap_align_value_to_upper sz div NUTSOS_HEAP_BLOCK_SIZE"
  let ?n = "blocks_for sz"
  have len: "length (blocks h) = unat (total (table h))" "unat (total (table h)) < 2147483648"
    using assms by (simp_all add: heap_shape_def)
  obtain r where r: "next_free_loop (table h) ?nb 0 0 (- 1) = Some r" "- 1 \<le> r" "r < int (length (blocks h))"
    using next_free_loop_range [of "table h" "- 1" 0 ?nb 0] len by auto
  have scan: "scan_result (blocks h) ?n r" if "0 < ?n"
    using next_free_loop_scan [of "table h" ?n ?nb 0 0] len that r(1)
    by (simp add: blocks_for_def scan_inv_def)
  have malloc: "heap_malloc h sz = (if r = - 1 then Some (0, h) else do {
        h' \<leftarrow> heap_mark_blocks_taken h r (int ?n); Some (heap_block_to_address h r, h') })"
    using r(1,2) sint_blocks [of sz]
    by (simp add: heap_malloc_def heap_malloc_blocks_def heap_get_next_free_block_def Let_def ENOMEM_def)
  show ?thesis
  proof (cases "r = - 1")
    case True
    with malloc scan show ?thesis by simp
  next
    case False
    then obtain b where b: "r = int b" "b < length (blocks h)" using r(2,3) by (cases r) auto
    with malloc scan heap_mark_blocks_taken_spec [of b h ?n] show ?thesis
      by (auto simp: mark_run_def split: if_splits)
  qed
qed

text \<open>First fit: where a long enough run of free blocks exists, the lowest is taken.\<close>

lemma heap_malloc_found:
  assumes "heap_shape h" and "0 < blocks_for sz" and "run_free (blocks h) b\<^sub>0 (blocks_for sz)"
  shows "\<exists>b. heap_malloc h sz = Some (block_addr h b, mark_run h b (blocks_for sz))
    \<and> run_free (blocks h) b (blocks_for sz)
    \<and> (\<forall>b'. run_free (blocks h) b' (blocks_for sz) \<longrightarrow> b \<le> b')"
  using heap_malloc_search [OF assms(1), of sz] assms(2,3)
  by (auto simp: scan_result_def run_free_def)

lemma heap_malloc_first:
  assumes "heap_shape h" and "0 < blocks_for sz" and "run_free (blocks h) b (blocks_for sz)"
    and "\<And>b'. b' < b \<Longrightarrow> \<not> run_free (blocks h) b' (blocks_for sz)"
  shows "heap_malloc h sz = Some (block_addr h b, mark_run h b (blocks_for sz))"
  using heap_malloc_found [OF assms(1-3)] assms(3,4) by (metis le_less_linear le_antisym)

text \<open>No fit and the table does not end in a free block: the null pointer.\<close>

lemma heap_malloc_full:
  assumes "heap_shape h" and "0 < blocks_for sz" and "\<nexists>b. run_free (blocks h) b (blocks_for sz)"
    and "\<nexists>b. trailing_run (blocks h) b"
  shows "heap_malloc h sz = Some (0, h)"
  using heap_malloc_search [OF assms(1), of sz] assms(2-) by (auto simp: scan_result_def)

text \<open>No fit but a free run at the end: the table is written past its end.\<close>

lemma heap_malloc_overrun:
  assumes "heap_shape h" and "0 < blocks_for sz" and "\<nexists>b. run_free (blocks h) b (blocks_for sz)"
    and "trailing_run (blocks h) t"
  shows "heap_malloc h sz = None"
proof -
  have "is_free (blocks h ! (length (blocks h) - 1))" "blocks h \<noteq> []"
    using assms(4) by (auto simp: trailing_run_def dest: spec [of _ "length (blocks h) - 1"])
  then have last: "is_free (last (blocks h))" "blocks h \<noteq> []"
    by (simp_all add: last_conv_nth)
  from heap_malloc_search [OF assms(1), of sz] assms(2,3) last
  obtain b where b: "trailing_run (blocks h) b"
    "heap_malloc h sz = (if b + blocks_for sz \<le> length (blocks h)
       then Some (block_addr h b, mark_run h b (blocks_for sz)) else None)"
    by (auto simp: scan_result_def)
  have "\<not> b + blocks_for sz \<le> length (blocks h)"
  proof
    assume "b + blocks_for sz \<le> length (blocks h)"
    then have "run_free (blocks h) b (blocks_for sz)"
      using b(1) by (auto simp: run_free_def trailing_run_def)
    with assms(3) show False by blast
  qed
  with b(2) show ?thesis by simp
qed

text \<open>Whatever the size, a non-null result is a run of blocks that were free.\<close>

lemma heap_malloc_Some:
  assumes "heap_shape h" and "heap_malloc h sz = Some (p, h')"
  shows "p = 0 \<and> h' = h \<or> (\<exists>b < length (blocks h). p = block_addr h b \<and> p \<noteq> 0
    \<and> h' = mark_run h b (blocks_for sz) \<and> run_free (blocks h) b (blocks_for sz))"
proof -
  note nz = block_addr_nz [OF assms(1)]
  from heap_malloc_search [OF assms(1), of sz] assms(2)
  consider "p = 0" "h' = h" | b where "b < length (blocks h)" "p = block_addr h b"
      "h' = mark_run h b (blocks_for sz)" "b + blocks_for sz \<le> length (blocks h)"
      "0 < blocks_for sz \<longrightarrow> scan_result (blocks h) (blocks_for sz) (int b)"
    by (auto split: if_splits)
  then show ?thesis
  proof cases
    case 1
    then show ?thesis by simp
  next
    case 2
    have "run_free (blocks h) b (blocks_for sz)"
      using 2(4,5) by (auto simp: run_free_def scan_result_def trailing_run_def)
    with 2 nz show ?thesis by blast
  qed
qed

section \<open>Chunks\<close>

lemma chunk_disjoint_free:
  assumes "chunk_at es b n" and "run_free es c m"
  shows "b + n \<le> c \<or> c + m \<le> b \<or> m = 0"
proof (rule ccontr)
  assume "\<not> ?thesis"
  then have o: "c < b + n" "b < c + m" "0 < m" by auto
  let ?j = "max b c"
  have "is_free (es ! ?j)" using run_free_taken [OF assms(2), of ?j] o by simp
  moreover have "es ! ?j = run_entry n (?j - b)"
    using assms(1) o by (auto simp: chunk_at_def dest: spec [of _ "?j - b"])
  ultimately show False by simp
qed

lemma chunk_unique:
  assumes "chunk_at es b n" and "chunk_at es c m" and "b < c + m" and "c < b + n"
  shows "b = c \<and> n = m"
proof -
  have first: "x = y" if "chunk_at es x k" "chunk_at es y l" "x \<le> y" "y < x + k" for x y k l
  proof -
    have "es ! y = run_entry k (y - x)" using that by (auto simp: chunk_at_def dest: spec [of _ "y - x"])
    moreover have "es ! y = run_entry l 0" using that by (auto simp: chunk_at_def dest: spec [of _ 0])
    ultimately have "y - x = 0" using run_entry_first by metis
    with that(3) show ?thesis by simp
  qed
  have len: "k \<le> l" if "chunk_at es x k" "chunk_at es x l" for x k l
  proof (rule ccontr)
    assume "\<not> k \<le> l"
    then have "l - 1 < k" "l - 1 < l" "0 < l" using that by (auto simp: chunk_at_def)
    then have "run_entry k (l - 1) = run_entry l (l - 1)" using that by (simp add: chunk_at_def)
    then show False using run_entry_next [of k "l - 1"] run_entry_next [of l "l - 1"]
        \<open>\<not> k \<le> l\<close> \<open>0 < l\<close> by simp
  qed
  have "b = c" using first [OF assms(1,2)] first [OF assms(2,1)] assms(3,4) by (cases "b \<le> c") simp_all
  moreover have "n = m" using len assms(1,2) \<open>b = c\<close> by (simp add: le_antisym)
  ultimately show ?thesis by simp
qed

lemma chunk_at_fill:
  assumes "chunk_at es b n" and "b + n \<le> c \<or> c + m \<le> b \<or> m = 0"
  shows "chunk_at (fill es c m f) b n"
  using assms by (auto simp: chunk_at_def)

lemma chunk_at_new:
  "0 < n \<Longrightarrow> b + n \<le> length es \<Longrightarrow> chunk_at (fill es b n (run_entry n)) b n"
  by (simp add: chunk_at_def)

lemma table_wf_mark:
  assumes "table_wf es" and "run_free es b n"
  shows "table_wf (fill es b n (run_entry n))"
  unfolding table_wf_def length_fill
proof (intro allI impI)
  fix i
  assume i: "i < length es"
  show "fill es b n (run_entry n) ! i = HEAP_BLOCK_TABLE_ENTRY_FREE
    \<or> (\<exists>c m. chunk_at (fill es b n (run_entry n)) c m \<and> c \<le> i \<and> i < c + m)"
  proof (cases "b \<le> i \<and> i < b + n")
    case True
    then have "chunk_at (fill es b n (run_entry n)) b n"
      using assms(2) by (intro chunk_at_new) (auto simp: run_free_def)
    with True show ?thesis by blast
  next
    case False
    have "es ! i = HEAP_BLOCK_TABLE_ENTRY_FREE \<or> (\<exists>c m. chunk_at es c m \<and> c \<le> i \<and> i < c + m)"
      using assms(1) i unfolding table_wf_def by blast
    with False i show ?thesis
      using chunk_at_fill [OF _ chunk_disjoint_free [OF _ assms(2)]] by (metis nth_fill)
  qed
qed

lemma table_wf_clear:
  assumes "table_wf es" and "chunk_at es b n"
  shows "table_wf (fill es b n (\<lambda>_. HEAP_BLOCK_TABLE_ENTRY_FREE))"
  unfolding table_wf_def length_fill
proof (intro allI impI)
  fix i
  assume i: "i < length es"
  let ?es = "fill es b n (\<lambda>_. HEAP_BLOCK_TABLE_ENTRY_FREE)"
  show "?es ! i = HEAP_BLOCK_TABLE_ENTRY_FREE \<or> (\<exists>c m. chunk_at ?es c m \<and> c \<le> i \<and> i < c + m)"
  proof (cases "(b \<le> i \<and> i < b + n) \<or> es ! i = HEAP_BLOCK_TABLE_ENTRY_FREE")
    case True
    with i show ?thesis by auto
  next
    case False
    then obtain c m where c: "chunk_at es c m" "c \<le> i" "i < c + m"
      using assms(1) i unfolding table_wf_def by blast
    have "b + n \<le> c \<or> c + m \<le> b \<or> n = 0"
      using chunk_unique [OF c(1) assms(2)] c False by fastforce
    with c show ?thesis using chunk_at_fill [OF c(1)] by blast
  qed
qed

lemma table_wf_fresh: "(\<And>i. i < length es \<Longrightarrow> es ! i = HEAP_BLOCK_TABLE_ENTRY_FREE) \<Longrightarrow> table_wf es"
  by (simp add: table_wf_def)

lemma heap_wf_mark:
  "heap_wf h \<Longrightarrow> run_free (blocks h) b n \<Longrightarrow> heap_wf (mark_run h b n)"
  by (simp add: heap_wf_def table_wf_mark)

lemma heap_wf_clear:
  "heap_wf h \<Longrightarrow> chunk_at (blocks h) b n \<Longrightarrow> heap_wf (clear_run h b n)"
  by (simp add: heap_wf_def table_wf_clear)

section \<open>Release\<close>

lemma heap_free_chunk:
  assumes "heap_shape h" and "chunk_at (blocks h) b n"
  shows "heap_free h (block_addr h b) = Some (clear_run h b n)"
proof -
  have b: "b < 524288" using assms by (auto simp: heap_shape_def chunk_at_def)
  have "mark_free_loop (table h) (int b)
      = Some ((table h)\<lparr>entries := fill (blocks h) b n (\<lambda>_. HEAP_BLOCK_TABLE_ENTRY_FREE)\<rparr>)"
    using assms by (intro mark_free_loop_fill) (auto simp: heap_shape_def chunk_at_def)
  then show ?thesis
    by (simp add: heap_free_def heap_mark_blocks_free_def heap_address_to_block_addr [OF b] clear_run_def)
qed

section \<open>Counting free blocks\<close>

definition free_count :: "u8 list \<Rightarrow> nat" where
  "free_count es = length (filter is_free es)"

lemma free_count_pos: "0 < free_count es \<Longrightarrow> \<exists>b. run_free es b 1"
proof -
  assume "0 < free_count es"
  then obtain x where "x \<in> set es" "is_free x" by (auto simp: free_count_def filter_empty_conv)
  then obtain b where "b < length es" "is_free (es ! b)" by (auto simp: in_set_conv_nth)
  then have "run_free es b 1" by (simp add: run_free_def)
  then show ?thesis ..
qed

lemma fill_1: "b < length es \<Longrightarrow> fill es b (Suc 0) f = es[b := f 0]"
  using fill_Suc [of b es f 0] by simp

lemma free_count_update:
  assumes "b < length es" and "is_free (es ! b)" and "\<not> is_free x"
  shows "Suc (free_count (es[b := x])) = free_count es"
proof -
  have "es = take b es @ es ! b # drop (Suc b) es" using assms(1) by (rule id_take_nth_drop)
  then have "free_count es = free_count (take b es @ es ! b # drop (Suc b) es)" by simp
  with assms show ?thesis by (simp add: free_count_def upd_conv_take_nth_drop)
qed

text \<open>Up to one block's worth of bytes can be had as long as any block is free.\<close>

lemma heap_malloc_one:
  assumes "heap_wf h" and "0 < unat sz" and "unat sz \<le> 4096" and "0 < free_count (blocks h)"
  shows "\<exists>p h'. heap_malloc h sz = Some (p, h') \<and> p \<noteq> 0 \<and> heap_wf h'
    \<and> Suc (free_count (blocks h')) = free_count (blocks h)"
proof -
  have shape: "heap_shape h" using assms(1) by (simp add: heap_wf_def)
  have "(unat sz + 4095) div 4096 = 1" using assms(2,3) by (intro div_nat_eqI) simp_all
  then have n: "blocks_for sz = 1" using assms(3) by (simp add: blocks_for_exact)
  obtain b where b: "heap_malloc h sz = Some (block_addr h b, mark_run h b 1)" "run_free (blocks h) b 1"
    using heap_malloc_found [OF shape, of sz] free_count_pos [OF assms(4)] n by auto
  have nz: "block_addr h b \<noteq> 0"
    using b(2) by (intro block_addr_nz [OF shape]) (simp add: run_free_def)
  have "Suc (free_count (blocks (mark_run h b 1))) = free_count (blocks h)"
    using b(2) by (simp add: fill_1 run_free_def free_count_update)
  with b nz assms(1) show ?thesis by (auto intro: heap_wf_mark)
qed

section \<open>Live blocks\<close>

text \<open>An address is live when a chunk starts there: what may be passed to \<open>heap_free\<close>.\<close>

definition live_block :: "heap \<Rightarrow> u32 \<Rightarrow> bool" where
  "live_block h p \<longleftrightarrow> (\<exists>b n. p = block_addr h b \<and> chunk_at (blocks h) b n)"

lemma chunk_at_mark_iff:
  assumes "run_free es b n" and "0 < n"
  shows "chunk_at (fill es b n (run_entry n)) c m \<longleftrightarrow> (c = b \<and> m = n) \<or> chunk_at es c m"
proof
  let ?es = "fill es b n (run_entry n)"
  have new: "chunk_at ?es b n" using assms by (intro chunk_at_new) (auto simp: run_free_def)
  assume c: "chunk_at ?es c m"
  show "(c = b \<and> m = n) \<or> chunk_at es c m"
  proof (cases "c < b + n \<and> b < c + m")
    case True
    then show ?thesis using chunk_unique [OF c new] by auto
  next
    case False
    then have "chunk_at es c m" using c by (auto simp: chunk_at_def)
    then show ?thesis ..
  qed
next
  assume "(c = b \<and> m = n) \<or> chunk_at es c m"
  then show "chunk_at (fill es b n (run_entry n)) c m"
    using assms chunk_at_fill [OF _ chunk_disjoint_free [OF _ assms(1)]]
    by (auto simp: run_free_def intro: chunk_at_new)
qed

lemma chunk_at_clear_iff:
  assumes "chunk_at es b n"
  shows "chunk_at (fill es b n (\<lambda>_. HEAP_BLOCK_TABLE_ENTRY_FREE)) c m \<longleftrightarrow> c \<noteq> b \<and> chunk_at es c m"
proof
  let ?es = "fill es b n (\<lambda>_. HEAP_BLOCK_TABLE_ENTRY_FREE)"
  have free: "run_free ?es b n" using assms by (auto simp: run_free_def chunk_at_def)
  assume c: "chunk_at ?es c m"
  have "c + m \<le> b \<or> b + n \<le> c"
    using chunk_disjoint_free [OF c free] assms by (auto simp: chunk_at_def)
  then show "c \<noteq> b \<and> chunk_at es c m" using c assms by (auto simp: chunk_at_def)
next
  assume c: "c \<noteq> b \<and> chunk_at es c m"
  then have "c + m \<le> b \<or> b + n \<le> c \<or> n = 0"
    using chunk_unique [OF _ assms, of c m] by (meson not_le)
  with c show "chunk_at (fill es b n (\<lambda>_. HEAP_BLOCK_TABLE_ENTRY_FREE)) c m"
    by (intro chunk_at_fill) auto
qed

lemma live_block_nz:
  assumes "heap_wf h" and "live_block h p"
  shows "p \<noteq> 0"
proof -
  obtain b n where b: "p = block_addr h b" "chunk_at (blocks h) b n" using assms(2) by (auto simp: live_block_def)
  have "b < length (blocks h)" using b(2) by (auto simp: chunk_at_def)
  with block_addr_nz [of h b] assms(1) b(1) show ?thesis by (simp add: heap_wf_def)
qed

lemma live_block_mark:
  assumes "heap_shape h" and "run_free (blocks h) b n" and "0 < n"
  shows "live_block (mark_run h b n) p \<longleftrightarrow> p = block_addr h b \<or> live_block h p"
  using chunk_at_mark_iff [OF assms(2,3)] by (auto simp: live_block_def)

lemma live_block_fresh:
  assumes "heap_shape h" and "run_free (blocks h) b n" and "0 < n"
  shows "\<not> live_block h (block_addr h b)"
proof
  assume "live_block h (block_addr h b)"
  then obtain c m where c: "block_addr h b = block_addr h c" "chunk_at (blocks h) c m"
    by (auto simp: live_block_def)
  then have "b = c" using assms by (intro block_addr_inject [OF assms(1)]) (auto simp: run_free_def chunk_at_def)
  then show False using chunk_disjoint_free [OF c(2) assms(2)] assms(3) c(2) by (auto simp: chunk_at_def)
qed

lemma heap_free_live:
  assumes "heap_wf h" and "live_block h p"
  shows "\<exists>b n h'. p = block_addr h b \<and> chunk_at (blocks h) b n \<and> h' = clear_run h b n
    \<and> heap_free h p = Some h' \<and> heap_wf h' \<and> (\<forall>q. live_block h' q \<longleftrightarrow> live_block h q \<and> q \<noteq> p)"
proof -
  have shape: "heap_shape h" using assms(1) by (simp add: heap_wf_def)
  obtain b n where b: "p = block_addr h b" "chunk_at (blocks h) b n"
    using assms(2) by (auto simp: live_block_def)
  have "live_block (clear_run h b n) q \<longleftrightarrow> live_block h q \<and> q \<noteq> p" for q
  proof -
    have "c = b" if "chunk_at (blocks h) c m" "block_addr h c = block_addr h b" for c m
      using that b(2) by (intro block_addr_inject [OF shape]) (auto simp: chunk_at_def)
    then show ?thesis using chunk_at_clear_iff [OF b(2)] b(1) by (auto simp: live_block_def)
  qed
  with b heap_free_chunk [OF shape b(2)] heap_wf_clear [OF assms(1) b(2)] show ?thesis by blast
qed

text \<open>In a well-formed table, a free entry is exactly the free byte.\<close>

lemma table_wf_free:
  assumes "table_wf es" and "i < length es" and "is_free (es ! i)"
  shows "es ! i = HEAP_BLOCK_TABLE_ENTRY_FREE"
proof (rule ccontr)
  assume "es ! i \<noteq> HEAP_BLOCK_TABLE_ENTRY_FREE"
  then obtain b n where c: "chunk_at es b n" "b \<le> i" "i < b + n"
    using assms(1,2) unfolding table_wf_def by blast
  then have "es ! i = run_entry n (i - b)" by (auto simp: chunk_at_def dest: spec [of _ "i - b"])
  with assms(3) show False by simp
qed

lemma clear_mark_run:
  assumes "table_wf (blocks h)" and "run_free (blocks h) b n"
  shows "clear_run (mark_run h b n) b n = h"
proof -
  have "blocks h ! (b + k) = HEAP_BLOCK_TABLE_ENTRY_FREE" if "k < n" for k
    using table_wf_free [OF assms(1), of "b + k"] assms(2) that by (simp add: run_free_def)
  then have "fill (blocks h) b n (\<lambda>_. HEAP_BLOCK_TABLE_ENTRY_FREE) = blocks h" by (intro fill_same) simp
  then show ?thesis by (simp add: clear_run_def mark_run_def fill_fill)
qed

lemma trailing_run_last: "trailing_run es b \<Longrightarrow> es \<noteq> [] \<and> is_free (last es)"
proof -
  assume t: "trailing_run es b"
  then have "b \<le> length es - 1" "length es - 1 < length es" by (auto simp: trailing_run_def)
  with t have "is_free (es ! (length es - 1))" unfolding trailing_run_def by blast
  moreover have "es \<noteq> []" using t by (auto simp: trailing_run_def)
  ultimately show ?thesis by (simp add: last_conv_nth)
qed

lemma trailing_run_exists:
  assumes "es \<noteq> []" and "is_free (last es)"
  shows "\<exists>b. trailing_run es b"
proof -
  let ?P = "\<lambda>b. \<forall>j. b \<le> j \<and> j < length es \<longrightarrow> is_free (es ! j)"
  have P: "?P (length es - 1)"
  proof (intro allI impI)
    fix j
    assume "length es - 1 \<le> j \<and> j < length es"
    then have "j = length es - 1" by linarith
    then show "is_free (es ! j)" using assms by (simp add: last_conv_nth)
  qed
  define b where "b = (LEAST b. ?P b)"
  have Pb: "?P b" unfolding b_def by (rule LeastI [of ?P, OF P])
  have "b \<le> length es - 1" unfolding b_def by (rule Least_le [of ?P, OF P])
  then have bl: "b < length es" using assms(1) by (cases es) simp_all
  have "\<not> is_free (es ! (b - 1))" if "0 < b"
  proof
    assume f: "is_free (es ! (b - 1))"
    have "?P (b - 1)"
    proof (intro allI impI)
      fix j
      assume j: "b - 1 \<le> j \<and> j < length es"
      show "is_free (es ! j)" using f Pb j by (cases "j = b - 1") auto
    qed
    then have "b \<le> b - 1" unfolding b_def by (rule Least_le [of ?P])
    with that show False by simp
  qed
  then have "trailing_run es b" unfolding trailing_run_def using bl Pb by (intro conjI impI)
  then show ?thesis by (rule exI)
qed

section \<open>A fresh heap\<close>

text \<open>A heap of \<open>n\<close> free blocks at the kernel's heap address.\<close>

definition fresh_heap :: "nat \<Rightarrow> heap" where
  "fresh_heap n = \<lparr>table = \<lparr>entries = replicate n HEAP_BLOCK_TABLE_ENTRY_FREE, total = of_nat n\<rparr>,
     saddr = NUTSOS_HEAP_ADDRESS\<rparr>"

lemma fresh_heap_wf: "n < 524288 \<Longrightarrow> heap_wf (fresh_heap n)"
  by (auto simp: fresh_heap_def heap_wf_def heap_shape_def NUTSOS_HEAP_ADDRESS_def unat_of_nat intro!: table_wf_fresh)

lemma free_count_replicate [simp]: "free_count (replicate n HEAP_BLOCK_TABLE_ENTRY_FREE) = n"
  by (simp add: free_count_def)

lemma fresh_heap_blocks [simp]: "blocks (fresh_heap n) = replicate n HEAP_BLOCK_TABLE_ENTRY_FREE"
  by (simp add: fresh_heap_def)

lemma run_free_fresh: "run_free (replicate n HEAP_BLOCK_TABLE_ENTRY_FREE) b k \<longleftrightarrow> b + k \<le> n"
  by (auto simp: run_free_def)

section \<open>Properties\<close>

text \<open>
  C17. What \<open>heap_malloc\<close> does on a well-formed heap, on every branch: with a long enough run of
  free blocks it takes the lowest one and marks exactly its blocks; with none it returns the
  null pointer and leaves the heap alone if the table does not end in a free block; and if
  the table does end in a free run, too short for the request, that run is handed out and
  the table is written past its end, so there is no result.
\<close>

theorem heap_malloc_outcome:
  assumes "heap_wf h" and "0 < blocks_for sz"
  shows "heap_malloc h sz =
    (if \<exists>b. run_free (blocks h) b (blocks_for sz)
     then (let b = (LEAST b. run_free (blocks h) b (blocks_for sz))
           in Some (block_addr h b, mark_run h b (blocks_for sz)))
     else if blocks h = [] \<or> \<not> is_free (last (blocks h)) then Some (0, h)
     else None)"
proof (cases "\<exists>b. run_free (blocks h) b (blocks_for sz)")
  case True
  have "heap_shape h" using assms(1) by (simp add: heap_wf_def)
  with True obtain b where b: "heap_malloc h sz = Some (block_addr h b, mark_run h b (blocks_for sz))"
    "run_free (blocks h) b (blocks_for sz)" "\<forall>b'. run_free (blocks h) b' (blocks_for sz) \<longrightarrow> b \<le> b'"
    using heap_malloc_found [OF _ assms(2)] by blast
  then have "(LEAST b. run_free (blocks h) b (blocks_for sz)) = b" by (intro Least_equality) auto
  with True b(1) show ?thesis by simp
next
  case False
  have shape: "heap_shape h" using assms(1) by (simp add: heap_wf_def)
  show ?thesis
  proof (cases "blocks h = [] \<or> \<not> is_free (last (blocks h))")
    case True
    then have "\<nexists>b. trailing_run (blocks h) b" using trailing_run_last by blast
    with heap_malloc_full [OF shape assms(2)] False True show ?thesis by simp
  next
    case no: False
    then obtain b where "trailing_run (blocks h) b" using trailing_run_exists by blast
    with heap_malloc_overrun [OF shape assms(2)] False no show ?thesis by simp
  qed
qed

theorem heap_malloc_outcome_witness:
  "heap_malloc (fresh_heap 4) 5000 = Some (0x01000000, mark_run (fresh_heap 4) 0 2)"
proof -
  have n: "blocks_for 5000 = 2" by (simp add: blocks_for_exact)
  have "run_free (blocks (fresh_heap 4)) 0 2" by (simp add: run_free_fresh)
  moreover from this have "(LEAST b. run_free (blocks (fresh_heap 4)) b 2) = 0" by (intro Least_equality) auto
  ultimately show ?thesis
    using heap_malloc_outcome [OF fresh_heap_wf [of 4], of 5000]
    by (auto simp: n block_addr_def fresh_heap_def NUTSOS_HEAP_ADDRESS_def)
qed

text \<open>
  A size above 4294963200 rounds up to zero blocks: \<open>heap_malloc\<close> then marks nothing, and
  any address it returns is one it will hand out again.
\<close>

theorem heap_malloc_wraps:
  assumes "heap_wf h" and "4294963200 < unat sz"
  shows "\<exists>p. heap_malloc h sz = Some (p, h)"
proof -
  have "unat sz < 4294967296" by (rule unat_u32_less)
  then have "(unat sz + 4095) div 4096 = 1048576" using assms(2) by (intro div_nat_eqI) simp_all
  then have "unat (heap_align_value_to_upper sz) = 0" by (simp add: heap_align_value_to_upper_spec)
  then have n: "blocks_for sz = 0" by (simp add: blocks_for_def unat_0_iff)
  have m: "mark_run h b 0 = h" for b by (simp add: mark_run_def)
  show ?thesis
    using heap_malloc_search [of h sz] assms(1) by (auto simp: n m heap_wf_def)
qed

theorem heap_malloc_wraps_witness: "\<exists>p. heap_malloc (fresh_heap 4) 0xFFFFFFFF = Some (p, fresh_heap 4)"
  by (rule heap_malloc_wraps [OF fresh_heap_wf]) simp_all

end
