(* ===== verification/Memory.thy ===== *)
theory Memory
  imports Nuts_Prelude
begin

text \<open>
  The byte routines of \<^verbatim>\<open>src/memory/memory.c\<close> on byte-addressed memory. A counter of
  type \<open>int\<close> is its 32-bit pattern: \<open>count--\<close> on a negative count goes on through the
  whole range, as it does in the code.
\<close>

section \<open>The routines\<close>

function memset_loop :: "mem \<Rightarrow> u32 \<Rightarrow> u8 \<Rightarrow> u32 \<Rightarrow> u32 \<Rightarrow> mem" where
  "memset_loop m p c sz i = (if i < sz then memset_loop (m(p + i := c)) p c sz (i + 1) else m)"
  by pat_completeness auto
termination
  by (relation "measure (\<lambda>(m, p, c, sz, i). unat sz - unat i)")
    (auto simp: unat_Suc_less word_less_nat_alt)

declare memset_loop.simps [simp del]

definition memset :: "mem \<Rightarrow> u32 \<Rightarrow> u8 \<Rightarrow> u32 \<Rightarrow> mem" where
  "memset m p c sz = memset_loop m p c sz 0"

text \<open>
  Each pointer is given with the memory it points into, so that a string literal or a
  buffer on the stack can be compared with a string in kernel memory.
\<close>

function memcmp_loop :: "mem \<Rightarrow> mem \<Rightarrow> u32 \<Rightarrow> u32 \<Rightarrow> u32 \<Rightarrow> u32 \<times> u32 \<times> u32" where
  "memcmp_loop m1 m2 t1 t2 count =
     (if count \<noteq> 0 \<and> m1 t1 = m2 t2 then memcmp_loop m1 m2 (t1 + 1) (t2 + 1) (count - 1)
      else (t1, t2, count - 1))"
  by pat_completeness auto
termination
  by (relation "measure (\<lambda>(m1, m2, t1, t2, count). unat count)") (auto dest: unat_pred)

declare memcmp_loop.simps [simp del]

definition memcmp :: "mem \<Rightarrow> mem \<Rightarrow> u32 \<Rightarrow> u32 \<Rightarrow> u32 \<Rightarrow> int" where
  "memcmp m1 m2 s1 s2 count =
     (let (t1, t2, c) = memcmp_loop m1 m2 s1 s2 count
      in if c = - 1 then 0 else uint (m2 t2) - uint (m1 t1))"

function memcpy_loop :: "mem \<Rightarrow> u32 \<Rightarrow> u32 \<Rightarrow> u32 \<Rightarrow> mem" where
  "memcpy_loop m t1 t2 count =
     (if count \<noteq> 0 then memcpy_loop (m(t1 := m t2)) (t1 + 1) (t2 + 1) (count - 1) else m)"
  by pat_completeness auto
termination
  by (relation "measure (\<lambda>(m, t1, t2, count). unat count)") (auto dest: unat_pred)

declare memcpy_loop.simps [simp del]

definition memcpy :: "mem \<Rightarrow> u32 \<Rightarrow> u32 \<Rightarrow> u32 \<Rightarrow> mem" where
  "memcpy m s1 s2 count = memcpy_loop m s1 s2 count"

section \<open>What they compute\<close>

lemma memset_loop_spec:
  "i \<le> sz \<Longrightarrow> memset_loop m p c sz i a = (if i \<le> a - p \<and> a - p < sz then c else m a)"
proof (induction m p c sz i rule: memset_loop.induct)
  case (1 m p c sz i)
  show ?case
  proof (cases "i < sz")
    case True
    have next_i: "unat (i + 1) = Suc (unat i)" using True by (rule unat_Suc_less)
    have "i + 1 \<le> sz" using True next_i by (simp add: word_less_nat_alt word_le_nat_alt)
    moreover have "i + 1 \<le> a - p \<longleftrightarrow> i \<le> a - p \<and> a - p \<noteq> i"
      using next_i by (auto simp: word_le_nat_alt word_unat_eq_iff)
    moreover have "a - p = i \<longleftrightarrow> a = p + i" by (auto simp: algebra_simps)
    moreover have "memset_loop m p c sz i a = memset_loop (m(p + i := c)) p c sz (i + 1) a"
      using True by (simp add: memset_loop.simps [of m p c sz i])
    moreover have "i + 1 \<le> sz \<Longrightarrow> memset_loop (m(p + i := c)) p c sz (i + 1) a
        = (if i + 1 \<le> a - p \<and> a - p < sz then c else (m(p + i := c)) a)"
      using "1.IH" [OF True] by (simp add: fun_upd_def)
    ultimately show ?thesis using True by auto
  next
    case False
    with "1.prems" have "i = sz" by simp
    moreover have "memset_loop m p c sz i a = m a" using False by (simp add: memset_loop.simps [of m p c sz i])
    ultimately show ?thesis by auto
  qed
qed

lemma memset_apply: "memset m p c sz a = (if in_region p sz a then c else m a)"
  by (simp add: memset_def memset_loop_spec in_region_def)

lemma memset_fun: "memset m p c sz = (\<lambda>a. if in_region p sz a then c else m a)"
  by (rule ext) (rule memset_apply)

lemma memset_0 [simp]: "memset m p c 0 = m"
  by (simp add: memset_fun in_region_def)

text \<open>
  The comparison stops at the first difference; \<open>- 1\<close> in the counter means it ran to the
  end.
\<close>

lemma memcmp_loop_spec:
  "memcmp_loop m1 m2 t1 t2 count = (x1, x2, c) \<Longrightarrow>
    (c = - 1 \<and> (\<forall>i < unat count. m1 (t1 + of_nat i) = m2 (t2 + of_nat i)))
    \<or> (c \<noteq> - 1 \<and> (\<exists>k < unat count. x1 = t1 + of_nat k \<and> x2 = t2 + of_nat k \<and> m1 x1 \<noteq> m2 x2
        \<and> (\<forall>i < k. m1 (t1 + of_nat i) = m2 (t2 + of_nat i))))"
proof (induction m1 m2 t1 t2 count rule: memcmp_loop.induct)
  case (1 m1 m2 t1 t2 count)
  show ?case
  proof (cases "count \<noteq> 0 \<and> m1 t1 = m2 t2")
    case True
    then have cnt: "unat count = Suc (unat (count - 1))" by (simp add: unat_pred)
    from True "1.prems" have "memcmp_loop m1 m2 (t1 + 1) (t2 + 1) (count - 1) = (x1, x2, c)"
      by (simp add: memcmp_loop.simps [of m1 m2 t1 t2 count])
    from "1.IH" [OF True this] show ?thesis
    proof (elim disjE conjE exE)
      assume c: "c = - 1"
        and eq: "\<forall>i < unat (count - 1). m1 (t1 + 1 + of_nat i) = m2 (t2 + 1 + of_nat i)"
      have "m1 (t1 + of_nat i) = m2 (t2 + of_nat i)" if "i < unat count" for i
        using that True eq cnt by (cases i) (auto simp: add.assoc)
      with c show ?thesis by blast
    next
      fix k
      assume c: "c \<noteq> - 1" and k: "k < unat (count - 1)" "x1 = t1 + 1 + of_nat k"
          "x2 = t2 + 1 + of_nat k" "m1 x1 \<noteq> m2 x2"
        and eq: "\<forall>i < k. m1 (t1 + 1 + of_nat i) = m2 (t2 + 1 + of_nat i)"
      have "m1 (t1 + of_nat i) = m2 (t2 + of_nat i)" if "i < Suc k" for i
        using that True eq by (cases i) (auto simp: add.assoc)
      with c k cnt show ?thesis
        by (intro disjI2 conjI exI [of _ "Suc k"]) (auto simp: add.assoc)
    qed
  next
    case False
    show ?thesis
    proof (cases "count = 0")
      case True
      with "1.prems" show ?thesis by (simp add: memcmp_loop.simps)
    next
      case nz: False
      then have "count - 1 \<noteq> - 1" by simp
      with False nz "1.prems" show ?thesis
        by (intro disjI2) (auto simp: memcmp_loop.simps [of m1 m2 t1 t2 count] unat_gt_0
            intro!: exI [of _ 0])
    qed
  qed
qed

lemma memcmp_eq_0: "memcmp m1 m2 s1 s2 count = 0 \<longleftrightarrow> (\<forall>i < unat count. m1 (s1 + of_nat i) = m2 (s2 + of_nat i))"
proof -
  obtain x1 x2 c where r: "memcmp_loop m1 m2 s1 s2 count = (x1, x2, c)" by (metis prod_cases3)
  have "uint (m2 x2) - uint (m1 x1) \<noteq> 0" if "m1 x1 \<noteq> m2 x2"
    using that by (metis eq_iff_diff_eq_0 word_uint_eq_iff)
  then show ?thesis
    using memcmp_loop_spec [OF r] by (simp add: memcmp_def r) blast
qed

lemma memcmp_diff:
  assumes "k < unat count" and "m1 (s1 + of_nat k) \<noteq> m2 (s2 + of_nat k)"
    and "\<forall>i < k. m1 (s1 + of_nat i) = m2 (s2 + of_nat i)"
  shows "memcmp m1 m2 s1 s2 count = uint (m2 (s2 + of_nat k)) - uint (m1 (s1 + of_nat k))"
proof -
  obtain x1 x2 c where r: "memcmp_loop m1 m2 s1 s2 count = (x1, x2, c)" by (metis prod_cases3)
  from memcmp_loop_spec [OF r] assms(1,2) obtain k' where k': "c \<noteq> - 1" "x1 = s1 + of_nat k'"
    "x2 = s2 + of_nat k'" "m1 x1 \<noteq> m2 x2" "\<forall>i < k'. m1 (s1 + of_nat i) = m2 (s2 + of_nat i)"
    by blast
  then have "k' = k" using assms(2,3) by (metis linorder_neqE_nat)
  with k' r show ?thesis by (simp add: memcmp_def)
qed

text \<open>
  Copying upwards is exact unless the destination starts inside the source region.
\<close>

lemma memcpy_loop_spec:
  "t1 = t2 \<or> count \<le> t1 - t2 \<Longrightarrow>
   memcpy_loop m t1 t2 count a = (if in_region t1 count a then m (t2 + (a - t1)) else m a)"
proof (induction m t1 t2 count rule: memcpy_loop.induct)
  case (1 m t1 t2 count)
  show ?case
  proof (cases "count = 0")
    case True
    then show ?thesis by (simp add: memcpy_loop.simps in_region_def)
  next
    case False
    let ?m = "m(t1 := m t2)"
    have cnt: "unat count = Suc (unat (count - 1))" using False by (simp add: unat_pred)
    have sep: "t1 + 1 = t2 + 1 \<or> count - 1 \<le> (t1 + 1) - (t2 + 1)"
      using "1.prems" cnt by (auto simp: word_le_nat_alt)
    have "memcpy_loop ?m (t1 + 1) (t2 + 1) (count - 1) a
        = (if in_region (t1 + 1) (count - 1) a then ?m (t2 + 1 + (a - (t1 + 1))) else ?m a)"
      using "1.IH" [OF False sep] by (simp only: fun_upd_def)
    then have step: "memcpy_loop m t1 t2 count a
        = (if in_region (t1 + 1) (count - 1) a then ?m (t2 + 1 + (a - (t1 + 1))) else ?m a)"
      using False by (simp only: memcpy_loop.simps [of m t1 t2 count] if_True simp_thms)
    have src: "t2 + 1 + (a - (t1 + 1)) = t2 + (a - t1)" by (simp add: algebra_simps)
    show ?thesis
    proof (cases "a = t1")
      case True
      have "\<not> in_region (t1 + 1) (count - 1) t1"
        using cnt unat_u32_less [of count]
        by (simp add: in_region_def word_less_nat_alt unsigned_minus_1_eq_mask mask_eq_exp_minus_1)
      moreover have "in_region t1 count t1" using False by (simp add: in_region_def word_neq_0_conv)
      ultimately show ?thesis using step True by simp
    next
      case neq: False
      then have "a - t1 \<noteq> 0" by simp
      then have off: "unat (a - t1) = Suc (unat (a - (t1 + 1)))"
        using unat_pred [of "a - t1"] by (simp add: diff_diff_eq)
      then have reg: "in_region (t1 + 1) (count - 1) a \<longleftrightarrow> in_region t1 count a"
        using cnt by (simp add: in_region_def word_less_nat_alt)
      have "t2 + (a - t1) \<noteq> t1 \<or> t1 = t2" if "in_region t1 count a"
      proof (rule ccontr)
        assume n: "\<not> ?thesis"
        then have "a - t1 = t1 - t2" by (auto simp: algebra_simps)
        with that "1.prems" n show False by (auto simp: in_region_def)
      qed
      with step src reg neq show ?thesis by auto
    qed
  qed
qed

lemma memcpy_apply:
  "s1 = s2 \<or> count \<le> s1 - s2 \<Longrightarrow>
   memcpy m s1 s2 count a = (if in_region s1 count a then m (s2 + (a - s1)) else m a)"
  by (simp add: memcpy_def memcpy_loop_spec)

section \<open>Properties\<close>

text \<open>
  Copying and comparing agree: after \<open>memcpy\<close> between regions that do not overlap the
  destination holds the source's bytes, every other byte is as before, and \<open>memcmp\<close> finds
  the two regions equal.
\<close>

lemma memcpy_memcmp:
  assumes "count \<le> d - s" and "count \<le> s - d"
  shows "memcmp (memcpy m d s count) (memcpy m d s count) d s count = 0
    \<and> (\<forall>i < unat count. memcpy m d s count (d + of_nat i) = m (s + of_nat i))
    \<and> (\<forall>a. \<not> in_region d count a \<longrightarrow> memcpy m d s count a = m a)"
proof -
  have copied: "memcpy m d s count (d + of_nat i) = m (s + of_nat i)"
    and kept: "memcpy m d s count (s + of_nat i) = m (s + of_nat i)" if i: "i < unat count" for i
  proof -
    have u: "unat (of_nat i :: u32) = i" using i unat_u32_less [of count] by (intro unat_of_nat_small) simp
    then show "memcpy m d s count (d + of_nat i) = m (s + of_nat i)"
      using assms(1) i by (simp add: memcpy_apply in_region_def word_less_nat_alt)
    have "\<not> in_region d count (s + of_nat i)"
    proof
      assume "in_region d count (s + of_nat i)"
      then have l: "unat (s - d + of_nat i) < unat count" by (simp add: in_region_def word_less_nat_alt algebra_simps)
      have c: "unat count \<le> unat (s - d)" "unat count \<le> unat (d - s)" using assms by (simp_all add: word_le_nat_alt)
      have "0 < unat (s - d)" using c i by linarith
      with unat_sub_if' [of 0 "s - d"] have "unat (d - s) = 4294967296 - unat (s - d)" by simp
      then have "unat (s - d) + i < 4294967296" using c i unat_u32_less [of "s - d"] by linarith
      then have "unat (s - d + of_nat i) = unat (s - d) + i" using u by (simp add: unat_word_ariths(1))
      with l c show False by simp
    qed
    then show "memcpy m d s count (s + of_nat i) = m (s + of_nat i)" using assms(1) by (simp add: memcpy_apply)
  qed
  have "\<forall>a. \<not> in_region d count a \<longrightarrow> memcpy m d s count a = m a" using assms(1) by (simp add: memcpy_apply)
  with copied kept show ?thesis by (simp add: memcmp_eq_0)
qed

lemma memcpy_memcmp_witness:
  "memcmp (memcpy ucast 0x2000 0x1000 512) (memcpy ucast 0x2000 0x1000 512) 0x2000 0x1000 512 = 0
    \<and> memcpy ucast 0x2000 0x1000 512 0x2005 = 5"
  using memcpy_memcmp [of 512 "0x2000" "0x1000" ucast] by (auto dest: spec [of _ 5])

text \<open>
  \<open>memcmp\<close> returns the difference of the first two bytes that differ, second minus first:
  the sign is the opposite of the usual convention.
\<close>

lemma memcmp_reversed:
  assumes "k < unat count" and "m1 (s1 + of_nat k) \<noteq> m2 (s2 + of_nat k)"
    and "\<forall>i < k. m1 (s1 + of_nat i) = m2 (s2 + of_nat i)"
  shows "(memcmp m1 m2 s1 s2 count < 0) = (m2 (s2 + of_nat k) < m1 (s1 + of_nat k))
    \<and> memcmp m2 m1 s2 s1 count = - memcmp m1 m2 s1 s2 count"
proof -
  have "\<forall>i < k. m2 (s2 + of_nat i) = m1 (s1 + of_nat i)" using assms(3) by simp
  from memcmp_diff [OF assms(1) assms(2) [symmetric] this] memcmp_diff [OF assms] show ?thesis
    by (simp add: word_less_def)
qed

lemma memcmp_reversed_witness: "memcmp (\<lambda>a. 2) (\<lambda>a. 1) 0 0 4 < 0"
  using memcmp_reversed [of 0 4 "\<lambda>a. 2" 0 "\<lambda>a. 1" 0] by simp

end
