(* ===== verification/C_String.thy ===== *)
theory C_String
  imports Memory
begin

text \<open>
  The string routines of \<^verbatim>\<open>src/stdutil/string.c\<close>. A C string is a pointer into byte
  memory; \<open>cstr m p s\<close> says that the bytes at \<open>p\<close> are the non-zero bytes \<open>s\<close> and a
  terminator. A routine that follows a string without a bound runs on where there is no
  terminator, so it is a partial function with result \<open>None\<close> when it does not return.
  \<open>char\<close> is signed on the target.
\<close>

section \<open>Strings in memory\<close>

fun cstr :: "mem \<Rightarrow> u32 \<Rightarrow> u8 list \<Rightarrow> bool" where
  "cstr m p [] \<longleftrightarrow> m p = 0"
| "cstr m p (c # s) \<longleftrightarrow> c \<noteq> 0 \<and> m p = c \<and> cstr m (p + 1) s"

definition bytes_of :: "string \<Rightarrow> u8 list" where
  "bytes_of s = map of_char s"

text \<open>A literal is a read-only memory of its own, at address 0.\<close>

definition lit_mem :: "string \<Rightarrow> mem" where
  "lit_mem s = (\<lambda>a. if unat a < length s then bytes_of s ! unat a else 0)"

section \<open>The routines\<close>

definition isdigit :: "u8 \<Rightarrow> bool" where
  "isdigit c \<longleftrightarrow> sint c \<ge> 48 \<and> sint c \<le> 57"

definition isspace :: "u8 \<Rightarrow> bool" where
  "isspace c \<longleftrightarrow> c = 32 \<or> (sint c \<ge> 9 \<and> sint c \<le> 13)"

partial_function (option) strlen_loop :: "mem \<Rightarrow> u32 \<Rightarrow> u32 \<Rightarrow> u32 option" where
  "strlen_loop m str len = (if m (str + len) \<noteq> 0 then strlen_loop m str (len + 1) else Some len)"

definition strlen :: "mem \<Rightarrow> u32 \<Rightarrow> u32 option" where
  "strlen m str = strlen_loop m str 0"

function strnlen_loop :: "mem \<Rightarrow> u32 \<Rightarrow> u32 \<Rightarrow> u32 \<Rightarrow> u32" where
  "strnlen_loop m str mx len =
     (if m (str + len) \<noteq> 0 \<and> len < mx then strnlen_loop m str mx (len + 1) else len)"
  by pat_completeness auto
termination
  by (relation "measure (\<lambda>(m, str, mx, len). unat mx - unat len)")
    (auto simp: unat_Suc_less word_less_nat_alt)

declare strnlen_loop.simps [simp del]

definition strnlen :: "mem \<Rightarrow> u32 \<Rightarrow> u32 \<Rightarrow> u32" where
  "strnlen m str mx = strnlen_loop m str mx 0"

definition ctoi :: "u8 \<Rightarrow> int" where
  "ctoi c = sint c - 48"

text \<open>The length that \<open>strnlent\<close> returns counts the terminating character.\<close>

function strnlent_loop :: "mem \<Rightarrow> u32 \<Rightarrow> u32 \<Rightarrow> u8 \<Rightarrow> u32 \<Rightarrow> u32" where
  "strnlent_loop m str mx trm len =
     (if m (str + len) \<noteq> trm \<and> len + 1 < mx then strnlent_loop m str mx trm (len + 1) else len + 1)"
  by pat_completeness auto
termination
proof (relation "measure (\<lambda>(m, str, mx, trm, len). if len = - 1 then Suc (unat mx) else unat mx - unat len)")
  fix m :: mem and str mx len :: u32 and trm :: u8
  assume "m (str + len) \<noteq> trm \<and> len + 1 < mx"
  then have lt: "len + 1 < mx" by simp
  then have neq: "len + 1 \<noteq> - 1" by (metis word_order.extremum_strict)
  have "len = - 1 \<or> unat (len + 1) = Suc (unat len)"
    using unat_pred [of "len + 1"] by (cases "len + 1 = 0") (simp_all add: eq_neg_iff_add_eq_0)
  with lt neq show "((m, str, mx, trm, len + 1), m, str, mx, trm, len)
      \<in> measure (\<lambda>(m, str, mx, trm, len). if len = - 1 then Suc (unat mx) else unat mx - unat len)"
    by (auto simp: word_less_nat_alt)
qed auto

declare strnlent_loop.simps [simp del]

definition strnlent :: "mem \<Rightarrow> u32 \<Rightarrow> u32 \<Rightarrow> u8 \<Rightarrow> u32" where
  "strnlent m str mx trm = strnlent_loop m str mx trm 0"

definition tolower :: "u8 \<Rightarrow> u8" where
  "tolower s = (if sint s \<ge> 65 \<and> sint s \<le> 90 then s + 32 else s)"

function istrncmp_loop :: "mem \<Rightarrow> mem \<Rightarrow> u32 \<Rightarrow> u32 \<Rightarrow> u32 \<Rightarrow> u32 \<times> u32 \<times> u32" where
  "istrncmp_loop m1 m2 s1 s2 n =
     (if n \<noteq> 0 \<and> m1 s1 \<noteq> 0 \<and> tolower (m1 s1) = tolower (m2 s2)
      then istrncmp_loop m1 m2 (s1 + 1) (s2 + 1) (n - 1) else (s1, s2, n - 1))"
  by pat_completeness auto
termination
  by (relation "measure (\<lambda>(m1, m2, s1, s2, n). unat n)") (auto dest: unat_pred)

declare istrncmp_loop.simps [simp del]

definition istrncmp :: "mem \<Rightarrow> mem \<Rightarrow> u32 \<Rightarrow> u32 \<Rightarrow> u32 \<Rightarrow> int" where
  "istrncmp m1 m2 s1 s2 n =
     (let (t1, t2, n') = istrncmp_loop m1 m2 s1 s2 n
      in if n' = - 1 then 0 else uint (tolower (m1 t1)) - uint (tolower (m2 t2)))"

function strncmp_loop :: "mem \<Rightarrow> mem \<Rightarrow> u32 \<Rightarrow> u32 \<Rightarrow> u32 \<Rightarrow> u32 \<times> u32 \<times> u32" where
  "strncmp_loop m1 m2 s1 s2 n =
     (if n \<noteq> 0 \<and> m1 s1 \<noteq> 0 \<and> m1 s1 = m2 s2
      then strncmp_loop m1 m2 (s1 + 1) (s2 + 1) (n - 1) else (s1, s2, n - 1))"
  by pat_completeness auto
termination
  by (relation "measure (\<lambda>(m1, m2, s1, s2, n). unat n)") (auto dest: unat_pred)

declare strncmp_loop.simps [simp del]

definition strncmp :: "mem \<Rightarrow> mem \<Rightarrow> u32 \<Rightarrow> u32 \<Rightarrow> u32 \<Rightarrow> int" where
  "strncmp m1 m2 s1 s2 n =
     (let (t1, t2, n') = strncmp_loop m1 m2 s1 s2 n
      in if n' = - 1 then 0 else uint (m1 t1) - uint (m2 t2))"

text \<open>The copies return the advanced destination pointer, as the code does.\<close>

partial_function (option) strcpy :: "mem \<Rightarrow> u32 \<Rightarrow> u32 \<Rightarrow> (u32 \<times> mem) option" where
  "strcpy m dest src =
     (let c = m src; m' = m(dest := c)
      in if c \<noteq> 0 then strcpy m' (dest + 1) (src + 1) else Some (dest + 1, m'))"

text \<open>
  In \<open>strncpy\<close> the character is stored before \<open>size--\<close> is tested.
\<close>

function strncpy :: "mem \<Rightarrow> u32 \<Rightarrow> u32 \<Rightarrow> u32 \<Rightarrow> u32 \<times> mem" where
  "strncpy m dest src n =
     (let c = m src; m' = m(dest := c)
      in if c \<noteq> 0 \<and> n \<noteq> 0 then strncpy m' (dest + 1) (src + 1) (n - 1) else (dest + 1, m'))"
  by pat_completeness auto
termination
  by (relation "measure (\<lambda>(m, dest, src, n). unat n)") (auto dest: unat_pred)

declare strncpy.simps [simp del]

partial_function (option) ltrim :: "mem \<Rightarrow> u32 \<Rightarrow> u32 option" where
  "ltrim m s = (if m s \<noteq> 0 \<and> isspace (m s) then ltrim m (s + 1) else Some s)"

partial_function (option) rtrim_loop :: "mem \<Rightarrow> u32 \<Rightarrow> u32 \<Rightarrow> u32 option" where
  "rtrim_loop m s e = (if s \<le> e \<and> m e \<noteq> 0 \<and> isspace (m e) then rtrim_loop m s (e - 1) else Some e)"

definition rtrim :: "mem \<Rightarrow> u32 \<Rightarrow> (u32 \<times> mem) option" where
  "rtrim m s = do {
     len \<leftarrow> strlen m s;
     e \<leftarrow> rtrim_loop m s (s + len - 1);
     Some (s, m(e + 1 := 0))
   }"

definition trim :: "mem \<Rightarrow> u32 \<Rightarrow> (u32 \<times> mem) option" where
  "trim m s = do {
     (s', m') \<leftarrow> rtrim m s;
     r \<leftarrow> ltrim m' s';
     Some (r, m')
   }"

text \<open>
  \<open>sprintf\<close> over the pointer arguments after the format; \<open>va_arg\<close> past the last one has
  no defined value. The result is the number of format items, and no terminator is stored
  after the last literal character.
\<close>

partial_function (option) sprintf_loop :: "mem \<Rightarrow> u32 \<Rightarrow> u32 \<Rightarrow> u32 list \<Rightarrow> int \<Rightarrow> (int \<times> u32 \<times> mem) option" where
  "sprintf_loop m str fmt args count =
     (if m fmt = 0 then Some (count, str, m)
      else if m fmt = 37 then
        (if m (fmt + 1) = 115 then
           (case args of
              [] \<Rightarrow> None
            | token # args' \<Rightarrow>
                Option.bind (strcpy m str token) (\<lambda>(d, m').
                Option.bind (strlen m' token) (\<lambda>len.
                  sprintf_loop m' (str + len) (fmt + 2) args' (s32 (count + 1)))))
         else if m (fmt + 1) = 37 then
           sprintf_loop (m(str := 37)) (str + 1) (fmt + 2) args (s32 (count + 1))
         else sprintf_loop m str (fmt + 2) args (s32 (count + 1)))
      else sprintf_loop (m(str := m fmt)) (str + 1) (fmt + 1) args (s32 (count + 1)))"

definition sprintf :: "mem \<Rightarrow> u32 \<Rightarrow> u32 \<Rightarrow> u32 list \<Rightarrow> (int \<times> mem) option" where
  "sprintf m str fmt args = do {
     (count, str', m') \<leftarrow> sprintf_loop m str fmt args 0;
     Some (count, m')
   }"

section \<open>Lengths\<close>

lemma cstr_nth: "cstr m p s \<Longrightarrow> i < length s \<Longrightarrow> m (p + of_nat i) = s ! i \<and> s ! i \<noteq> 0"
proof (induction s arbitrary: p i)
  case Nil
  then show ?case by simp
next
  case (Cons c s)
  then show ?case by (cases i) (auto simp: add.assoc [symmetric])
qed

lemma cstr_end: "cstr m p s \<Longrightarrow> m (p + of_nat (length s)) = 0"
  by (induction s arbitrary: p) (auto simp flip: add.assoc)

lemma cstr_iff:
  "cstr m p s \<longleftrightarrow> (\<forall>i < length s. m (p + of_nat i) = s ! i \<and> s ! i \<noteq> 0) \<and> m (p + of_nat (length s)) = 0"
proof (induction s arbitrary: p)
  case Nil
  then show ?case by simp
next
  case (Cons c s)
  show ?case
    by (simp add: Cons.IH All_less_Suc2 add.assoc) metis
qed

lemma cstr_length: "cstr m p s \<Longrightarrow> length s < 4294967296"
proof (rule ccontr)
  assume c: "cstr m p s" and "\<not> length s < 4294967296"
  then have len: "4294967296 \<le> length s" by simp
  have "m (p + of_nat (length s - 4294967296)) \<noteq> 0"
    using cstr_nth [OF c, of "length s - 4294967296"] len by auto
  moreover have "(of_nat (length s - 4294967296) :: u32) = of_nat (length s)"
    using len by (simp add: of_nat_diff)
  ultimately show False using cstr_end [OF c] by simp
qed

lemma cstr_unat_length: "cstr m p s \<Longrightarrow> unat (of_nat (length s) :: u32) = length s"
  using cstr_length by (intro unat_of_nat_small)

lemma cstr_cong:
  assumes "cstr m p s" and "\<And>i. i \<le> length s \<Longrightarrow> m' (p + of_nat i) = m (p + of_nat i)"
  shows "cstr m' p s"
  using assms by (simp add: cstr_iff)

lemma cstr_append: "cstr m p (s @ t) \<Longrightarrow> cstr m (p + of_nat (length s)) t"
  by (induction s arbitrary: p) (auto simp flip: add.assoc)

lemma cstr_unique: "cstr m p s \<Longrightarrow> cstr m p t \<Longrightarrow> s = t"
proof (induction s arbitrary: p t)
  case Nil
  then show ?case by (cases t) auto
next
  case (Cons c s)
  then show ?case by (cases t) auto
qed

lemma strlen_loop_cstr: "cstr m (p + len) s \<Longrightarrow> strlen_loop m p len = Some (len + of_nat (length s))"
proof (induction s arbitrary: len)
  case Nil
  then show ?case by (subst strlen_loop.simps) simp
next
  case (Cons c s)
  then show ?case by (subst strlen_loop.simps) (simp add: add.assoc)
qed

lemma strlen_cstr: "cstr m p s \<Longrightarrow> strlen m p = Some (of_nat (length s))"
  using strlen_loop_cstr [of m p 0 s] by (simp add: strlen_def)

lemma strnlen_loop_cstr:
  "cstr m (p + len) s \<Longrightarrow> len \<le> mx \<Longrightarrow>
   unat (strnlen_loop m p mx len) = min (unat len + length s) (unat mx)"
proof (induction s arbitrary: len)
  case Nil
  then show ?case by (subst strnlen_loop.simps) (simp add: word_le_nat_alt)
next
  case (Cons c s)
  show ?case
  proof (cases "len < mx")
    case True
    then have "unat (len + 1) = Suc (unat len)" by (rule unat_Suc_less)
    moreover from this True have "len + 1 \<le> mx" by (simp add: word_le_nat_alt word_less_nat_alt)
    ultimately show ?thesis
      using Cons.IH [of "len + 1"] Cons.prems True
      by (subst strnlen_loop.simps) (simp add: add.assoc)
  next
    case False
    with Cons.prems have "len = mx" by simp
    then show ?thesis by (subst strnlen_loop.simps) simp
  qed
qed

lemma strnlen_cstr: "cstr m p s \<Longrightarrow> unat (strnlen m p mx) = min (length s) (unat mx)"
  using strnlen_loop_cstr [of m p 0 s mx] by (simp add: strnlen_def)

section \<open>Comparisons\<close>

text \<open>The reference: the difference at the first place where the strings part.\<close>

fun str_diff :: "nat \<Rightarrow> u8 list \<Rightarrow> u8 list \<Rightarrow> int" where
  "str_diff 0 s t = 0"
| "str_diff (Suc n) [] [] = 0"
| "str_diff (Suc n) [] (d # t) = - uint d"
| "str_diff (Suc n) (c # s) [] = uint c"
| "str_diff (Suc n) (c # s) (d # t) = (if c = d then str_diff n s t else uint c - uint d)"

lemma str_diff_0_iff:
  assumes "0 \<notin> set s" and "0 \<notin> set t"
  shows "str_diff n s t = 0 \<longleftrightarrow> take n s = take n t"
  using assms
proof (induction n s t rule: str_diff.induct)
  case (3 n d t)
  then show ?case by (simp add: uint_0_iff)
next
  case (4 n c s)
  then show ?case by (simp add: uint_0_iff)
next
  case (5 n c s d t)
  then show ?case by (auto simp: word_uint_eq_iff)
qed simp_all

lemma cstr_no_0: "cstr m p s \<Longrightarrow> 0 \<notin> set s"
  by (induction s arbitrary: p) auto

lemma strncmp_loop_cstr:
  assumes "cstr m1 p s" and "cstr m2 q t" and "strncmp_loop m1 m2 p q n = (p', q', n')"
  shows "(if n' = - 1 then 0 else uint (m1 p') - uint (m2 q')) = str_diff (unat n) s t"
  using assms
proof (induction "unat n" arbitrary: n p q s t)
  case 0
  then have "n = 0" by (simp add: unat_0_iff)
  with 0 show ?case by (simp add: strncmp_loop.simps)
next
  case (Suc k)
  then have "n \<noteq> 0" by auto
  then have n: "n \<noteq> 0" "k = unat (n - 1)" using Suc.hyps(2) unat_pred [of n] by simp_all
  then have "n - 1 \<noteq> - 1" by simp
  show ?case
  proof (cases "m1 p \<noteq> 0 \<and> m1 p = m2 q")
    case True
    then obtain c s' t' where st: "s = c # s'" "t = c # t'"
      using Suc.prems(1,2) by (cases s; cases t) auto
    have "strncmp_loop m1 m2 (p + 1) (q + 1) (n - 1) = (p', q', n')"
      using Suc.prems(3) True n(1) by (auto simp: strncmp_loop.simps [of m1 m2 p])
    from Suc.hyps(1) [OF n(2) _ _ this] Suc.prems(1,2) st
    have "(if n' = - 1 then 0 else uint (m1 p') - uint (m2 q')) = str_diff (unat (n - 1)) s' t'"
      by simp
    then show ?thesis using st Suc.hyps(2) n(2) by (simp flip: Suc.hyps(2))
  next
    case False
    then have r: "p' = p" "q' = q" "n' = n - 1"
      using Suc.prems(3) by (auto simp: strncmp_loop.simps [of m1 m2 p])
    with \<open>n - 1 \<noteq> - 1\<close> False Suc.prems(1,2) show ?thesis
      by (cases s; cases t) (auto simp flip: Suc.hyps(2))
  qed
qed

lemma strncmp_cstr:
  assumes "cstr m1 p s" and "cstr m2 q t"
  shows "strncmp m1 m2 p q n = str_diff (unat n) s t"
proof -
  obtain p' q' n' where r: "strncmp_loop m1 m2 p q n = (p', q', n')" by (metis prod_cases3)
  show ?thesis using strncmp_loop_cstr [OF assms r] by (simp add: strncmp_def r)
qed

lemma tolower_0_iff [simp]: "tolower c = 0 \<longleftrightarrow> c = 0"
proof -
  have "c + 32 \<noteq> 0" if "65 \<le> sint c"
  proof
    assume "c + 32 = 0"
    then have "c = - 32" by (simp add: eq_neg_iff_add_eq_0)
    with that show False by simp
  qed
  then show ?thesis by (auto simp: tolower_def)
qed

lemma istrncmp_loop_cstr:
  assumes "cstr m1 p s" and "cstr m2 q t" and "istrncmp_loop m1 m2 p q n = (p', q', n')"
  shows "(if n' = - 1 then 0 else uint (tolower (m1 p')) - uint (tolower (m2 q')))
    = str_diff (unat n) (map tolower s) (map tolower t)"
  using assms
proof (induction "unat n" arbitrary: n p q s t)
  case 0
  then have "n = 0" by (simp add: unat_0_iff)
  with 0 show ?case by (simp add: istrncmp_loop.simps)
next
  case (Suc k)
  then have "n \<noteq> 0" by auto
  then have n: "n \<noteq> 0" "k = unat (n - 1)" using Suc.hyps(2) unat_pred [of n] by simp_all
  then have "n - 1 \<noteq> - 1" by simp
  show ?case
  proof (cases "m1 p \<noteq> 0 \<and> tolower (m1 p) = tolower (m2 q)")
    case True
    then have "m2 q \<noteq> 0" by (metis tolower_0_iff)
    then obtain c s' d t' where st: "s = c # s'" "t = d # t'"
      using Suc.prems(1,2) True by (cases s; cases t) auto
    have "istrncmp_loop m1 m2 (p + 1) (q + 1) (n - 1) = (p', q', n')"
      using Suc.prems(3) True n(1) by (simp add: istrncmp_loop.simps [of m1 m2 p])
    from Suc.hyps(1) [OF n(2) _ _ this] Suc.prems(1,2) st
    have "(if n' = - 1 then 0 else uint (tolower (m1 p')) - uint (tolower (m2 q')))
        = str_diff (unat (n - 1)) (map tolower s') (map tolower t')"
      by simp
    then show ?thesis using st n(2) True Suc.prems(1,2) by (simp flip: Suc.hyps(2))
  next
    case False
    then have r: "p' = p" "q' = q" "n' = n - 1"
      using Suc.prems(3) by (auto simp: istrncmp_loop.simps [of m1 m2 p] split: if_splits)
    with \<open>n - 1 \<noteq> - 1\<close> False Suc.prems(1,2) show ?thesis
      by (cases s; cases t) (auto simp: tolower_def [of 0] simp flip: Suc.hyps(2))
  qed
qed

lemma istrncmp_cstr:
  assumes "cstr m1 p s" and "cstr m2 q t"
  shows "istrncmp m1 m2 p q n = str_diff (unat n) (map tolower s) (map tolower t)"
proof -
  obtain p' q' n' where r: "istrncmp_loop m1 m2 p q n = (p', q', n')" by (metis prod_cases3)
  show ?thesis using istrncmp_loop_cstr [OF assms r] by (simp add: istrncmp_def r)
qed

lemma istrncmp_eq_iff:
  assumes "cstr m1 p s" and "cstr m2 q t"
  shows "istrncmp m1 m2 p q n = 0 \<longleftrightarrow> map tolower (take (unat n) s) = map tolower (take (unat n) t)"
proof -
  have "0 \<notin> set (map tolower s)" "0 \<notin> set (map tolower t)"
    using cstr_no_0 [OF assms(1)] cstr_no_0 [OF assms(2)] by (auto simp: eq_commute [of 0])
  then show ?thesis by (simp add: istrncmp_cstr [OF assms] str_diff_0_iff take_map)
qed

section \<open>Copies\<close>

text \<open>
  Both copies run upwards, so they are exact as long as the destination does not start
  inside the bytes still to be read.
\<close>

lemma cstr_upd_outside:
  assumes "cstr m (p + 1) s" and "Suc (length s) < unat (d - p)"
  shows "cstr (m(d := c)) (p + 1) s"
proof (rule cstr_cong [OF assms(1)])
  fix i
  assume i: "i \<le> length s"
  have "d \<noteq> p + 1 + of_nat i"
  proof
    assume "d = p + 1 + of_nat i"
    then have "d - p = of_nat (Suc i)" by simp
    then have "unat (d - p) \<le> Suc i" by (metis unat_of_nat mod_less_eq_dividend)
    with assms(2) i show False by simp
  qed
  then show "(m(d := c)) (p + 1 + of_nat i) = m (p + 1 + of_nat i)" by simp
qed

lemma strcpy_cstr:
  assumes "cstr m src s" and "length s < unat (dest - src)"
  shows "strcpy m dest src = Some (dest + of_nat (length s) + 1, write_bytes m dest (s @ [0]))"
  using assms
proof (induction s arbitrary: m dest src)
  case Nil
  then show ?case by (subst strcpy.simps) simp
next
  case (Cons c s)
  have "cstr (m(dest := c)) (src + 1) s"
    using Cons.prems by (intro cstr_upd_outside) simp_all
  moreover have "length s < unat (dest + 1 - (src + 1))" using Cons.prems(2) by simp
  ultimately show ?case
    using Cons.IH Cons.prems by (subst strcpy.simps) (simp add: Let_def ac_simps)
qed

text \<open>
  \<open>strncpy\<close> with a bound \<open>n\<close> stores up to \<open>n + 1\<close> bytes.
\<close>

lemma strncpy_cstr:
  assumes "cstr m src s" and "length s < unat (dest - src)"
  shows "strncpy m dest src n =
    (let k = Suc (min (length s) (unat n))
     in (dest + of_nat k, write_bytes m dest (take k (s @ [0]))))"
  using assms
proof (induction s arbitrary: m dest src n)
  case Nil
  then show ?case by (subst strncpy.simps) simp
next
  case (Cons c s)
  show ?case
  proof (cases "n = 0")
    case True
    with Cons.prems show ?thesis by (subst strncpy.simps) simp
  next
    case False
    then have n: "unat n = Suc (unat (n - 1))" by (simp add: unat_pred)
    have "cstr (m(dest := c)) (src + 1) s"
      using Cons.prems by (intro cstr_upd_outside) simp_all
    moreover have "length s < unat (dest + 1 - (src + 1))" using Cons.prems(2) by simp
    ultimately have "strncpy (m(dest := c)) (dest + 1) (src + 1) (n - 1) =
        (let k = Suc (min (length s) (unat (n - 1)))
         in (dest + 1 + of_nat k, write_bytes (m(dest := c)) (dest + 1) (take k (s @ [0]))))"
      by (rule Cons.IH)
    with Cons.prems False n show ?thesis
      by (subst strncpy.simps) (simp add: Let_def ac_simps)
  qed
qed

section \<open>Trimming\<close>

definition rstrip :: "u8 list \<Rightarrow> u8 list" where
  "rstrip s = rev (dropWhile isspace (rev s))"

lemma rstrip_prefix: "rstrip s = take (length (rstrip s)) s"
proof -
  have "rev s = takeWhile isspace (rev s) @ dropWhile isspace (rev s)" by simp
  then have "s = rstrip s @ rev (takeWhile isspace (rev s))"
    unfolding rstrip_def by (metis rev_append rev_rev_ident)
  then show ?thesis by (metis append_eq_conv_conj)
qed

lemma rstrip_length: "length (rstrip s) \<le> length s"
  by (metis rstrip_prefix length_take min.cobounded1)

lemma ltrim_cstr:
  "cstr m p s \<Longrightarrow> \<exists>r. ltrim m p = Some r \<and> cstr m r (dropWhile isspace s)"
proof (induction s arbitrary: p)
  case Nil
  then show ?case by (subst ltrim.simps) simp
next
  case (Cons c s)
  then show ?case by (subst ltrim.simps) auto
qed

lemma rtrim_loop_cstr:
  assumes "cstr m p s" and "k \<le> length s" and "p \<noteq> 0" and "unat p + length s < 4294967296"
  shows "rtrim_loop m p (p + of_nat k - 1) = Some (p + of_nat (length (rstrip (take k s))) - 1)"
  using assms(2)
proof (induction k)
  case 0
  have "\<not> p \<le> p - 1" using unat_pred [OF assms(3)] by (simp add: word_le_nat_alt)
  then show ?case by (subst rtrim_loop.simps) (simp add: rstrip_def)
next
  case (Suc k)
  have k: "unat (of_nat k :: u32) = k" using Suc.prems assms(4) by (intro unat_of_nat_small) simp
  have "unat (p + of_nat k) = unat p + k"
    using Suc.prems assms(4) k by (simp add: unat_word_ariths(1))
  then have le: "p \<le> p + of_nat k" by (simp add: word_le_nat_alt)
  have byte: "m (p + of_nat k) = s ! k" "s ! k \<noteq> 0" using cstr_nth [OF assms(1)] Suc.prems by auto
  have take: "rstrip (take (Suc k) s) = (if isspace (s ! k) then rstrip (take k s) else take (Suc k) s)"
    using Suc.prems by (simp add: rstrip_def take_Suc_conv_app_nth)
  have e: "p + of_nat (Suc k) - 1 = p + of_nat k" by simp
  show ?case
    using Suc.IH Suc.prems take byte le unfolding e
    by (subst rtrim_loop.simps) (auto simp: min_def)
qed

lemma rtrim_cstr:
  assumes "cstr m p s" and "p \<noteq> 0" and "unat p + length s < 4294967296"
  shows "\<exists>m'. rtrim m p = Some (p, m') \<and> cstr m' p (rstrip s)"
proof -
  let ?n = "length (rstrip s)"
  have n: "?n \<le> length s" by (rule rstrip_length)
  have r: "rtrim m p = Some (p, m(p + of_nat ?n := 0))"
    using rtrim_loop_cstr [OF assms(1) order_refl assms(2,3)] by (simp add: rtrim_def strlen_cstr [OF assms(1)])
  have "cstr (m(p + of_nat ?n := 0)) p (rstrip s)"
    unfolding cstr_iff
  proof (intro conjI allI impI)
    fix i
    assume i: "i < ?n"
    then have "(of_nat i :: u32) \<noteq> of_nat ?n"
      using n assms(3) by (simp add: of_nat_u32_inject)
    moreover have "rstrip s ! i = s ! i" using i n by (subst rstrip_prefix) simp
    ultimately show "(m(p + of_nat ?n := 0)) (p + of_nat i) = rstrip s ! i" "rstrip s ! i \<noteq> 0"
      using cstr_nth [OF assms(1), of i] i n by auto
  qed simp
  with r show ?thesis by blast
qed

lemma trim_cstr:
  assumes "cstr m p s" and "p \<noteq> 0" and "unat p + length s < 4294967296"
  shows "\<exists>r m'. trim m p = Some (r, m') \<and> cstr m' r (dropWhile isspace (rstrip s))"
proof -
  obtain m' where m': "rtrim m p = Some (p, m')" "cstr m' p (rstrip s)"
    using rtrim_cstr [OF assms] by blast
  obtain r where "ltrim m' p = Some r" "cstr m' r (dropWhile isspace (rstrip s))"
    using ltrim_cstr [OF m'(2)] by blast
  with m' show ?thesis by (simp add: trim_def)
qed

section \<open>Properties\<close>

lemma str_diff_commute: "str_diff n t s = - str_diff n s t"
  by (induction n s t rule: str_diff.induct) auto

text \<open>
  \<open>istrncmp\<close> compares two strings up to a bound and up to letter case: it is the
  difference at the first place where the lowered strings part, zero exactly when the first
  \<open>n\<close> characters agree up to case, and changing sides changes the sign.
\<close>

lemma istrncmp_compares:
  assumes "cstr m1 p s" and "cstr m2 q t"
  shows "istrncmp m1 m2 p q n = str_diff (unat n) (map tolower s) (map tolower t)
    \<and> (istrncmp m1 m2 p q n = 0) = (map tolower (take (unat n) s) = map tolower (take (unat n) t))
    \<and> istrncmp m2 m1 q p n = - istrncmp m1 m2 p q n"
  using istrncmp_cstr [OF assms, of n] istrncmp_cstr [OF assms(2,1), of n] istrncmp_eq_iff [OF assms, of n]
    str_diff_commute [of "unat n" "map tolower t" "map tolower s"] by simp

lemma lit_cstr: "s = ''Ab'' \<Longrightarrow> cstr (lit_mem s) 0 [0x41, 0x62]"
  by (simp add: lit_mem_def bytes_of_def)

lemma istrncmp_compares_witness: "istrncmp (lit_mem ''Ab'') (lit_mem ''Ab'') 0 0 5 = 0"
  using istrncmp_compares [OF lit_cstr [OF refl] lit_cstr [OF refl], of 5] by simp

text \<open>
  \<open>strncpy\<close> with bound \<open>n\<close> stores the first characters of the string and its
  terminator, \<open>n + 1\<close> bytes at most, and no byte outside them: the copy is terminated only
  when the string has at most \<open>n\<close> characters.
\<close>

lemma strncpy_stores:
  assumes "cstr m src s" and "length s < unat (dest - src)"
  shows "\<exists>m'. strncpy m dest src n = (dest + of_nat (Suc (min (length s) (unat n))), m')
    \<and> read_bytes m' dest (Suc (min (length s) (unat n))) = take (Suc (unat n)) (s @ [0])
    \<and> (\<forall>a. Suc (min (length s) (unat n)) \<le> unat (a - dest) \<longrightarrow> m' a = m a)
    \<and> (length s \<le> unat n \<longrightarrow> cstr m' dest s)"
proof -
  let ?k = "Suc (min (length s) (unat n))"
  let ?bs = "take ?k (s @ [0])"
  have len: "length ?bs = ?k" by simp
  have lt: "length s < 4294967296" by (rule cstr_length [OF assms(1)])
  from lt have small: "length ?bs \<le> 2 ^ 32" by simp
  have bs: "?bs = take (Suc (unat n)) (s @ [0])" by (simp add: min_def)
  let ?m' = "write_bytes m dest ?bs"
  have "cstr ?m' dest s" if "length s \<le> unat n"
    unfolding cstr_iff
  proof (intro conjI allI impI)
    have k: "?k = Suc (length s)" using that by simp
    have at: "?m' (dest + of_nat i) = (s @ [0]) ! i" if "i \<le> length s" for i
    proof -
      have "unat (of_nat i :: u32) = i" using that lt by (intro unat_of_nat_small) simp
      then show ?thesis using write_bytes_spec [OF small, of m dest "dest + of_nat i"] that k by simp
    qed
    show "?m' (dest + of_nat (length s)) = 0" using at [of "length s"] by simp
    show "?m' (dest + of_nat i) = s ! i" "s ! i \<noteq> 0" if "i < length s" for i
      using at [of i] cstr_nth [OF assms(1) that] that by (simp_all add: nth_append)
  qed
  moreover have "read_bytes ?m' dest ?k = take (Suc (unat n)) (s @ [0])"
    using write_bytes_read_bytes [OF small, of m dest] unfolding len by (simp only: bs)
  moreover have "?m' a = m a" if "?k \<le> unat (a - dest)" for a
    using write_bytes_spec [OF small, of m dest a] that len by simp
  ultimately show ?thesis using strncpy_cstr [OF assms, of n] by (simp add: Let_def)
qed

lemma strncpy_stores_witness:
  "\<exists>m'. strncpy (lit_mem ''Ab'') 100 0 1 = (102, m') \<and> m' 100 = 0x41 \<and> m' 101 = 0x62"
  using strncpy_stores [OF lit_cstr [OF refl], of 100 1] by auto

text \<open>
  \<open>trim\<close> returns, and what it returns is the string without the white space at its two
  ends.
\<close>

lemma trim_strips:
  assumes "cstr m p s" and "p \<noteq> 0" and "unat p + length s < 4294967296"
  shows "\<exists>r m'. trim m p = Some (r, m') \<and> cstr m' r (dropWhile isspace (rstrip s))"
  using trim_cstr [OF assms] .

lemma trim_strips_witness:
  "\<exists>r m'. trim (write_bytes (\<lambda>_. 0) 16 [32, 65, 9]) 16 = Some (r, m') \<and> cstr m' r [65]"
proof -
  have "cstr (write_bytes (\<lambda>_. 0) 16 [32, 65, 9]) 16 [32, 65, 9]" by simp
  from trim_strips [OF this] show ?thesis by (simp add: rstrip_def isspace_def)
qed

end
