(* ===== verification/Terminal.thy ===== *)
theory Terminal
  imports C_String
begin

text \<open>
  The text terminal of \<^verbatim>\<open>src/terminal/terminal.c\<close>: a cursor and the video memory it
  writes to. The terminal's globals and the byte memory form the record every later
  component extends with its own state.
\<close>

section \<open>State\<close>

definition VGA_WIDTH :: int where [const_defs]: "VGA_WIDTH = 80"
definition VGA_HEIGHT :: int where [const_defs]: "VGA_HEIGHT = 20"

record kterm =
  kmem :: mem
  video_mem :: u32
  terminal_row :: u16
  terminal_col :: u16

section \<open>Characters and the cursor\<close>

text \<open>
  Both operands are \<open>char\<close>, promoted to \<open>int\<close> with their sign before they are combined.
\<close>

definition terminal_make_char :: "u8 \<Rightarrow> u8 \<Rightarrow> u16" where
  "terminal_make_char c colour = ucast (push_bit 8 (scast colour :: u32) OR (scast c :: u32))"

definition terminal_putchar :: "'a kterm_scheme \<Rightarrow> int \<Rightarrow> int \<Rightarrow> u8 \<Rightarrow> u8 \<Rightarrow> 'a kterm_scheme" where
  "terminal_putchar s x y c colour =
     s\<lparr>kmem := write16 (kmem s) (video_mem s + 2 * word_of_int (y * VGA_WIDTH + x)) (terminal_make_char c colour)\<rparr>"

definition terminal_writechar :: "'a kterm_scheme \<Rightarrow> u8 \<Rightarrow> u8 \<Rightarrow> 'a kterm_scheme" where
  "terminal_writechar s c colour =
     (if c = 10 then s\<lparr>terminal_row := terminal_row s + 1, terminal_col := 0\<rparr>
      else
        let s1 = terminal_putchar s (uint (terminal_col s)) (uint (terminal_row s)) c colour;
            s2 = s1\<lparr>terminal_col := terminal_col s1 + 1\<rparr>
        in if uint (terminal_col s2) \<ge> VGA_WIDTH
           then s2\<lparr>terminal_col := 0, terminal_row := terminal_row s2 + 1\<rparr>
           else s2)"

definition terminal_initialize :: "'a kterm_scheme \<Rightarrow> 'a kterm_scheme" where
  "terminal_initialize s =
     (let s1 = s\<lparr>video_mem := 0xB8000, terminal_row := 0, terminal_col := 0\<rparr>
      in fold (\<lambda>y s. fold (\<lambda>x s. terminal_putchar s x y 32 0) [0..VGA_WIDTH - 1] s) [0..VGA_HEIGHT - 1] s1)"

section \<open>Printing\<close>

text \<open>
  \<open>view\<close> is how a pointer reaches memory: the identity while paging is off, the page
  tables in use afterwards. A string without a terminator never stops \<open>strlen\<close>.
\<close>

function print_loop :: "(mem \<Rightarrow> mem) \<Rightarrow> 'a kterm_scheme \<Rightarrow> u32 \<Rightarrow> u32 \<Rightarrow> u32 \<Rightarrow> 'a kterm_scheme" where
  "print_loop view s str len i =
     (if i < len then print_loop view (terminal_writechar s (view (kmem s) (str + i)) 15) str len (i + 1) else s)"
  by pat_completeness auto
termination
  by (relation "measure (\<lambda>(view, s, str, len, i). unat len - unat i)")
    (auto simp: unat_Suc_less word_less_nat_alt)

declare print_loop.simps [simp del]

definition print :: "(mem \<Rightarrow> mem) \<Rightarrow> 'a kterm_scheme \<Rightarrow> u32 \<Rightarrow> 'a kterm_scheme option" where
  "print view s str = do {
     len \<leftarrow> strlen (view (kmem s)) str;
     Some (print_loop view s str len 0)
   }"

text \<open>A literal cannot overlap video memory: its characters are written in turn.\<close>

fun print_bytes :: "'a kterm_scheme \<Rightarrow> u8 list \<Rightarrow> 'a kterm_scheme" where
  "print_bytes s [] = s"
| "print_bytes s (c # cs) = print_bytes (terminal_writechar s c 15) cs"

definition print_lit :: "'a kterm_scheme \<Rightarrow> string \<Rightarrow> 'a kterm_scheme" where
  "print_lit s str = print_bytes s (bytes_of str)"

partial_function (option) printf_loop ::
    "(mem \<Rightarrow> mem) \<Rightarrow> 'a kterm_scheme \<Rightarrow> u32 \<Rightarrow> u32 list \<Rightarrow> 'a kterm_scheme option" where
  "printf_loop view s ptr args =
     (let c = view (kmem s) ptr; d = view (kmem s) (ptr + 1) in
      if c = 0 then Some s
      else if c = 37 then
        (if d = 115 then
           (case args of
              [] \<Rightarrow> None
            | a # args' \<Rightarrow> Option.bind (print view s a) (\<lambda>s'. printf_loop view s' (ptr + 2) args'))
         else if d = 37 then printf_loop view (terminal_writechar s 37 15) (ptr + 2) args
         else printf_loop view s (ptr + 2) args)
      else printf_loop view (terminal_writechar s c 15) (ptr + 1) args)"

definition printf :: "(mem \<Rightarrow> mem) \<Rightarrow> 'a kterm_scheme \<Rightarrow> u32 \<Rightarrow> u32 list \<Rightarrow> 'a kterm_scheme option" where
  "printf view s fmt args = printf_loop view s fmt args"

section \<open>The cursor stays on the line; cells outside the written ones are kept\<close>

definition cursor_ok :: "'a kterm_scheme \<Rightarrow> bool" where
  "cursor_ok s \<longleftrightarrow> uint (terminal_col s) < VGA_WIDTH"

text \<open>The reference for the cursor: row and column after printing a string.\<close>

fun cursor_after :: "nat \<times> nat \<Rightarrow> u8 list \<Rightarrow> nat \<times> nat" where
  "cursor_after rc [] = rc"
| "cursor_after (r, c) (x # xs) =
     cursor_after (if x = 10 then (Suc r, 0) else if Suc c < 80 then (r, Suc c) else (Suc r, 0)) xs"

lemma terminal_putchar_simps [simp, frame_simps]:
  "video_mem (terminal_putchar s x y c k) = video_mem s"
  "terminal_row (terminal_putchar s x y c k) = terminal_row s"
  "terminal_col (terminal_putchar s x y c k) = terminal_col s"
  by (simp_all add: terminal_putchar_def)

lemma terminal_writechar_video [simp, frame_simps]: "video_mem (terminal_writechar s c k) = video_mem s"
  by (simp add: terminal_writechar_def Let_def)

lemma print_bytes_video [simp, frame_simps]: "video_mem (print_bytes s cs) = video_mem s"
  by (induction cs arbitrary: s) simp_all

lemma unat_u16_Suc: "unat (w :: u16) < 65535 \<Longrightarrow> unat (w + 1) = Suc (unat w)"
  by (simp add: unat_word_ariths)

lemma col_Suc:
  assumes "unat (w :: u16) < 80"
  shows "uint (w + 1) \<ge> VGA_WIDTH \<longleftrightarrow> unat w = 79"
proof -
  have "uint (w + 1) = int (unat (w + 1))" by simp
  moreover have "unat (w + 1) = Suc (unat w)" using assms by (intro unat_u16_Suc) simp
  ultimately show ?thesis using assms by (simp only: VGA_WIDTH_def) linarith
qed

lemma cursor_ok_nat: "cursor_ok s \<longleftrightarrow> unat (terminal_col s) < 80"
proof -
  have "uint (terminal_col s) = int (unat (terminal_col s))" by simp
  then show ?thesis by (simp only: cursor_ok_def VGA_WIDTH_def) linarith
qed

lemma writechar_cursor:
  assumes "cursor_ok s"
  shows "unat (terminal_col (terminal_writechar s c k))
      = (if c = 10 \<or> unat (terminal_col s) = 79 then 0 else Suc (unat (terminal_col s)))"
    and "terminal_row (terminal_writechar s c k)
      = (if c = 10 \<or> unat (terminal_col s) = 79 then terminal_row s + 1 else terminal_row s)"
  using assms col_Suc [of "terminal_col s"] unat_u16_Suc [of "terminal_col s"]
  by (auto simp: terminal_writechar_def Let_def cursor_ok_nat)

lemma writechar_cursor_ok: "cursor_ok s \<Longrightarrow> cursor_ok (terminal_writechar s c k)"
  using writechar_cursor(1) [of s c k] by (auto simp: cursor_ok_nat)

lemma print_bytes_cursor_ok: "cursor_ok s \<Longrightarrow> cursor_ok (print_bytes s cs)"
  by (induction cs arbitrary: s) (simp_all add: writechar_cursor_ok)

lemma print_bytes_cursor:
  assumes "cursor_ok s"
  shows "cursor_after (unat (terminal_row s), unat (terminal_col s)) cs = (r, c) \<Longrightarrow>
    unat (terminal_row (print_bytes s cs)) = r mod 65536 \<and> unat (terminal_col (print_bytes s cs)) = c"
proof -
  have "terminal_row (print_bytes s cs) = of_nat r' + terminal_row s - of_nat r0
      \<and> unat (terminal_col (print_bytes s cs)) = c'"
    if "cursor_after (r0, unat (terminal_col s)) cs = (r', c')" "cursor_ok s" for r0 r' c' s cs
    using that
  proof (induction cs arbitrary: s r0)
    case Nil
    then show ?case by simp
  next
    case (Cons x xs)
    let ?s = "terminal_writechar s x 15"
    have lt: "unat (terminal_col s) < 80" using Cons.prems(2) by (simp add: cursor_ok_nat)
    have "cursor_after (if x = 10 \<or> unat (terminal_col s) = 79 then Suc r0 else r0, unat (terminal_col ?s)) xs
        = (r', c')"
      using Cons.prems(1) lt writechar_cursor(1) [OF Cons.prems(2), of x 15] by (auto split: if_splits)
    from Cons.IH [OF this writechar_cursor_ok [OF Cons.prems(2)]] show ?case
      using writechar_cursor(2) [OF Cons.prems(2), of x 15] by auto
  qed
  from this [OF _ assms, of "unat (terminal_row s)" cs r c] show ?thesis
    if "cursor_after (unat (terminal_row s), unat (terminal_col s)) cs = (r, c)"
    using that by (simp add: unat_of_nat)
qed

text \<open>
  Row and column are 16-bit, so the cells the terminal can reach lie in the 10485760 bytes
  from the start of video memory, far past the visible screen.
\<close>

lemma write16_outside:
  "a \<noteq> p \<Longrightarrow> a \<noteq> p + 1 \<Longrightarrow> write16 m p v a = m a"
  by (simp add: write16_def)

lemma writechar_frame:
  assumes "cursor_ok s" and "\<not> in_region (video_mem s) 10485760 a"
  shows "kmem (terminal_writechar s c k) a = kmem s a"
proof -
  let ?n = "nat (uint (terminal_row s) * 80 + uint (terminal_col s))"
  have row: "uint (terminal_row s) < 65536" and row0: "0 \<le> uint (terminal_row s)"
    using uint_lt2p [of "terminal_row s"] by simp_all
  have col: "uint (terminal_col s) < 80" "0 \<le> uint (terminal_col s)"
    using assms(1) by (simp_all add: cursor_ok_def const_defs)
  have n: "2 * ?n + 1 < 10485760" using row row0 col by linarith
  have off: "a - video_mem s \<noteq> of_nat j" if "j < 10485760" for j
  proof
    assume "a - video_mem s = of_nat j"
    then have "unat (a - video_mem s) = j" using that by (simp add: unat_of_nat)
    with assms(2) that show False by (simp add: in_region_def word_less_nat_alt)
  qed
  have "word_of_int (uint (terminal_row s) * 80 + uint (terminal_col s)) = (of_nat ?n :: u32)"
    using row0 col by (simp add: of_nat_nat)
  then have addr: "video_mem s + 2 * word_of_int (uint (terminal_row s) * VGA_WIDTH + uint (terminal_col s))
      = video_mem s + of_nat (2 * ?n)" by (simp add: const_defs)
  have "a \<noteq> video_mem s + of_nat (2 * ?n)" "a \<noteq> video_mem s + of_nat (2 * ?n) + 1"
    using off [of "2 * ?n"] off [of "2 * ?n + 1"] n by (auto simp: algebra_simps)
  then show ?thesis
    unfolding terminal_writechar_def Let_def terminal_putchar_def addr
    by (simp add: write16_outside)
qed

lemma print_bytes_frame:
  assumes "cursor_ok s" and "\<not> in_region (video_mem s) 10485760 a"
  shows "kmem (print_bytes s cs) a = kmem s a"
  using assms by (induction cs arbitrary: s) (simp_all add: writechar_frame writechar_cursor_ok)

text \<open>
  Printing a string in memory is printing its characters, when it lies outside the bytes
  the terminal can write.
\<close>

lemma print_loop_bytes:
  assumes "cursor_ok s" and "cstr (kmem s) (str + i) cs" and "i \<le> len" and "unat i + length cs = unat len"
    and "\<And>j. j \<le> length cs \<Longrightarrow> \<not> in_region (video_mem s) 10485760 (str + i + of_nat j)"
  shows "print_loop (\<lambda>m. m) s str len i = print_bytes s cs"
  using assms
proof (induction cs arbitrary: s i)
  case Nil
  then have "i = len" by (simp add: word_unat_eq_iff)
  then show ?case by (subst print_loop.simps) simp
next
  case (Cons c cs)
  let ?s = "terminal_writechar s c 15"
  have lt: "i < len" using Cons.prems(4) by (simp add: word_less_nat_alt)
  then have Suc_i: "unat (i + 1) = Suc (unat i)" by (rule unat_Suc_less)
  have out: "\<not> in_region (video_mem s) 10485760 (str + (i + 1) + of_nat j)" if "j \<le> length cs" for j
    using Cons.prems(5) [of "Suc j"] that by (simp add: add.assoc)
  have "cstr (kmem s) (str + (i + 1)) cs" using Cons.prems(2) by (simp add: add.assoc)
  then have "cstr (kmem ?s) (str + (i + 1)) cs"
    by (rule cstr_cong) (use out Cons.prems(1) in \<open>simp add: writechar_frame\<close>)
  moreover have "i + 1 \<le> len" "unat (i + 1) + length cs = unat len"
    using Suc_i Cons.prems(4) lt by (simp_all add: word_le_nat_alt word_less_nat_alt)
  ultimately have "print_loop (\<lambda>m. m) ?s str len (i + 1) = print_bytes ?s cs"
    using Cons.IH [of ?s "i + 1"] writechar_cursor_ok [OF Cons.prems(1)] out by simp
  moreover have "kmem s (str + i) = c" using Cons.prems(2) by simp
  ultimately show ?case using lt by (subst print_loop.simps) simp
qed

lemma print_cstr:
  assumes "cursor_ok s" and "cstr (kmem s) str cs"
    and "\<And>j. j \<le> length cs \<Longrightarrow> \<not> in_region (video_mem s) 10485760 (str + of_nat j)"
  shows "print (\<lambda>m. m) s str = Some (print_bytes s cs)"
  using print_loop_bytes [of s str 0 cs "of_nat (length cs)"] assms cstr_unat_length [OF assms(2)]
  by (simp add: print_def strlen_cstr)

section \<open>Properties\<close>


definition blank_term :: "mem \<Rightarrow> kterm" where
  "blank_term m = \<lparr>kmem = m, video_mem = 0xB8000, terminal_row = 0, terminal_col = 0\<rparr>"


text \<open>
  The cell for a character: a character below 0x80 gets the colour asked for, one from
  0x80 on overwrites the attribute byte with 0xFF, because \<^verbatim>\<open>char\<close> is signed.
\<close>

lemma terminal_make_char_cell:
  "terminal_make_char c colour
     = (if sint c < 0 then 0xFF00 OR ucast c else push_bit 8 (ucast colour) OR ucast c)"
proof (rule bit_word_eqI)
  fix n
  assume n: "n < LENGTH(16)"
  have sgn: "sint c < 0 \<longleftrightarrow> bit c 7" by (simp add: sint_uint signed_take_bit_negative_iff bit_uint_iff)
  have ff: "bit (0xFF00 :: u16) n \<longleftrightarrow> 8 \<le> n"
  proof -
    have "(0xFF00 :: u16) = push_bit 8 (mask 8)" by (simp add: mask_eq_exp_minus_1 push_bit_eq_mult)
    then have "bit (0xFF00 :: u16) n = bit (push_bit 8 (mask 8) :: u16) n" by (simp only:)
    also have "\<dots> \<longleftrightarrow> 8 \<le> n" using n by (simp add: bit_push_bit_iff bit_mask_iff) linarith
    finally show ?thesis .
  qed
  have ff': "bit (0xFF00 OR ucast c :: u16) n \<longleftrightarrow> 8 \<le> n \<or> bit c n"
    using n by (simp only: bit_or_iff ff) (auto simp: bit_simps)
  from n consider "n < 7" | "n = 7" | "8 \<le> n" "n < 15" | "n = 15" by fastforce
  then show "bit (terminal_make_char c colour) n
    = bit (if sint c < 0 then 0xFF00 OR ucast c else push_bit 8 (ucast colour) OR ucast c :: u16) n"
    unfolding if_distrib [of "\<lambda>w. bit w n"] ff' sgn
    by cases (auto simp: terminal_make_char_def bit_simps min_def dest: bit_imp_le_length)
qed

end
