(* ===== verification/Allocator.thy ===== *)
theory Allocator
  imports C_String
begin

text \<open>
  The contract between the kernel heap and its clients (path parser, paging, file system,
  tasks): what a client may rely on after \<open>kzalloc\<close>, without looking at the block table.
  \<open>avail s a\<close> says that the byte at \<open>a\<close> may still be handed out; everything else
  (allocated blocks, and memory outside the pool) is not touched by an allocation.

  Sizes up to 4294963200 bytes are covered: above that the code's rounding to whole blocks
  wraps to zero.
\<close>

definition size_ok :: "u32 \<Rightarrow> bool" where
  "size_ok n \<longleftrightarrow> unat n \<le> 4294963200"

locale allocator =
  fixes alloc :: "u32 \<Rightarrow> 's \<Rightarrow> (u32 \<times> 's) option"
    and ok :: "'s \<Rightarrow> bool"
    and avail :: "'s \<Rightarrow> u32 \<Rightarrow> bool"
    and bytes :: "'s \<Rightarrow> mem"
  assumes alloc_ok: "ok s \<Longrightarrow> size_ok n \<Longrightarrow> alloc n s = Some (p, s') \<Longrightarrow> ok s'"
    and alloc_fail: "ok s \<Longrightarrow> alloc n s = Some (0, s') \<Longrightarrow> s' = s"
    and alloc_fresh: "ok s \<Longrightarrow> size_ok n \<Longrightarrow> alloc n s = Some (p, s') \<Longrightarrow> p \<noteq> 0 \<Longrightarrow>
      in_region p n a \<Longrightarrow> avail s a \<and> \<not> avail s' a \<and> bytes s' a = 0"
    and alloc_keep: "ok s \<Longrightarrow> size_ok n \<Longrightarrow> alloc n s = Some (p, s') \<Longrightarrow>
      \<not> avail s a \<Longrightarrow> \<not> avail s' a \<and> bytes s' a = bytes s a"
    and alloc_aligned: "ok s \<Longrightarrow> alloc n s = Some (p, s') \<Longrightarrow> p mod 4096 = 0"
    and avail_page: "ok s \<Longrightarrow> page_frame a = page_frame b \<Longrightarrow> avail s a = avail s b"
begin

text \<open>An allocated block keeps its whole last page.\<close>

lemma alloc_page:
  assumes "ok s" "size_ok n" "alloc n s = Some (p, s')" "p \<noteq> 0" "n \<noteq> 0"
  shows "page_frame a = p \<Longrightarrow> avail s a \<and> \<not> avail s' a"
proof -
  assume a: "page_frame a = p"
  have "in_region p n p" using assms(5) by (simp add: in_region_def word_neq_0_conv)
  then have "avail s p \<and> \<not> avail s' p" using alloc_fresh [OF assms(1-4)] by blast
  moreover have "page_frame a = page_frame p"
    using a page_frame_id [OF alloc_aligned [OF assms(1,3)]] by simp
  ultimately show ?thesis
    using avail_page [OF assms(1)] avail_page [OF alloc_ok [OF assms(1-3)]] by blast
qed

text \<open>Two blocks that are live together do not overlap.\<close>

lemma alloc_disjoint:
  assumes "ok s" "size_ok n" "alloc n s = Some (p, s')"
    and "ok t" "size_ok k" "alloc k t = Some (q, t')" "q \<noteq> 0"
    and "p \<noteq> 0" and "\<And>a. \<not> avail s' a \<Longrightarrow> \<not> avail t a"
  shows "\<not> (in_region p n a \<and> in_region q k a)"
  using alloc_fresh [OF assms(1-3) assms(8), of a] alloc_fresh [OF assms(4-7), of a] assms(9) by blast

lemma alloc_keeps_string:
  assumes "ok s" "size_ok n" "alloc n s = Some (p, s')"
    and "cstr (bytes s) q str" and "\<And>i. i \<le> length str \<Longrightarrow> \<not> avail s (q + of_nat i)"
  shows "cstr (bytes s') q str \<and> (\<forall>i \<le> length str. \<not> avail s' (q + of_nat i))"
  using alloc_keep [OF assms(1-3)] assms(5) by (auto intro: cstr_cong [OF assms(4)])

lemma alloc_keeps_word:
  assumes "ok s" "size_ok n" "alloc n s = Some (p, s')"
    and "\<And>i. i < 4 \<Longrightarrow> \<not> avail s (q + of_nat i)"
  shows "read32 (bytes s') q = read32 (bytes s) q"
proof (rule read32_cong)
  show "bytes s' q = bytes s q" using alloc_keep [OF assms(1-3)] assms(4) [of 0] by simp
  show "bytes s' (q + 1) = bytes s (q + 1)" using alloc_keep [OF assms(1-3)] assms(4) [of 1] by simp
  show "bytes s' (q + 2) = bytes s (q + 2)" using alloc_keep [OF assms(1-3)] assms(4) [of 2] by simp
  show "bytes s' (q + 3) = bytes s (q + 3)" using alloc_keep [OF assms(1-3)] assms(4) [of 3] by simp
qed

end

text \<open>
  The same contract with release. \<open>live s p\<close> says that \<open>p\<close> was handed out and not
  released; only such a pointer may be released, and nothing else is released with it.
\<close>

locale freeing_allocator = allocator alloc ok avail bytes
  for alloc :: "u32 \<Rightarrow> 's \<Rightarrow> (u32 \<times> 's) option" and ok avail bytes +
  fixes dealloc :: "u32 \<Rightarrow> 's \<Rightarrow> 's option"
    and live :: "'s \<Rightarrow> u32 \<Rightarrow> bool"
  assumes alloc_live: "ok s \<Longrightarrow> size_ok n \<Longrightarrow> n \<noteq> 0 \<Longrightarrow> alloc n s = Some (p, s') \<Longrightarrow> p \<noteq> 0 \<Longrightarrow>
      \<not> live s p \<and> (live s' q \<longleftrightarrow> q = p \<or> live s q)"
    and dealloc_live: "ok s \<Longrightarrow> live s p \<Longrightarrow> \<exists>s'. dealloc p s = Some s' \<and> ok s' \<and> bytes s' = bytes s
      \<and> (\<forall>q. live s' q \<longleftrightarrow> live s q \<and> q \<noteq> p) \<and> (\<forall>a. avail s a \<longrightarrow> avail s' a)"
    and alloc_dealloc: "ok s \<Longrightarrow> size_ok n \<Longrightarrow> n \<noteq> 0 \<Longrightarrow> alloc n s = Some (p, s') \<Longrightarrow> p \<noteq> 0 \<Longrightarrow>
      \<exists>s''. dealloc p s' = Some s'' \<and> ok s'' \<and> avail s'' = avail s \<and> live s'' = live s"

text \<open>Releasing a list of pointers in turn.\<close>

fun free_all :: "(u32 \<Rightarrow> 's \<Rightarrow> 's option) \<Rightarrow> u32 list \<Rightarrow> 's \<Rightarrow> 's option" where
  "free_all dealloc [] s = Some s"
| "free_all dealloc (p # ps) s = Option.bind (dealloc p s) (free_all dealloc ps)"

lemma free_all_append: "free_all f (ps @ qs) s = Option.bind (free_all f ps s) (free_all f qs)"
proof (induction ps arbitrary: s)
  case (Cons p ps)
  then show ?case by (cases "f p s") simp_all
qed simp

context freeing_allocator
begin

lemma free_all_live:
  assumes "ok s" and "distinct ps" and "\<And>p. p \<in> set ps \<Longrightarrow> live s p"
  shows "\<exists>s'. free_all dealloc ps s = Some s' \<and> ok s' \<and> bytes s' = bytes s
    \<and> (\<forall>q. live s' q \<longleftrightarrow> live s q \<and> q \<notin> set ps) \<and> (\<forall>a. avail s a \<longrightarrow> avail s' a)"
  using assms
proof (induction ps arbitrary: s)
  case Nil
  then show ?case by simp
next
  case (Cons p ps)
  obtain s1 where s1: "dealloc p s = Some s1" "ok s1" "bytes s1 = bytes s"
    "\<And>q. live s1 q \<longleftrightarrow> live s q \<and> q \<noteq> p" "\<And>a. avail s a \<Longrightarrow> avail s1 a"
    using dealloc_live [OF Cons.prems(1), of p] Cons.prems(3) by auto
  have "\<And>q. q \<in> set ps \<Longrightarrow> live s1 q" using s1(4) Cons.prems(2,3) by auto
  with Cons.IH [OF s1(2)] Cons.prems(2) obtain s2 where "free_all dealloc ps s1 = Some s2" "ok s2"
    "bytes s2 = bytes s1" "\<And>q. live s2 q \<longleftrightarrow> live s1 q \<and> q \<notin> set ps" "\<And>a. avail s1 a \<Longrightarrow> avail s2 a"
    by auto
  with s1 show ?case by auto
qed

end

text \<open>
  The same contract with the extent of a live block: the bytes that come back when it is
  released, which are its own and nobody else's.
\<close>

locale extent_allocator = freeing_allocator alloc ok avail bytes dealloc live
  for alloc :: "u32 \<Rightarrow> 's \<Rightarrow> (u32 \<times> 's) option" and ok avail bytes dealloc live +
  fixes extent :: "'s \<Rightarrow> u32 \<Rightarrow> u32 \<Rightarrow> bool"
  assumes extent_fresh: "ok s \<Longrightarrow> size_ok n \<Longrightarrow> n \<noteq> 0 \<Longrightarrow> alloc n s = Some (p, s') \<Longrightarrow> p \<noteq> 0 \<Longrightarrow>
      extent s' p a \<Longrightarrow> avail s a"
    and extent_live: "ok s \<Longrightarrow> size_ok n \<Longrightarrow> n \<noteq> 0 \<Longrightarrow> alloc n s = Some (p, s') \<Longrightarrow> p \<noteq> 0 \<Longrightarrow> live s q \<Longrightarrow>
      extent s' q a = extent s q a"
    and extent_taken: "ok s \<Longrightarrow> extent s p a \<Longrightarrow> \<not> avail s a"
    and extent_dealloc: "ok s \<Longrightarrow> live s p \<Longrightarrow> dealloc p s = Some s' \<Longrightarrow> \<not> avail s a \<Longrightarrow> \<not> extent s p a \<Longrightarrow>
      \<not> avail s' a"
begin

text \<open>A block allocated for a while: releasing it does not expose what was taken before it, nor what was taken after it.\<close>

lemma temporary_block:
  assumes "ok s" "size_ok n" "n \<noteq> 0" "alloc n s = Some (p, s1)" "p \<noteq> 0"
    and "ok s1" "size_ok k" "k \<noteq> 0" "alloc k s1 = Some (q, s2)" "q \<noteq> 0"
    and "ok s2" "live s2 p" "dealloc p s2 = Some s3" and "\<not> avail s a \<or> in_region q k a"
  shows "\<not> avail s3 a"
proof -
  have live1: "live s1 p" using alloc_live [OF assms(1-5)] by blast
  have ext: "extent s2 p a = extent s1 p a" using extent_live [OF assms(6-8,9,10) live1] .
  from assms(14) have "\<not> extent s1 p a"
  proof
    assume "\<not> avail s a"
    then show ?thesis using extent_fresh [OF assms(1-5)] by blast
  next
    assume "in_region q k a"
    then have "avail s1 a" using alloc_fresh [OF assms(6,7,9,10)] by blast
    then show ?thesis using extent_taken [OF assms(6)] by blast
  qed
  moreover have "\<not> avail s2 a"
    using assms(14) alloc_keep [OF assms(1,2,4)] alloc_keep [OF assms(6,7,9)] alloc_fresh [OF assms(6,7,9,10)] by blast
  ultimately show ?thesis using extent_dealloc [OF assms(11-13)] ext by blast
qed

end

end
