(* ===== verification/Kheap.thy ===== *)
theory Kheap
  imports Heap Terminal Allocator
begin

text \<open>
  The kernel heap of \<^verbatim>\<open>src/memory/heap/kheap.c\<close>: one heap over the pool at
  \<open>NUTSOS_HEAP_ADDRESS\<close>, with its table in low memory, and \<open>kmalloc\<close>, \<open>kzalloc\<close>,
  \<open>kfree\<close>. The heap keeps the table as its own object; the pool's bytes are in the byte
  memory.
\<close>

section \<open>The kernel heap\<close>

record kheap_state = kterm +
  kernel_heap :: heap

definition kheap_init :: "'a kheap_state_scheme \<Rightarrow> 'a kheap_state_scheme option" where
  "kheap_init s =
     (let total_table_entries = NUTSOS_HEAP_SIZE_BYTES div NUTSOS_HEAP_BLOCK_SIZE;
          kernel_heap_table = \<lparr>entries = read_bytes (kmem s) NUTSOS_HEAP_TABLE_ADDRESS (unat total_table_entries),
                               total = total_table_entries\<rparr>;
          end_ptr = NUTSOS_HEAP_ADDRESS + NUTSOS_HEAP_SIZE_BYTES
      in do {
        (res, h) \<leftarrow> heap_create (kernel_heap s) NUTSOS_HEAP_ADDRESS end_ptr kernel_heap_table;
        let s1 = s\<lparr>kernel_heap := h\<rparr>;
        Some (if res < 0 then print_lit s1 (''Failed to create heap'' @ [CHR 0x0A]) else s1)
      })"

definition kmalloc :: "u32 \<Rightarrow> 'a kheap_state_scheme \<Rightarrow> (u32 \<times> 'a kheap_state_scheme) option" where
  "kmalloc sz s = do {
     (p, h) \<leftarrow> heap_malloc (kernel_heap s) sz;
     Some (p, s\<lparr>kernel_heap := h\<rparr>)
   }"

definition kzalloc :: "u32 \<Rightarrow> 'a kheap_state_scheme \<Rightarrow> (u32 \<times> 'a kheap_state_scheme) option" where
  "kzalloc sz s = do {
     (ptr, s1) \<leftarrow> kmalloc sz s;
     (if ptr = 0 then Some (0, s1)
      else Some (ptr, s1\<lparr>kmem := memset (kmem s1) ptr 0 sz\<rparr>))
   }"

definition kfree :: "u32 \<Rightarrow> 'a kheap_state_scheme \<Rightarrow> 'a kheap_state_scheme option" where
  "kfree ptr s = do {
     h \<leftarrow> heap_free (kernel_heap s) ptr;
     Some (s\<lparr>kernel_heap := h\<rparr>)
   }"

section \<open>Bytes of the pool\<close>

text \<open>
  A byte of the pool belongs to the block given by its distance from the pool's start; it
  is free when that block's entry is.
\<close>

definition pool_block :: "heap \<Rightarrow> u32 \<Rightarrow> nat" where
  "pool_block h a = unat (a - saddr h) div 4096"

definition free_byte :: "heap \<Rightarrow> u32 \<Rightarrow> bool" where
  "free_byte h a \<longleftrightarrow> pool_block h a < length (blocks h) \<and> is_free (blocks h ! pool_block h a)"

lemma pool_block_run [simp]: "pool_block (mark_run h b n) a = pool_block h a"
  by (simp add: pool_block_def)

lemma region_pool_block:
  assumes "heap_shape h" and "b + n \<le> length (blocks h)" and "unat sz \<le> 4096 * n"
    and "in_region (block_addr h b) sz a"
  shows "b \<le> pool_block h a \<and> pool_block h a < b + n"
proof -
  let ?o = "unat (a - saddr h)"
  let ?d = "unat (a - block_addr h b)"
  have d: "?d < 4096 * n" using assms(3,4) by (simp add: in_region_def word_less_nat_alt)
  then have "0 < n" by (cases n) simp_all
  have b: "b < 524288" "4096 * (b + n) < 4294967296"
    using assms(1,2) \<open>0 < n\<close> by (simp_all add: heap_shape_def)
  have "?o = unat ((a - block_addr h b) + of_nat b * 4096)" by (simp add: block_addr_def)
  then have "?o = (?d + 4096 * b) mod 4294967296"
    by (simp only: unat_word_ariths(1) unat_block_offset [OF b(1)]) simp
  then have o: "?o = ?d + 4096 * b" using d b(2) by simp
  then have "b \<le> ?o div 4096" by (simp add: less_eq_div_iff_mult_less_eq)
  moreover have "?o div 4096 < b + n" using o d by (simp add: div_less_iff_less_mult algebra_simps)
  ultimately show ?thesis by (simp add: pool_block_def)
qed

lemma blocks_for_covers: "size_ok sz \<Longrightarrow> unat sz \<le> 4096 * blocks_for sz"
  by (simp add: size_ok_def blocks_for_exact)

lemma free_byte_mark:
  assumes "run_free (blocks h) b n"
  shows "free_byte (mark_run h b n) a \<longleftrightarrow> free_byte h a \<and> \<not> (b \<le> pool_block h a \<and> pool_block h a < b + n)"
  using assms by (auto simp: free_byte_def split: if_splits)

lemma live_not_free:
  assumes "heap_wf h" and "live_block h p"
  shows "\<not> free_byte h p"
proof -
  obtain b n where b: "p = block_addr h b" "chunk_at (blocks h) b n" using assms(2) by (auto simp: live_block_def)
  have "0 < n" "b + n \<le> length (blocks h)" using b(2) by (auto simp: chunk_at_def)
  moreover have "heap_shape h" using assms(1) by (simp add: heap_wf_def)
  ultimately have "pool_block h p = b"
    using region_pool_block [of h b 1 1 p] b(1) by (simp add: in_region_def)
  moreover have "blocks h ! b = run_entry n 0"
    using b(2) \<open>0 < n\<close> by (auto simp: chunk_at_def dest: spec [of _ 0])
  ultimately show ?thesis by (simp add: free_byte_def)
qed

text \<open>
  What a successful \<open>kzalloc\<close> did: it took a run of free blocks that covers the size and
  zeroed the bytes asked for.
\<close>

lemma kzalloc_cases:
  assumes "heap_wf (kernel_heap s)" and "kzalloc sz s = Some (p, s')"
  obtains (fail) "p = 0" "s' = s"
  | (run) b where "p = block_addr (kernel_heap s) b" "p \<noteq> 0" "b < length (blocks (kernel_heap s))"
      "run_free (blocks (kernel_heap s)) b (blocks_for sz)"
      "s' = s\<lparr>kernel_heap := mark_run (kernel_heap s) b (blocks_for sz), kmem := memset (kmem s) p 0 sz\<rparr>"
proof -
  from assms(2) obtain h where h: "heap_malloc (kernel_heap s) sz = Some (p, h)"
    and s': "s' = (if p = 0 then s\<lparr>kernel_heap := h\<rparr>
      else s\<lparr>kernel_heap := h, kmem := memset (kmem s) p 0 sz\<rparr>)"
    by (auto simp: kzalloc_def kmalloc_def bind_eq_Some_conv split: if_splits)
  have "heap_shape (kernel_heap s)" using assms(1) by (simp add: heap_wf_def)
  from heap_malloc_Some [OF this h] show ?thesis
    using s' fail run by (elim disjE) auto
qed

text \<open>An allocation changes the heap and the bytes of memory, nothing else.\<close>

lemma kzalloc_upd: "kzalloc sz s = Some (p, s') \<Longrightarrow> \<exists>h m. s' = s\<lparr>kernel_heap := h, kmem := m\<rparr>"
  by (auto simp: kzalloc_def kmalloc_def bind_eq_Some_conv split: if_splits)
    (metis kheap_state.surjective kheap_state.update_convs kterm.surjective kterm.update_convs)

lemma block_addr_aligned: "heap_shape h \<Longrightarrow> block_addr h b mod 4096 = 0"
  by (simp add: block_addr_def heap_shape_def page_aligned_add page_aligned_mult)

lemma pool_block_page:
  assumes "saddr h mod 4096 = 0"
  shows "pool_block h a = unat (page_frame a - saddr h) div 4096"
proof -
  have "a - saddr h = (page_frame a - saddr h) + page_offset a"
    by (simp add: page_frame_minus)
  then have "unat (a - saddr h) = unat (page_frame a - saddr h) + unat (page_offset a)"
    using unat_page_add [OF page_aligned_minus [OF page_frame_aligned assms] page_offset_less] by metis
  moreover have "4096 dvd unat (page_frame a - saddr h)"
    using page_aligned_minus [OF page_frame_aligned assms] by (simp only: page_aligned_iff)
  ultimately show ?thesis using page_offset_less [of a] by (auto simp: pool_block_def elim!: dvdE)
qed

section \<open>The kernel heap keeps the allocator's contract\<close>

interpretation kz: allocator kzalloc "\<lambda>s. heap_wf (kernel_heap s)"
  "\<lambda>s. free_byte (kernel_heap s)" kmem
proof unfold_locales
  fix s s' :: "'a kheap_state_scheme" and n p a :: u32
  assume wf: "heap_wf (kernel_heap s)" and k: "kzalloc n s = Some (p, s')"
  have shape: "heap_shape (kernel_heap s)" using wf by (simp add: heap_wf_def)
  show "p mod 4096 = 0"
    by (cases rule: kzalloc_cases [OF wf k]) (simp_all add: block_addr_aligned shape)
  assume n: "size_ok n"
  have region: "b \<le> pool_block (kernel_heap s) x \<and> pool_block (kernel_heap s) x < b + blocks_for n
      \<and> free_byte (kernel_heap s) x"
    if "run_free (blocks (kernel_heap s)) b (blocks_for n)" "in_region (block_addr (kernel_heap s) b) n x" for b x
  proof -
    from that(1) have "b + blocks_for n \<le> length (blocks (kernel_heap s))" by (simp add: run_free_def)
    from region_pool_block [OF shape this blocks_for_covers [OF n] that(2)] show ?thesis
      using run_free_taken [OF that(1)] \<open>b + blocks_for n \<le> _\<close> by (simp add: free_byte_def)
  qed
  show "heap_wf (kernel_heap s')"
    by (cases rule: kzalloc_cases [OF wf k]) (simp_all add: wf heap_wf_mark)
  {
    assume "p \<noteq> 0" "in_region p n a"
    then show "free_byte (kernel_heap s) a \<and> \<not> free_byte (kernel_heap s') a \<and> kmem s' a = 0"
      by (cases rule: kzalloc_cases [OF wf k]) (use region in \<open>simp_all add: free_byte_mark memset_apply\<close>)
  next
    assume "\<not> free_byte (kernel_heap s) a"
    then show "\<not> free_byte (kernel_heap s') a \<and> kmem s' a = kmem s a"
      by (cases rule: kzalloc_cases [OF wf k]) (use region in \<open>auto simp: free_byte_mark memset_apply\<close>)
  }
next
  fix s :: "'a kheap_state_scheme" and a b :: u32
  assume wf: "heap_wf (kernel_heap s)" and ab: "page_frame a = page_frame b"
  have "saddr (kernel_heap s) mod 4096 = 0" using wf by (simp add: heap_wf_def heap_shape_def)
  from pool_block_page [OF this, of a] pool_block_page [OF this, of b] ab
  show "free_byte (kernel_heap s) a = free_byte (kernel_heap s) b" by (simp add: free_byte_def)
qed (auto elim: kzalloc_cases)

text \<open>The address handed out is a live block, and releasing it undoes the allocation.\<close>

lemma kfree_live:
  assumes "heap_wf (kernel_heap s)" and "live_block (kernel_heap s) p"
  shows "\<exists>h. kfree p s = Some (s\<lparr>kernel_heap := h\<rparr>) \<and> heap_wf h
    \<and> (\<forall>q. live_block h q \<longleftrightarrow> live_block (kernel_heap s) q \<and> q \<noteq> p)
    \<and> (\<forall>a. free_byte (kernel_heap s) a \<longrightarrow> free_byte h a)"
proof -
  obtain b n where b: "heap_free (kernel_heap s) p = Some (clear_run (kernel_heap s) b n)"
    "heap_wf (clear_run (kernel_heap s) b n)"
    "\<forall>q. live_block (clear_run (kernel_heap s) b n) q \<longleftrightarrow> live_block (kernel_heap s) q \<and> q \<noteq> p"
    using heap_free_live [OF assms] by blast
  have "free_byte (clear_run (kernel_heap s) b n) a" if "free_byte (kernel_heap s) a" for a
    using that by (auto simp: free_byte_def pool_block_def)
  with b show ?thesis by (auto simp: kfree_def)
qed

lemma kzalloc_kfree:
  assumes "heap_wf (kernel_heap s)" and "size_ok n" and "n \<noteq> 0"
    and "kzalloc n s = Some (p, s')" and "p \<noteq> 0"
  shows "kfree p s' = Some (s'\<lparr>kernel_heap := kernel_heap s\<rparr>)"
proof (rule kzalloc_cases [OF assms(1,4)])
  fix b
  let ?h = "kernel_heap s"
  assume b: "p = block_addr ?h b" and run: "run_free (blocks ?h) b (blocks_for n)"
    and s': "s' = s\<lparr>kernel_heap := mark_run ?h b (blocks_for n), kmem := memset (kmem s) p 0 n\<rparr>"
  have "0 < blocks_for n" using assms(2,3) by (simp add: size_ok_def blocks_for_0_iff flip: neq0_conv)
  then have chunk: "chunk_at (blocks (mark_run ?h b (blocks_for n))) b (blocks_for n)"
    using run by (simp add: chunk_at_new run_free_def)
  have shape: "heap_shape (mark_run ?h b (blocks_for n))" using assms(1) by (simp add: heap_wf_def)
  show ?thesis
    using heap_free_chunk [OF shape chunk] clear_mark_run [OF _ run] assms(1)
    by (simp add: kfree_def s' b heap_wf_def)
qed (use assms(5) in simp)

interpretation kzf: freeing_allocator kzalloc "\<lambda>s. heap_wf (kernel_heap s)"
  "\<lambda>s. free_byte (kernel_heap s)" kmem kfree "\<lambda>s. live_block (kernel_heap s)"
proof unfold_locales
  fix s s' :: "'a kheap_state_scheme" and n p q :: u32
  assume wf: "heap_wf (kernel_heap s)"
  have shape: "heap_shape (kernel_heap s)" using wf by (simp add: heap_wf_def)
  {
    assume n: "size_ok n" "n \<noteq> 0" and k: "kzalloc n s = Some (p, s')" "p \<noteq> 0"
    have pos: "0 < blocks_for n" using n by (simp add: size_ok_def blocks_for_0_iff flip: neq0_conv)
    show "\<not> live_block (kernel_heap s) p
        \<and> (live_block (kernel_heap s') q \<longleftrightarrow> q = p \<or> live_block (kernel_heap s) q)"
      by (rule kzalloc_cases [OF wf k(1)])
        (use k(2) in \<open>simp_all add: live_block_mark [OF shape _ pos] live_block_fresh [OF shape _ pos]\<close>)
    show "\<exists>s''. kfree p s' = Some s'' \<and> heap_wf (kernel_heap s'')
        \<and> free_byte (kernel_heap s'') = free_byte (kernel_heap s)
        \<and> live_block (kernel_heap s'') = live_block (kernel_heap s)"
      using kzalloc_kfree [OF wf n k] wf by simp
  next
    assume "live_block (kernel_heap s) p"
    from kfree_live [OF wf this] show "\<exists>s'. kfree p s = Some s' \<and> heap_wf (kernel_heap s') \<and> kmem s' = kmem s
        \<and> (\<forall>q. live_block (kernel_heap s') q \<longleftrightarrow> live_block (kernel_heap s) q \<and> q \<noteq> p)
        \<and> (\<forall>a. free_byte (kernel_heap s) a \<longrightarrow> free_byte (kernel_heap s') a)"
      by auto
  }
qed

text \<open>Up to a block can be had as long as any block is free.\<close>

lemma kzalloc_one:
  assumes "heap_wf (kernel_heap s)" and "0 < unat sz" and "unat sz \<le> 4096"
    and "0 < free_count (blocks (kernel_heap s))"
  obtains p s' where "kzalloc sz s = Some (p, s')" "p \<noteq> 0"
    "Suc (free_count (blocks (kernel_heap s'))) = free_count (blocks (kernel_heap s))"
proof -
  obtain p h where "heap_malloc (kernel_heap s) sz = Some (p, h)" "p \<noteq> 0"
    "Suc (free_count (blocks h)) = free_count (blocks (kernel_heap s))"
    using heap_malloc_one [OF assms] by blast
  then show ?thesis
    by (intro that [of p "s\<lparr>kernel_heap := h, kmem := memset (kmem s) p 0 sz\<rparr>"])
      (simp_all add: kzalloc_def kmalloc_def)
qed

section \<open>Runs of free blocks\<close>

text \<open>
  A run of \<open>n\<close> free blocks somewhere in the pool. Allocation takes the lowest run that is
  long enough, so of a run of \<open>k + n\<close> blocks at least \<open>k\<close> are left.
\<close>

definition has_run :: "heap \<Rightarrow> nat \<Rightarrow> bool" where
  "has_run h n \<longleftrightarrow> (\<exists>b. run_free (blocks h) b n)"

lemma has_run_mono: "has_run h n \<Longrightarrow> m \<le> n \<Longrightarrow> has_run h m"
  unfolding has_run_def run_free_def by (meson add_left_mono le_trans less_le_trans)

lemma has_run_fresh [simp]: "has_run (fresh_heap n) k \<longleftrightarrow> k \<le> n"
  by (auto simp: has_run_def run_free_fresh intro: exI [of _ 0])

lemma has_run_free_count: "has_run h n \<Longrightarrow> n \<le> free_count (blocks h)"
proof -
  assume "has_run h n"
  then obtain b where b: "b + n \<le> length (blocks h)" "\<forall>k < n. is_free (blocks h ! (b + k))"
    by (auto simp: has_run_def run_free_def)
  have "(\<lambda>k. b + k) ` {..<n} \<subseteq> {i. i < length (blocks h) \<and> is_free (blocks h ! i)}" using b by auto
  then have "card ((\<lambda>k. b + k) ` {..<n}) \<le> card {i. i < length (blocks h) \<and> is_free (blocks h ! i)}"
    by (intro card_mono) simp_all
  moreover have "card ((\<lambda>k. b + k) ` {..<n}) = n" by (simp add: card_image)
  ultimately show ?thesis by (simp add: free_count_def length_filter_conv_card)
qed

lemma run_left:
  assumes "run_free es b (k + n)" and "run_free es c n" and "c \<le> b"
  shows "run_free (fill es c n f) (b + n) k"
  using assms by (auto simp: run_free_def add.assoc)

text \<open>Allocation in the form the clients' proofs use, with what is left of the run.\<close>

lemma kzalloc_run:
  fixes s :: "'a kheap_state_scheme"
  assumes "heap_wf (kernel_heap s)" and "n \<noteq> 0" and "size_ok n" and "has_run (kernel_heap s) (k + blocks_for n)"
  shows "\<exists>p h m. kzalloc n s = Some (p, s\<lparr>kernel_heap := h, kmem := m\<rparr>) \<and> p \<noteq> 0 \<and> heap_wf h \<and> has_run h k
    \<and> (\<forall>a. in_region p n a \<longrightarrow> free_byte (kernel_heap s) a \<and> \<not> free_byte h a \<and> m a = 0)
    \<and> (\<forall>a. \<not> free_byte (kernel_heap s) a \<longrightarrow> \<not> free_byte h a \<and> m a = kmem s a)
    \<and> \<not> live_block (kernel_heap s) p \<and> (\<forall>q. live_block h q \<longleftrightarrow> q = p \<or> live_block (kernel_heap s) q)"
proof -
  let ?h = "kernel_heap s" and ?n = "blocks_for n"
  have shape: "heap_shape ?h" using assms(1) by (simp add: heap_wf_def)
  have pos: "0 < ?n" using assms(2,3) by (simp add: size_ok_def blocks_for_0_iff flip: neq0_conv)
  obtain b where b: "run_free (blocks ?h) b (k + ?n)" using assms(4) by (auto simp: has_run_def)
  then have "run_free (blocks ?h) b ?n" by (auto simp: run_free_def)
  from heap_malloc_found [OF shape pos this] this obtain c where
    c: "heap_malloc ?h n = Some (block_addr ?h c, mark_run ?h c ?n)" "run_free (blocks ?h) c ?n" "c \<le> b" by blast
  have nz: "block_addr ?h c \<noteq> 0" using c(2) pos by (intro block_addr_nz [OF shape]) (simp add: run_free_def)
  let ?p = "block_addr ?h c" and ?m = "memset (kmem s) (block_addr ?h c) 0 n"
  let ?s = "s\<lparr>kernel_heap := mark_run ?h c ?n, kmem := ?m\<rparr>"
  have z: "kzalloc n s = Some (?p, ?s)" using c(1) nz by (simp add: kzalloc_def kmalloc_def)
  have "has_run (mark_run ?h c ?n) k" using run_left [OF b c(2,3)] by (auto simp: has_run_def)
  with z nz kz.alloc_ok [OF assms(1,3) z] kz.alloc_fresh [OF assms(1,3) z nz] kz.alloc_keep [OF assms(1,3) z]
    kzf.alloc_live [OF assms(1,3,2) z nz]
  show ?thesis by (rule_tac exI [of _ ?p], rule_tac exI [of _ "mark_run ?h c ?n"], rule_tac exI [of _ ?m]) auto
qed

text \<open>Releasing a block keeps every run.\<close>

lemma kfree_run:
  assumes "heap_wf (kernel_heap s)" and "live_block (kernel_heap s) p"
  shows "\<exists>h. kfree p s = Some (s\<lparr>kernel_heap := h\<rparr>) \<and> heap_wf h
    \<and> (\<forall>n. has_run (kernel_heap s) n \<longrightarrow> has_run h n)
    \<and> (\<forall>q. live_block h q \<longleftrightarrow> live_block (kernel_heap s) q \<and> q \<noteq> p)"
proof -
  obtain b n where b: "heap_free (kernel_heap s) p = Some (clear_run (kernel_heap s) b n)"
    "heap_wf (clear_run (kernel_heap s) b n)"
    "\<forall>q. live_block (clear_run (kernel_heap s) b n) q \<longleftrightarrow> live_block (kernel_heap s) q \<and> q \<noteq> p"
    using heap_free_live [OF assms] by blast
  have "has_run (clear_run (kernel_heap s) b n) k" if "has_run (kernel_heap s) k" for k
    using that by (auto simp: has_run_def run_free_def)
  with b show ?thesis by (auto simp: kfree_def)
qed

text \<open>The same without the addresses: an operation that takes \<open>n\<close> blocks in all.\<close>

definition heap_used :: "nat \<Rightarrow> heap \<Rightarrow> heap \<Rightarrow> bool" where
  "heap_used n h h' \<longleftrightarrow> (\<forall>k. has_run h (k + n) \<longrightarrow> has_run h' k)"

lemma heap_used_refl [simp]: "heap_used 0 h h"
  by (simp add: heap_used_def)

lemma heap_used_trans: "heap_used m h h' \<Longrightarrow> heap_used n h' h'' \<Longrightarrow> k = m + n \<Longrightarrow> heap_used k h h''"
  by (simp add: heap_used_def add.assoc add.commute [of m])

lemma kzalloc_used:
  assumes "heap_wf (kernel_heap s)" and "n \<noteq> 0" and "size_ok n" and "kzalloc n s = Some (p, s')"
  shows "heap_used (blocks_for n) (kernel_heap s) (kernel_heap s')"
  unfolding heap_used_def using kzalloc_run [OF assms(1-3)] assms(4) by fastforce

lemma kfree_used:
  assumes "heap_wf (kernel_heap s)" and "live_block (kernel_heap s) p" and "kfree p s = Some s'"
  shows "heap_used 0 (kernel_heap s) (kernel_heap s')"
  unfolding heap_used_def using kfree_run [OF assms(1,2)] assms(3) by auto

section \<open>Extents\<close>

text \<open>The bytes of the chunk that starts at \<open>p\<close>.\<close>

definition in_chunk :: "heap \<Rightarrow> u32 \<Rightarrow> u32 \<Rightarrow> bool" where
  "in_chunk h p a \<longleftrightarrow> (\<exists>b k. p = block_addr h b \<and> chunk_at (blocks h) b k \<and> b \<le> pool_block h a \<and> pool_block h a < b + k)"

interpretation kze: extent_allocator kzalloc "\<lambda>s. heap_wf (kernel_heap s)"
  "\<lambda>s. free_byte (kernel_heap s)" kmem kfree "\<lambda>s. live_block (kernel_heap s)" "\<lambda>s. in_chunk (kernel_heap s)"
proof unfold_locales
  fix s s' :: "'a kheap_state_scheme" and n p q a :: u32
  let ?h = "kernel_heap s"
  assume wf: "heap_wf ?h"
  have shape: "heap_shape ?h" using wf by (simp add: heap_wf_def)
  have inj: "b = c" if "b < length (blocks ?h)" "c < length (blocks ?h)" "block_addr ?h b = block_addr ?h c" for b c
    using that block_addr_inject [OF shape] by blast
  {
    assume n: "size_ok n" "n \<noteq> 0" and k: "kzalloc n s = Some (p, s')" "p \<noteq> 0"
    have pos: "0 < blocks_for n" using n by (simp add: size_ok_def blocks_for_0_iff flip: neq0_conv)
    from wf k(1) obtain b where b: "p = block_addr ?h b" "run_free (blocks ?h) b (blocks_for n)"
      "kernel_heap s' = mark_run ?h b (blocks_for n)"
      by (rule kzalloc_cases) (use k(2) in auto)
    have iff: "chunk_at (blocks (kernel_heap s')) c m \<longleftrightarrow> (c = b \<and> m = blocks_for n) \<or> chunk_at (blocks ?h) c m" for c m
      using chunk_at_mark_iff [OF b(2) pos] b(3) by simp
    have b_free: "\<not> chunk_at (blocks ?h) b m" for m
    proof
      assume "chunk_at (blocks ?h) b m"
      then have "blocks ?h ! b = run_entry m 0" by (auto simp: chunk_at_def dest: spec [of _ 0])
      then show False using b(2) pos by (auto simp: run_free_def dest: spec [of _ 0])
    qed
    have b_len: "b < length (blocks ?h)" using b(2) pos by (auto simp: run_free_def)
    {
      assume "in_chunk (kernel_heap s') p a"
      then obtain c m where c: "p = block_addr ?h c" "chunk_at (blocks (kernel_heap s')) c m"
        "c \<le> pool_block ?h a" "pool_block ?h a < c + m" by (auto simp: in_chunk_def b(3))
      have "c < length (blocks ?h)" using c(2) by (auto simp: chunk_at_def b(3))
      then have "c = b" using inj [OF b_len] c(1) b(1) by simp
      then have "m = blocks_for n" using c(2) iff b_free by blast
      then show "free_byte ?h a" using run_free_taken [OF b(2)] c(3,4) \<open>c = b\<close> b(2)
        by (auto simp: free_byte_def run_free_def)
    next
      assume "live_block ?h q"
      then have "q \<noteq> block_addr ?h b"
        using inj b_len b_free by (auto simp: live_block_def) (metis chunk_at_def le_eq_less_or_eq less_le_trans add_lessD1 less_add_same_cancel1)
      then show "in_chunk (kernel_heap s') q a = in_chunk ?h q a"
        unfolding in_chunk_def iff by (auto simp: b(3))
    }
  next
    assume "in_chunk ?h p a"
    then obtain b k where b: "chunk_at (blocks ?h) b k" "b \<le> pool_block ?h a" "pool_block ?h a < b + k"
      by (auto simp: in_chunk_def)
    then have "blocks ?h ! pool_block ?h a = run_entry k (pool_block ?h a - b)"
      by (auto simp: chunk_at_def dest: spec [of _ "pool_block ?h a - b"])
    then show "\<not> free_byte ?h a" by (simp add: free_byte_def)
  next
    assume l: "live_block ?h p" and f: "kfree p s = Some s'" and a: "\<not> free_byte ?h a" "\<not> in_chunk ?h p a"
    obtain b k where b: "p = block_addr ?h b" "chunk_at (blocks ?h) b k" "heap_free ?h p = Some (clear_run ?h b k)"
      using heap_free_live [OF wf l] by blast
    have "kernel_heap s' = clear_run ?h b k" using f b(3) by (simp add: kfree_def) auto
    moreover have "\<not> (b \<le> pool_block ?h a \<and> pool_block ?h a < b + k)" using a(2) b(1,2) by (auto simp: in_chunk_def)
    ultimately show "\<not> free_byte (kernel_heap s') a"
      using a(1) by (auto simp: free_byte_def pool_block_def split: if_splits)
  }
qed

text \<open>
  How a heap grows: what was taken stays taken, live blocks keep their extents, and the
  extents of new blocks were free. Allocation grows a heap, and so does releasing a block that
  was not there at the start.
\<close>

definition heap_grown :: "heap \<Rightarrow> heap \<Rightarrow> bool" where
  "heap_grown h h' \<longleftrightarrow> (\<forall>a. \<not> free_byte h a \<longrightarrow> \<not> free_byte h' a)
     \<and> (\<forall>q. live_block h q \<longrightarrow> live_block h' q \<and> in_chunk h' q = in_chunk h q)
     \<and> (\<forall>q a. live_block h' q \<and> \<not> live_block h q \<and> in_chunk h' q a \<longrightarrow> free_byte h a)"

lemma heap_grown_refl [simp]: "heap_grown h h"
  by (auto simp: heap_grown_def)

lemma heap_grown_trans: "heap_grown h h' \<Longrightarrow> heap_grown h' h'' \<Longrightarrow> heap_grown h h''"
  unfolding heap_grown_def by metis

lemma kzalloc_grown:
  assumes "heap_wf (kernel_heap s)" and "size_ok n" and "n \<noteq> 0" and "kzalloc n s = Some (p, s')" and "p \<noteq> 0"
  shows "heap_grown (kernel_heap s) (kernel_heap s')"
proof -
  note live = kzf.alloc_live [OF assms(1-5)]
  have "in_chunk (kernel_heap s') q = in_chunk (kernel_heap s) q" if "live_block (kernel_heap s) q" for q
    using kze.extent_live [OF assms(1-5) that] by auto
  then show ?thesis
    using live kz.alloc_keep [OF assms(1,2,4)] kze.extent_fresh [OF assms(1-5)] by (auto simp: heap_grown_def)
qed

lemma kfree_others:
  assumes "heap_wf (kernel_heap s)" and "live_block (kernel_heap s) p" and "kfree p s = Some s'"
  shows "\<not> free_byte (kernel_heap s) a \<Longrightarrow> \<not> in_chunk (kernel_heap s) p a \<Longrightarrow> \<not> free_byte (kernel_heap s') a"
    and "q \<noteq> p \<Longrightarrow> in_chunk (kernel_heap s') q = in_chunk (kernel_heap s) q"
    and "live_block (kernel_heap s') q \<longleftrightarrow> live_block (kernel_heap s) q \<and> q \<noteq> p"
proof -
  show "\<not> free_byte (kernel_heap s) a \<Longrightarrow> \<not> in_chunk (kernel_heap s) p a \<Longrightarrow> \<not> free_byte (kernel_heap s') a"
    by (rule kze.extent_dealloc [OF assms])
  obtain b k where b: "p = block_addr (kernel_heap s) b" "chunk_at (blocks (kernel_heap s)) b k"
    "heap_free (kernel_heap s) p = Some (clear_run (kernel_heap s) b k)"
    using heap_free_live [OF assms(1,2)] by blast
  have h: "kernel_heap s' = clear_run (kernel_heap s) b k" using assms(3) b(3) by (simp add: kfree_def) auto
  show "in_chunk (kernel_heap s') q = in_chunk (kernel_heap s) q" if "q \<noteq> p"
    using that b(1) chunk_at_clear_iff [OF b(2)] by (auto simp: in_chunk_def h fun_eq_iff pool_block_def)
  show "live_block (kernel_heap s') q \<longleftrightarrow> live_block (kernel_heap s) q \<and> q \<noteq> p"
    using kfree_live [OF assms(1,2)] assms(3) by auto
qed

lemma kfree_grown:
  assumes "heap_grown h (kernel_heap s)" and "heap_wf (kernel_heap s)" and "live_block (kernel_heap s) p"
    and "\<not> live_block h p" and "kfree p s = Some s'"
  shows "heap_grown h (kernel_heap s')"
proof -
  note o = kfree_others [OF assms(2,3,5)]
  have g: "\<And>a. \<not> free_byte h a \<Longrightarrow> \<not> free_byte (kernel_heap s) a"
    "\<And>q. live_block h q \<Longrightarrow> live_block (kernel_heap s) q \<and> in_chunk (kernel_heap s) q = in_chunk h q"
    "\<And>q a. live_block (kernel_heap s) q \<Longrightarrow> \<not> live_block h q \<Longrightarrow> in_chunk (kernel_heap s) q a \<Longrightarrow> free_byte h a"
    using assms(1) by (auto simp: heap_grown_def)
  show ?thesis unfolding heap_grown_def
  proof (intro conjI allI impI)
    fix a
    assume "\<not> free_byte h a"
    then show "\<not> free_byte (kernel_heap s') a" using g(1,3) [of a] g(3) [OF assms(3,4)] o(1) by blast
  next
    fix q
    assume q: "live_block h q"
    then have "q \<noteq> p" using assms(4) by auto
    with q g(2) o(2,3) show "live_block (kernel_heap s') q" "in_chunk (kernel_heap s') q = in_chunk h q" by auto
  next
    fix q a
    assume "live_block (kernel_heap s') q \<and> \<not> live_block h q \<and> in_chunk (kernel_heap s') q a"
    then show "free_byte h a" using g(3) o(2,3) by metis
  qed
qed

section \<open>Clients of the heap\<close>

text \<open>
  Any client of the kernel heap, as a step relation: it allocates, is refused, stores into a
  block it owns, or releases one. \<open>owned\<close> maps the addresses it holds to the sizes it asked
  for.
\<close>

inductive client_step ::
    "'a kheap_state_scheme \<times> (u32 \<rightharpoonup> u32) \<Rightarrow> 'a kheap_state_scheme \<times> (u32 \<rightharpoonup> u32) \<Rightarrow> bool" where
  alloc: "kzalloc n s = Some (p, s') \<Longrightarrow> size_ok n \<Longrightarrow> n \<noteq> 0 \<Longrightarrow> p \<noteq> 0 \<Longrightarrow> client_step (s, owned) (s', owned(p \<mapsto> n))"
| refused: "kzalloc n s = Some (0, s') \<Longrightarrow> client_step (s, owned) (s', owned)"
| store: "owned p = Some n \<Longrightarrow> in_region p n a \<Longrightarrow> client_step (s, owned) (s\<lparr>kmem := (kmem s)(a := b)\<rparr>, owned)"
| release: "owned p = Some n \<Longrightarrow> kfree p s = Some s' \<Longrightarrow> client_step (s, owned) (s', owned(p := None))"

inductive_cases client_stepE: "client_step c c'"

text \<open>What every reachable state satisfies: each owned block is a chunk that covers its size.\<close>

definition client_inv :: "'a kheap_state_scheme \<times> (u32 \<rightharpoonup> u32) \<Rightarrow> bool" where
  "client_inv c \<longleftrightarrow> (case c of (s, owned) \<Rightarrow> heap_wf (kernel_heap s)
     \<and> (\<forall>p n. owned p = Some n \<longrightarrow> (\<exists>b k. p = block_addr (kernel_heap s) b
          \<and> chunk_at (blocks (kernel_heap s)) b k \<and> unat n \<le> 4096 * k)))"

lemma client_inv_own:
  "client_inv (s, owned) \<Longrightarrow> owned p = Some n \<Longrightarrow>
   \<exists>b k. p = block_addr (kernel_heap s) b \<and> chunk_at (blocks (kernel_heap s)) b k \<and> unat n \<le> 4096 * k"
  unfolding client_inv_def by blast

lemma client_inv_step:
  assumes "client_step c c'" and "client_inv c"
  shows "client_inv c'"
  using assms(1)
proof (cases rule: client_step.cases)
  case (alloc n s p s' owned)
  let ?h = "kernel_heap s"
  have wf: "heap_wf ?h" and own: "\<forall>p n. owned p = Some n \<longrightarrow> (\<exists>b k. p = block_addr ?h b \<and> chunk_at (blocks ?h) b k \<and> unat n \<le> 4096 * k)"
    using assms(2) alloc(1) by (auto simp: client_inv_def)
  have pos: "0 < blocks_for n" using alloc(4,5) by (simp add: size_ok_def blocks_for_0_iff flip: neq0_conv)
  from wf alloc(3) show ?thesis
  proof (rule kzalloc_cases)
    fix b
    assume b: "p = block_addr ?h b" "run_free (blocks ?h) b (blocks_for n)"
      "s' = s\<lparr>kernel_heap := mark_run ?h b (blocks_for n), kmem := memset (kmem s) p 0 n\<rparr>"
    have "heap_wf (kernel_heap s')" using wf b(2,3) by (simp add: heap_wf_mark)
    moreover have "\<exists>b' k. q = block_addr (kernel_heap s') b' \<and> chunk_at (blocks (kernel_heap s')) b' k \<and> unat m \<le> 4096 * k"
      if "(owned(p \<mapsto> n)) q = Some m" for q m
    proof (cases "q = p")
      case True
      with that b blocks_for_covers [OF alloc(4)] chunk_at_mark_iff [OF b(2) pos]
      show ?thesis by (intro exI [of _ b] exI [of _ "blocks_for n"]) simp
    next
      case False
      with that have "owned q = Some m" by simp
      then obtain c k where "q = block_addr ?h c" "chunk_at (blocks ?h) c k" "unat m \<le> 4096 * k"
        using client_inv_own [of s owned q m] assms(2) alloc(1) by auto
      with b(3) chunk_at_mark_iff [OF b(2) pos] show ?thesis by (intro exI [of _ c] exI [of _ k]) simp
    qed
    ultimately show ?thesis using alloc(2) by (simp add: client_inv_def)
  qed (use alloc(6) in simp)
next
  case (refused n s s' owned)
  then have "s' = s" using assms(2) kz.alloc_fail by (auto simp: client_inv_def)
  with refused assms(2) show ?thesis by simp
next
  case (store owned p n a s b)
  with assms(2) show ?thesis by (simp add: client_inv_def)
next
  case (release owned p n s s')
  let ?h = "kernel_heap s"
  have wf: "heap_wf ?h" and own: "\<forall>p n. owned p = Some n \<longrightarrow> (\<exists>b k. p = block_addr ?h b \<and> chunk_at (blocks ?h) b k \<and> unat n \<le> 4096 * k)"
    using assms(2) release(1) by (auto simp: client_inv_def)
  have "live_block ?h p"
    using client_inv_own [of s owned p n] assms(2) release(1,3) by (auto simp: live_block_def)
  then obtain b k where b: "p = block_addr ?h b" "chunk_at (blocks ?h) b k"
    "heap_free ?h p = Some (clear_run ?h b k)" "heap_wf (clear_run ?h b k)"
    using heap_free_live [OF wf] by blast
  then have s': "s' = s\<lparr>kernel_heap := clear_run ?h b k\<rparr>" using release(4) by (simp add: kfree_def)
  have "\<exists>c j. q = block_addr (kernel_heap s') c \<and> chunk_at (blocks (kernel_heap s')) c j \<and> unat m \<le> 4096 * j"
    if "(owned(p := None)) q = Some m" for q m
  proof -
    have "owned q = Some m" using that by (simp split: if_splits)
    then obtain c j where c: "q = block_addr ?h c" "chunk_at (blocks ?h) c j" "unat m \<le> 4096 * j"
      using client_inv_own [of s owned q m] assms(2) release(1) by auto
    moreover have "c \<noteq> b" using that b(1) c(1) by auto
    ultimately show ?thesis using chunk_at_clear_iff [OF b(2)] s' by (intro exI [of _ c] exI [of _ j]) simp
  qed
  with b(4) s' release(2) show ?thesis by (simp add: client_inv_def)
qed

lemma client_inv_reachable: "client_step\<^sup>*\<^sup>* c c' \<Longrightarrow> client_inv c \<Longrightarrow> client_inv c'"
  by (induction rule: rtranclp_induct) (auto intro: client_inv_step)

lemma chunk_region:
  assumes "heap_shape h" and "chunk_at (blocks h) b k" and "unat n \<le> 4096 * k" and "in_region (block_addr h b) n a"
  shows "b \<le> pool_block h a \<and> pool_block h a < b + k"
  using region_pool_block [OF assms(1) _ assms(3,4)] assms(2) by (auto simp: chunk_at_def)

section \<open>Properties\<close>


text \<open>A small kernel state for the examples below.\<close>

definition blank_kheap :: "nat \<Rightarrow> kheap_state" where
  "blank_kheap n = \<lparr>kmem = (\<lambda>_. 0), video_mem = 0xB8000, terminal_row = 0, terminal_col = 0, kernel_heap = fresh_heap n\<rparr>"

lemma blank_kheap_wf: "n < 524288 \<Longrightarrow> heap_wf (kernel_heap (blank_kheap n))"
  by (simp add: blank_kheap_def fresh_heap_wf)

lemma first_malloc: "heap_malloc (fresh_heap 4) 100 = Some (0x01000000, mark_run (fresh_heap 4) 0 1)"
  using heap_malloc_first [of "fresh_heap 4" 100 0] fresh_heap_wf [of 4]
  by (simp add: blocks_for_exact run_free_fresh heap_wf_def block_addr_def fresh_heap_def NUTSOS_HEAP_ADDRESS_def)


text \<open>
  The kernel heap as booted: \<open>kheap_init\<close> leaves 131072 free blocks from 16 MB up, whatever
  the table's memory held.
\<close>

lemma kheap_init_fresh: "kheap_init s = Some (s\<lparr>kernel_heap := fresh_heap 131072\<rparr>)"
  by (simp add: kheap_init_def heap_create_def heap_validate_alignment_def heap_validate_table_def entries_clear_def
      fresh_heap_def NUTSOS_HEAP_SIZE_BYTES_def NUTSOS_HEAP_BLOCK_SIZE_def NUTSOS_HEAP_ADDRESS_def Let_def)

text \<open>
  C30. \<open>kfree\<close> undoes \<open>kzalloc\<close>: releasing the block just handed out restores the heap
  exactly.
\<close>

theorem kzalloc_kfree_inverse:
  assumes "heap_wf (kernel_heap s)" and "size_ok n" and "n \<noteq> 0" and "kzalloc n s = Some (p, s')" and "p \<noteq> 0"
  shows "kfree p s' = Some (s'\<lparr>kernel_heap := kernel_heap s\<rparr>)"
  using assms by (rule kzalloc_kfree)

theorem kzalloc_kfree_inverse_witness:
  "\<exists>s'. kzalloc 100 (blank_kheap 4) = Some (0x01000000, s')
    \<and> kfree 0x01000000 s' = Some (s'\<lparr>kernel_heap := fresh_heap 4\<rparr>)"
proof -
  obtain s' where k: "kzalloc 100 (blank_kheap 4) = Some (0x01000000, s')"
    using first_malloc by (simp add: kzalloc_def kmalloc_def blank_kheap_def)
  from kzalloc_kfree_inverse [OF blank_kheap_wf _ _ k] k show ?thesis
    by (simp add: size_ok_def blank_kheap_def)
qed

end
