(* ===== verification/Paging.thy ===== *)
theory Paging
  imports Kheap
begin

text \<open>
  Page directories and page tables, \<^verbatim>\<open>src/memory/paging/paging.c\<close>, \<^verbatim>\<open>paging.h\<close> and
  \<^verbatim>\<open>paging.asm\<close>. Directories and tables are arrays of 32-bit entries in byte memory;
  \<open>struct paging_chunk\<close> objects live in a store indexed by their address. An access
  through a null base pointer gives \<open>None\<close>.
\<close>

section \<open>Constants and state\<close>

definition PAGING_CACHE_DISABLED :: u32 where [const_defs]: "PAGING_CACHE_DISABLED = 0b00010000"
definition PAGING_WRITE_THROUGH :: u32 where [const_defs]: "PAGING_WRITE_THROUGH = 0b00001000"
definition PAGING_ACCESS_FROM_ALL :: u32 where [const_defs]: "PAGING_ACCESS_FROM_ALL = 0b00000100"
definition PAGING_IS_WRITEABLE :: u32 where [const_defs]: "PAGING_IS_WRITEABLE = 0b00000010"
definition PAGING_IS_PRESENT :: u32 where [const_defs]: "PAGING_IS_PRESENT = 0b00000001"
definition PAGING_TOTAL_DIR_ENTRIES :: int where [const_defs]: "PAGING_TOTAL_DIR_ENTRIES = 1024"
definition PAGING_TOTAL_ENTRIES_PER_TABLE :: int where [const_defs]: "PAGING_TOTAL_ENTRIES_PER_TABLE = 1024"
definition PAGING_PAGE_SIZE :: u32 where [const_defs]: "PAGING_PAGE_SIZE = 4096"

record paging_chunk =
  directory_entry :: u32
  dir_count :: int
  entries_count :: int

record paging_state = kheap_state +
  chunks :: "u32 \<rightharpoonup> paging_chunk"
  current_directory :: u32
  cr3 :: u32
  cr0_pg :: bool

definition sizeof_paging_chunk :: u32 where [const_defs]: "sizeof_paging_chunk = 12"

text \<open>The fields of an entry.\<close>

definition PAGING_ENTRY_GET_POINTER :: "u32 \<Rightarrow> u32" where
  "PAGING_ENTRY_GET_POINTER entry = entry AND 0xFFFFF000"

definition PAGING_ENTRY_SET_FLAGS :: "u32 \<Rightarrow> u32 \<Rightarrow> u32" where
  "PAGING_ENTRY_SET_FLAGS entry flags = entry OR flags"

definition PAGING_ENTRY_GET_FLAGS :: "u32 \<Rightarrow> u32" where
  "PAGING_ENTRY_GET_FLAGS entry = entry AND 0x00000FFF"

text \<open>\<open>base[i]\<close> on an array of 32-bit entries.\<close>

definition peek32 :: "u32 \<Rightarrow> u32 \<Rightarrow> 'a kheap_state_scheme \<Rightarrow> u32 option" where
  "peek32 base i s = (if base = 0 then None else Some (read32 (kmem s) (base + 4 * i)))"

definition poke32 :: "u32 \<Rightarrow> u32 \<Rightarrow> u32 \<Rightarrow> 'a kheap_state_scheme \<Rightarrow> 'a kheap_state_scheme option" where
  "poke32 base i v s = (if base = 0 then None
     else Some (s\<lparr>kmem := write32 (kmem s) (base + 4 * i) v\<rparr>))"

section \<open>Creating and releasing a directory\<close>

text \<open>
  The two loops of \<open>paging_chunk_new\<close>, counting \<open>b\<close> and \<open>i\<close> upwards; the last argument
  but one is the number of iterations left.
\<close>

fun page_entries_loop ::
    "u32 \<Rightarrow> u32 \<Rightarrow> u32 \<Rightarrow> nat \<Rightarrow> nat \<Rightarrow> 'a kheap_state_scheme \<Rightarrow> 'a kheap_state_scheme option" where
  "page_entries_loop entry offset flags b 0 s = Some s"
| "page_entries_loop entry offset flags b (Suc n) s = do {
     s1 \<leftarrow> poke32 entry (of_nat b) ((offset + of_nat b * PAGING_PAGE_SIZE) OR flags) s;
     page_entries_loop entry offset flags (Suc b) n s1
   }"

fun dir_entries_loop ::
    "u32 \<Rightarrow> int \<Rightarrow> u32 \<Rightarrow> u32 \<Rightarrow> nat \<Rightarrow> nat \<Rightarrow> 'a kheap_state_scheme \<Rightarrow> 'a kheap_state_scheme option" where
  "dir_entries_loop directory page_entries flags offset i 0 s = Some s"
| "dir_entries_loop directory page_entries flags offset i (Suc n) s = do {
     (entry, s1) \<leftarrow> kzalloc (4 * word_of_int page_entries) s;
     s2 \<leftarrow> page_entries_loop entry offset flags 0 (nat page_entries) s1;
     s3 \<leftarrow> poke32 directory (of_nat i) (entry OR (flags OR PAGING_IS_WRITEABLE)) s2;
     dir_entries_loop directory page_entries flags
       (offset + word_of_int page_entries * PAGING_PAGE_SIZE) (Suc i) n s3
   }"

definition paging_chunk_new ::
    "int \<Rightarrow> int \<Rightarrow> u8 \<Rightarrow> 'a paging_state_scheme \<Rightarrow> (u32 \<times> 'a paging_state_scheme) option" where
  "paging_chunk_new dir_entries page_entries flags s = do {
     (directory, s1) \<leftarrow> kzalloc (4 * word_of_int dir_entries) s;
     s2 \<leftarrow> dir_entries_loop directory page_entries (ucast flags) 0 0 (nat dir_entries) s1;
     (chunk, s3) \<leftarrow> kzalloc sizeof_paging_chunk s2;
     (if chunk = 0 then None
      else Some (chunk, s3\<lparr>chunks := (chunks s3)(chunk \<mapsto>
        \<lparr>directory_entry = directory, dir_count = dir_entries, entries_count = page_entries\<rparr>)\<rparr>))
   }"

fun chunk_free_loop :: "u32 \<Rightarrow> nat \<Rightarrow> nat \<Rightarrow> 'a kheap_state_scheme \<Rightarrow> 'a kheap_state_scheme option" where
  "chunk_free_loop directory i 0 s = Some s"
| "chunk_free_loop directory i (Suc n) s = do {
     entry \<leftarrow> peek32 directory (of_nat i) s;
     s1 \<leftarrow> kfree (PAGING_ENTRY_GET_POINTER entry) s;
     chunk_free_loop directory (Suc i) n s1
   }"

definition paging_chunk_free :: "u32 \<Rightarrow> 'a paging_state_scheme \<Rightarrow> 'a paging_state_scheme option" where
  "paging_chunk_free chunk s = do {
     c \<leftarrow> chunks s chunk;
     s1 \<leftarrow> chunk_free_loop (directory_entry c) 0 (nat PAGING_TOTAL_DIR_ENTRIES) s;
     s2 \<leftarrow> kfree (directory_entry c) s1;
     s3 \<leftarrow> kfree chunk s2;
     Some (s3\<lparr>chunks := (chunks s3)(chunk := None)\<rparr>)
   }"

section \<open>Switching and enabling (\<^verbatim>\<open>paging.asm\<close>)\<close>

definition paging_load_directory :: "u32 \<Rightarrow> 'a paging_state_scheme \<Rightarrow> 'a paging_state_scheme" where
  "paging_load_directory directory s = s\<lparr>cr3 := directory\<rparr>"

definition paging_switch :: "u32 \<Rightarrow> 'a paging_state_scheme \<Rightarrow> 'a paging_state_scheme" where
  "paging_switch directory s = (paging_load_directory directory s)\<lparr>current_directory := directory\<rparr>"

definition enable_paging :: "'a paging_state_scheme \<Rightarrow> 'a paging_state_scheme" where
  "enable_paging s = s\<lparr>cr0_pg := True\<rparr>"

definition paging_chunk_get_directory :: "u32 \<Rightarrow> 'a paging_state_scheme \<Rightarrow> u32 option" where
  "paging_chunk_get_directory chunk s = map_option directory_entry (chunks s chunk)"

section \<open>Mapping pages\<close>

definition paging_is_aligned :: "u32 \<Rightarrow> bool" where
  "paging_is_aligned addr \<longleftrightarrow> addr mod PAGING_PAGE_SIZE = 0"

definition paging_align_address :: "u32 \<Rightarrow> u32" where
  "paging_align_address ptr =
     (let reminder = ptr mod PAGING_PAGE_SIZE
      in if reminder \<noteq> 0 then ptr - reminder + PAGING_PAGE_SIZE else ptr)"

text \<open>Result code, directory index and table index.\<close>

definition paging_get_indexes :: "u32 \<Rightarrow> int \<times> u32 \<times> u32" where
  "paging_get_indexes virtual_address =
     (if \<not> paging_is_aligned virtual_address then (- EINVARG, 0, 0)
      else
        let span = word_of_int PAGING_TOTAL_ENTRIES_PER_TABLE * PAGING_PAGE_SIZE
        in (0, virtual_address div span, (virtual_address mod span) div PAGING_PAGE_SIZE))"

definition paging_set :: "u32 \<Rightarrow> u32 \<Rightarrow> u32 \<Rightarrow> 'a kheap_state_scheme \<Rightarrow> (int \<times> 'a kheap_state_scheme) option" where
  "paging_set directory virt pdesc s =
     (if \<not> paging_is_aligned virt then Some (- EINVARG, s)
      else
        let (res, directory_index, table_index) = paging_get_indexes virt
        in if res < 0 then Some (res, s)
           else do {
             entry \<leftarrow> peek32 directory directory_index s;
             let tab = PAGING_ENTRY_GET_POINTER entry;
             s1 \<leftarrow> poke32 tab table_index pdesc s;
             Some (0, s1)
           })"

definition paging_map ::
    "u32 \<Rightarrow> u32 \<Rightarrow> u32 \<Rightarrow> u32 \<Rightarrow> 'a kheap_state_scheme \<Rightarrow> (int \<times> 'a kheap_state_scheme) option" where
  "paging_map directory virt phys flags s =
     (if \<not> paging_is_aligned virt \<or> \<not> paging_is_aligned phys then Some (- EINVARG, s)
      else paging_set directory virt (PAGING_ENTRY_SET_FLAGS phys flags) s)"

text \<open>The loop of \<open>paging_map_range\<close>; \<open>n\<close> is the number of pages left, \<open>res\<close> the last result.\<close>

fun map_range_loop ::
    "u32 \<Rightarrow> u32 \<Rightarrow> u32 \<Rightarrow> u32 \<Rightarrow> nat \<Rightarrow> int \<Rightarrow> 'a kheap_state_scheme \<Rightarrow> (int \<times> 'a kheap_state_scheme) option" where
  "map_range_loop directory virt phys flags 0 res s = Some (res, s)"
| "map_range_loop directory virt phys flags (Suc n) res s = do {
     (res', s1) \<leftarrow> paging_map directory virt phys flags s;
     (if ISERR res' then Some (res', s1)
      else map_range_loop directory (virt + PAGING_PAGE_SIZE) (phys + PAGING_PAGE_SIZE) flags n res' s1)
   }"

definition paging_map_range ::
    "u32 \<Rightarrow> u32 \<Rightarrow> u32 \<Rightarrow> int \<Rightarrow> u32 \<Rightarrow> 'a kheap_state_scheme \<Rightarrow> (int \<times> 'a kheap_state_scheme) option" where
  "paging_map_range directory virt phys count flags s =
     map_range_loop directory virt phys flags (nat count) 0 s"

definition paging_map_to ::
    "u32 \<Rightarrow> u32 \<Rightarrow> u32 \<Rightarrow> u32 \<Rightarrow> u32 \<Rightarrow> 'a kheap_state_scheme \<Rightarrow> (int \<times> 'a kheap_state_scheme) option" where
  "paging_map_to directory virt phys phys_end flags s =
     (if virt mod PAGING_PAGE_SIZE \<noteq> 0 \<or> phys mod PAGING_PAGE_SIZE \<noteq> 0 \<or> phys_end mod PAGING_PAGE_SIZE \<noteq> 0
      then Some (- EINVARG, s)
      else if phys_end < phys then Some (- EINVARG, s)
      else
        let total_bytes = phys_end - phys;
            total_pages = sint (total_bytes div PAGING_PAGE_SIZE)
        in paging_map_range directory virt phys total_pages flags s)"

section \<open>The page walk\<close>

text \<open>
  What the tables mean, by the layout in the comment of \<^verbatim>\<open>paging.c\<close>: the upper ten bits of
  an address select the directory entry, the next ten the table entry, and the table entry's
  frame with the offset of the address is the physical address.
\<close>

definition dir_index :: "u32 \<Rightarrow> nat" where
  "dir_index v = unat v div 4194304"

definition table_index :: "u32 \<Rightarrow> nat" where
  "table_index v = unat v mod 4194304 div 4096"

definition page_table :: "mem \<Rightarrow> u32 \<Rightarrow> nat \<Rightarrow> u32" where
  "page_table m directory i = page_frame (read32 m (directory + 4 * of_nat i))"

definition page_entry :: "mem \<Rightarrow> u32 \<Rightarrow> u32 \<Rightarrow> u32" where
  "page_entry m directory v =
     read32 m (page_table m directory (dir_index v) + 4 * of_nat (table_index v))"

definition translate :: "mem \<Rightarrow> u32 \<Rightarrow> u32 \<Rightarrow> u32" where
  "translate m directory v = page_frame (page_entry m directory v) + page_offset v"

text \<open>
  A directory is well formed when its tables are real pages, none twice and none the
  directory itself.
\<close>

definition dir_wf :: "mem \<Rightarrow> u32 \<Rightarrow> bool" where
  "dir_wf m d \<longleftrightarrow> d mod 4096 = 0 \<and> d \<noteq> 0
     \<and> (\<forall>i < 1024. page_table m d i \<noteq> 0 \<and> page_table m d i \<noteq> d)
     \<and> (\<forall>i < 1024. \<forall>j < 1024. page_table m d i = page_table m d j \<longrightarrow> i = j)"

section \<open>What the loops of \<open>paging_chunk_new\<close> write\<close>

lemma page_entries_loop_spec:
  assumes "entry mod 4096 = 0" and "entry \<noteq> 0" and "b + n \<le> 1024"
  shows "\<exists>m. page_entries_loop entry offset flags b n s = Some (s\<lparr>kmem := m\<rparr>)
    \<and> (\<forall>a. page_frame a \<noteq> entry \<longrightarrow> m a = kmem s a)
    \<and> (\<forall>j < 1024. read32 m (entry + 4 * of_nat j) =
        (if b \<le> j \<and> j < b + n then (offset + of_nat j * 4096) OR flags
         else read32 (kmem s) (entry + 4 * of_nat j)))"
  using assms(3)
proof (induction n arbitrary: b s)
  case 0
  then show ?case by (intro exI [of _ "kmem s"]) auto
next
  case (Suc n)
  let ?v = "(offset + of_nat b * 4096) OR flags"
  let ?s = "s\<lparr>kmem := write32 (kmem s) (entry + 4 * of_nat b) ?v\<rparr>"
  from Suc.prems have b: "b < 1024" by simp
  obtain m where m: "page_entries_loop entry offset flags (Suc b) n ?s = Some (?s\<lparr>kmem := m\<rparr>)"
    "\<And>a. page_frame a \<noteq> entry \<Longrightarrow> m a = kmem ?s a"
    "\<And>j. j < 1024 \<Longrightarrow> read32 m (entry + 4 * of_nat j) =
        (if Suc b \<le> j \<and> j < Suc b + n then (offset + of_nat j * 4096) OR flags
         else read32 (kmem ?s) (entry + 4 * of_nat j))"
    using Suc.IH [of "Suc b" ?s] Suc.prems by auto
  show ?case
  proof (intro exI [of _ m] conjI allI impI)
    show "page_entries_loop entry offset flags b (Suc n) s = Some (s\<lparr>kmem := m\<rparr>)"
      using m(1) assms(2) by (simp add: poke32_def PAGING_PAGE_SIZE_def)
    show "m a = kmem s a" if "page_frame a \<noteq> entry" for a
      using m(2) [OF that] write32_page [OF assms(1) b that] by simp
    show "read32 m (entry + 4 * of_nat j) = (if b \<le> j \<and> j < b + Suc n then (offset + of_nat j * 4096) OR flags
        else read32 (kmem s) (entry + 4 * of_nat j))" if "j < 1024" for j
      using m(3) [OF that] read32_write32_cell [OF assms(1) b that] by auto
  qed
qed

lemma flags_low: "page_frame (t OR flags) = t" if "t mod 4096 = 0" and "unat flags < 4096"
proof -
  have "flags = page_offset flags"
    using that(2) by (simp add: word_unat_eq_iff unat_page_offset)
  then have "page_frame flags = 0" by (simp add: page_frame_minus)
  then have "flags AND 0xFFFFF000 = 0" by (simp only: page_frame_def)
  then show ?thesis using page_frame_id [OF that(1)] by (simp add: page_frame_def bit.conj_disj_distrib2)
qed

text \<open>
  The directory loop. \<open>ts\<close> are the pages it allocated for the tables: free before, not
  free and pairwise distinct afterwards. Nothing else that was not free is written but the
  directory's own entries.
\<close>

lemma dir_entries_loop_spec:
  fixes s :: "'a kheap_state_scheme"
  assumes "heap_wf (kernel_heap s)" and "d mod 4096 = 0" and "d \<noteq> 0"
    and "\<And>a. page_frame a = d \<Longrightarrow> \<not> free_byte (kernel_heap s) a"
    and "0 < pe" and "pe \<le> 1024" and "i + n \<le> 1024" and "unat flags < 4096"
    and "dir_entries_loop d (int pe) flags offset i n s = Some s'"
  shows "heap_wf (kernel_heap s')
    \<and> (\<forall>a. \<not> free_byte (kernel_heap s) a \<longrightarrow> \<not> free_byte (kernel_heap s') a)
    \<and> (\<forall>a. \<not> free_byte (kernel_heap s) a \<and> page_frame a \<noteq> d \<longrightarrow> kmem s' a = kmem s a)
    \<and> (\<forall>j < 1024. j < i \<or> i + n \<le> j \<longrightarrow> read32 (kmem s') (d + 4 * of_nat j) = read32 (kmem s) (d + 4 * of_nat j))
    \<and> (\<exists>ts. length ts = n \<and> distinct ts
      \<and> (\<forall>q. live_block (kernel_heap s') q \<longleftrightarrow> q \<in> set ts \<or> live_block (kernel_heap s) q)
      \<and> (\<forall>k < n.
        ts ! k mod 4096 = 0 \<and> ts ! k \<noteq> 0 \<and> free_byte (kernel_heap s) (ts ! k)
        \<and> (\<forall>a. page_frame a = ts ! k \<longrightarrow> \<not> free_byte (kernel_heap s') a)
        \<and> read32 (kmem s') (d + 4 * of_nat (i + k)) = ts ! k OR (flags OR PAGING_IS_WRITEABLE)
        \<and> (\<forall>b < pe. read32 (kmem s') (ts ! k + 4 * of_nat b)
            = (offset + of_nat (k * pe + b) * 4096) OR flags)))"
  using assms(1,4,7,9)
proof (induction n arbitrary: i offset s)
  case 0
  then show ?case by auto
next
  case (Suc n)
  let ?sz = "4 * word_of_int (int pe) :: u32"
  have sz: "unat ?sz = 4 * pe" using assms(6) by (simp add: unat_word_ariths unat_of_nat)
  then have size: "size_ok ?sz" "?sz \<noteq> 0" using assms(5,6) by (auto simp: size_ok_def)
  from Suc.prems(4) obtain t s1 where t: "kzalloc ?sz s = Some (t, s1)"
    and cont: "do { s2 \<leftarrow> page_entries_loop t offset flags 0 pe s1;
        s3 \<leftarrow> poke32 d (of_nat i) (t OR (flags OR PAGING_IS_WRITEABLE)) s2;
        dir_entries_loop d (int pe) flags (offset + word_of_int (int pe) * PAGING_PAGE_SIZE) (Suc i) n s3 } = Some s'"
    by (auto simp: bind_eq_Some_conv)
  have t_al: "t mod 4096 = 0" using kz.alloc_aligned [OF Suc.prems(1) t] .
  have t_nz: "t \<noteq> 0"
  proof
    assume "t = 0"
    with cont assms(5) show False by (cases pe) (simp_all add: poke32_def)
  qed
  obtain m where m: "page_entries_loop t offset flags 0 pe s1 = Some (s1\<lparr>kmem := m\<rparr>)"
    "\<And>a. page_frame a \<noteq> t \<Longrightarrow> m a = kmem s1 a"
    "\<And>j. j < pe \<Longrightarrow> read32 m (t + 4 * of_nat j) = (offset + of_nat j * 4096) OR flags"
    using page_entries_loop_spec [OF t_al t_nz, of 0 pe offset flags s1] assms(6) by auto
  define s3 where "s3 = s1\<lparr>kmem := write32 m (d + 4 * of_nat i) (t OR (flags OR PAGING_IS_WRITEABLE))\<rparr>"
  have rest: "dir_entries_loop d (int pe) flags (offset + of_nat pe * 4096) (Suc i) n s3 = Some s'"
    using cont m(1) assms(3) by (simp add: poke32_def s3_def PAGING_PAGE_SIZE_def)
  have i: "i < 1024" using Suc.prems(3) by simp
  note fresh = kz.alloc_fresh [OF Suc.prems(1) size(1) t t_nz]
  note keep = kz.alloc_keep [OF Suc.prems(1) size(1) t]
  have "in_region t ?sz t" using size(2) by (simp add: in_region_def word_neq_0_conv)
  then have t_free: "free_byte (kernel_heap s) t" using fresh by blast
  have "page_frame t = t" by (rule page_frame_id [OF t_al])
  then have t_d: "t \<noteq> d" using t_free Suc.prems(2) [of t] by auto
  have t_page: "free_byte (kernel_heap s) a \<and> \<not> free_byte (kernel_heap s1) a" if "page_frame a = t" for a
    using kz.alloc_page [OF Suc.prems(1) size(1) t t_nz size(2) that] .
  have wf3: "heap_wf (kernel_heap s3)" using kz.alloc_ok [OF Suc.prems(1) size(1) t] by (simp add: s3_def)
  have d3: "\<not> free_byte (kernel_heap s3) a" if "page_frame a = d" for a
    using Suc.prems(2) [OF that] keep by (simp add: s3_def)
  from Suc.IH [OF wf3 d3 _ rest] Suc.prems(3) obtain ts where
    wf': "heap_wf (kernel_heap s')"
    and mono': "\<And>a. \<not> free_byte (kernel_heap s3) a \<Longrightarrow> \<not> free_byte (kernel_heap s') a"
    and keep': "\<And>a. \<not> free_byte (kernel_heap s3) a \<Longrightarrow> page_frame a \<noteq> d \<Longrightarrow> kmem s' a = kmem s3 a"
    and dir': "\<And>j. j < 1024 \<Longrightarrow> j < Suc i \<or> Suc i + n \<le> j \<Longrightarrow>
      read32 (kmem s') (d + 4 * of_nat j) = read32 (kmem s3) (d + 4 * of_nat j)"
    and ts: "length ts = n" "distinct ts"
    and live': "\<And>q. live_block (kernel_heap s') q \<longleftrightarrow> q \<in> set ts \<or> live_block (kernel_heap s3) q"
    and ts': "\<And>k. k < n \<Longrightarrow> ts ! k mod 4096 = 0 \<and> ts ! k \<noteq> 0 \<and> free_byte (kernel_heap s3) (ts ! k)
        \<and> (\<forall>a. page_frame a = ts ! k \<longrightarrow> \<not> free_byte (kernel_heap s') a)
        \<and> read32 (kmem s') (d + 4 * of_nat (Suc i + k)) = ts ! k OR (flags OR PAGING_IS_WRITEABLE)
        \<and> (\<forall>b < pe. read32 (kmem s') (ts ! k + 4 * of_nat b)
            = (offset + of_nat pe * 4096 + of_nat (k * pe + b) * 4096) OR flags)"
    by auto
  have free_back: "free_byte (kernel_heap s) a" if "free_byte (kernel_heap s3) a" for a
    using that keep by (auto simp: s3_def)
  have d_cells: "read32 (kmem s3) (d + 4 * of_nat j)
      = (if j = i then t OR (flags OR PAGING_IS_WRITEABLE) else read32 (kmem s) (d + 4 * of_nat j))"
    if "j < 1024" for j
  proof -
    have "read32 m (d + 4 * of_nat j) = read32 (kmem s) (d + 4 * of_nat j)"
      using m(2) keep Suc.prems(2) t_d by (intro read32_page_cong [OF assms(2) that]) auto
    then show ?thesis by (simp add: s3_def read32_write32_cell [OF assms(2) i that])
  qed
  have t_cells: "read32 (kmem s') (t + 4 * of_nat b) = (offset + of_nat b * 4096) OR flags" if "b < pe" for b
  proof -
    have b: "b < 1024" using that assms(6) by simp
    have "read32 (kmem s') (t + 4 * of_nat b) = read32 (kmem s3) (t + 4 * of_nat b)"
      using keep' t_page t_d by (intro read32_page_cong [OF t_al b]) (auto simp: s3_def)
    also have "\<dots> = read32 m (t + 4 * of_nat b)"
      unfolding s3_def using read32_write32_other_page [OF assms(2) i t_al b t_d] by simp
    finally show ?thesis using m(3) [OF that] by simp
  qed
  have t_notin: "t \<notin> set ts"
    using ts' t_page [OF \<open>page_frame t = t\<close>] ts(1) by (auto simp: in_set_conv_nth s3_def)
  have new: "(t # ts) ! k mod 4096 = 0 \<and> (t # ts) ! k \<noteq> 0 \<and> free_byte (kernel_heap s) ((t # ts) ! k)
        \<and> (\<forall>a. page_frame a = (t # ts) ! k \<longrightarrow> \<not> free_byte (kernel_heap s') a)
        \<and> read32 (kmem s') (d + 4 * of_nat (i + k)) = (t # ts) ! k OR (flags OR PAGING_IS_WRITEABLE)
        \<and> (\<forall>b < pe. read32 (kmem s') ((t # ts) ! k + 4 * of_nat b)
            = (offset + of_nat (k * pe + b) * 4096) OR flags)" if "k < Suc n" for k
  proof (cases k)
    case 0
    have "read32 (kmem s') (d + 4 * of_nat i) = t OR (flags OR PAGING_IS_WRITEABLE)"
      using dir' [OF i] d_cells [OF i] by simp
    with 0 t_al t_nz t_free t_page mono' t_cells show ?thesis by (auto simp: s3_def)
  next
    case (Suc k')
    have "offset + of_nat pe * 4096 + of_nat (k' * pe + b) * 4096 = offset + of_nat (k * pe + b) * (4096 :: u32)" for b
      by (simp add: Suc algebra_simps)
    with ts' [of k'] free_back Suc that show ?thesis by (simp add: ac_simps)
  qed
  show ?case
  proof (intro conjI allI impI exI [of _ "t # ts"])
    show "heap_wf (kernel_heap s')" by (rule wf')
    show "\<not> free_byte (kernel_heap s') a" if "\<not> free_byte (kernel_heap s) a" for a
      using that keep mono' by (simp add: s3_def)
    show "kmem s' a = kmem s a" if a: "\<not> free_byte (kernel_heap s) a \<and> page_frame a \<noteq> d" for a
    proof -
      have "page_frame a \<noteq> t" using a t_page by blast
      then have "kmem s3 a = kmem s1 a"
        using a m(2) write32_page [OF assms(2) i] by (simp add: s3_def)
      then show ?thesis using a keep keep' by (simp add: s3_def)
    qed
    show "read32 (kmem s') (d + 4 * of_nat j) = read32 (kmem s) (d + 4 * of_nat j)"
      if "j < 1024" "j < i \<or> i + Suc n \<le> j" for j
      using dir' [OF that(1)] d_cells [OF that(1)] that(2) by auto
    show "live_block (kernel_heap s') q \<longleftrightarrow> q \<in> set (t # ts) \<or> live_block (kernel_heap s) q" for q
      using live' [of q] kzf.alloc_live [OF Suc.prems(1) size t t_nz, of q] by (auto simp: s3_def)
  qed (use ts t_notin new in auto)
qed

section \<open>Indexes and frames\<close>

lemma index_number: "dir_index v * 1024 + table_index v = unat v div 4096"
proof -
  have "unat v mod (4096 * 1024) = 4096 * (unat v div 4096 mod 1024) + unat v mod 4096"
    by (rule mod_mult2_eq)
  then have "table_index v = unat v div 4096 mod 1024" by (simp add: table_index_def)
  moreover have "dir_index v = unat v div 4096 div 1024" by (simp add: dir_index_def div_mult2_eq [symmetric])
  ultimately show ?thesis by simp
qed

lemma dir_index_less: "dir_index v < 1024"
  using unat_u32_less [of v] by (simp add: dir_index_def div_less_iff_less_mult)

lemma table_index_less: "table_index v < 1024"
  by (simp add: table_index_def div_less_iff_less_mult)

lemma page_frame_number: "page_frame v = of_nat (unat v div 4096) * 4096"
proof -
  have "unat (of_nat (unat v div 4096) * 4096 :: u32) = unat v div 4096 * 4096"
    using unat_u32_less [of v] by (simp add: unat_word_ariths unat_of_nat)
  then show ?thesis
    by (simp add: word_unat_eq_iff unat_page_frame minus_mod_eq_div_mult)
qed

lemma page_frame_index: "page_frame v = of_nat (dir_index v * 1024 + table_index v) * 4096"
  by (simp only: page_frame_number index_number)

lemma page_frame_eq_iff:
  "page_frame v = page_frame w \<longleftrightarrow> dir_index v = dir_index w \<and> table_index v = table_index w"
proof -
  have "page_frame v = page_frame w \<longleftrightarrow> unat v div 4096 = unat w div 4096"
    by (auto simp: word_unat_eq_iff unat_page_frame minus_mod_eq_div_mult)
  moreover have "(i * 1024 + b) div 1024 = i \<and> (i * 1024 + b) mod 1024 = b" if "b < 1024" for i b :: nat
    using that by simp
  ultimately show ?thesis
    by (metis index_number table_index_less)
qed

lemma paging_get_indexes_spec:
  "paging_get_indexes v = (if v mod 4096 = 0 then (0, of_nat (dir_index v), of_nat (table_index v)) else (- EINVARG, 0, 0))"
proof -
  have "v div 4194304 = (of_nat (dir_index v) :: u32)"
    using dir_index_less [of v]
    by (simp add: word_unat_eq_iff unat_div unat_of_nat dir_index_def)
  moreover have "v mod 4194304 div 4096 = (of_nat (table_index v) :: u32)"
    using table_index_less [of v]
    by (simp add: word_unat_eq_iff unat_div unat_mod unat_of_nat table_index_def)
  ultimately show ?thesis
    by (simp add: paging_get_indexes_def paging_is_aligned_def Let_def const_defs)
qed

lemma page_frame_or: "page_frame (a OR b) = page_frame a OR page_frame b"
  by (simp add: page_frame_def bit.conj_disj_distrib2)

lemma page_frame_writeable: "page_frame PAGING_IS_WRITEABLE = 0"
  by (simp add: page_frame_def PAGING_IS_WRITEABLE_def)

lemma low_iff: "unat x < 4096 \<longleftrightarrow> page_frame x = 0"
proof
  assume "unat x < 4096"
  then have "unat (page_frame x) = 0" by (simp add: unat_page_frame)
  then show "page_frame x = 0" by (rule unat_0_iff [THEN iffD1])
next
  assume "page_frame x = 0"
  then show "unat x < 4096" using page_split [of x] page_offset_less [of x] by simp
qed

lemma unat_ucast_u8: "unat (ucast (f :: u8) :: u32) < 4096"
proof -
  have f: "unat f < 256" using unsigned_less [of f] by simp
  then have "unat (ucast f :: u32) = unat f" by (simp add: unsigned_ucast_eq take_bit_nat_eq_self)
  with f show ?thesis by simp
qed

section \<open>Setting and mapping pages\<close>

lemma page_table_aligned [simp]: "page_table m d i mod 4096 = 0"
  by (simp add: page_table_def page_frame_aligned)

text \<open>The write that \<open>paging_set\<close> makes for a page.\<close>

definition set_entry :: "mem \<Rightarrow> u32 \<Rightarrow> u32 \<Rightarrow> u32 \<Rightarrow> mem" where
  "set_entry m d v pdesc = write32 m (page_table m d (dir_index v) + 4 * of_nat (table_index v)) pdesc"

lemma paging_set_unaligned: "v mod 4096 \<noteq> 0 \<Longrightarrow> paging_set d v pdesc s = Some (- EINVARG, s)"
  by (simp add: paging_set_def paging_is_aligned_def const_defs)

lemma paging_set_aligned:
  assumes "dir_wf (kmem s) d" and "v mod 4096 = 0"
  shows "paging_set d v pdesc s = Some (0, s\<lparr>kmem := set_entry (kmem s) d v pdesc\<rparr>)"
  using assms dir_index_less [of v]
  by (simp add: paging_set_def paging_is_aligned_def paging_get_indexes_spec peek32_def poke32_def
      PAGING_PAGE_SIZE_def PAGING_ENTRY_GET_POINTER_def set_entry_def page_table_def page_frame_def dir_wf_def)

lemma set_entry_table:
  assumes "dir_wf m d" and "i < 1024"
  shows "page_table (set_entry m d v pdesc) d i = page_table m d i"
proof -
  have "read32 (set_entry m d v pdesc) (d + 4 * of_nat i) = read32 m (d + 4 * of_nat i)"
    unfolding set_entry_def
    using assms dir_index_less [of v] table_index_less [of v]
    by (intro read32_write32_other_page) (auto simp: dir_wf_def)
  then show ?thesis by (simp add: page_table_def)
qed

lemma set_entry_wf: "dir_wf m d \<Longrightarrow> dir_wf (set_entry m d v pdesc) d"
  using set_entry_table [of m d] by (simp add: dir_wf_def)

lemma set_entry_page_entry:
  assumes "dir_wf m d"
  shows "page_entry (set_entry m d v pdesc) d w = (if page_frame w = page_frame v then pdesc else page_entry m d w)"
proof (cases "dir_index w = dir_index v")
  case True
  have "page_table (set_entry m d v pdesc) d (dir_index w) = page_table m d (dir_index v)"
    using set_entry_table [OF assms dir_index_less] True by simp
  then show ?thesis
    using True read32_write32_cell [OF page_table_aligned table_index_less table_index_less, of m m d "dir_index v" v pdesc w]
    by (auto simp: page_entry_def set_entry_def page_frame_eq_iff)
next
  case False
  have "page_table m d (dir_index w) \<noteq> page_table m d (dir_index v)"
    using False assms dir_index_less by (auto simp: dir_wf_def)
  then have "read32 (set_entry m d v pdesc) (page_table m d (dir_index w) + 4 * of_nat (table_index w))
      = page_entry m d w"
    unfolding set_entry_def page_entry_def
    by (intro read32_write32_other_page) (simp_all add: table_index_less)
  then show ?thesis
    using False set_entry_table [OF assms dir_index_less, of v pdesc w] by (simp add: page_entry_def page_frame_eq_iff)
qed

lemma set_entry_frame:
  assumes "\<And>i. i < 1024 \<Longrightarrow> page_frame a \<noteq> page_table m d i"
  shows "set_entry m d v pdesc a = m a"
  unfolding set_entry_def
  using assms [OF dir_index_less [of v]] by (intro write32_page table_index_less) simp_all

text \<open>Mapping a range of pages: each page of the range points at its own frame.\<close>

lemma map_range_loop_spec:
  assumes "dir_wf (kmem s) d" and "virt mod 4096 = 0" and "phys mod 4096 = 0" and "4096 * n < 4294967296"
    and "res = 0"
  shows "\<exists>m. map_range_loop d virt phys flags n res s = Some (0, s\<lparr>kmem := m\<rparr>) \<and> dir_wf m d
    \<and> (\<forall>v. page_entry m d v = (if unat (page_frame v - virt) < 4096 * n
          then (phys + (page_frame v - virt)) OR flags else page_entry (kmem s) d v))
    \<and> (\<forall>i < 1024. page_table m d i = page_table (kmem s) d i)
    \<and> (\<forall>a. (\<forall>i < 1024. page_frame a \<noteq> page_table (kmem s) d i) \<longrightarrow> m a = kmem s a)"
  using assms
proof (induction n arbitrary: virt phys res s)
  case 0
  then show ?case by (intro exI [of _ "kmem s"]) simp
next
  case (Suc n)
  let ?m = "set_entry (kmem s) d virt (phys OR flags)"
  let ?s = "s\<lparr>kmem := ?m\<rparr>"
  have page: "(4096 :: u32) mod 4096 = 0" by simp
  have "map_range_loop d virt phys flags (Suc n) res s
      = map_range_loop d (virt + 4096) (phys + 4096) flags n 0 ?s"
    using Suc.prems paging_set_aligned [OF Suc.prems(1,2)]
    by (simp add: paging_map_def paging_is_aligned_def PAGING_PAGE_SIZE_def PAGING_ENTRY_SET_FLAGS_def ISERR_def)
  moreover have "dir_wf (kmem ?s) d" using set_entry_wf [OF Suc.prems(1)] by simp
  then obtain m where m: "map_range_loop d (virt + 4096) (phys + 4096) flags n 0 ?s = Some (0, ?s\<lparr>kmem := m\<rparr>)"
      "dir_wf m d"
    and e: "\<And>v. page_entry m d v = (if unat (page_frame v - (virt + 4096)) < 4096 * n
        then (phys + 4096 + (page_frame v - (virt + 4096))) OR flags else page_entry ?m d v)"
    and t: "\<And>i. i < 1024 \<Longrightarrow> page_table m d i = page_table ?m d i"
    and f: "\<And>a. (\<forall>i < 1024. page_frame a \<noteq> page_table ?m d i) \<Longrightarrow> m a = ?m a"
    using Suc.IH [of ?s "virt + 4096" "phys + 4096" 0] Suc.prems page_aligned_add [OF _ page] by auto
  moreover have "page_entry m d v = (if unat (page_frame v - virt) < 4096 * Suc n
      then (phys + (page_frame v - virt)) OR flags else page_entry (kmem s) d v)" for v
  proof -
    let ?x = "page_frame v - virt"
    have shift: "page_frame v - (virt + 4096) = ?x - 4096" "phys + 4096 + (?x - 4096) = phys + ?x" by simp_all
    show ?thesis
    proof (cases "?x = 0")
      case True
      have "unat (- 4096 :: u32) = 4294963200" by simp
      moreover have "page_frame v = page_frame virt" using True page_frame_id [OF Suc.prems(2)] by simp
      ultimately show ?thesis
        using e [of v] set_entry_page_entry [OF Suc.prems(1)] Suc.prems(4) True shift by simp
    next
      case False
      have "?x mod 4096 = 0" by (rule page_aligned_minus [OF page_frame_aligned Suc.prems(2)])
      then have "4096 dvd unat ?x" by (simp only: page_aligned_iff)
      moreover have "unat ?x \<noteq> 0" using False unat_0_iff by blast
      ultimately have "4096 \<le> unat ?x" by (simp add: dvd_imp_le)
      then have "unat (?x - 4096) = unat ?x - 4096" using unat_sub [of 4096 ?x] by (simp add: word_le_nat_alt)
      moreover have "page_frame v \<noteq> page_frame virt" using False page_frame_id [OF Suc.prems(2)] by simp
      ultimately show ?thesis
        using e [of v] set_entry_page_entry [OF Suc.prems(1)] \<open>4096 \<le> unat ?x\<close> shift by auto
    qed
  qed
  moreover have "page_table m d i = page_table (kmem s) d i" if "i < 1024" for i
    using t [OF that] set_entry_table [OF Suc.prems(1) that] by simp
  moreover have "m a = kmem s a" if a: "\<forall>i < 1024. page_frame a \<noteq> page_table (kmem s) d i" for a
    using f [of a] set_entry_frame [of a "kmem s" d] a set_entry_table [OF Suc.prems(1)] by simp
  ultimately show ?case by (intro exI [of _ m]) simp
qed

lemma paging_map_to_spec:
  assumes "dir_wf (kmem s) d" and "virt mod 4096 = 0" and "phys mod 4096 = 0" and "phys_end mod 4096 = 0"
    and "phys \<le> phys_end"
  shows "\<exists>m. paging_map_to d virt phys phys_end flags s = Some (0, s\<lparr>kmem := m\<rparr>) \<and> dir_wf m d
    \<and> (\<forall>v. page_entry m d v = (if in_region virt (phys_end - phys) (page_frame v)
          then (phys + (page_frame v - virt)) OR flags else page_entry (kmem s) d v))
    \<and> (\<forall>i < 1024. page_table m d i = page_table (kmem s) d i)
    \<and> (\<forall>a. (\<forall>i < 1024. page_frame a \<noteq> page_table (kmem s) d i) \<longrightarrow> m a = kmem s a)"
proof -
  let ?n = "unat ((phys_end - phys) div 4096)"
  have "(phys_end - phys) mod 4096 = 0" using assms(3,4) by (simp add: page_aligned_minus)
  then have "4096 dvd unat (phys_end - phys)" by (simp only: page_aligned_iff)
  then have n: "4096 * ?n = unat (phys_end - phys)" by (simp add: unat_div)
  have less: "unat (phys_end - phys) < 4294967296" by (rule unat_u32_less)
  then have "?n < 1048576" using n by linarith
  then have "sint ((phys_end - phys) div 4096) = int ?n" by (intro sint_small) simp
  then have "paging_map_to d virt phys phys_end flags s = map_range_loop d virt phys flags ?n 0 s"
    using assms(2-4) leD [OF assms(5)]
    by (simp add: paging_map_to_def paging_map_range_def PAGING_PAGE_SIZE_def)
  moreover have "4096 * ?n < 4294967296" using n less by simp
  ultimately show ?thesis
    using map_range_loop_spec [OF assms(1-3), of ?n 0 flags] n by (simp add: in_region_def word_less_nat_alt)
qed

lemma paging_map_to_error:
  assumes "virt mod 4096 \<noteq> 0 \<or> phys mod 4096 \<noteq> 0 \<or> phys_end mod 4096 \<noteq> 0 \<or> phys_end < phys"
  shows "paging_map_to d virt phys phys_end flags s = Some (- EINVARG, s)"
  using assms by (auto simp: paging_map_to_def PAGING_PAGE_SIZE_def)

text \<open>Rounding an address up to a page; it wraps to 0 in the last page.\<close>

lemma paging_align_address_spec:
  "unat (paging_align_address p) = ((unat p + 4095) div 4096 * 4096) mod 4294967296"
proof -
  have "paging_align_address p = heap_align_value_to_upper p"
    by (simp add: paging_align_address_def heap_align_value_to_upper_def Let_def const_defs)
  then show ?thesis using heap_align_value_to_upper_spec [of p] by simp
qed

section \<open>A new directory\<close>

lemma page_entries_loop_upd:
  "page_entries_loop entry offset flags b n s = Some s' \<Longrightarrow> \<exists>m. s' = s\<lparr>kmem := m\<rparr>"
proof (induction n arbitrary: b s)
  case 0
  then show ?case by (intro exI [of _ "kmem s"]) simp
next
  case (Suc n)
  then show ?case by (fastforce simp: poke32_def bind_eq_Some_conv split: if_splits)
qed

lemma dir_entries_loop_upd:
  "dir_entries_loop d pe flags offset i n s = Some s' \<Longrightarrow> \<exists>h m. s' = s\<lparr>kernel_heap := h, kmem := m\<rparr>"
proof (induction n arbitrary: i offset s)
  case 0
  then show ?case by (intro exI [of _ "kernel_heap s"] exI [of _ "kmem s"]) simp
next
  case (Suc n)
  then obtain t s1 s2 s3 where st: "kzalloc (4 * word_of_int pe) s = Some (t, s1)"
    "page_entries_loop t offset flags 0 (nat pe) s1 = Some s2"
    "poke32 d (of_nat i) (t OR (flags OR PAGING_IS_WRITEABLE)) s2 = Some s3"
    "dir_entries_loop d pe flags (offset + word_of_int pe * PAGING_PAGE_SIZE) (Suc i) n s3 = Some s'"
    by (auto simp: bind_eq_Some_conv)
  from kzalloc_upd [OF st(1)] page_entries_loop_upd [OF st(2)] st(3) Suc.IH [OF st(4)]
  show ?case by (auto simp: poke32_def split: if_splits) blast
qed

lemma page_entries_loop_Some:
  "entry \<noteq> 0 \<Longrightarrow> \<exists>m. page_entries_loop entry offset flags b n s = Some (s\<lparr>kmem := m\<rparr>)"
proof (induction n arbitrary: b s)
  case 0
  show ?case by (intro exI [of _ "kmem s"]) simp
next
  case (Suc n)
  then show ?case
    using Suc.IH [of "Suc b" "s\<lparr>kmem := write32 (kmem s) (entry + 4 * of_nat b)
        ((offset + of_nat b * PAGING_PAGE_SIZE) OR flags)\<rparr>"]
    by (simp add: poke32_def)
qed

lemma dir_entries_loop_Some:
  assumes "heap_wf (kernel_heap s)" and "d \<noteq> 0" and "0 < pe" and "pe \<le> 1024"
    and "n \<le> free_count (blocks (kernel_heap s))"
  shows "\<exists>s'. dir_entries_loop d (int pe) flags offset i n s = Some s' \<and> heap_wf (kernel_heap s')
    \<and> free_count (blocks (kernel_heap s')) + n = free_count (blocks (kernel_heap s))"
  using assms(1,5)
proof (induction n arbitrary: i offset s)
  case 0
  then show ?case by simp
next
  case (Suc n)
  let ?sz = "4 * word_of_int (int pe) :: u32"
  have sz: "unat ?sz = 4 * pe" using assms(4) by (simp add: unat_word_ariths unat_of_nat)
  then have "0 < unat ?sz" "unat ?sz \<le> 4096" using assms(3,4) by simp_all
  then obtain t s1 where t: "kzalloc ?sz s = Some (t, s1)" "t \<noteq> 0"
    "Suc (free_count (blocks (kernel_heap s1))) = free_count (blocks (kernel_heap s))"
    using kzalloc_one [OF Suc.prems(1), of ?sz] Suc.prems(2) by (metis Suc_le_lessD le_less_trans zero_le)
  have wf1: "heap_wf (kernel_heap s1)"
    using kz.alloc_ok [OF Suc.prems(1) _ t(1)] \<open>unat ?sz \<le> 4096\<close> by (simp add: size_ok_def)
  obtain m where m: "page_entries_loop t offset flags 0 pe s1 = Some (s1\<lparr>kmem := m\<rparr>)"
    using page_entries_loop_Some [OF t(2)] by blast
  let ?s3 = "s1\<lparr>kmem := write32 m (d + 4 * of_nat i) (t OR (flags OR PAGING_IS_WRITEABLE))\<rparr>"
  have "dir_entries_loop d (int pe) flags offset i (Suc n) s
      = dir_entries_loop d (int pe) flags (offset + of_nat pe * PAGING_PAGE_SIZE) (Suc i) n ?s3"
    using t(1) m assms(2) by (simp add: poke32_def)
  moreover have "heap_wf (kernel_heap ?s3)" "n \<le> free_count (blocks (kernel_heap ?s3))"
    using wf1 t(3) Suc.prems(2) by simp_all
  ultimately show ?case
    using Suc.IH [of ?s3 "offset + of_nat pe * PAGING_PAGE_SIZE" "Suc i"] t(3) by auto
qed

text \<open>
  The new directory maps every page to itself with the flags given, its own entries carry
  the flags and the write bit, and it needs one block per table, one for the directory and
  one for the chunk object.
\<close>

lemma dir_loop_page_entry:
  assumes "length ts = 1024" and "\<And>k. k < 1024 \<Longrightarrow> page_table m d k = ts ! k"
    and "\<And>k b. k < 1024 \<Longrightarrow> b < 1024 \<Longrightarrow> read32 m (ts ! k + 4 * of_nat b) = (of_nat (k * 1024 + b) * 4096) OR flags"
  shows "page_entry m d v = page_frame v OR flags"
  using assms(2) [OF dir_index_less [of v]] assms(3) [OF dir_index_less [of v] table_index_less [of v]]
  unfolding page_entry_def page_frame_index by simp

text \<open>The blocks a chunk owns: its tables, the directory and the chunk object.\<close>

definition chunk_blocks :: "'a paging_state_scheme \<Rightarrow> u32 \<Rightarrow> u32 \<Rightarrow> u32 list" where
  "chunk_blocks s c d = map (page_table (kmem s) d) [0..<1024] @ [d, c]"

definition chunk_owned :: "'a paging_state_scheme \<Rightarrow> u32 \<Rightarrow> u32 \<Rightarrow> bool" where
  "chunk_owned s c d \<longleftrightarrow> map_option directory_entry (chunks s c) = Some d \<and> dir_wf (kmem s) d
     \<and> distinct (chunk_blocks s c d) \<and> (\<forall>p \<in> set (chunk_blocks s c d). live_block (kernel_heap s) p)"

lemma paging_chunk_new_spec:
  fixes s :: "'a paging_state_scheme"
  assumes "heap_wf (kernel_heap s)" and "1026 \<le> free_count (blocks (kernel_heap s))"
  shows "\<exists>c d s'. paging_chunk_new 1024 1024 flags s = Some (c, s') \<and> c \<noteq> 0
    \<and> chunks s' = (chunks s)(c \<mapsto> \<lparr>directory_entry = d, dir_count = 1024, entries_count = 1024\<rparr>)
    \<and> dir_wf (kmem s') d \<and> heap_wf (kernel_heap s')
    \<and> free_count (blocks (kernel_heap s')) + 1026 = free_count (blocks (kernel_heap s))
    \<and> (\<forall>v. page_entry (kmem s') d v = page_frame v OR ucast flags)
    \<and> (\<forall>i < 1024. read32 (kmem s') (d + 4 * of_nat i) = page_table (kmem s') d i OR (ucast flags OR PAGING_IS_WRITEABLE))
    \<and> (\<forall>a. \<not> free_byte (kernel_heap s) a \<longrightarrow> kmem s' a = kmem s a \<and> \<not> free_byte (kernel_heap s') a)
    \<and> (\<forall>a. page_frame a = d \<or> (\<exists>i < 1024. page_frame a = page_table (kmem s') d i) \<longrightarrow>
        free_byte (kernel_heap s) a \<and> \<not> free_byte (kernel_heap s') a)
    \<and> chunk_owned s' c d \<and> (\<forall>q \<in> set (chunk_blocks s' c d). free_byte (kernel_heap s) q)
    \<and> (\<forall>q. live_block (kernel_heap s') q \<longleftrightarrow> q \<in> set (chunk_blocks s' c d) \<or> live_block (kernel_heap s) q)"
proof -
  let ?f = "ucast flags :: u32"
  obtain d s1 where d: "kzalloc 4096 s = Some (d, s1)" "d \<noteq> 0"
      "Suc (free_count (blocks (kernel_heap s1))) = free_count (blocks (kernel_heap s))"
    using kzalloc_one [OF assms(1), of 4096] assms(2) by auto
  have sz: "size_ok 4096" "(4096 :: u32) \<noteq> 0" by (simp_all add: size_ok_def)
  note wf1 = kz.alloc_ok [OF assms(1) sz(1) d(1)]
  note d_al = kz.alloc_aligned [OF assms(1) d(1)]
  note d_page = kz.alloc_page [OF assms(1) sz(1) d(1,2) sz(2)]
  note keep1 = kz.alloc_keep [OF assms(1) sz(1) d(1)]
  obtain s2 where s2: "dir_entries_loop d 1024 ?f 0 0 1024 s1 = Some s2" "heap_wf (kernel_heap s2)"
      "free_count (blocks (kernel_heap s2)) + 1024 = free_count (blocks (kernel_heap s1))"
    using dir_entries_loop_Some [OF wf1 d(2), of 1024 1024 ?f 0 0] d(3) assms(2) by auto
  have d1: "\<not> free_byte (kernel_heap s1) a" if "page_frame a = d" for a using d_page [OF that] by simp
  from dir_entries_loop_spec [OF wf1 d_al d(2) d1, of 1024 0 1024 ?f 0 s2] s2(1) unat_ucast_u8 [of flags]
  obtain ts where
    mono2: "\<And>a. \<not> free_byte (kernel_heap s1) a \<Longrightarrow> \<not> free_byte (kernel_heap s2) a"
    and keep2: "\<And>a. \<not> free_byte (kernel_heap s1) a \<Longrightarrow> page_frame a \<noteq> d \<Longrightarrow> kmem s2 a = kmem s1 a"
    and ts: "length ts = 1024" "distinct ts"
    and live2: "\<And>q. live_block (kernel_heap s2) q \<longleftrightarrow> q \<in> set ts \<or> live_block (kernel_heap s1) q"
    and ts': "\<And>k. k < 1024 \<Longrightarrow> ts ! k mod 4096 = 0 \<and> ts ! k \<noteq> 0 \<and> free_byte (kernel_heap s1) (ts ! k)
        \<and> (\<forall>a. page_frame a = ts ! k \<longrightarrow> \<not> free_byte (kernel_heap s2) a)
        \<and> read32 (kmem s2) (d + 4 * of_nat k) = ts ! k OR (?f OR PAGING_IS_WRITEABLE)
        \<and> (\<forall>b < 1024. read32 (kmem s2) (ts ! k + 4 * of_nat b) = (of_nat (k * 1024 + b) * 4096) OR ?f)"
    by auto
  have c_sz: "size_ok sizeof_paging_chunk" "unat sizeof_paging_chunk = 12"
    by (simp_all add: size_ok_def sizeof_paging_chunk_def)
  obtain c s3 where c: "kzalloc sizeof_paging_chunk s2 = Some (c, s3)" "c \<noteq> 0"
      "Suc (free_count (blocks (kernel_heap s3))) = free_count (blocks (kernel_heap s2))"
    using kzalloc_one [OF s2(2), of sizeof_paging_chunk] c_sz s2(3) d(3) assms(2) by auto
  note keep3 = kz.alloc_keep [OF s2(2) c_sz(1) c(1)]
  define s' where "s' = s3\<lparr>chunks := (chunks s3)(c \<mapsto> \<lparr>directory_entry = d, dir_count = 1024, entries_count = 1024\<rparr>)\<rparr>"
  have run: "paging_chunk_new 1024 1024 flags s = Some (c, s')"
    using d(1) s2(1) c(1,2) by (simp add: paging_chunk_new_def s'_def)
  have d_kept: "read32 (kmem s') (d + 4 * of_nat k) = read32 (kmem s2) (d + 4 * of_nat k)" if "k < 1024" for k
    using keep3 mono2 d1 by (intro read32_page_cong [OF d_al that]) (simp add: s'_def)
  have t_kept: "read32 (kmem s') (ts ! k + 4 * of_nat b) = read32 (kmem s2) (ts ! k + 4 * of_nat b)"
    if "k < 1024" "b < 1024" for k b
    using keep3 ts' [OF that(1)] that(2) by (intro read32_page_cong) (simp_all add: s'_def)
  have low: "unat (?f OR PAGING_IS_WRITEABLE) < 4096"
    using unat_ucast_u8 [of flags] page_frame_writeable by (simp add: low_iff page_frame_or)
  have tab: "page_table (kmem s') d k = ts ! k" if "k < 1024" for k
    using ts' [OF that] d_kept [OF that] flags_low [OF _ low] by (simp add: page_table_def)
  have t_d: "ts ! k \<noteq> d" if "k < 1024" for k
    using ts' [OF that] d1 [of d] page_frame_id [OF d_al] by auto
  have wf': "dir_wf (kmem s') d"
    using d_al d(2) tab ts' t_d ts by (auto simp: dir_wf_def nth_eq_iff_index_eq)
  have entry: "page_entry (kmem s') d v = page_frame v OR ?f" for v
    using dir_loop_page_entry [OF ts(1) tab] t_kept ts' by simp
  have pages: "free_byte (kernel_heap s) a \<and> \<not> free_byte (kernel_heap s') a"
    if a: "page_frame a = d \<or> (\<exists>i < 1024. page_frame a = page_table (kmem s') d i)" for a
  proof -
    consider "page_frame a = d" | k where "k < 1024" "page_frame a = ts ! k" using a tab by auto
    then have "free_byte (kernel_heap s) a \<and> \<not> free_byte (kernel_heap s2) a"
    proof cases
      case 1
      then show ?thesis using d_page [of a] mono2 [of a] by blast
    next
      case 2
      have "page_frame a = page_frame (ts ! k)" using 2 ts' [OF 2(1)] page_frame_id by simp
      then have "free_byte (kernel_heap s1) a" using kz.avail_page [OF wf1] ts' [OF 2(1)] by blast
      then show ?thesis using keep1 [of a] ts' [OF 2(1)] 2(2) by blast
    qed
    then show ?thesis using keep3 [of a] by (auto simp: s'_def)
  qed
  have "map (page_table (kmem s') d) [0..<1024] = ts"
    using ts(1) tab by (intro nth_equalityI) simp_all
  then have cb: "chunk_blocks s' c d = ts @ [d, c]" by (simp add: chunk_blocks_def)
  have kh: "kernel_heap s' = kernel_heap s3" "map_option directory_entry (chunks s' c) = Some d"
    by (simp_all add: s'_def)
  have "unat sizeof_paging_chunk \<noteq> 0" using c_sz(2) by simp
  then have c_sz0: "sizeof_paging_chunk \<noteq> 0" by (metis unat_0)
  have live': "live_block (kernel_heap s') q \<longleftrightarrow> q \<in> set (chunk_blocks s' c d) \<or> live_block (kernel_heap s) q" for q
    using live2 [of q] kzf.alloc_live [OF assms(1) sz d(1,2), of q]
      kzf.alloc_live [OF s2(2) c_sz(1) c_sz0 c(1,2), of q]
    by (auto simp: cb kh)
  have "free_byte (kernel_heap s2) c"
    using kz.alloc_page [OF s2(2) c_sz(1) c(1,2) c_sz0, of c] page_frame_id [OF kz.alloc_aligned [OF s2(2) c(1)]]
    by simp
  then have c_new: "c \<noteq> d" "c \<notin> set ts"
    using mono2 d1 [of d] page_frame_id [OF d_al] ts' ts(1) page_frame_id by (auto simp: in_set_conv_nth)
  have d_new: "d \<notin> set ts" using t_d ts(1) by (auto simp: in_set_conv_nth)
  have free: "\<forall>q \<in> set (chunk_blocks s' c d). free_byte (kernel_heap s) q"
  proof
    fix q
    assume "q \<in> set (chunk_blocks s' c d)"
    then consider "q = c" | "q = d" | k where "k < 1024" "q = ts ! k"
      using ts(1) by (auto simp: cb in_set_conv_nth)
    then show "free_byte (kernel_heap s) q"
    proof cases
      case 1
      then show ?thesis using \<open>free_byte (kernel_heap s2) c\<close> keep1 [of c] mono2 [of c] by blast
    next
      case 2
      then show ?thesis using pages [of d] page_frame_id [OF d_al] by simp
    next
      case 3
      then have "page_frame q = page_table (kmem s') d k" using tab [of k] ts' [of k] page_frame_id by simp
      then show ?thesis using pages [of q] 3(1) by blast
    qed
  qed
  have owned: "chunk_owned s' c d"
    unfolding chunk_owned_def cb
    using wf' ts(2) c_new d_new live' kh(2) by (auto simp: cb)
  show ?thesis
  proof (rule exI [of _ c], rule exI [of _ d], rule exI [of _ s'], intro conjI allI impI)
    show "chunks s' = (chunks s)(c \<mapsto> \<lparr>directory_entry = d, dir_count = 1024, entries_count = 1024\<rparr>)"
      using kzalloc_upd [OF d(1)] dir_entries_loop_upd [OF s2(1)] kzalloc_upd [OF c(1)] by (auto simp: s'_def)
    show "heap_wf (kernel_heap s')"
      using kz.alloc_ok [OF s2(2) c_sz(1) c(1)] by (simp add: s'_def)
    show "free_count (blocks (kernel_heap s')) + 1026 = free_count (blocks (kernel_heap s))"
      using d(3) s2(3) c(3) by (simp add: s'_def)
    show "read32 (kmem s') (d + 4 * of_nat i) = page_table (kmem s') d i OR (?f OR PAGING_IS_WRITEABLE)"
      if "i < 1024" for i
      using ts' [OF that] d_kept [OF that] tab [OF that] by simp
    show "kmem s' a = kmem s a" "\<not> free_byte (kernel_heap s') a" if a: "\<not> free_byte (kernel_heap s) a" for a
      using keep1 [OF a] keep2 [of a] mono2 [of a] keep3 [of a] d_page [of a] a by (auto simp: s'_def)
    show "free_byte (kernel_heap s) a" "\<not> free_byte (kernel_heap s') a"
      if "page_frame a = d \<or> (\<exists>i < 1024. page_frame a = page_table (kmem s') d i)" for a
      using pages [OF that] by simp_all
  qed (use run c(2) wf' entry owned live' free in auto)
qed

section \<open>Releasing a directory\<close>

text \<open>The release loop frees the tables the directory points at, in order.\<close>

lemma chunk_free_loop_free_all:
  assumes "d \<noteq> 0"
  shows "chunk_free_loop d i n s = free_all kfree (map (page_table (kmem s) d) [i..<i + n]) s"
proof (induction n arbitrary: i s)
  case 0
  then show ?case by simp
next
  case (Suc n)
  have mem: "kmem s' = kmem s" if "kfree p s = Some s'" for p s'
    using that by (auto simp: kfree_def bind_eq_Some_conv)
  have "[i..<i + Suc n] = i # [Suc i..<Suc i + n]" by (simp add: upt_rec)
  then show ?case
    using Suc.IH assms mem
    by (cases "kfree (page_table (kmem s) d i) s")
      (simp_all add: peek32_def PAGING_ENTRY_GET_POINTER_def page_table_def page_frame_def)
qed

lemma free_all_kfree_upd: "free_all kfree ps s = Some s' \<Longrightarrow> \<exists>h. s' = s\<lparr>kernel_heap := h\<rparr>"
proof (induction ps arbitrary: s)
  case Nil
  then show ?case by (intro exI [of _ "kernel_heap s"]) simp
next
  case (Cons p ps)
  then obtain s1 where s1: "kfree p s = Some s1" "free_all kfree ps s1 = Some s'"
    by (auto simp: bind_eq_Some_conv)
  from s1(1) obtain h where "s1 = s\<lparr>kernel_heap := h\<rparr>" by (auto simp: kfree_def bind_eq_Some_conv)
  with Cons.IH [OF s1(2)] show ?case by auto
qed

lemma paging_chunk_free_spec:
  assumes "heap_wf (kernel_heap s)" and "chunk_owned s c d"
  shows "\<exists>h. paging_chunk_free c s = Some (s\<lparr>kernel_heap := h, chunks := (chunks s)(c := None)\<rparr>) \<and> heap_wf h
    \<and> (\<forall>q. live_block h q \<longleftrightarrow> live_block (kernel_heap s) q \<and> q \<notin> set (chunk_blocks s c d))"
proof -
  obtain ch where ch: "chunks s c = Some ch" "directory_entry ch = d"
    using assms(2) by (auto simp: chunk_owned_def)
  have d: "d \<noteq> 0" using assms(2) by (simp add: chunk_owned_def dir_wf_def)
  obtain s' where s': "free_all kfree (chunk_blocks s c d) s = Some s'" "heap_wf (kernel_heap s')"
    "\<forall>q. live_block (kernel_heap s') q \<longleftrightarrow> live_block (kernel_heap s) q \<and> q \<notin> set (chunk_blocks s c d)"
    using kzf.free_all_live [OF assms(1), of "chunk_blocks s c d"] assms(2) by (auto simp: chunk_owned_def)
  obtain h where h: "s' = s\<lparr>kernel_heap := h\<rparr>" using free_all_kfree_upd [OF s'(1)] by blast
  have "paging_chunk_free c s = Option.bind (free_all kfree (chunk_blocks s c d) s)
      (\<lambda>s3. Some (s3\<lparr>chunks := (chunks s3)(c := None)\<rparr>))"
    using ch chunk_free_loop_free_all [OF d, of 0 1024 s]
    by (simp add: paging_chunk_free_def chunk_blocks_def free_all_append PAGING_TOTAL_DIR_ENTRIES_def
        Let_def split: Option.bind_splits)
  with s' h show ?thesis by (intro exI [of _ h]) simp
qed

section \<open>Properties\<close>

lemma page_frame_small: "unat a < 4096 \<Longrightarrow> page_frame a = 0"
  by (simp add: word_unat_eq_iff unat_page_frame)

lemma page_frame_or_flags: "page_frame flags = 0 \<Longrightarrow> a mod 4096 = 0 \<Longrightarrow> page_frame (a OR flags) = a"
  by (simp add: page_frame_or page_frame_id)

lemma mapped_translate:
  assumes "page_entry m d v = (phys + (page_frame v - virt)) OR flags" and "virt mod 4096 = 0" and "phys mod 4096 = 0"
    and "page_frame flags = 0"
  shows "translate m d v = phys + (v - virt)"
proof -
  have "(phys + (page_frame v - virt)) mod 4096 = 0"
    using assms(2,3) page_frame_aligned by (intro page_aligned_add page_aligned_minus)
  then have "translate m d v = phys + (page_frame v - virt) + page_offset v"
    using assms(1) page_frame_or_flags [OF assms(4)] by (simp add: translate_def)
  also have "\<dots> = phys + ((page_frame v + page_offset v) - virt)" by (simp add: algebra_simps)
  finally show ?thesis by (simp add: page_split)
qed

text \<open>A page lies in a range of whole pages when its addresses do.\<close>

lemma region_page:
  assumes "virt mod 4096 = 0" and "n mod 4096 = 0"
  shows "in_region virt n (page_frame v) \<longleftrightarrow> in_region virt n v"
proof -
  let ?w = "page_frame v - virt"
  have al: "4096 dvd unat ?w" "4096 dvd unat n"
    using page_aligned_minus [OF page_frame_aligned assms(1)] assms(2) by (simp_all only: page_aligned_iff)
  have "v - virt = ?w + page_offset v" using page_split [of v] by (metis add_diff_eq diff_add_eq)
  then have u: "unat (v - virt) = unat ?w + unat (page_offset v)"
    using unat_page_add [OF page_aligned_minus [OF page_frame_aligned assms(1)] page_offset_less] by metis
  show ?thesis
    using al page_offset_less [of v] unfolding in_region_def word_less_nat_alt u by (auto elim!: dvdE)
qed

text \<open>
  C20. A directory made by \<open>paging_chunk_new\<close> for the whole address space maps every address to
  itself, with the flags asked for, out of memory that was free, and owns exactly the
  1026 blocks it was made of.
\<close>

theorem paging_chunk_new_identity:
  fixes s :: "'a paging_state_scheme"
  assumes "heap_wf (kernel_heap s)" and "1026 \<le> free_count (blocks (kernel_heap s))"
  shows "\<exists>c d s'. paging_chunk_new PAGING_TOTAL_DIR_ENTRIES PAGING_TOTAL_ENTRIES_PER_TABLE flags s = Some (c, s')
    \<and> (\<forall>v. translate (kmem s') d v = v \<and> PAGING_ENTRY_GET_FLAGS (page_entry (kmem s') d v) = ucast flags)
    \<and> (\<forall>a. \<not> free_byte (kernel_heap s) a \<longrightarrow> kmem s' a = kmem s a)
    \<and> chunk_owned s' c d \<and> heap_wf (kernel_heap s')
    \<and> (\<forall>q. live_block (kernel_heap s') q \<longleftrightarrow> q \<in> set (chunk_blocks s' c d) \<or> live_block (kernel_heap s) q)"
proof -
  obtain c d s' where n: "paging_chunk_new 1024 1024 flags s = Some (c, s')" "heap_wf (kernel_heap s')"
    "\<forall>v. page_entry (kmem s') d v = page_frame v OR ucast flags"
    "\<forall>a. \<not> free_byte (kernel_heap s) a \<longrightarrow> kmem s' a = kmem s a \<and> \<not> free_byte (kernel_heap s') a"
    "chunk_owned s' c d"
    "\<forall>q. live_block (kernel_heap s') q \<longleftrightarrow> q \<in> set (chunk_blocks s' c d) \<or> live_block (kernel_heap s) q"
    using paging_chunk_new_spec [OF assms, of flags] by blast
  have f: "page_frame (ucast flags) = 0" by (rule page_frame_small [OF unat_ucast_u8])
  have "translate (kmem s') d v = v" for v
    using page_frame_or_flags [OF f page_frame_aligned, of v] by (simp add: translate_def n(3) page_split)
  moreover have "PAGING_ENTRY_GET_FLAGS (page_entry (kmem s') d v) = ucast flags" for v
  proof -
    have "page_frame v AND 0xFFF = 0" by (simp add: page_frame_def and.assoc)
    moreover have "(ucast flags :: u32) AND 0xFFF = ucast flags"
      using page_split [of "ucast flags"] f by (simp add: page_offset_def)
    ultimately show ?thesis by (simp add: PAGING_ENTRY_GET_FLAGS_def n(3) bit.conj_disj_distrib2)
  qed
  ultimately show ?thesis
    unfolding PAGING_TOTAL_DIR_ENTRIES_def PAGING_TOTAL_ENTRIES_PER_TABLE_def
    using n by (intro exI [of _ c] exI [of _ d] exI [of _ s'] conjI) simp_all
qed

definition blank_paging :: "nat \<Rightarrow> paging_state" where
  "blank_paging n = kheap_state.extend (blank_kheap n)
     \<lparr>chunks = Map.empty, current_directory = 0, cr3 = 0, cr0_pg = False\<rparr>"

lemma blank_paging_heap [simp]: "kernel_heap (blank_paging n) = fresh_heap n"
  by (simp add: blank_paging_def blank_kheap_def kheap_state.defs)

theorem paging_chunk_new_identity_witness:
  "\<exists>c d s'. paging_chunk_new PAGING_TOTAL_DIR_ENTRIES PAGING_TOTAL_ENTRIES_PER_TABLE 7 (blank_paging 1026) = Some (c, s')
    \<and> translate (kmem s') d 0x00400123 = 0x00400123"
  using paging_chunk_new_identity [of "blank_paging 1026" 7] by (auto simp: fresh_heap_wf)

text \<open>
  Releasing a page directory gives back everything it was made of: after \<open>paging_chunk_new\<close>
  and \<open>paging_chunk_free\<close> exactly the blocks that were live before are live.
\<close>

lemma paging_chunk_new_free:
  fixes s :: "'a paging_state_scheme"
  assumes "heap_wf (kernel_heap s)" and "1026 \<le> free_count (blocks (kernel_heap s))"
  shows "\<exists>c s' s''. paging_chunk_new 1024 1024 flags s = Some (c, s') \<and> paging_chunk_free c s' = Some s''
    \<and> heap_wf (kernel_heap s'') \<and> (\<forall>q. live_block (kernel_heap s'') q \<longleftrightarrow> live_block (kernel_heap s) q)"
proof -
  obtain c d s' where n: "paging_chunk_new 1024 1024 flags s = Some (c, s')" "heap_wf (kernel_heap s')"
    "chunk_owned s' c d" "\<forall>q \<in> set (chunk_blocks s' c d). free_byte (kernel_heap s) q"
    "\<forall>q. live_block (kernel_heap s') q \<longleftrightarrow> q \<in> set (chunk_blocks s' c d) \<or> live_block (kernel_heap s) q"
    using paging_chunk_new_spec [OF assms, of flags] by blast
  from n(4) have "\<not> live_block (kernel_heap s) q" if "q \<in> set (chunk_blocks s' c d)" for q
    using that live_not_free [OF assms(1)] by blast
  with n(5) show ?thesis using paging_chunk_free_spec [OF n(2,3)] n(1) by auto
qed

lemma paging_chunk_new_free_witness:
  "\<exists>c s' s''. paging_chunk_new 1024 1024 7 (blank_paging 1026) = Some (c, s') \<and> paging_chunk_free c s' = Some s''"
  using paging_chunk_new_free [of "blank_paging 1026" 7] by (auto simp: fresh_heap_wf)

text \<open>
  C7. \<open>paging_map_to\<close> with aligned arguments maps the range of virtual pages from \<open>virt\<close> on to
  the physical range, and changes the translation of no other address, nor any byte
  outside the directory's tables.
\<close>

theorem paging_map_to_translates:
  assumes "dir_wf (kmem s) d" and "virt mod 4096 = 0" and "phys mod 4096 = 0" and "phys_end mod 4096 = 0"
    and "phys \<le> phys_end" and "page_frame flags = 0"
  shows "\<exists>m. paging_map_to d virt phys phys_end flags s = Some (0, s\<lparr>kmem := m\<rparr>) \<and> dir_wf m d
    \<and> (\<forall>v. translate m d v = (if in_region virt (phys_end - phys) (page_frame v) then phys + (v - virt)
          else translate (kmem s) d v))
    \<and> (\<forall>a. (\<forall>i < 1024. page_frame a \<noteq> page_table (kmem s) d i) \<longrightarrow> m a = kmem s a)"
proof -
  obtain m where m: "paging_map_to d virt phys phys_end flags s = Some (0, s\<lparr>kmem := m\<rparr>)" "dir_wf m d"
    "\<forall>v. page_entry m d v = (if in_region virt (phys_end - phys) (page_frame v)
        then (phys + (page_frame v - virt)) OR flags else page_entry (kmem s) d v)"
    "\<forall>a. (\<forall>i < 1024. page_frame a \<noteq> page_table (kmem s) d i) \<longrightarrow> m a = kmem s a"
    using paging_map_to_spec [OF assms(1-5), of flags] by blast
  have "translate m d v = phys + (v - virt)" if "in_region virt (phys_end - phys) (page_frame v)" for v
    using that m(3) by (intro mapped_translate [OF _ assms(2,3,6)]) simp
  moreover have "translate m d v = translate (kmem s) d v" if "\<not> in_region virt (phys_end - phys) (page_frame v)" for v
    using that m(3) by (simp add: translate_def)
  ultimately show ?thesis using m(1,2,4) by (intro exI [of _ m]) simp
qed

theorem paging_map_to_translates_witness:
  "\<exists>s d m. dir_wf (kmem s) d \<and> paging_map_to d 0x00400000 0x01000000 0x01004000 7 s = Some (0, s\<lparr>kmem := m\<rparr> :: paging_state)
    \<and> translate m d 0x00401234 = 0x01001234"
proof -
  obtain c d s' where "paging_chunk_new 1024 1024 7 (blank_paging 1026) = Some (c, s')" and wf: "dir_wf (kmem s') d"
    using paging_chunk_new_spec [of "blank_paging 1026" 7] by (auto simp: fresh_heap_wf)
  have "in_region 0x00400000 0x4000 (page_frame 0x00401234)" by (simp add: in_region_def page_frame_def)
  with paging_map_to_translates [OF wf, where virt = "0x00400000" and phys = "0x01000000" and phys_end = "0x01004000" and flags = 7] wf show ?thesis
    by (fastforce simp: page_frame_def)
qed

end
