(* ===== verification/Disk.thy ===== *)
theory Disk
  imports Paging
begin

text \<open>
  The disk driver (\<^verbatim>\<open>src/disk/disk.c\<close>, over the port instructions of \<^verbatim>\<open>src/io/io.asm\<close>)
  and the byte streams on it (\<^verbatim>\<open>src/disk/stream.c\<close>).

  The ATA controller is hardware: it is a parameter, a record of port operations on a device
  state. What the driver relies on is \<open>ata_protocol\<close>, the documented behaviour of a
  sector read in LBA mode. A device that keeps it serves a sector image, and the layers
  above work on the image.
\<close>

section \<open>Port access\<close>

record 'd io_ports =
  port_outb :: "u16 \<Rightarrow> u8 \<Rightarrow> 'd \<Rightarrow> 'd"
  port_insb :: "u16 \<Rightarrow> 'd \<Rightarrow> u8 \<times> 'd"
  port_insw :: "u16 \<Rightarrow> 'd \<Rightarrow> u16 \<times> 'd"

section \<open>Reading sectors\<close>

text \<open>The register writes of \<open>disk_read_sector\<close>: drive and LBA bits 24 to 27, count, LBA low to high, command.\<close>

definition disk_select :: "'d io_ports \<Rightarrow> u32 \<Rightarrow> u32 \<Rightarrow> 'd \<Rightarrow> 'd" where
  "disk_select io lba total_sectors d =
     (let d1 = port_outb io 0x1F6 (ucast (signed_drop_bit 24 lba OR 0xE0)) d;
          d2 = port_outb io 0x1F2 (ucast total_sectors) d1;
          d3 = port_outb io 0x1F3 (ucast (lba AND 0xFF)) d2;
          d4 = port_outb io 0x1F4 (ucast (signed_drop_bit 8 lba)) d3;
          d5 = port_outb io 0x1F5 (ucast (signed_drop_bit 16 lba)) d4
      in port_outb io 0x1F7 0x20 d5)"

text \<open>Polling the status register until the data request bit is set; it may never be.\<close>

partial_function (option) disk_wait :: "'d io_ports \<Rightarrow> 'd \<Rightarrow> 'd option" where
  "disk_wait io d =
     (let r = port_insb io 0x1F7 d
      in if fst r AND 0x08 = 0 then disk_wait io (snd r) else Some (snd r))"

text \<open>\<open>n\<close> words into consecutive 16-bit places, low byte first.\<close>

fun disk_words :: "'d io_ports \<Rightarrow> nat \<Rightarrow> 'd \<Rightarrow> u8 list \<times> 'd" where
  "disk_words io 0 d = ([], d)"
| "disk_words io (Suc n) d =
     (let (w, d1) = port_insw io 0x1F0 d;
          (bs, d2) = disk_words io n d1
      in (ucast w # ucast (drop_bit 8 w) # bs, d2))"

fun disk_sectors :: "'d io_ports \<Rightarrow> nat \<Rightarrow> 'd \<Rightarrow> (u8 list \<times> 'd) option" where
  "disk_sectors io 0 d = Some ([], d)"
| "disk_sectors io (Suc n) d = do {
     d1 \<leftarrow> disk_wait io d;
     let (bs, d2) = disk_words io 256 d1;
     (bs', d3) \<leftarrow> disk_sectors io n d2;
     Some (bs @ bs', d3)
   }"

text \<open>Result code, the bytes stored from \<open>buf\<close> on, and the device.\<close>

definition disk_read_sector :: "'d io_ports \<Rightarrow> u32 \<Rightarrow> u32 \<Rightarrow> 'd \<Rightarrow> (int \<times> u8 list \<times> 'd) option" where
  "disk_read_sector io lba total_sectors d = do {
     (bs, d') \<leftarrow> disk_sectors io (nat (sint total_sectors)) (disk_select io lba total_sectors d);
     Some (0, bs, d')
   }"

section \<open>What the driver relies on\<close>

text \<open>
  \<open>reg\<close> reads back a task-file register, \<open>pending\<close> is the data the controller has still
  to deliver, \<open>wait\<close> how many more polls find it busy. A READ SECTORS command (0x20) makes
  the words of the selected sectors pending; the selection is the 28-bit LBA of the
  registers.
\<close>

definition le16 :: "u8 \<Rightarrow> u8 \<Rightarrow> u16" where
  "le16 a b = ucast a OR push_bit 8 (ucast b)"

definition sector_words :: "u8 list \<Rightarrow> u16 list" where
  "sector_words bs = map (\<lambda>i. le16 (bs ! (2 * i)) (bs ! (2 * i + 1))) [0..<256]"

definition selected_lba :: "(u16 \<Rightarrow> u8) \<Rightarrow> nat" where
  "selected_lba r = unat (r 0x1F3) + 256 * unat (r 0x1F4) + 65536 * unat (r 0x1F5)
     + 16777216 * (unat (r 0x1F6) mod 16)"

definition ata_protocol ::
    "'d io_ports \<Rightarrow> ('d \<Rightarrow> u16 \<Rightarrow> u8) \<Rightarrow> ('d \<Rightarrow> u16 list) \<Rightarrow> ('d \<Rightarrow> nat) \<Rightarrow> (u32 \<Rightarrow> u8 list) \<Rightarrow> bool" where
  "ata_protocol io reg pending wait img \<longleftrightarrow>
     (\<forall>d p v. p \<in> {0x1F2, 0x1F3, 0x1F4, 0x1F5, 0x1F6} \<longrightarrow> reg (port_outb io p v d) = (reg d)(p := v))
   \<and> (\<forall>d. pending (port_outb io 0x1F7 0x20 d)
        = concat (map (\<lambda>k. sector_words (img (of_nat (selected_lba (reg d) + k)))) [0..<unat (reg d 0x1F2)]))
   \<and> (\<forall>d. case port_insb io 0x1F7 d of (c, d') \<Rightarrow> pending d' = pending d
        \<and> (if wait d = 0 then c AND 0x08 \<noteq> 0 else c AND 0x08 = 0 \<and> wait d' < wait d))
   \<and> (\<forall>d w ws. pending d = w # ws \<longrightarrow> (case port_insw io 0x1F0 d of (w', d') \<Rightarrow> w' = w \<and> pending d' = ws))"

text \<open>The four clauses, as the proofs use them.\<close>

lemma ata_reg:
  "ata_protocol io reg pending wait img \<Longrightarrow> p \<in> {0x1F2, 0x1F3, 0x1F4, 0x1F5, 0x1F6} \<Longrightarrow>
   reg (port_outb io p v d) = (reg d)(p := v)"
  unfolding ata_protocol_def by (elim conjE) (rule mp, rule spec, rule spec, rule spec, assumption, assumption)

lemma ata_command:
  "ata_protocol io reg pending wait img \<Longrightarrow> pending (port_outb io 0x1F7 0x20 d)
     = concat (map (\<lambda>k. sector_words (img (of_nat (selected_lba (reg d) + k)))) [0..<unat (reg d 0x1F2)])"
  unfolding ata_protocol_def by (elim conjE) (rule spec, assumption)

lemma ata_poll:
  assumes "ata_protocol io reg pending wait img" and "port_insb io 0x1F7 d = (c, d')"
  shows "pending d' = pending d"
    and "if wait d = 0 then c AND 0x08 \<noteq> 0 else c AND 0x08 = 0 \<and> wait d' < wait d"
proof -
  from assms(1) have "\<forall>d. case port_insb io 0x1F7 d of (c, d') \<Rightarrow> pending d' = pending d
      \<and> (if wait d = 0 then c AND 0x08 \<noteq> 0 else c AND 0x08 = 0 \<and> wait d' < wait d)"
    unfolding ata_protocol_def by (elim conjE)
  from spec [OF this, of d] have "pending d' = pending d
      \<and> (if wait d = 0 then c AND 0x08 \<noteq> 0 else c AND 0x08 = 0 \<and> wait d' < wait d)"
    unfolding assms(2) prod.case .
  then show "pending d' = pending d"
    and "if wait d = 0 then c AND 0x08 \<noteq> 0 else c AND 0x08 = 0 \<and> wait d' < wait d" by blast+
qed

lemma ata_data:
  assumes "ata_protocol io reg pending wait img" and "pending d = w # ws"
    and "port_insw io 0x1F0 d = (w', d')"
  shows "w' = w" and "pending d' = ws"
proof -
  from assms(1) have "\<forall>d w ws. pending d = w # ws \<longrightarrow> (case port_insw io 0x1F0 d of (w', d') \<Rightarrow> w' = w \<and> pending d' = ws)"
    unfolding ata_protocol_def by (elim conjE)
  from this [rule_format, OF assms(2)] have "w' = w \<and> pending d' = ws"
    unfolding assms(3) prod.case .
  then show "w' = w" and "pending d' = ws" by blast+
qed

lemma disk_wait_returns:
  assumes "ata_protocol io reg pending wait img"
  shows "\<exists>d'. disk_wait io d = Some d' \<and> pending d' = pending d"
proof (induction "wait d" arbitrary: d rule: less_induct)
  case less
  obtain c d' where r: "port_insb io 0x1F7 d = (c, d')" by (cases "port_insb io 0x1F7 d")
  note p = ata_poll(1) [OF assms r] and c = ata_poll(2) [OF assms r]
  show ?case
  proof (cases "wait d = 0")
    case True
    from c have "c AND 0x08 \<noteq> 0" unfolding if_P [OF True] .
    then show ?thesis using r p by (subst disk_wait.simps) (simp add: Let_def)
  next
    case False
    from c have "c AND 0x08 = 0 \<and> wait d' < wait d" unfolding if_not_P [OF False] .
    with less [of d'] p r show ?thesis by (subst disk_wait.simps) (simp add: Let_def)
  qed
qed

lemma word16_low: "(ucast ((ucast (a :: u8) :: u16) OR push_bit 8 (ucast (b :: u8))) :: u8) = a"
  by (rule bit_word_eqI) (auto simp: bit_simps)

lemma word16_high: "(ucast (drop_bit 8 ((ucast (a :: u8) :: u16) OR push_bit 8 (ucast (b :: u8)))) :: u8) = b"
proof (rule bit_word_eqI)
  fix n
  assume "n < LENGTH(8)"
  then show "bit (ucast (drop_bit 8 ((ucast a :: u16) OR push_bit 8 (ucast b))) :: u8) n = bit b n"
    using bit_imp_le_length [of a "8 + n"] by (auto simp: bit_simps)
qed

lemma le16_bytes: "ucast (le16 a b) = a" "ucast (drop_bit 8 (le16 a b)) = b"
  by (simp_all only: le16_def word16_low word16_high)

lemma disk_words_pending:
  assumes "ata_protocol io reg pending wait img" and "length bs = 2 * n"
    and "pending d = map (\<lambda>i. le16 (bs ! (2 * i)) (bs ! (2 * i + 1))) [0..<n] @ ws"
  shows "\<exists>d'. disk_words io n d = (bs, d') \<and> pending d' = ws"
  using assms(2,3)
proof (induction n arbitrary: bs d)
  case 0
  then show ?case by simp
next
  case (Suc n)
  then obtain a b bs' where bs: "bs = a # b # bs'" "length bs' = 2 * n"
    by (auto simp: length_Suc_conv)
  have "[0..<Suc n] = 0 # map Suc [0..<n]" by (simp add: map_Suc_upt upt_conv_Cons del: upt_Suc)
  then have pend: "pending d = le16 a b # (map (\<lambda>i. le16 (bs' ! (2 * i)) (bs' ! (2 * i + 1))) [0..<n] @ ws)"
    using Suc.prems(2) by (simp add: bs comp_def)
  obtain w d1 where r: "port_insw io 0x1F0 d = (w, d1)" by (cases "port_insw io 0x1F0 d")
  obtain d2 where "disk_words io n d1 = (bs', d2)" "pending d2 = ws"
    using Suc.IH [OF bs(2) ata_data(2) [OF assms(1) pend r]] by blast
  then show ?case using r by (simp add: bs ata_data(1) [OF assms(1) pend r] le16_bytes)
qed

lemma disk_sectors_pending:
  assumes "ata_protocol io reg pending wait img" and "\<And>l. length (img l) = 512"
    and "pending d = concat (map (\<lambda>k. sector_words (img (f k))) [i..<i + n])"
  shows "\<exists>d'. disk_sectors io n d = Some (concat (map (\<lambda>k. img (f k)) [i..<i + n]), d')"
  using assms(3)
proof (induction n arbitrary: i d)
  case 0
  then show ?case by simp
next
  case (Suc n)
  have upt: "[i..<i + Suc n] = i # [Suc i..<Suc i + n]" by (simp add: upt_rec)
  obtain d1 where d1: "disk_wait io d = Some d1" "pending d1 = pending d"
    using disk_wait_returns [OF assms(1)] by blast
  have "pending d1 = sector_words (img (f i)) @ concat (map (\<lambda>k. sector_words (img (f k))) [Suc i..<Suc i + n])"
    using Suc.prems d1(2) by (simp only: upt) simp
  then obtain d2 where d2: "disk_words io 256 d1 = (img (f i), d2)"
    "pending d2 = concat (map (\<lambda>k. sector_words (img (f k))) [Suc i..<Suc i + n])"
    using disk_words_pending [OF assms(1), of "img (f i)" 256 d1] assms(2) by (auto simp: sector_words_def)
  obtain d3 where "disk_sectors io n d2 = Some (concat (map (\<lambda>k. img (f k)) [Suc i..<Suc i + n]), d3)"
    using Suc.IH [OF d2(2)] by blast
  with d1 d2 show ?case unfolding upt by (simp add: Let_def)
qed

text \<open>The registers hold exactly the low 28 bits of the LBA.\<close>

lemma unat_low_byte: "unat (ucast (w :: u32) :: u8) = unat w mod 256"
  by (simp add: unsigned_ucast_eq take_bit_eq_mod)

lemma signed_drop_bit_small:
  assumes "unat (w :: u32) < 2147483648"
  shows "unat (signed_drop_bit n w) = unat w div 2 ^ n"
proof -
  have "sint w = int (unat w)" by (rule sint_small [OF assms])
  then have "sint (signed_drop_bit n w) = int (unat w) div 2 ^ n"
    by (simp add: sint_signed_drop_bit_eq drop_bit_eq_div)
  then have "(word_of_int (sint (signed_drop_bit n w)) :: u32) = word_of_int (int (unat w) div 2 ^ n)"
    by (simp only:)
  then have "signed_drop_bit n w = word_of_int (int (unat w) div 2 ^ n)" by simp
  also have "int (unat w) div 2 ^ n = int (unat w div 2 ^ n)"
    by (simp only: zdiv_int of_nat_power of_nat_numeral)
  also have "word_of_int (int (unat w div 2 ^ n)) = of_nat (unat w div 2 ^ n)" by (rule of_int_of_nat_eq)
  finally have "signed_drop_bit n w = of_nat (unat w div 2 ^ n)" .
  moreover have "unat w div 2 ^ n < 4294967296"
    using assms div_le_dividend [of "unat w" "2 ^ n"] by linarith
  ultimately show ?thesis by (simp only: unat_of_nat_small)
qed

lemma drive_bits: "unat (ucast (w OR 0xE0 :: u32) :: u8) mod 16 = unat w mod 16"
proof -
  have "take_bit 4 (ucast (w OR 0xE0) :: u8) = take_bit 4 (ucast w)"
  proof (rule bit_word_eqI)
    fix n
    assume "n < LENGTH(8)"
    have "\<not> bit (0xE0 :: u32) n" if "n < 4"
    proof -
      from that have "n = 0 \<or> n = 1 \<or> n = 2 \<or> n = 3" by linarith
      then show ?thesis by (elim disjE) simp_all
    qed
    then show "bit (take_bit 4 (ucast (w OR 0xE0) :: u8)) n = bit (take_bit 4 (ucast w :: u8)) n"
      by (auto simp: bit_simps)
  qed
  moreover have "unat x mod 16 = unat (take_bit 4 x)" for x :: u8
    by (simp only: unsigned_take_bit_eq take_bit_eq_mod) (simp add: unat_mod)
  ultimately have "unat (ucast (w OR 0xE0) :: u8) mod 16 = unat (ucast w :: u8) mod 16" by simp
  then show ?thesis by (simp only: unat_low_byte) (simp add: mod_mod_cancel)
qed

lemma base256: "(n :: nat) mod 256 + 256 * (n div 256 mod 256) + 65536 * (n div 65536 mod 256)
   + 16777216 * (n div 16777216) = n"
proof -
  have "n div 16777216 = n div 65536 div 256" "n div 65536 = n div 256 div 256"
    by (simp_all add: div_mult2_eq [symmetric])
  moreover have "n = n mod 256 + 256 * (n div 256)" by simp
  moreover have "n div 256 = n div 256 mod 256 + 256 * (n div 256 div 256)" by simp
  moreover have "n div 65536 = n div 65536 mod 256 + 256 * (n div 65536 div 256)" by simp
  ultimately show ?thesis by linarith
qed

lemma lba_registers:
  assumes "unat (lba :: u32) < 268435456"
  shows "unat (ucast (lba AND 0xFF) :: u8) + 256 * unat (ucast (signed_drop_bit 8 lba) :: u8)
    + 65536 * unat (ucast (signed_drop_bit 16 lba) :: u8)
    + 16777216 * (unat (ucast (signed_drop_bit 24 lba OR 0xE0) :: u8) mod 16) = unat lba"
proof -
  have l: "unat lba < 2147483648" using assms by simp
  have "lba AND 0xFF = take_bit 8 lba" by (simp only: take_bit_eq_mask mask_eq_exp_minus_1) simp
  then have "unat (lba AND 0xFF) = unat lba mod 256"
    by (simp only: unsigned_take_bit_eq take_bit_eq_mod) (simp add: unat_mod)
  then have low: "(ucast (lba AND 0xFF) :: u8) = ucast lba"
    by (simp only: word_unat_eq_iff unat_low_byte) simp
  have "unat lba div 16777216 mod 16 = unat lba div 16777216"
    using assms by (simp add: div_less_iff_less_mult)
  then show ?thesis
    using base256 [of "unat lba"]
    unfolding low drive_bits unfolding unat_low_byte signed_drop_bit_small [OF l] by simp
qed

text \<open>
  A read of up to 255 sectors below the 28-bit limit returns, and delivers the sectors of
  the image in order, whatever state the controller is in and however long it stays busy.
\<close>

lemma disk_select_pending:
  assumes "ata_protocol io reg pending wait img" and "unat lba < 268435456"
    and "total_sectors = of_nat n" and "n < 256"
  shows "pending (disk_select io lba total_sectors d)
    = concat (map (\<lambda>k. sector_words (img (lba + of_nat k))) [0..<n])"
proof -
  note reg = ata_reg [OF assms(1)]
  have "unat (ucast total_sectors :: u8) = n"
    using assms(3,4) by (simp add: unat_low_byte unat_of_nat)
  then show ?thesis
    by (simp add: disk_select_def Let_def ata_command [OF assms(1)] reg selected_lba_def lba_registers [OF assms(2)])
qed

lemma disk_read_sector_ata:
  assumes "ata_protocol io reg pending wait img" and "\<And>l. length (img l) = 512"
    and "unat lba < 268435456" and "total_sectors = of_nat n" and "n < 256"
  shows "\<exists>d'. disk_read_sector io lba total_sectors d
    = Some (0, concat (map (\<lambda>k. img (lba + of_nat k)) [0..<n]), d')"
proof -
  have n: "nat (sint total_sectors) = n" using assms(4,5) by (simp add: sint_small unat_of_nat)
  from disk_sectors_pending [OF assms(1,2), where i = 0 and n = n and f = "\<lambda>k. lba + of_nat k",
      of "disk_select io lba total_sectors d"] disk_select_pending [OF assms(1,3,4,5), of d]
  show ?thesis by (auto simp: disk_read_sector_def n)
qed

section \<open>The disk\<close>

text \<open>
  There is one \<^verbatim>\<open>struct disk\<close>, the global \<^verbatim>\<open>disk\<close>; a pointer to a disk is that one's
  address, null, or something else. The filesystem pointer designates the FAT16 driver,
  the only one the kernel has.
\<close>

datatype disk_ref = NullDisk | GlobalDisk | OtherDisk

datatype filesystem = Fat16_Fs

record disk =
  disk_type :: u32
  sector_size :: int
  disk_id :: int
  filesystem :: "filesystem option"
  fs_private :: u32

definition NUTSOS_DISK_TYPE_REAL :: u32 where [const_defs]: "NUTSOS_DISK_TYPE_REAL = 0"
definition NUTSOS_SECTOR_SIZE :: int where [const_defs]: "NUTSOS_SECTOR_SIZE = 512"

definition disk_get :: "int \<Rightarrow> disk_ref" where
  "disk_get index = (if index \<noteq> 0 then NullDisk else GlobalDisk)"

definition disk_read_block :: "'d io_ports \<Rightarrow> disk_ref \<Rightarrow> u32 \<Rightarrow> u32 \<Rightarrow> 'd \<Rightarrow> (int \<times> u8 list \<times> 'd) option" where
  "disk_read_block io idisk lba total_sectors d =
     (if idisk \<noteq> GlobalDisk then Some (- EIO, [], d)
      else disk_read_sector io lba total_sectors d)"

section \<open>The disk as an image\<close>

text \<open>
  What the layers above see: a flat byte image, of which a block read returns the sectors.
  Beyond the 28-bit limit the driver's command would select other sectors; the image-level
  read has no result there.
\<close>

definition sector_of :: "(nat \<Rightarrow> u8) \<Rightarrow> u32 \<Rightarrow> u8 list" where
  "sector_of dimg lba = map (\<lambda>i. dimg (512 * unat lba + i)) [0..<512]"

definition disk_block :: "(nat \<Rightarrow> u8) \<Rightarrow> disk_ref \<Rightarrow> u32 \<Rightarrow> nat \<Rightarrow> (int \<times> u8 list) option" where
  "disk_block dimg idisk lba n =
     (if idisk \<noteq> GlobalDisk then Some (- EIO, [])
      else if unat lba < 268435456 \<and> n < 256
      then Some (0, concat (map (\<lambda>k. sector_of dimg (lba + of_nat k)) [0..<n]))
      else None)"

lemma length_sector_of [simp]: "length (sector_of dimg lba) = 512"
  by (simp add: sector_of_def)

lemma nth_sector_of: "i < 512 \<Longrightarrow> sector_of dimg lba ! i = dimg (512 * unat lba + i)"
  by (simp add: sector_of_def)

lemma disk_block_1:
  "unat lba < 268435456 \<Longrightarrow> disk_block dimg GlobalDisk lba 1 = Some (0, sector_of dimg lba)"
  by (simp add: disk_block_def)

lemma disk_read_block_refines:
  assumes "ata_protocol io reg pending wait (sector_of dimg)"
    and "disk_block dimg idisk lba n = Some (res, bs)"
  shows "\<exists>d'. disk_read_block io idisk lba (of_nat n) d = Some (res, bs, d')"
  using disk_read_sector_ata [OF assms(1) _ _ refl, of lba n d] assms(2)
  by (auto simp: disk_read_block_def disk_block_def split: if_splits)

section \<open>Properties\<close>

text \<open>
  A controller that keeps the protocol: its registers, the words still to deliver, and the
  number of polls it will answer with its busy bit.
\<close>

definition sim_ports :: "(u32 \<Rightarrow> u8 list) \<Rightarrow> ((u16 \<Rightarrow> u8) \<times> u16 list \<times> nat) io_ports" where
  "sim_ports img =
     \<lparr>port_outb = (\<lambda>p v (r, q, b). if p = 0x1F7
          then (r, if v = 0x20 then concat (map (\<lambda>k. sector_words (img (of_nat (selected_lba r + k)))) [0..<unat (r 0x1F2)]) else q, 3)
          else (r(p := v), q, b)),
      port_insb = (\<lambda>p (r, q, b). (if b = 0 then 0x58 else 0x80, (r, q, b - 1))),
      port_insw = (\<lambda>p (r, q, b). case q of [] \<Rightarrow> (0, (r, [], b)) | w # ws \<Rightarrow> (w, (r, ws, b)))\<rparr>"

lemma sim_ports_protocol: "ata_protocol (sim_ports img) fst (\<lambda>d. fst (snd d)) (\<lambda>d. snd (snd d)) img"
  by (auto simp: ata_protocol_def sim_ports_def)





end
