(* ===== verification/Disk_Stream.thy ===== *)
theory Disk_Stream
  imports Disk Paging
begin

text \<open>
  Byte streams on a disk (\<^verbatim>\<open>src/disk/stream.c\<close>). A stream is a kernel heap object; the model
  keeps the objects by address. A read fetches whole sectors and copies the part it needs.
\<close>

section \<open>State\<close>

record disk_stream =
  pos :: int
  stream_disk :: disk_ref

record disk_state = paging_state +
  disk_image :: "nat \<Rightarrow> u8"
  the_disk :: disk
  streams :: "u32 \<rightharpoonup> disk_stream"

definition sizeof_disk_stream :: u32 where [const_defs]: "sizeof_disk_stream = 8"

section \<open>Operations\<close>

definition diskstream_new :: "int \<Rightarrow> 'a disk_state_scheme \<Rightarrow> (u32 \<times> 'a disk_state_scheme) option" where
  "diskstream_new index s =
     (let dsk = disk_get index
      in if dsk = NullDisk then Some (0, s)
      else do {
        (stream, s1) \<leftarrow> kzalloc sizeof_disk_stream s;
        (if stream = 0 then None
         else Some (stream, s1\<lparr>streams := (streams s1)(stream \<mapsto> \<lparr>pos = 0, stream_disk = dsk\<rparr>)\<rparr>))
      })"

definition diskstream_seek :: "u32 \<Rightarrow> int \<Rightarrow> 'a disk_state_scheme \<Rightarrow> (int \<times> 'a disk_state_scheme) option" where
  "diskstream_seek stream p s = do {
     st \<leftarrow> streams s stream;
     Some (0, s\<lparr>streams := (streams s)(stream \<mapsto> st\<lparr>pos := p\<rparr>)\<rparr>)
   }"

text \<open>\<open>*out++ = buf[offset++]\<close>, \<open>n\<close> times; an index outside \<open>buf\<close> has no result.\<close>

fun copy_out :: "u8 list \<Rightarrow> int \<Rightarrow> nat \<Rightarrow> u8 list option" where
  "copy_out buf offset 0 = Some []"
| "copy_out buf offset (Suc n) =
     (if offset < 0 \<or> offset \<ge> int (length buf) then None
      else do { bs \<leftarrow> copy_out buf (offset + 1) n; Some (buf ! nat offset # bs) })"

lemma smod_512: "(p :: int) smod 512 < 512"
proof -
  have "\<bar>p\<bar> mod 512 < 512" "0 \<le> \<bar>p\<bar> mod 512" by simp_all
  then show ?thesis by (auto simp: signed_modulo_int_def sgn_if)
qed

lemma readable_positive: "512 - (p :: int) smod 512 < r \<Longrightarrow> 0 < r"
  using smod_512 [of p] by linarith

text \<open>
  The \<open>do ... while\<close> loop. At its head the code's \<open>sector\<close>, \<open>offset\<close>,
  \<open>readable_in_sector\<close> and \<open>total_to_read\<close> are always the values computed from the
  stream's position and \<open>remaining_to_read\<close>, before the loop and at the end of its body
  alike. The result is the code, the position reached and the bytes stored.
\<close>

function stream_loop :: "(nat \<Rightarrow> u8) \<Rightarrow> disk_ref \<Rightarrow> int \<Rightarrow> int \<Rightarrow> (int \<times> int \<times> u8 list) option" where
  "stream_loop dimg dsk p remaining_to_read =
     (let sector = p sdiv NUTSOS_SECTOR_SIZE;
          offset = p smod NUTSOS_SECTOR_SIZE;
          readable_in_sector = NUTSOS_SECTOR_SIZE - offset;
          total_to_read = (if remaining_to_read > readable_in_sector then readable_in_sector else remaining_to_read)
      in case disk_block dimg dsk (word_of_int sector) 1 of None \<Rightarrow> None
         | Some (res, buf) \<Rightarrow>
           if res < 0 then Some (res, p, [])
           else (case copy_out buf offset (nat total_to_read) of None \<Rightarrow> None
             | Some bs \<Rightarrow>
               let p' = s32 (p + total_to_read); remaining' = remaining_to_read - total_to_read
               in if remaining' > 0
                  then (case stream_loop dimg dsk p' remaining' of None \<Rightarrow> None
                        | Some (res', p'', bs') \<Rightarrow> Some (res', p'', bs @ bs'))
                  else Some (res, p', bs)))"
  by pat_completeness auto

termination
proof (relation "measure (\<lambda>(dimg, dsk, p, r). nat r)")
qed (use smod_512 in \<open>auto simp: NUTSOS_SECTOR_SIZE_def readable_positive split: if_splits\<close>)

declare stream_loop.simps [simp del]

definition diskstream_read :: "u32 \<Rightarrow> int \<Rightarrow> 'a disk_state_scheme \<Rightarrow> (int \<times> u8 list \<times> 'a disk_state_scheme) option" where
  "diskstream_read stream n s = do {
     st \<leftarrow> streams s stream;
     (res, p, bs) \<leftarrow> stream_loop (disk_image s) (stream_disk st) (pos st) n;
     Some (res, bs, s\<lparr>streams := (streams s)(stream \<mapsto> st\<lparr>pos := p\<rparr>)\<rparr>)
   }"

definition diskstream_close :: "u32 \<Rightarrow> 'a disk_state_scheme \<Rightarrow> 'a disk_state_scheme option" where
  "diskstream_close stream s = do {
     s1 \<leftarrow> kfree stream s;
     Some (s1\<lparr>streams := (streams s1)(stream := None)\<rparr>)
   }"

section \<open>A read is a slice of the image\<close>

definition image_slice :: "(nat \<Rightarrow> u8) \<Rightarrow> nat \<Rightarrow> nat \<Rightarrow> u8 list" where
  "image_slice dimg p n = map (\<lambda>i. dimg (p + i)) [0..<n]"

lemma length_image_slice [simp]: "length (image_slice dimg p n) = n"
  by (simp add: image_slice_def)

lemma nth_image_slice [simp]: "i < n \<Longrightarrow> image_slice dimg p n ! i = dimg (p + i)"
  by (simp add: image_slice_def)

lemma image_slice_0 [simp]: "image_slice dimg p 0 = []"
  by (simp add: image_slice_def)

lemma image_slice_append: "image_slice dimg p n @ image_slice dimg (p + n) k = image_slice dimg p (n + k)"
  by (rule nth_equalityI) (auto simp: nth_append add.assoc)

lemma image_slice_Cons: "dimg p # image_slice dimg (Suc p) n = image_slice dimg p (Suc n)"
  by (rule nth_equalityI) (auto simp: nth_Cons split: nat.splits)

lemma copy_out_slice:
  assumes "i + n \<le> 512"
  shows "copy_out (sector_of dimg lba) (int i) n = Some (image_slice dimg (512 * unat lba + i) n)"
  using assms
proof (induction n arbitrary: i)
  case (Suc n)
  from Suc.IH [of "Suc i"] Suc.prems
  show ?case by (simp add: nth_sector_of image_slice_Cons add.commute)
qed simp

text \<open>One round, from a position \<open>p\<close> with \<open>r\<close> bytes to go: \<open>n\<close> of them are in the sector.\<close>

lemma stream_loop_step:
  assumes "p + r < 2147483648" and "n = (if r \<le> 512 - p mod 512 then r else 512 - p mod 512)"
  shows "stream_loop dimg GlobalDisk (int p) (int r) =
    (if n < r
     then (case stream_loop dimg GlobalDisk (int (p + n)) (int (r - n)) of None \<Rightarrow> None
           | Some (res, q, bs) \<Rightarrow> Some (res, q, image_slice dimg p n @ bs))
     else Some (0, int (p + n), image_slice dimg p n))"
proof -
  let ?lba = "word_of_int (int (p div 512)) :: u32"
  have pm: "int p sdiv 512 = int (p div 512)" "int p smod 512 = int (p mod 512)"
    by (cases "p = 0"; simp add: signed_divide_int_def signed_modulo_int_def zdiv_int zmod_int)+
  have small: "p div 512 < 4194304" using assms(1) by (simp add: div_less_iff_less_mult)
  then have lba: "unat ?lba = p div 512" by (simp add: unat_of_nat)
  with small have blk: "disk_block dimg GlobalDisk ?lba 1 = Some (0, sector_of dimg ?lba)"
    by (intro disk_block_1) simp
  have m: "p mod 512 < 512" by simp
  have n: "(if int r > 512 - int (p mod 512) then 512 - int (p mod 512) else int r) = int n"
    using m assms(2) by auto
  have nr: "n \<le> r" "p mod 512 + n \<le> 512" using m assms(2) by auto
  then have copy: "copy_out (sector_of dimg ?lba) (int (p mod 512)) n = Some (image_slice dimg p n)"
    using copy_out_slice [of "p mod 512" n dimg ?lba] by (simp only: lba mult_div_mod_eq)
  have "s32 (int (p + n)) = int (p + n)" using assms(1) nr(1) by (intro s32_id) simp_all
  then have p': "s32 (int p + int n) = int (p + n)" by simp
  have r': "int r - int n = int (r - n)" using nr(1) by (simp add: of_nat_diff)
  show ?thesis
    by (subst stream_loop.simps)
      (simp only: NUTSOS_SECTOR_SIZE_def pm Let_def n blk copy p' r' nat_int option.case prod.case
        less_irrefl if_False of_nat_0_less_iff zero_less_diff)
qed

lemma stream_loop_slice:
  assumes "p + r < 2147483648"
  shows "stream_loop dimg GlobalDisk (int p) (int r) = Some (0, int (p + r), image_slice dimg p r)"
  using assms
proof (induction r arbitrary: p rule: less_induct)
  case (less r)
  define n where "n = (if r \<le> 512 - p mod 512 then r else 512 - p mod 512)"
  note step = stream_loop_step [OF less.prems n_def, of dimg]
  show ?case
  proof (cases "n < r")
    case True
    have "p mod 512 < 512" by simp
    then have "0 < n" using True by (simp add: n_def split: if_splits)
    then have "stream_loop dimg GlobalDisk (int (p + n)) (int (r - n))
        = Some (0, int (p + r), image_slice dimg (p + n) (r - n))"
      using less.IH [of "r - n" "p + n"] True less.prems by simp
    then show ?thesis using True image_slice_append [of dimg p n "r - n"] by (simp add: step)
  next
    case False
    moreover have "n \<le> r" by (simp add: n_def)
    ultimately have "n = r" by simp
    then show ?thesis by (simp add: step)
  qed
qed

lemma diskstream_read_slice:
  assumes "streams s stream = Some st" and "stream_disk st = GlobalDisk"
    and "pos st = int p" and "p + n < 2147483648"
  shows "diskstream_read stream (int n) s = Some (0, image_slice (disk_image s) p n,
    s\<lparr>streams := (streams s)(stream \<mapsto> st\<lparr>pos := int (p + n)\<rparr>)\<rparr>)"
  using assms stream_loop_slice [OF assms(4), of "disk_image s"] by (simp add: diskstream_read_def)

section \<open>Properties\<close>

text \<open>
  C26. A stream is a file pointer on the disk: after \<open>diskstream_seek\<close> to \<open>p\<close>, reading \<open>n\<close>
  bytes and then \<open>k\<close> gives exactly the \<open>n + k\<close> bytes of the image from \<open>p\<close> on, across
  any sector boundaries, leaves the position behind them, and touches no other stream.
\<close>

theorem diskstream_seek_read:
  assumes "streams s stream = Some st" and "stream_disk st = GlobalDisk" and "p + n + k < 2147483648"
  shows "\<exists>s1 s2 s3 bs cs. diskstream_seek stream (int p) s = Some (0, s1)
    \<and> diskstream_read stream (int n) s1 = Some (0, bs, s2) \<and> diskstream_read stream (int k) s2 = Some (0, cs, s3)
    \<and> bs @ cs = image_slice (disk_image s) p (n + k)
    \<and> s3 = s\<lparr>streams := (streams s)(stream \<mapsto> \<lparr>pos = int (p + n + k), stream_disk = GlobalDisk\<rparr>)\<rparr>"
proof -
  define st1 where "st1 = st\<lparr>pos := int p\<rparr>"
  define s1 where "s1 = s\<lparr>streams := (streams s)(stream \<mapsto> st1)\<rparr>"
  have seek: "diskstream_seek stream (int p) s = Some (0, s1)"
    using assms(1) by (simp add: diskstream_seek_def s1_def st1_def)
  define st2 where "st2 = st1\<lparr>pos := int (p + n)\<rparr>"
  define s2 where "s2 = s1\<lparr>streams := (streams s1)(stream \<mapsto> st2)\<rparr>"
  have one: "diskstream_read stream (int n) s1 = Some (0, image_slice (disk_image s) p n, s2)"
    using diskstream_read_slice [of s1 stream st1 p n] assms(2,3) by (simp add: s1_def s2_def st1_def st2_def)
  have two: "diskstream_read stream (int k) s2 = Some (0, image_slice (disk_image s) (p + n) k,
      s2\<lparr>streams := (streams s2)(stream \<mapsto> st2\<lparr>pos := int (p + n + k)\<rparr>)\<rparr>)"
    using diskstream_read_slice [of s2 stream st2 "p + n" k] assms(2,3) by (simp add: s1_def s2_def st1_def st2_def)
  have "st2\<lparr>pos := int (p + n + k)\<rparr> = \<lparr>pos = int (p + n + k), stream_disk = GlobalDisk\<rparr>"
    using assms(2) by (cases st) (simp add: st2_def st1_def)
  then have "s2\<lparr>streams := (streams s2)(stream \<mapsto> st2\<lparr>pos := int (p + n + k)\<rparr>)\<rparr>
      = s\<lparr>streams := (streams s)(stream \<mapsto> \<lparr>pos = int (p + n + k), stream_disk = GlobalDisk\<rparr>)\<rparr>"
    by (simp add: s1_def s2_def)
  with seek one two image_slice_append show ?thesis by metis
qed

definition blank_disk :: "nat \<Rightarrow> (nat \<Rightarrow> u8) \<Rightarrow> disk_state" where
  "blank_disk n dimg = paging_state.extend (blank_paging n)
     \<lparr>disk_image = dimg, the_disk = \<lparr>disk_type = 0, sector_size = 512, disk_id = 0, filesystem = None, fs_private = 0\<rparr>,
      streams = [0x01000000 \<mapsto> \<lparr>pos = 0, stream_disk = GlobalDisk\<rparr>]\<rparr>"

theorem diskstream_seek_read_witness:
  "\<exists>s1 s2 s3 bs cs. diskstream_seek 0x01000000 510 (blank_disk 4 of_nat) = Some (0, s1)
    \<and> diskstream_read 0x01000000 1 s1 = Some (0, bs, s2) \<and> diskstream_read 0x01000000 3 s2 = Some (0, cs, s3)
    \<and> bs @ cs = [254, 255, 0, 1]"
proof -
  have "image_slice of_nat 510 4 = [254, 255, 0, 1 :: u8]"
    by (simp add: image_slice_def upt_rec)
  moreover have "disk_image (blank_disk 4 of_nat) = of_nat"
    and "streams (blank_disk 4 of_nat) 0x01000000 = Some \<lparr>pos = 0, stream_disk = GlobalDisk\<rparr>"
    by (simp_all add: blank_disk_def paging_state.defs)
  moreover have "(510 :: nat) + 1 + 3 < 2147483648" "stream_disk \<lparr>pos = 0, stream_disk = GlobalDisk\<rparr> = GlobalDisk"
    by simp_all
  ultimately obtain s1 s2 s3 bs cs where "diskstream_seek 0x01000000 (int 510) (blank_disk 4 of_nat) = Some (0, s1)"
    "diskstream_read 0x01000000 (int 1) s1 = Some (0, bs, s2)" "diskstream_read 0x01000000 (int 3) s2 = Some (0, cs, s3)"
    "bs @ cs = image_slice of_nat 510 (1 + 3)"
    using diskstream_seek_read by metis
  with \<open>image_slice of_nat 510 4 = _\<close> show ?thesis by simp
qed

end
