(* ===== verification/Path_Parser.thy ===== *)
theory Path_Parser
  imports Disk_Stream
begin

text \<open>
  The path parser of \<^verbatim>\<open>src/fs/path_parser.c\<close>: a path \<open>0:/a/b/c\<close> becomes a root with the
  drive number and a linked list of parts, each with a heap copy of its name. Roots and
  parts are heap objects kept by address; the names are bytes of memory.
\<close>

section \<open>State\<close>

record path_part =
  part :: u32
  next_part :: u32

record path_root =
  drive_no :: int
  first_part :: u32

record path_state = disk_state +
  path_parts :: "u32 \<rightharpoonup> path_part"
  path_roots :: "u32 \<rightharpoonup> path_root"

definition NUTSOS_MAX_PATH :: u32 where [const_defs]: "NUTSOS_MAX_PATH = 256"
definition sizeof_path_root :: u32 where [const_defs]: "sizeof_path_root = 8"
definition sizeof_path_part :: u32 where [const_defs]: "sizeof_path_part = 8"

section \<open>The drive\<close>

definition pathparser_is_path_valid :: "mem \<Rightarrow> u32 \<Rightarrow> bool" where
  "pathparser_is_path_valid m filename =
     (let len = sint (strnlen m filename NUTSOS_MAX_PATH)
      in len \<ge> 3 \<and> isdigit (m filename) \<and> memcmp m (lit_mem '':/'') (filename + 1) 0 2 = 0)"

definition pathparser_extract_drive_from_path :: "mem \<Rightarrow> u32 \<Rightarrow> int \<times> u32" where
  "pathparser_extract_drive_from_path m path =
     (if \<not> pathparser_is_path_valid m path then (- EBADPATH, path)
      else (ctoi (m path), path + 3))"

definition pathparser_create_root :: "int \<Rightarrow> 'a path_state_scheme \<Rightarrow> (u32 \<times> 'a path_state_scheme) option" where
  "pathparser_create_root drive_number s = do {
     (path_r, s1) \<leftarrow> kzalloc sizeof_path_root s;
     (if path_r = 0 then None
      else Some (path_r, s1\<lparr>path_roots := (path_roots s1)(path_r \<mapsto>
        \<lparr>drive_no = drive_number, first_part = 0\<rparr>)\<rparr>))
   }"

section \<open>The parts\<close>

text \<open>The copying loop: bytes copied, where the path continues, memory.\<close>

partial_function (option) extract_loop :: "mem \<Rightarrow> u32 \<Rightarrow> u32 \<Rightarrow> u32 \<Rightarrow> (u32 \<times> u32 \<times> mem) option" where
  "extract_loop m result_path_part path i =
     (if m path \<noteq> 47 \<and> m path \<noteq> 0
      then (if result_path_part = 0 then None
            else extract_loop (m(result_path_part + i := m path)) result_path_part (path + 1) (i + 1))
      else Some (i, path, m))"

definition pathparser_extract_next_path_part ::
    "u32 \<Rightarrow> 'a path_state_scheme \<Rightarrow> (u32 \<times> u32 \<times> 'a path_state_scheme) option" where
  "pathparser_extract_next_path_part path s = do {
     (result_path_part, s1) \<leftarrow> kzalloc NUTSOS_MAX_PATH s;
     (i, path1, m) \<leftarrow> extract_loop (kmem s1) result_path_part path 0;
     let s2 = s1\<lparr>kmem := m\<rparr>;
     let path2 = (if kmem s2 path1 = 47 then path1 + 1 else path1);
     (if i = 0 then do {
        s3 \<leftarrow> kfree result_path_part s2;
        Some (0, path2, s3)
      } else Some (result_path_part, path2, s2))
   }"

definition pathparser_parse_path_part ::
    "u32 \<Rightarrow> u32 \<Rightarrow> 'a path_state_scheme \<Rightarrow> (u32 \<times> u32 \<times> 'a path_state_scheme) option" where
  "pathparser_parse_path_part last_part path s = do {
     (path_part_str, path1, s1) \<leftarrow> pathparser_extract_next_path_part path s;
     (if path_part_str = 0 then Some (0, path1, s1)
      else do {
        (prt, s2) \<leftarrow> kzalloc sizeof_path_part s1;
        (if prt = 0 then None
         else
           let s3 = s2\<lparr>path_parts := (path_parts s2)(prt \<mapsto> \<lparr>part = path_part_str, next_part = 0\<rparr>)\<rparr>
           in if last_part \<noteq> 0 then do {
                lp \<leftarrow> path_parts s3 last_part;
                Some (prt, path1, s3\<lparr>path_parts := (path_parts s3)(last_part \<mapsto> lp\<lparr>next_part := prt\<rparr>)\<rparr>)
              } else Some (prt, path1, s3))
      })
   }"

partial_function (option) parse_loop :: "u32 \<Rightarrow> u32 \<Rightarrow> 'a path_state_scheme \<Rightarrow> 'a path_state_scheme option" where
  "parse_loop prt path s =
     (if prt \<noteq> 0 then do {
        (prt', path', s') \<leftarrow> pathparser_parse_path_part prt path s;
        parse_loop prt' path' s'
      } else Some s)"

definition pathparser_parse :: "u32 \<Rightarrow> 'a path_state_scheme \<Rightarrow> (u32 \<times> 'a path_state_scheme) option" where
  "pathparser_parse path s = do {
     len \<leftarrow> strlen (kmem s) path;
     (if len > NUTSOS_MAX_PATH then Some (0, s)
      else
        let (res, tmp_path) = pathparser_extract_drive_from_path (kmem s) path
        in if res < 0 then Some (0, s)
        else do {
          (root, s1) \<leftarrow> pathparser_create_root res s;
          (if root = 0 then Some (0, s1)
           else do {
             (fst_part, tmp_path1, s2) \<leftarrow> pathparser_parse_path_part 0 tmp_path s1;
             (if fst_part = 0 then Some (root, s2)
              else do {
                r \<leftarrow> path_roots s2 root;
                let s3 = s2\<lparr>path_roots := (path_roots s2)(root \<mapsto> r\<lparr>first_part := fst_part\<rparr>)\<rparr>;
                (prt, tmp_path2, s4) \<leftarrow> pathparser_parse_path_part fst_part tmp_path1 s3;
                s5 \<leftarrow> parse_loop prt tmp_path2 s4;
                Some (root, s5)
              })
           })
        })
   }"

section \<open>Release\<close>

partial_function (option) free_parts :: "u32 \<Rightarrow> 'a path_state_scheme \<Rightarrow> 'a path_state_scheme option" where
  "free_parts prt s =
     (if prt \<noteq> 0 then do {
        p \<leftarrow> path_parts s prt;
        s1 \<leftarrow> kfree (part p) s;
        s2 \<leftarrow> kfree prt s1;
        free_parts (next_part p) (s2\<lparr>path_parts := (path_parts s2)(prt := None)\<rparr>)
      } else Some s)"

definition pathparser_free :: "u32 \<Rightarrow> 'a path_state_scheme \<Rightarrow> 'a path_state_scheme option" where
  "pathparser_free root s = do {
     r \<leftarrow> path_roots s root;
     s1 \<leftarrow> free_parts (first_part r) s;
     s2 \<leftarrow> kfree root s1;
     Some (s2\<lparr>path_roots := (path_roots s2)(root := None)\<rparr>)
   }"

section \<open>What a path means\<close>

text \<open>
  The parts up to the first empty one: a trailing slash is dropped, and a doubled slash
  ends the path.
\<close>

definition not_slash :: "u8 \<Rightarrow> bool" where
  "not_slash c \<longleftrightarrow> c \<noteq> 47"

function split_path :: "u8 list \<Rightarrow> u8 list list" where
  "split_path t =
     (if takeWhile not_slash t = [] then []
      else takeWhile not_slash t # split_path (drop 1 (dropWhile not_slash t)))"
  by pat_completeness auto
termination
proof (relation "measure length")
  fix t :: "u8 list"
  assume "takeWhile not_slash t \<noteq> []"
  then have "0 < length (takeWhile not_slash t)" by simp
  moreover have "length (takeWhile not_slash t) + length (dropWhile not_slash t) = length t"
    by (metis length_append takeWhile_dropWhile_id)
  ultimately show "(drop 1 (dropWhile not_slash t), t) \<in> measure length" by (cases t) auto
qed simp

declare split_path.simps [simp del]

definition valid_drive :: "u8 list \<Rightarrow> bool" where
  "valid_drive t \<longleftrightarrow> 3 \<le> length t \<and> isdigit (t ! 0) \<and> t ! 1 = 58 \<and> t ! 2 = 47"

text \<open>A chain of parts in the store: the nodes, each with its name's address.\<close>

fun part_chain :: "(u32 \<rightharpoonup> path_part) \<Rightarrow> u32 \<Rightarrow> (u32 \<times> u32) list \<Rightarrow> bool" where
  "part_chain st p [] \<longleftrightarrow> p = 0"
| "part_chain st p ((q, str) # ns) \<longleftrightarrow> p = q \<and> q \<noteq> 0
     \<and> (\<exists>nx. st q = Some \<lparr>part = str, next_part = nx\<rparr> \<and> part_chain st nx ns)"

lemma part_chain_cong:
  "(\<And>q. q \<in> fst ` set ns \<Longrightarrow> st q = st' q) \<Longrightarrow> part_chain st p ns \<longleftrightarrow> part_chain st' p ns"
  by (induction ns arbitrary: p) auto

section \<open>The drive prefix\<close>

lemma is_path_valid_cstr:
  assumes "cstr m p t"
  shows "pathparser_is_path_valid m p \<longleftrightarrow> valid_drive t"
proof -
  have len: "unat (strnlen m p NUTSOS_MAX_PATH) = min (length t) 256"
    using strnlen_cstr [OF assms, of NUTSOS_MAX_PATH] by (simp add: NUTSOS_MAX_PATH_def)
  then have "sint (strnlen m p NUTSOS_MAX_PATH) = int (min (length t) 256)"
    by (simp add: sint_small)
  then have long: "3 \<le> sint (strnlen m p NUTSOS_MAX_PATH) \<longleftrightarrow> 3 \<le> length t" by simp
  have lit: "lit_mem '':/'' 0 = 58" "lit_mem '':/'' 1 = 47"
    by (simp_all add: lit_mem_def bytes_of_def of_char_def)
  show ?thesis
  proof (cases "3 \<le> length t")
    case True
    then have "0 < length t" "1 < length t" "2 < length t" by linarith+
    then have "m p = t ! 0" "m (p + 1) = t ! 1" "m (p + 2) = t ! 2"
      using cstr_nth [OF assms, of 0] cstr_nth [OF assms, of 1] cstr_nth [OF assms, of 2] by simp_all
    moreover have "(\<forall>i < (2 :: nat). P i) \<longleftrightarrow> P 0 \<and> P 1" for P
      by (auto simp: less_2_cases_iff)
    ultimately show ?thesis using True long lit
      by (simp add: pathparser_is_path_valid_def valid_drive_def memcmp_eq_0 add.assoc)
  next
    case False
    then show ?thesis using long by (simp add: pathparser_is_path_valid_def valid_drive_def)
  qed
qed

section \<open>One part\<close>

text \<open>
  \<open>kzalloc\<close> of up to a block, in the form the parser's proofs use: a fresh live block,
  zeroed, with everything that was not free kept.
\<close>

lemma blocks_for_small: "0 < unat n \<Longrightarrow> unat n \<le> 4096 \<Longrightarrow> blocks_for n = 1"
  by (subst blocks_for_exact) (auto intro: div_nat_eqI)

lemma kzalloc_block:
  fixes s :: "'a path_state_scheme"
  assumes "heap_wf (kernel_heap s)" and "0 < unat n" and "unat n \<le> 4096"
    and "0 < free_count (blocks (kernel_heap s))"
  shows "\<exists>p h m. kzalloc n s = Some (p, s\<lparr>kernel_heap := h, kmem := m\<rparr>) \<and> p \<noteq> 0 \<and> heap_wf h
    \<and> Suc (free_count (blocks h)) = free_count (blocks (kernel_heap s))
    \<and> (\<forall>a. in_region p n a \<longrightarrow> free_byte (kernel_heap s) a \<and> \<not> free_byte h a \<and> m a = 0)
    \<and> (\<forall>a. \<not> free_byte (kernel_heap s) a \<longrightarrow> \<not> free_byte h a \<and> m a = kmem s a)
    \<and> \<not> live_block (kernel_heap s) p \<and> (\<forall>q. live_block h q \<longleftrightarrow> q = p \<or> live_block (kernel_heap s) q)
    \<and> heap_grown (kernel_heap s) h \<and> heap_used 1 (kernel_heap s) h"
proof -
  obtain p s' where k: "kzalloc n s = Some (p, s')" "p \<noteq> 0"
    "Suc (free_count (blocks (kernel_heap s'))) = free_count (blocks (kernel_heap s))"
    using kzalloc_one [OF assms] by blast
  obtain h m where s': "s' = s\<lparr>kernel_heap := h, kmem := m\<rparr>" using kzalloc_upd [OF k(1)] by blast
  have n: "size_ok n" "n \<noteq> 0" using assms(2,3) by (auto simp: size_ok_def)
  have used: "heap_used 1 (kernel_heap s) h"
    using kzalloc_used [OF assms(1) n(2,1) k(1)] blocks_for_small [OF assms(2,3)] by (simp add: s')
  from kz.alloc_ok [OF assms(1) n(1) k(1)] kz.alloc_fresh [OF assms(1) n(1) k(1,2)]
    kz.alloc_keep [OF assms(1) n(1) k(1)] kzf.alloc_live [OF assms(1) n k(1,2)] kzalloc_grown [OF assms(1) n k(1,2)] used k
  show ?thesis unfolding s'
    by (rule_tac exI [of _ p], rule_tac exI [of _ h], rule_tac exI [of _ m]) auto
qed

text \<open>What may still be handed out is all that an operation may have written to.\<close>

definition kept :: "'a path_state_scheme \<Rightarrow> 'a path_state_scheme \<Rightarrow> bool" where
  "kept s s' \<longleftrightarrow> (\<forall>a. \<not> free_byte (kernel_heap s) a \<longrightarrow>
     \<not> free_byte (kernel_heap s') a \<and> kmem s' a = kmem s a)"

lemma kept_refl [simp]: "kept s s"
  by (simp add: kept_def)

lemma kept_trans [trans]: "kept s t \<Longrightarrow> kept t u \<Longrightarrow> kept s u"
  by (simp add: kept_def)

text \<open>A name is held at \<open>p\<close>: its bytes are there and belong to an allocated block.\<close>

definition held :: "'a path_state_scheme \<Rightarrow> u32 \<Rightarrow> u8 list \<Rightarrow> bool" where
  "held s p t \<longleftrightarrow> cstr (kmem s) p t \<and> (\<forall>i \<le> length t. \<not> free_byte (kernel_heap s) (p + of_nat i))"

lemma held_kept: "held s p t \<Longrightarrow> kept s s' \<Longrightarrow> held s' p t"
  by (auto simp: held_def kept_def intro: cstr_cong)

lemma held_drop:
  assumes "held s p t" and "j \<le> length t"
  shows "held s (p + of_nat j) (drop j t)"
proof -
  have "cstr (kmem s) (p + of_nat j) (drop j t)"
    using cstr_append [of "kmem s" p "take j t" "drop j t"] assms by (simp add: held_def)
  moreover have "\<not> free_byte (kernel_heap s) (p + of_nat j + of_nat i)" if "i \<le> length (drop j t)" for i
    using assms that unfolding held_def
    by (metis add.assoc add_le_cancel_left le_add_diff_inverse length_drop of_nat_add)
  ultimately show ?thesis by (simp add: held_def)
qed

text \<open>The copying loop stores the part at its buffer and stops at the slash or the end.\<close>

lemma extract_loop_cstr:
  assumes "cstr m path t" and "buf \<noteq> 0" and "\<And>k. k \<le> length t \<Longrightarrow> \<not> in_region buf 256 (path + of_nat k)"
    and "i + length (takeWhile not_slash t) \<le> 256"
  shows "extract_loop m buf path (of_nat i) =
    Some (of_nat (i + length (takeWhile not_slash t)), path + of_nat (length (takeWhile not_slash t)),
      write_bytes m (buf + of_nat i) (takeWhile not_slash t))"
  using assms(1,3,4)
proof (induction t arbitrary: m path i)
  case Nil
  then show ?case by (subst extract_loop.simps) simp
next
  case (Cons c t)
  show ?case
  proof (cases "not_slash c")
    case False
    with Cons.prems(1) show ?thesis by (subst extract_loop.simps) (simp add: not_slash_def)
  next
    case True
    have i: "i < 256" using Cons.prems(3) True by simp
    have "in_region buf 256 (buf + of_nat i)"
      using i by (simp add: in_region_def word_less_nat_alt unat_of_nat)
    then have out: "path + of_nat k \<noteq> buf + of_nat i" if "k \<le> Suc (length t)" for k
      using Cons.prems(2) [of k] that by auto
    have "cstr (m(buf + of_nat i := c)) (path + 1) t"
    proof (rule cstr_cong)
      show "cstr m (path + 1) t" using Cons.prems(1) by simp
      show "(m(buf + of_nat i := c)) (path + 1 + of_nat k) = m (path + 1 + of_nat k)"
        if "k \<le> length t" for k
        using out [of "Suc k"] that by (simp add: add.assoc)
    qed
    moreover have "\<not> in_region buf 256 (path + 1 + of_nat k)" if "k \<le> length t" for k
      using Cons.prems(2) [of "Suc k"] that by (simp add: add.assoc)
    moreover have "Suc i + length (takeWhile not_slash t) \<le> 256" using Cons.prems(3) True by simp
    ultimately have "extract_loop (m(buf + of_nat i := c)) buf (path + 1) (of_nat (Suc i)) =
      Some (of_nat (Suc i + length (takeWhile not_slash t)), path + 1 + of_nat (length (takeWhile not_slash t)),
        write_bytes (m(buf + of_nat i := c)) (buf + of_nat (Suc i)) (takeWhile not_slash t))"
      by (rule Cons.IH)
    then show ?thesis using Cons.prems(1) True assms(2)
      by (subst extract_loop.simps) (simp add: not_slash_def add.assoc add.commute add.left_commute)
  qed
qed

text \<open>
  After the part: the rest of the path, and the number of bytes consumed.
\<close>

definition rest_path :: "u8 list \<Rightarrow> u8 list" where
  "rest_path t = drop 1 (dropWhile not_slash t)"

definition consumed :: "u8 list \<Rightarrow> nat" where
  "consumed t = length (takeWhile not_slash t) + (if dropWhile not_slash t = [] then 0 else 1)"

lemma consumed_le: "consumed t \<le> length t"
proof -
  have "length (takeWhile not_slash t) + length (dropWhile not_slash t) = length t"
    by (metis length_append takeWhile_dropWhile_id)
  then show ?thesis by (cases "dropWhile not_slash t") (simp_all add: consumed_def)
qed

lemma drop_consumed: "drop (consumed t) t = rest_path t"
proof -
  have d: "drop (length (takeWhile not_slash t)) t = dropWhile not_slash t"
    by (metis append_eq_conv_conj takeWhile_dropWhile_id)
  show ?thesis
  proof (cases "dropWhile not_slash t = []")
    case True
    then have "consumed t = length (takeWhile not_slash t)" "rest_path t = []"
      by (simp_all only: consumed_def rest_path_def True if_True drop_Nil add_0_right)
    with d True show ?thesis by simp
  next
    case False
    have "drop (length (takeWhile not_slash t) + 1) t = drop 1 (drop (length (takeWhile not_slash t)) t)"
      by (simp add: add.commute)
    with d False show ?thesis by (simp only: consumed_def rest_path_def if_False)
  qed
qed

lemma skip_slash:
  assumes "cstr m path t"
  shows "(let p1 = path + of_nat (length (takeWhile not_slash t)) in if m p1 = 47 then p1 + 1 else p1)
    = path + of_nat (consumed t)"
proof -
  let ?n = "length (takeWhile not_slash t)"
  show ?thesis
  proof (cases "dropWhile not_slash t")
    case Nil
    then have "?n = length t" by (metis append_Nil2 takeWhile_dropWhile_id)
    with cstr_end [OF assms] Nil show ?thesis by (simp add: consumed_def)
  next
    case (Cons c u)
    have split: "t = takeWhile not_slash t @ c # u" using Cons takeWhile_dropWhile_id [of not_slash t] by simp
    have "\<not> not_slash c" using hd_dropWhile [of not_slash t] Cons by simp
    moreover have "?n < length t" using split by (metis add_Suc_right length_append length_Cons less_add_Suc1)
    moreover have "t ! ?n = c" using split by (metis nth_append_length)
    ultimately show ?thesis using cstr_nth [OF assms, of ?n] Cons
      by (simp add: consumed_def not_slash_def add.assoc)
  qed
qed

lemma extract_part:
  fixes s :: "'a path_state_scheme"
  assumes "heap_wf (kernel_heap s)" and "0 < free_count (blocks (kernel_heap s))"
    and "held s path t" and "length t < 256"
  shows "\<exists>buf h m. pathparser_extract_next_path_part path s =
      Some (buf, path + of_nat (consumed t), s\<lparr>kernel_heap := h, kmem := m\<rparr>)
    \<and> heap_wf h \<and> kept s (s\<lparr>kernel_heap := h, kmem := m\<rparr>)
    \<and> (if takeWhile not_slash t = [] then buf = 0 \<and> h = kernel_heap s
       else buf \<noteq> 0 \<and> Suc (free_count (blocks h)) = free_count (blocks (kernel_heap s))
         \<and> held (s\<lparr>kernel_heap := h, kmem := m\<rparr>) buf (takeWhile not_slash t)
         \<and> \<not> live_block (kernel_heap s) buf
         \<and> (\<forall>q. live_block h q \<longleftrightarrow> q = buf \<or> live_block (kernel_heap s) q) \<and> heap_used 1 (kernel_heap s) h)"
proof -
  let ?p = "takeWhile not_slash t"
  have pt: "length ?p \<le> length t" by (rule length_takeWhile_le)
  obtain buf h m where k: "kzalloc NUTSOS_MAX_PATH s = Some (buf, s\<lparr>kernel_heap := h, kmem := m\<rparr>)" "buf \<noteq> 0" "heap_wf h"
    "Suc (free_count (blocks h)) = free_count (blocks (kernel_heap s))"
    and fresh: "\<forall>a. in_region buf NUTSOS_MAX_PATH a \<longrightarrow> free_byte (kernel_heap s) a \<and> \<not> free_byte h a \<and> m a = 0"
    and keep: "\<forall>a. \<not> free_byte (kernel_heap s) a \<longrightarrow> \<not> free_byte h a \<and> m a = kmem s a"
    and live: "\<not> live_block (kernel_heap s) buf" "\<forall>q. live_block h q \<longleftrightarrow> q = buf \<or> live_block (kernel_heap s) q"
    and used: "heap_used 1 (kernel_heap s) h"
    using kzalloc_block [OF assms(1) _ _ assms(2), of NUTSOS_MAX_PATH] by (auto simp: NUTSOS_MAX_PATH_def)
  let ?s1 = "s\<lparr>kernel_heap := h, kmem := m\<rparr>"
  have k1: "kept s ?s1" using keep by (simp add: kept_def)
  have h1: "held ?s1 path t" using assms(3) k1 by (rule held_kept)
  have out: "\<not> in_region buf 256 (path + of_nat i)" if "i \<le> length t" for i
    using fresh assms(3) that by (auto simp: held_def NUTSOS_MAX_PATH_def)
  let ?m = "write_bytes m buf ?p"
  have loop: "extract_loop m buf path 0 = Some (of_nat (length ?p), path + of_nat (length ?p), ?m)"
    using extract_loop_cstr [OF _ k(2) out, where m = m and i = 0] h1 pt assms(4) by (simp add: held_def)
  have m_out: "?m a = m a" if "\<not> in_region buf 256 a" for a
    using that pt assms(4) by (simp add: write_bytes_spec in_region_def word_less_nat_alt)
  let ?s2 = "s\<lparr>kernel_heap := h, kmem := ?m\<rparr>"
  have k2: "kept s ?s2"
    using keep m_out fresh unfolding kept_def NUTSOS_MAX_PATH_def by simp (metis kheap_state.select_convs)
  then have "held ?s2 path t" using assms(3) by (auto intro: held_kept)
  then have slash: "(if ?m (path + of_nat (length ?p)) = 47 then path + of_nat (length ?p) + 1 else path + of_nat (length ?p))
      = path + of_nat (consumed t)"
    using skip_slash [of ?m path t] by (simp add: held_def Let_def)
  have z: "(of_nat (length ?p) :: u32) = 0 \<longleftrightarrow> ?p = []"
    using of_nat_u32_inject [of "length ?p" 0] pt assms(4) by simp
  have eq: "pathparser_extract_next_path_part path s =
      (if ?p = [] then do { s3 \<leftarrow> kfree buf ?s2; Some (0, path + of_nat (consumed t), s3) }
       else Some (buf, path + of_nat (consumed t), ?s2))"
    using slash
    by (cases "?p = []") (simp_all add: pathparser_extract_next_path_part_def k(1) loop Let_def z split del: if_split cong: if_cong)
  show ?thesis
  proof (cases "?p = []")
    case True
    have "kfree buf ?s1 = Some (?s1\<lparr>kernel_heap := kernel_heap s\<rparr>)"
      using kzalloc_kfree [OF assms(1) _ _ k(1,2)] by (simp add: size_ok_def NUTSOS_MAX_PATH_def)
    then have "pathparser_extract_next_path_part path s =
        Some (0, path + of_nat (consumed t), s\<lparr>kernel_heap := kernel_heap s, kmem := m\<rparr>)"
      using True by (simp add: eq)
    moreover have "kept s (s\<lparr>kernel_heap := kernel_heap s, kmem := m\<rparr>)" using keep by (simp add: kept_def)
    ultimately show ?thesis using True assms(1)
      by (intro exI [of _ "0 :: u32"] exI [of _ "kernel_heap s"] exI [of _ m]) (simp only: if_True simp_thms)
  next
    case False
    have reg: "in_region buf NUTSOS_MAX_PATH (buf + of_nat i)" if "i \<le> length ?p" for i
      using that pt assms(4) by (simp add: in_region_def NUTSOS_MAX_PATH_def word_less_nat_alt unat_of_nat)
    have "cstr ?m buf ?p"
      unfolding cstr_iff
    proof (intro conjI allI impI)
      fix i
      assume i: "i < length ?p"
      have u: "unat (of_nat i :: u32) = i" using i pt assms(4) by (intro unat_of_nat_small) simp
      show "?m (buf + of_nat i) = ?p ! i"
        using i pt assms(4) u by (subst write_bytes_spec) auto
      have "?p ! i \<in> set t" using i by (meson nth_mem set_takeWhileD)
      then show "?p ! i \<noteq> 0" using cstr_no_0 [of ?m path t] assms(3) cstr_no_0 by (auto simp: held_def)
    next
      have u: "unat (of_nat (length ?p) :: u32) = length ?p" using pt assms(4) by (intro unat_of_nat_small) simp
      have "?m (buf + of_nat (length ?p)) = m (buf + of_nat (length ?p))"
        using pt assms(4) u by (subst write_bytes_spec) auto
      then show "?m (buf + of_nat (length ?p)) = 0" using fresh reg [of "length ?p"] by simp
    qed
    then have "held ?s2 buf ?p" using fresh reg by (simp add: held_def)
    with False eq k k2 live used show ?thesis by auto
  qed
qed

section \<open>The list of parts\<close>

text \<open>
  What building the nodes \<open>ns\<close> with the names \<open>parts\<close> did to the state: every node and name is
  a fresh live block, nothing that was allocated was touched, and nothing else is live.
\<close>

definition node_blocks :: "(u32 \<times> u32) list \<Rightarrow> u32 list" where
  "node_blocks ns = concat (map (\<lambda>(q, str). [str, q]) ns)"

definition built :: "'a path_state_scheme \<Rightarrow> 'a path_state_scheme \<Rightarrow> (u32 \<times> u32) list \<Rightarrow> u8 list list \<Rightarrow> bool" where
  "built s s' ns parts \<longleftrightarrow> (\<exists>h m st. s' = s\<lparr>kernel_heap := h, kmem := m, path_parts := st\<rparr>)
     \<and> heap_wf (kernel_heap s') \<and> kept s s'
     \<and> free_count (blocks (kernel_heap s')) + 2 * length ns = free_count (blocks (kernel_heap s))
     \<and> distinct (node_blocks ns) \<and> (\<forall>q \<in> set (node_blocks ns). \<not> live_block (kernel_heap s) q)
     \<and> (\<forall>q. live_block (kernel_heap s') q \<longleftrightarrow> q \<in> set (node_blocks ns) \<or> live_block (kernel_heap s) q)
     \<and> list_all2 (\<lambda>(q, str) p. held s' str p) ns parts \<and> heap_used (2 * length ns) (kernel_heap s) (kernel_heap s')"

lemma node_blocks_simps [simp]:
  "node_blocks [] = []"
  "node_blocks ((q, str) # ns) = str # q # node_blocks ns"
  "node_blocks (ns @ ns') = node_blocks ns @ node_blocks ns'"
  by (simp_all add: node_blocks_def)

lemma node_in_blocks: "q \<in> fst ` set ns \<Longrightarrow> q \<in> set (node_blocks ns)"
  by (force simp: node_blocks_def)

lemma built_frame: "built s s' ns parts \<Longrightarrow> \<exists>h m st. s' = s\<lparr>kernel_heap := h, kmem := m, path_parts := st\<rparr>"
  by (simp add: built_def)

lemma built_trans:
  assumes "built s t ns ps" and "built t u ns' ps'"
  shows "built s u (ns @ ns') (ps @ ps')"
proof -
  obtain h m st where t: "t = s\<lparr>kernel_heap := h, kmem := m, path_parts := st\<rparr>"
    using built_frame [OF assms(1)] by blast
  obtain h' m' st' where u: "u = t\<lparr>kernel_heap := h', kmem := m', path_parts := st'\<rparr>"
    using built_frame [OF assms(2)] by blast
  have "u = s\<lparr>kernel_heap := h', kmem := m', path_parts := st'\<rparr>" by (simp add: u t)
  moreover have "list_all2 (\<lambda>(q, str) p. held u str p) (ns @ ns') (ps @ ps')"
  proof (rule list_all2_appendI)
    have k: "kept t u" using assms(2) by (simp add: built_def)
    have "list_all2 (\<lambda>(q, str) p. held t str p) ns ps" using assms(1) by (simp add: built_def)
    then show "list_all2 (\<lambda>(q, str) p. held u str p) ns ps"
      by (rule list_all2_mono) (auto intro: held_kept [OF _ k])
    show "list_all2 (\<lambda>(q, str) p. held u str p) ns' ps'" using assms(2) by (simp add: built_def)
  qed
  moreover have "heap_used (2 * length (ns @ ns')) (kernel_heap s) (kernel_heap u)"
    using assms by (auto simp: built_def intro: heap_used_trans)
  ultimately show ?thesis using assms unfolding built_def
    by (intro conjI) (auto intro: kept_trans)
qed

lemma parse_part:
  fixes s :: "'a path_state_scheme"
  assumes "heap_wf (kernel_heap s)" and "2 * length (split_path t) < free_count (blocks (kernel_heap s))"
    and "held s path t" and "length t < 256"
    and "lst \<noteq> 0 \<Longrightarrow> path_parts s lst = Some l \<and> live_block (kernel_heap s) lst"
  shows "\<exists>q str s'. pathparser_parse_path_part lst path s = Some (q, path + of_nat (consumed t), s')
    \<and> (if takeWhile not_slash t = [] then q = 0 \<and> built s s' [] [] \<and> path_parts s' = path_parts s
       else q \<noteq> 0 \<and> built s s' [(q, str)] [takeWhile not_slash t]
         \<and> path_parts s' = (let st = (path_parts s)(q \<mapsto> \<lparr>part = str, next_part = 0\<rparr>)
             in if lst = 0 then st else st(lst \<mapsto> l\<lparr>next_part := q\<rparr>)))"
proof -
  have "0 < free_count (blocks (kernel_heap s))" using assms(2) by simp
  from extract_part [OF assms(1) this assms(3,4)]
  obtain buf h m where e: "pathparser_extract_next_path_part path s =
      Some (buf, path + of_nat (consumed t), s\<lparr>kernel_heap := h, kmem := m\<rparr>)" "heap_wf h"
      "kept s (s\<lparr>kernel_heap := h, kmem := m\<rparr>)"
    and c: "if takeWhile not_slash t = [] then buf = 0 \<and> h = kernel_heap s
       else buf \<noteq> 0 \<and> Suc (free_count (blocks h)) = free_count (blocks (kernel_heap s))
         \<and> held (s\<lparr>kernel_heap := h, kmem := m\<rparr>) buf (takeWhile not_slash t)
         \<and> \<not> live_block (kernel_heap s) buf
         \<and> (\<forall>q. live_block h q \<longleftrightarrow> q = buf \<or> live_block (kernel_heap s) q) \<and> heap_used 1 (kernel_heap s) h"
    by blast
  let ?s1 = "s\<lparr>kernel_heap := h, kmem := m\<rparr>"
  show ?thesis
  proof (cases "takeWhile not_slash t = []")
    case True
    have "?s1 = s\<lparr>kernel_heap := h, kmem := m, path_parts := path_parts s\<rparr>" by simp
    then have "\<exists>h' m' st. ?s1 = s\<lparr>kernel_heap := h', kmem := m', path_parts := st\<rparr>" by blast
    with True e c assms(1) show ?thesis
      by (intro exI [of _ "0 :: u32"] exI [of _ ?s1])
        (simp add: pathparser_parse_path_part_def built_def)
  next
    case False
    note c = c [unfolded if_not_P [OF False]]
    have "1 \<le> length (split_path t)" using False by (subst split_path.simps) simp
    then have "0 < free_count (blocks (kernel_heap ?s1))" using c assms(2) by simp
    moreover have "0 < unat sizeof_path_part" "unat sizeof_path_part \<le> 4096" by (simp_all add: sizeof_path_part_def)
    moreover have "heap_wf (kernel_heap ?s1)" using e(2) by simp
    ultimately obtain q h2 m2 where k: "kzalloc sizeof_path_part ?s1 = Some (q, ?s1\<lparr>kernel_heap := h2, kmem := m2\<rparr>)"
      "q \<noteq> 0" "heap_wf h2" "Suc (free_count (blocks h2)) = free_count (blocks h)"
      "\<forall>a. \<not> free_byte h a \<longrightarrow> \<not> free_byte h2 a \<and> m2 a = m a"
      "\<not> live_block h q" "\<forall>r. live_block h2 r \<longleftrightarrow> r = q \<or> live_block h r" "heap_used 1 h h2"
      using kzalloc_block [of ?s1 sizeof_path_part] by auto
    let ?st = "let st = (path_parts s)(q \<mapsto> \<lparr>part = buf, next_part = 0\<rparr>)
             in if lst = 0 then st else st(lst \<mapsto> l\<lparr>next_part := q\<rparr>)"
    let ?s2 = "s\<lparr>kernel_heap := h2, kmem := m2, path_parts := ?st\<rparr>"
    have lq: "lst \<noteq> q" if "lst \<noteq> 0" using that assms(5) k(6) c by auto
    have run: "pathparser_parse_path_part lst path s = Some (q, path + of_nat (consumed t), ?s2)"
      using c k(1,2) assms(5) lq
      by (simp add: pathparser_parse_path_part_def e(1) Let_def)
    have kp: "kept s ?s2" "kept ?s1 ?s2" using e(3) k(5) by (simp_all add: kept_def)
    have "held ?s1 buf (takeWhile not_slash t)" using c by blast
    then have "held ?s2 buf (takeWhile not_slash t)" using kp(2) by (rule held_kept)
    moreover have "heap_used 1 (kernel_heap s) h" using c by blast
    then have "heap_used 2 (kernel_heap s) h2" using k(8) by (rule heap_used_trans) simp
    ultimately have "built s ?s2 [(q, buf)] [takeWhile not_slash t]" using c k kp(1)
      unfolding built_def by (intro conjI) auto
    with run False k(2) show ?thesis
      by (rule_tac exI [of _ q], rule_tac exI [of _ buf], rule_tac exI [of _ ?s2]) simp
  qed
qed

lemma split_path_Nil: "takeWhile not_slash t = [] \<Longrightarrow> split_path t = []"
  by (subst split_path.simps) simp

lemma split_path_Cons:
  "takeWhile not_slash t \<noteq> [] \<Longrightarrow> split_path t = takeWhile not_slash t # split_path (rest_path t)"
  by (subst split_path.simps) (simp add: rest_path_def)

lemma parse_loop_spec:
  fixes s :: "'a path_state_scheme"
  assumes "heap_wf (kernel_heap s)" and "2 * length (split_path t) < free_count (blocks (kernel_heap s))"
    and "held s path t" and "length t < 256"
    and "lst \<noteq> 0" and "path_parts s lst = Some \<lparr>part = str, next_part = 0\<rparr>" and "live_block (kernel_heap s) lst"
  shows "\<exists>ns nx s'. (do { (q, path', s1) \<leftarrow> pathparser_parse_path_part lst path s; parse_loop q path' s1 }) = Some s'
    \<and> built s s' ns (split_path t)
    \<and> path_parts s' lst = Some \<lparr>part = str, next_part = nx\<rparr> \<and> part_chain (path_parts s') nx ns
    \<and> (\<forall>r. r \<noteq> lst \<longrightarrow> r \<notin> fst ` set ns \<longrightarrow> path_parts s' r = path_parts s r)"
  using assms
proof (induction "length (split_path t)" arbitrary: t path s lst str)
  case 0
  then have nil: "takeWhile not_slash t = []" using split_path_Cons by fastforce
  from parse_part [OF 0(2,3,4,5), of lst] 0(6-8) nil
  obtain s1 where "pathparser_parse_path_part lst path s = Some (0, path + of_nat (consumed t), s1)"
    "built s s1 [] []" "path_parts s1 = path_parts s" by auto
  moreover have "parse_loop 0 p s1 = Some s1" for p by (subst parse_loop.simps) simp
  ultimately show ?case using 0 split_path_Nil [OF nil]
    by (rule_tac exI [of _ "[]"], rule_tac exI [of _ 0], rule_tac exI [of _ s1]) simp
next
  case (Suc n)
  then have ne: "takeWhile not_slash t \<noteq> []" using split_path_Nil by fastforce
  note sp = split_path_Cons [OF ne]
  from parse_part [OF Suc(3,4,5,6), of lst] Suc(7-9) ne
  obtain q str' s1 where q: "pathparser_parse_path_part lst path s = Some (q, path + of_nat (consumed t), s1)"
    "q \<noteq> 0" "built s s1 [(q, str')] [takeWhile not_slash t]"
    "path_parts s1 = (path_parts s)(q \<mapsto> \<lparr>part = str', next_part = 0\<rparr>, lst \<mapsto> \<lparr>part = str, next_part = q\<rparr>)"
    by (auto simp: Let_def)
  have wf: "heap_wf (kernel_heap s1)" and kp: "kept s s1" using q(3) by (simp_all add: built_def)
  have fc: "2 * length (split_path (rest_path t)) < free_count (blocks (kernel_heap s1))"
    using q(3) Suc(4) sp by (simp add: built_def)
  have hd: "held s1 (path + of_nat (consumed t)) (rest_path t)"
    using held_drop [OF held_kept [OF Suc(5) kp] consumed_le] by (simp add: drop_consumed)
  have len: "length (rest_path t) < 256"
    using Suc(6) consumed_le [of t] drop_consumed [of t] by (metis length_drop less_imp_diff_less)
  have lq: "lst \<noteq> q" using q(3) Suc(9) by (auto simp: built_def)
  have pq: "path_parts s1 q = Some \<lparr>part = str', next_part = 0\<rparr>" using q(4) lq by simp
  have lv: "live_block (kernel_heap s1) q" "live_block (kernel_heap s1) lst"
    using q(3) Suc(9) by (simp_all add: built_def)
  have "n = length (split_path (rest_path t))" using Suc(2) sp by simp
  from Suc(1) [OF this wf fc hd len q(2) pq lv(1)]
  obtain ns nx s2 where i: "(do { (r, path', s') \<leftarrow> pathparser_parse_path_part q (path + of_nat (consumed t)) s1;
      parse_loop r path' s' }) = Some s2"
    "built s1 s2 ns (split_path (rest_path t))" "path_parts s2 q = Some \<lparr>part = str', next_part = nx\<rparr>"
    "part_chain (path_parts s2) nx ns"
    "\<forall>r. r \<noteq> q \<longrightarrow> r \<notin> fst ` set ns \<longrightarrow> path_parts s2 r = path_parts s1 r" by blast
  have b: "built s s2 ((q, str') # ns) (split_path t)"
    using built_trans [OF q(3) i(2)] by (simp add: sp)
  have lns: "lst \<notin> fst ` set ns"
    using i(2) lv(2) node_in_blocks [of lst ns] by (auto simp: built_def)
  then have "path_parts s2 lst = Some \<lparr>part = str, next_part = q\<rparr>" using i(5) lq q(4) by simp
  moreover have "part_chain (path_parts s2) q ((q, str') # ns)" using i(3,4) q(2) by simp
  moreover have "path_parts s2 r = path_parts s r" if "r \<noteq> lst" "r \<notin> fst ` set ((q, str') # ns)" for r
    using that i(5) q(4) by simp
  moreover have "(do { (r, path', s') \<leftarrow> pathparser_parse_path_part lst path s; parse_loop r path' s' }) = Some s2"
    using i(1) q(1,2) by (simp add: parse_loop.simps [of q])
  ultimately show ?case using b by blast
qed

section \<open>The whole parser\<close>

lemma ctoi_digit: "isdigit c \<Longrightarrow> 0 \<le> ctoi c"
  by (simp add: isdigit_def ctoi_def)

lemma extract_drive_ok:
  "cstr m path t \<Longrightarrow> valid_drive t \<Longrightarrow> pathparser_extract_drive_from_path m path = (ctoi (t ! 0), path + 3)"
  using cstr_nth [of m path t 0] is_path_valid_cstr [of m path t]
  by (force simp: pathparser_extract_drive_from_path_def valid_drive_def)

lemma extract_drive_bad:
  "cstr m path t \<Longrightarrow> \<not> valid_drive t \<Longrightarrow> pathparser_extract_drive_from_path m path = (- EBADPATH, path)"
  using is_path_valid_cstr [of m path t] by (simp add: pathparser_extract_drive_from_path_def)

lemma strlen_max_path:
  "cstr m path t \<Longrightarrow> \<exists>len. strlen m path = Some len \<and> (len > NUTSOS_MAX_PATH \<longleftrightarrow> 256 < length t)"
  using strlen_cstr [of m path t] cstr_unat_length [of m path t]
  by (simp add: NUTSOS_MAX_PATH_def word_less_nat_alt)

lemma parse_reject:
  assumes "cstr (kmem s) path t" and "256 < length t \<or> \<not> valid_drive t"
  shows "pathparser_parse path s = Some (0, s)"
proof -
  obtain len where "strlen (kmem s) path = Some len" "len > NUTSOS_MAX_PATH \<longleftrightarrow> 256 < length t"
    using strlen_max_path [OF assms(1)] by blast
  then show ?thesis
    using assms(2) extract_drive_bad [OF assms(1)]
    by (cases "256 < length t") (auto simp: pathparser_parse_def EBADPATH_def)
qed

lemma create_root_spec:
  fixes s :: "'a path_state_scheme"
  assumes "heap_wf (kernel_heap s)" and "0 < free_count (blocks (kernel_heap s))"
  shows "\<exists>root h m. pathparser_create_root d s = Some (root, s\<lparr>kernel_heap := h, kmem := m,
      path_roots := (path_roots s)(root \<mapsto> \<lparr>drive_no = d, first_part = 0\<rparr>)\<rparr>)
    \<and> root \<noteq> 0 \<and> heap_wf h \<and> Suc (free_count (blocks h)) = free_count (blocks (kernel_heap s))
    \<and> kept s (s\<lparr>kernel_heap := h, kmem := m\<rparr>) \<and> \<not> live_block (kernel_heap s) root
    \<and> (\<forall>q. live_block h q \<longleftrightarrow> q = root \<or> live_block (kernel_heap s) q) \<and> heap_used 1 (kernel_heap s) h"
proof -
  obtain p h m where k: "kzalloc sizeof_path_root s = Some (p, s\<lparr>kernel_heap := h, kmem := m\<rparr>)" "p \<noteq> 0" "heap_wf h"
    "Suc (free_count (blocks h)) = free_count (blocks (kernel_heap s))"
    "\<forall>a. \<not> free_byte (kernel_heap s) a \<longrightarrow> \<not> free_byte h a \<and> m a = kmem s a"
    "\<not> live_block (kernel_heap s) p" "\<forall>q. live_block h q \<longleftrightarrow> q = p \<or> live_block (kernel_heap s) q"
    "heap_used 1 (kernel_heap s) h"
    using kzalloc_block [OF assms(1) _ _ assms(2), of sizeof_path_root] by (auto simp: sizeof_path_root_def)
  then show ?thesis
    by (rule_tac exI [of _ p], rule_tac exI [of _ h], rule_tac exI [of _ m])
      (simp add: pathparser_create_root_def kept_def)
qed

lemma parse_accept:
  fixes s :: "'a path_state_scheme"
  assumes "heap_wf (kernel_heap s)" and "held s path t" and "length t \<le> 256" and "valid_drive t"
    and "2 * length (split_path (drop 3 t)) + 1 < free_count (blocks (kernel_heap s))"
  shows "\<exists>root fp ns s'. pathparser_parse path s = Some (root, s') \<and> root \<noteq> 0
    \<and> (\<exists>h m st. s' = s\<lparr>kernel_heap := h, kmem := m, path_parts := st,
          path_roots := (path_roots s)(root \<mapsto> \<lparr>drive_no = ctoi (t ! 0), first_part = fp\<rparr>)\<rparr>)
    \<and> part_chain (path_parts s') fp ns
    \<and> list_all2 (\<lambda>(q, str) p. held s' str p) ns (split_path (drop 3 t))
    \<and> heap_wf (kernel_heap s') \<and> kept s s'
    \<and> distinct (node_blocks ns @ [root])
    \<and> (\<forall>q \<in> set (node_blocks ns @ [root]). \<not> live_block (kernel_heap s) q)
    \<and> (\<forall>q. live_block (kernel_heap s') q \<longleftrightarrow> q \<in> set (node_blocks ns @ [root]) \<or> live_block (kernel_heap s) q)
    \<and> free_count (blocks (kernel_heap s')) + 2 * length ns + 1 = free_count (blocks (kernel_heap s))
    \<and> heap_used (2 * length ns + 1) (kernel_heap s) (kernel_heap s')"
proof -
  let ?t = "drop 3 t"
  let ?d = "ctoi (t ! 0)"
  have c: "cstr (kmem s) path t" using assms(2) by (simp add: held_def)
  obtain len where len: "strlen (kmem s) path = Some len" "\<not> len > NUTSOS_MAX_PATH"
    using strlen_max_path [OF c] assms(3) by auto
  have d: "0 \<le> ?d" and t3: "3 \<le> length t" using assms(4) ctoi_digit by (auto simp: valid_drive_def)
  have drv: "pathparser_extract_drive_from_path (kmem s) path = (?d, path + 3)"
    using extract_drive_ok [OF c assms(4)] .
  have "0 < free_count (blocks (kernel_heap s))" using assms(5) by simp
  from create_root_spec [OF assms(1) this, of ?d]
  obtain root h m where r: "pathparser_create_root ?d s = Some (root, s\<lparr>kernel_heap := h, kmem := m,
      path_roots := (path_roots s)(root \<mapsto> \<lparr>drive_no = ?d, first_part = 0\<rparr>)\<rparr>)" "root \<noteq> 0" "heap_wf h"
    "Suc (free_count (blocks h)) = free_count (blocks (kernel_heap s))"
    "kept s (s\<lparr>kernel_heap := h, kmem := m\<rparr>)" "\<not> live_block (kernel_heap s) root"
    "\<forall>q. live_block h q \<longleftrightarrow> q = root \<or> live_block (kernel_heap s) q" "heap_used 1 (kernel_heap s) h" by blast
  let ?s1 = "s\<lparr>kernel_heap := h, kmem := m,
      path_roots := (path_roots s)(root \<mapsto> \<lparr>drive_no = ?d, first_part = 0\<rparr>)\<rparr>"
  have k1: "kept s ?s1" using r(5) by (simp add: kept_def)
  have "held s (path + of_nat 3) ?t" using held_drop [OF assms(2) t3] .
  then have h1: "held ?s1 (path + 3) ?t" using held_kept [OF _ k1] by simp
  have wf1: "heap_wf (kernel_heap ?s1)" using r(3) by simp
  have fc1: "2 * length (split_path ?t) < free_count (blocks (kernel_heap ?s1))" using r(4) assms(5) by simp
  have l1: "length ?t < 256" using assms(3) t3 by simp
  let ?parse = "\<lambda>s2 fp p1. (do { rt \<leftarrow> path_roots s2 root;
       let s3 = s2\<lparr>path_roots := (path_roots s2)(root \<mapsto> rt\<lparr>first_part := fp\<rparr>)\<rparr>;
       (prt, p2, s4) \<leftarrow> pathparser_parse_path_part fp p1 s3;
       s5 \<leftarrow> parse_loop prt p2 s4;
       Some (root, s5) })"
  have "\<exists>q str s2. pathparser_parse_path_part 0 (path + 3) ?s1 = Some (q, path + 3 + of_nat (consumed ?t), s2)
    \<and> (if takeWhile not_slash ?t = [] then q = 0 \<and> built ?s1 s2 [] [] \<and> path_parts s2 = path_parts s
       else q \<noteq> 0 \<and> built ?s1 s2 [(q, str)] [takeWhile not_slash ?t]
         \<and> path_parts s2 = (path_parts s)(q \<mapsto> \<lparr>part = str, next_part = 0\<rparr>))"
    using parse_part [OF wf1 fc1 h1 l1, where lst = 0 and l = undefined]
    by (simp split del: if_split cong: if_cong)
  then obtain q str s2 where q: "pathparser_parse_path_part 0 (path + 3) ?s1 = Some (q, path + 3 + of_nat (consumed ?t), s2)"
    and cs: "if takeWhile not_slash ?t = [] then q = 0 \<and> built ?s1 s2 [] [] \<and> path_parts s2 = path_parts s
       else q \<noteq> 0 \<and> built ?s1 s2 [(q, str)] [takeWhile not_slash ?t]
         \<and> path_parts s2 = (path_parts s)(q \<mapsto> \<lparr>part = str, next_part = 0\<rparr>)"
    by blast
  have run: "pathparser_parse path s =
      (if q = 0 then Some (root, s2) else ?parse s2 q (path + 3 + of_nat (consumed ?t)))"
    using len d drv r(1,2) q by (simp add: pathparser_parse_def)
  show ?thesis
  proof (cases "takeWhile not_slash ?t = []")
    case True
    with cs have b: "q = 0" "built ?s1 s2 [] []" by auto
    obtain h2 m2 st2 where s2: "s2 = ?s1\<lparr>kernel_heap := h2, kmem := m2, path_parts := st2\<rparr>"
      using built_frame [OF b(2)] by blast
    have "s2 = s\<lparr>kernel_heap := h2, kmem := m2, path_parts := st2,
          path_roots := (path_roots s)(root \<mapsto> \<lparr>drive_no = ?d, first_part = 0\<rparr>)\<rparr>" by (simp add: s2)
    moreover have "kept s s2" using k1 b(2) kept_trans by (auto simp: built_def)
    moreover have "heap_used 1 (kernel_heap s) (kernel_heap s2)"
      using r(8) b(2) by (auto simp: built_def intro: heap_used_trans [of 1 _ h 0])
    ultimately show ?thesis using run b r split_path_Nil [OF True]
      by (rule_tac exI [of _ root], rule_tac exI [of _ 0], rule_tac exI [of _ "[]"], rule_tac exI [of _ s2])
        (auto simp: built_def)
  next
    case False
    with cs have b: "q \<noteq> 0" "built ?s1 s2 [(q, str)] [takeWhile not_slash ?t]"
      "path_parts s2 = (path_parts s)(q \<mapsto> \<lparr>part = str, next_part = 0\<rparr>)" by auto
    obtain h2 m2 st2 where s2: "s2 = ?s1\<lparr>kernel_heap := h2, kmem := m2, path_parts := st2\<rparr>"
      using built_frame [OF b(2)] by blast
    let ?s3 = "s2\<lparr>path_roots := (path_roots s2)(root \<mapsto> \<lparr>drive_no = ?d, first_part = q\<rparr>)\<rparr>"
    note sp = split_path_Cons [OF False]
    have wf3: "heap_wf (kernel_heap ?s3)" using b(2) by (simp add: built_def)
    have fc3: "2 * length (split_path (rest_path ?t)) < free_count (blocks (kernel_heap ?s3))"
      using b(2) fc1 sp by (simp add: built_def)
    have k2: "kept ?s1 s2" using b(2) by (simp add: built_def)
    have k3: "kept s2 ?s3" by (simp add: kept_def)
    have h3: "held ?s3 (path + 3 + of_nat (consumed ?t)) (rest_path ?t)"
      using held_kept [OF held_drop [OF held_kept [OF h1 k2] consumed_le] k3] by (simp only: drop_consumed)
    have l3: "length (rest_path ?t) < 256"
      using l1 consumed_le [of ?t] drop_consumed [of ?t] by (metis length_drop less_imp_diff_less)
    have lv: "live_block (kernel_heap ?s3) q" using b(2) by (simp add: built_def)
    have pq: "path_parts ?s3 q = Some \<lparr>part = str, next_part = 0\<rparr>" using b(3) by simp
    from parse_loop_spec [OF wf3 fc3 h3 l3 b(1) pq lv]
    obtain ns nx s5 where i: "(do { (r, p', s') \<leftarrow> pathparser_parse_path_part q (path + 3 + of_nat (consumed ?t)) ?s3;
        parse_loop r p' s' }) = Some s5"
      "built ?s3 s5 ns (split_path (rest_path ?t))" "path_parts s5 q = Some \<lparr>part = str, next_part = nx\<rparr>"
      "part_chain (path_parts s5) nx ns" by blast
    have rt: "path_roots s2 root = Some \<lparr>drive_no = ?d, first_part = 0\<rparr>" by (simp add: s2)
    have res: "pathparser_parse path s = Some (root, s5)"
      using run b(1) i(1) by (auto simp: rt Let_def bind_eq_Some_conv split: prod.splits)
    obtain h5 m5 st5 where s5: "s5 = ?s3\<lparr>kernel_heap := h5, kmem := m5, path_parts := st5\<rparr>"
      using built_frame [OF i(2)] by blast
    have fr: "s5 = s\<lparr>kernel_heap := h5, kmem := m5, path_parts := st5,
          path_roots := (path_roots s)(root \<mapsto> \<lparr>drive_no = ?d, first_part = q\<rparr>)\<rparr>" by (simp add: s5 s2)
    have k5: "kept ?s3 s5" using i(2) by (simp add: built_def)
    have kp: "kept s s5" using k1 k2 k3 k5 by (meson kept_trans)
    have "held s2 str (takeWhile not_slash ?t)" using b(2) by (simp add: built_def)
    then have "held s5 str (takeWhile not_slash ?t)" using k3 k5 by (meson held_kept)
    then have names: "list_all2 (\<lambda>(q, str) p. held s5 str p) ((q, str) # ns) (split_path ?t)"
      using i(2) sp by (simp add: built_def)
    have chain: "part_chain (path_parts s5) q ((q, str) # ns)" using i(3,4) b(1) by simp
    have live: "\<forall>x. live_block (kernel_heap s5) x \<longleftrightarrow> x \<in> set (node_blocks ((q, str) # ns) @ [root]) \<or> live_block (kernel_heap s) x"
      using i(2) b(2) r(7) by (auto simp: built_def)
    have fresh: "distinct (node_blocks ((q, str) # ns) @ [root])
        \<and> (\<forall>x \<in> set (node_blocks ((q, str) # ns) @ [root]). \<not> live_block (kernel_heap s) x)"
      using i(2) b(2) r(6,7) by (auto simp: built_def)
    have cnt: "free_count (blocks (kernel_heap s5)) + 2 * length ((q, str) # ns) + 1 = free_count (blocks (kernel_heap s))"
      using i(2) b(2) r(4) by (simp add: built_def)
    have wf: "heap_wf (kernel_heap s5)" using i(2) by (simp add: built_def)
    have "heap_used 2 h (kernel_heap s2)" "heap_used (2 * length ns) (kernel_heap s2) (kernel_heap s5)"
      using b(2) i(2) by (simp_all add: built_def)
    then have "heap_used (2 + 2 * length ns) h (kernel_heap s5)" by (rule heap_used_trans) simp
    then have used: "heap_used (2 * length ((q, str) # ns) + 1) (kernel_heap s) (kernel_heap s5)"
      by (rule heap_used_trans [OF r(8)]) simp
    show ?thesis
      using res r(2) chain names wf kp fresh live cnt fr used
      by (rule_tac exI [of _ root], rule_tac exI [of _ q], rule_tac exI [of _ "(q, str) # ns"], rule_tac exI [of _ s5])
        blast
  qed
qed

text \<open>Releasing a parsed path gives back the root and every part and name.\<close>

lemma free_parts_spec:
  assumes "heap_wf (kernel_heap s)" and "part_chain (path_parts s) p ns" and "distinct (node_blocks ns)"
    and "\<And>q. q \<in> set (node_blocks ns) \<Longrightarrow> live_block (kernel_heap s) q"
  shows "\<exists>h st. free_parts p s = Some (s\<lparr>kernel_heap := h, path_parts := st\<rparr>) \<and> heap_wf h
    \<and> (\<forall>q. live_block h q \<longleftrightarrow> live_block (kernel_heap s) q \<and> q \<notin> set (node_blocks ns))"
  using assms
proof (induction ns arbitrary: p s)
  case Nil
  then show ?case
    by (intro exI [of _ "kernel_heap s"] exI [of _ "path_parts s"]) (subst free_parts.simps, simp)
next
  case (Cons n ns)
  obtain q str where n: "n = (q, str)" by (cases n)
  obtain nx where p: "p = q" "q \<noteq> 0" "path_parts s q = Some \<lparr>part = str, next_part = nx\<rparr>"
    "part_chain (path_parts s) nx ns" using Cons.prems(2) by (auto simp: n)
  have ls: "live_block (kernel_heap s) str" using Cons.prems(4) [of str] by (simp add: n)
  obtain h1 where h1: "kfree str s = Some (s\<lparr>kernel_heap := h1\<rparr>)" "heap_wf h1"
    "\<And>x. live_block h1 x \<longleftrightarrow> live_block (kernel_heap s) x \<and> x \<noteq> str"
    using kfree_live [OF Cons.prems(1) ls] by blast
  have dq: "q \<noteq> str" "q \<notin> set (node_blocks ns)" "str \<notin> set (node_blocks ns)" using Cons.prems(3) by (auto simp: n)
  let ?s1 = "s\<lparr>kernel_heap := h1\<rparr>"
  have lq: "live_block (kernel_heap ?s1) q" using h1(3) Cons.prems(4) [of q] dq by (simp add: n)
  obtain h2 where h2: "kfree q ?s1 = Some (?s1\<lparr>kernel_heap := h2\<rparr>)" "heap_wf h2"
    "\<And>x. live_block h2 x \<longleftrightarrow> live_block h1 x \<and> x \<noteq> q"
    using kfree_live [of ?s1, OF _ lq] h1(2) by auto
  let ?s2 = "s\<lparr>kernel_heap := h2, path_parts := (path_parts s)(q := None)\<rparr>"
  have "q \<notin> fst ` set ns" using dq(2) node_in_blocks by blast
  then have "part_chain (path_parts ?s2) nx ns"
    using p(4) by (subst part_chain_cong [of ns _ "path_parts s"]) auto
  moreover have "distinct (node_blocks ns)" using Cons.prems(3) by (simp add: n)
  moreover have "live_block (kernel_heap ?s2) x" if "x \<in> set (node_blocks ns)" for x
    using that h1(3) h2(3) Cons.prems(4) [of x] dq by (auto simp: n)
  moreover have "heap_wf (kernel_heap ?s2)" using h2(2) by simp
  ultimately obtain h3 st3 where i: "free_parts nx ?s2 = Some (?s2\<lparr>kernel_heap := h3, path_parts := st3\<rparr>)" "heap_wf h3"
    "\<And>x. live_block h3 x \<longleftrightarrow> live_block (kernel_heap ?s2) x \<and> x \<notin> set (node_blocks ns)"
    using Cons.IH [of ?s2 nx] by blast
  have "free_parts p s = Some (s\<lparr>kernel_heap := h3, path_parts := st3\<rparr>)"
    using p h1(1) h2(1) i(1) by (subst free_parts.simps) simp
  moreover have "live_block h3 x \<longleftrightarrow> live_block (kernel_heap s) x \<and> x \<notin> set (node_blocks (n # ns))" for x
    using i(3) h1(3) h2(3) by (auto simp: n)
  ultimately show ?case using i(2) by blast
qed

lemma pathparser_free_spec:
  assumes "heap_wf (kernel_heap s)" and "path_roots s root = Some \<lparr>drive_no = d, first_part = fp\<rparr>"
    and "part_chain (path_parts s) fp ns" and "distinct (node_blocks ns @ [root])"
    and "\<And>q. q \<in> set (node_blocks ns @ [root]) \<Longrightarrow> live_block (kernel_heap s) q"
  shows "\<exists>h st. pathparser_free root s
      = Some (s\<lparr>kernel_heap := h, path_parts := st, path_roots := (path_roots s)(root := None)\<rparr>) \<and> heap_wf h
    \<and> (\<forall>q. live_block h q \<longleftrightarrow> live_block (kernel_heap s) q \<and> q \<notin> set (node_blocks ns @ [root]))"
proof -
  obtain h st where f: "free_parts fp s = Some (s\<lparr>kernel_heap := h, path_parts := st\<rparr>)" "heap_wf h"
    "\<And>q. live_block h q \<longleftrightarrow> live_block (kernel_heap s) q \<and> q \<notin> set (node_blocks ns)"
    using free_parts_spec [OF assms(1,3)] assms(4,5) by auto
  let ?s1 = "s\<lparr>kernel_heap := h, path_parts := st\<rparr>"
  have "live_block (kernel_heap ?s1) root" using f(3) assms(4,5) by simp
  then obtain h2 where h2: "kfree root ?s1 = Some (?s1\<lparr>kernel_heap := h2\<rparr>)" "heap_wf h2"
    "\<And>x. live_block h2 x \<longleftrightarrow> live_block h x \<and> x \<noteq> root"
    using kfree_live [of ?s1 root] f(2) by auto
  show ?thesis
    using h2 f(3) assms(2) f(1)
    by (rule_tac exI [of _ h2], rule_tac exI [of _ st]) (auto simp: pathparser_free_def)
qed

section \<open>Properties\<close>

text \<open>
  C25. A valid path of up to 256 characters, with memory for its parts, is parsed into exactly
  its parts: the root carries the drive number, its list of nodes holds the names up to the
  first empty part, in order, and nothing that was allocated before is written to.
\<close>

theorem pathparser_parse_accepts:
  fixes s :: "'a path_state_scheme"
  assumes "heap_wf (kernel_heap s)" and "held s path t" and "length t \<le> 256" and "valid_drive t"
    and "2 * length (split_path (drop 3 t)) + 1 < free_count (blocks (kernel_heap s))"
  shows "\<exists>root fp ns s'. pathparser_parse path s = Some (root, s') \<and> root \<noteq> 0
    \<and> path_roots s' root = Some \<lparr>drive_no = ctoi (t ! 0), first_part = fp\<rparr>
    \<and> part_chain (path_parts s') fp ns
    \<and> list_all2 (\<lambda>(q, str) p. cstr (kmem s') str p) ns (split_path (drop 3 t))
    \<and> heap_wf (kernel_heap s') \<and> (\<forall>a. \<not> free_byte (kernel_heap s) a \<longrightarrow> kmem s' a = kmem s a)"
proof -
  obtain root fp ns s' where p: "pathparser_parse path s = Some (root, s')" "root \<noteq> 0"
    "\<exists>h m st. s' = s\<lparr>kernel_heap := h, kmem := m, path_parts := st,
          path_roots := (path_roots s)(root \<mapsto> \<lparr>drive_no = ctoi (t ! 0), first_part = fp\<rparr>)\<rparr>"
    "part_chain (path_parts s') fp ns"
    "list_all2 (\<lambda>(q, str) p. held s' str p) ns (split_path (drop 3 t))"
    "heap_wf (kernel_heap s')" "kept s s'"
    using parse_accept [OF assms] by blast
  have "path_roots s' root = Some \<lparr>drive_no = ctoi (t ! 0), first_part = fp\<rparr>" using p(3) by auto
  moreover have "list_all2 (\<lambda>(q, str) p. cstr (kmem s') str p) ns (split_path (drop 3 t))"
    using p(5) by (rule list_all2_mono) (auto simp: held_def)
  moreover have "\<forall>a. \<not> free_byte (kernel_heap s) a \<longrightarrow> kmem s' a = kmem s a" using p(7) by (simp add: kept_def)
  ultimately show ?thesis using p(1,2,4,6) by blast
qed

text \<open>A kernel with a string at 0x1000, for the examples.\<close>

definition blank_paths :: "nat \<Rightarrow> u8 list \<Rightarrow> path_state" where
  "blank_paths n t = disk_state.extend ((blank_disk n of_nat)\<lparr>kmem := write_bytes (\<lambda>_. 0) 0x1000 t\<rparr>)
     \<lparr>path_parts = Map.empty, path_roots = Map.empty\<rparr>"

lemma blank_paths_heap [simp]: "kernel_heap (blank_paths n t) = fresh_heap n"
  by (simp add: blank_paths_def blank_disk_def disk_state.defs paging_state.defs)

lemma low_byte_kept:
  assumes "n \<le> 1024" and "unat a < 0x01000000"
  shows "\<not> free_byte (fresh_heap n) a"
proof -
  have "unat (a - NUTSOS_HEAP_ADDRESS) = unat a + 4294967296 - 0x01000000"
    using assms(2) by (simp add: unat_sub_if' NUTSOS_HEAP_ADDRESS_def)
  then have "1024 \<le> pool_block (fresh_heap n) a"
    by (simp add: pool_block_def fresh_heap_def less_eq_div_iff_mult_less_eq)
  then show ?thesis using assms(1) by (simp add: free_byte_def)
qed

lemma blank_paths_held:
  assumes "n \<le> 1024" and "0 \<notin> set t" and "length t \<le> 4096"
  shows "held (blank_paths n t) 0x1000 t"
proof -
  have u: "unat (of_nat i :: u32) = i" if "i \<le> length t" for i using that assms(3) by (intro unat_of_nat_small) simp
  have m: "kmem (blank_paths n t) = write_bytes (\<lambda>_. 0) 0x1000 t"
    by (simp add: blank_paths_def disk_state.defs)
  have "length t \<le> 2 ^ 32" using assms(3) by simp
  then have at: "kmem (blank_paths n t) (0x1000 + of_nat i) = (if i < length t then t ! i else 0)" if "i \<le> length t" for i
    using u [OF that] by (simp add: m write_bytes_spec)
  then have "cstr (kmem (blank_paths n t)) 0x1000 t"
    unfolding cstr_iff using assms(2) by (auto simp: in_set_conv_nth)
  moreover have "unat (0x1000 + of_nat i :: u32) < 0x01000000" if "i \<le> length t" for i
    using u [OF that] that assms(3) by (simp add: unat_word_ariths(1))
  ultimately show ?thesis using low_byte_kept [OF assms(1)] by (simp add: held_def)
qed

text \<open>The bytes of \<open>0:/ab/c\<close>.\<close>

definition example_path :: "u8 list" where
  "example_path = [48, 58, 47, 97, 98, 47, 99]"

lemma example_split: "split_path (drop 3 example_path) = [[97, 98], [99]]"
  by (simp add: example_path_def split_path.simps not_slash_def)

lemma example_held: "held (blank_paths 64 example_path) 0x1000 example_path"
  by (rule blank_paths_held) (simp_all add: example_path_def)

lemma example_valid: "valid_drive example_path"
  by (simp add: example_path_def valid_drive_def isdigit_def)

lemma example_room: "2 * length (split_path (drop 3 example_path)) + 1 < free_count (blocks (kernel_heap (blank_paths 64 t)))"
  by (simp add: example_split)

theorem pathparser_parse_accepts_witness:
  "\<exists>root fp s'. pathparser_parse 0x1000 (blank_paths 64 example_path) = Some (root, s')
    \<and> path_roots s' root = Some \<lparr>drive_no = 0, first_part = fp\<rparr>
    \<and> (\<exists>ns. part_chain (path_parts s') fp ns
        \<and> list_all2 (\<lambda>(q, str) p. cstr (kmem s') str p) ns [[97, 98], [99]])"
proof -
  have "ctoi (example_path ! 0) = 0" by (simp add: example_path_def ctoi_def)
  then show ?thesis
    using pathparser_parse_accepts [OF _ example_held _ example_valid example_room] example_split
    by (fastforce simp: fresh_heap_wf example_path_def)
qed

text \<open>
  A path that is too long or does not begin with a digit and \<open>:/\<close> is refused: the null
  pointer comes back and the kernel's state, its heap included, is unchanged.
\<close>

lemma pathparser_parse_rejects:
  assumes "cstr (kmem s) path t"
  shows "256 < length t \<or> \<not> valid_drive t \<longrightarrow> pathparser_parse path s = Some (0, s)"
  using parse_reject [OF assms] by blast

lemma pathparser_parse_rejects_witness:
  "pathparser_parse 0x1000 (blank_paths 64 [97, 58, 47]) = Some (0, blank_paths 64 [97, 58, 47])"
proof -
  have "held (blank_paths 64 [97, 58, 47]) 0x1000 [97, 58, 47]" by (rule blank_paths_held) simp_all
  then show ?thesis
    using pathparser_parse_rejects [of "blank_paths 64 [97, 58, 47]" "0x1000" "[97, 58, 47]"]
    by (simp add: held_def valid_drive_def isdigit_def)
qed

text \<open>
  C31. \<open>pathparser_free\<close> gives back all that \<open>pathparser_parse\<close> took: afterwards exactly the
  blocks that were live before are live, and no root is left behind.
\<close>

theorem pathparser_parse_free:
  fixes s :: "'a path_state_scheme"
  assumes "heap_wf (kernel_heap s)" and "held s path t" and "length t \<le> 256" and "valid_drive t"
    and "2 * length (split_path (drop 3 t)) + 1 < free_count (blocks (kernel_heap s))"
  shows "\<exists>root s' s''. pathparser_parse path s = Some (root, s') \<and> pathparser_free root s' = Some s''
    \<and> heap_wf (kernel_heap s'') \<and> path_roots s'' = (path_roots s)(root := None)
    \<and> (\<forall>q. live_block (kernel_heap s'') q \<longleftrightarrow> live_block (kernel_heap s) q)"
proof -
  obtain root fp ns s' where p: "pathparser_parse path s = Some (root, s')"
    "\<exists>h m st. s' = s\<lparr>kernel_heap := h, kmem := m, path_parts := st,
          path_roots := (path_roots s)(root \<mapsto> \<lparr>drive_no = ctoi (t ! 0), first_part = fp\<rparr>)\<rparr>"
    "part_chain (path_parts s') fp ns" "heap_wf (kernel_heap s')" "distinct (node_blocks ns @ [root])"
    "\<forall>q \<in> set (node_blocks ns @ [root]). \<not> live_block (kernel_heap s) q"
    "\<forall>q. live_block (kernel_heap s') q \<longleftrightarrow> q \<in> set (node_blocks ns @ [root]) \<or> live_block (kernel_heap s) q"
    using parse_accept [OF assms] by blast
  have rt: "path_roots s' = (path_roots s)(root \<mapsto> \<lparr>drive_no = ctoi (t ! 0), first_part = fp\<rparr>)" using p(2) by auto
  then have "path_roots s' root = Some \<lparr>drive_no = ctoi (t ! 0), first_part = fp\<rparr>" by simp
  from pathparser_free_spec [OF p(4) this p(3,5)] p(7) obtain h st where
    "pathparser_free root s' = Some (s'\<lparr>kernel_heap := h, path_parts := st, path_roots := (path_roots s')(root := None)\<rparr>)"
    "heap_wf h" "\<forall>q. live_block h q \<longleftrightarrow> live_block (kernel_heap s') q \<and> q \<notin> set (node_blocks ns @ [root])"
    by blast
  with p(1,6,7) rt show ?thesis by auto
qed

theorem pathparser_parse_free_witness:
  "\<exists>root s' s''. pathparser_parse 0x1000 (blank_paths 64 example_path) = Some (root, s')
    \<and> pathparser_free root s' = Some s'' \<and> (\<forall>q. \<not> live_block (kernel_heap s'') q)"
proof -
  have none: "\<not> live_block (fresh_heap 64) q" for q
  proof
    assume "live_block (fresh_heap 64) q"
    then obtain b n where "chunk_at (blocks (fresh_heap 64)) b n" by (auto simp: live_block_def)
    then have "blocks (fresh_heap 64) ! b = run_entry n 0" "b < 64"
      by (auto simp: chunk_at_def dest: spec [of _ 0])
    then show False using run_entry_neq_FREE [of n 0] by simp
  qed
  have wf: "heap_wf (kernel_heap (blank_paths 64 example_path))" by (simp add: fresh_heap_wf)
  have len: "length example_path \<le> 256" by (simp add: example_path_def)
  obtain root s' s'' where "pathparser_parse 0x1000 (blank_paths 64 example_path) = Some (root, s')"
    "pathparser_free root s' = Some s''"
    "\<forall>q. live_block (kernel_heap s'') q \<longleftrightarrow> live_block (kernel_heap (blank_paths 64 example_path)) q"
    using pathparser_parse_free [OF wf example_held len example_valid example_room] by blast
  with none show ?thesis unfolding blank_paths_heap by blast
qed

end
