(* ===== verification/Fat16.thy ===== *)
theory Fat16
  imports Path_Parser
begin

text \<open>
  The FAT16 driver (\<^verbatim>\<open>src/fs/fat/fat16.c\<close>).

  The driver's heap objects (its private data, directories, items and descriptors) are kept
  by address; directory entries are 32 raw bytes of memory in the on-disk layout, read by
  offset. The disk the functions are given is always the global one.
\<close>

section \<open>Layout\<close>

definition NUTSOS_FAT16_FAT_ENTRY_SIZE :: int where [const_defs]: "NUTSOS_FAT16_FAT_ENTRY_SIZE = 2"
definition NUTSOS_FAT16_UNUSED_ENTRY :: u8 where [const_defs]: "NUTSOS_FAT16_UNUSED_ENTRY = 0xE5"
definition NUTSOS_FAT16_NOMORE_ENTRY :: u8 where [const_defs]: "NUTSOS_FAT16_NOMORE_ENTRY = 0"
definition NUTSOS_FAT16_FREE_CLUSTER :: int where [const_defs]: "NUTSOS_FAT16_FREE_CLUSTER = 0"
definition NUTSOS_FAT16_BAD_SECTOR :: int where [const_defs]: "NUTSOS_FAT16_BAD_SECTOR = 0xFFF7"
definition NUTOS_FAT16_SIGNATURE :: u8 where [const_defs]: "NUTOS_FAT16_SIGNATURE = 0x29"
definition FAT_FILE_READ_ONLY :: u8 where [const_defs]: "FAT_FILE_READ_ONLY = 0x01"
definition FAT_FILE_SUBDIRECTORY :: u8 where [const_defs]: "FAT_FILE_SUBDIRECTORY = 0x10"

definition NUTSOS_FAT16_IS_LAST_SECTOR :: "int \<Rightarrow> bool" where
  "NUTSOS_FAT16_IS_LAST_SECTOR x \<longleftrightarrow> x = 0xFFFF \<or> x = 0xFFF8"

definition NUTSOS_FAT16_IS_RESERVED_SECTOR :: "int \<Rightarrow> bool" where
  "NUTSOS_FAT16_IS_RESERVED_SECTOR x \<longleftrightarrow> x = 0xFFF0 \<or> x = 0xFFF5 \<or> x = 0xFFF6"

text \<open>The fields of \<^verbatim>\<open>struct fat_header\<close> the driver uses, in its packed bytes.\<close>

definition hdr_u8 :: "u8 list \<Rightarrow> nat \<Rightarrow> int" where
  "hdr_u8 h i = uint (h ! i)"

definition hdr_u16 :: "u8 list \<Rightarrow> nat \<Rightarrow> int" where
  "hdr_u16 h i = uint (le16 (h ! i) (h ! (i + 1)))"

definition sizeof_fat_header :: nat where [const_defs]: "sizeof_fat_header = 62"
definition hdr_sectors_per_cluster :: "u8 list \<Rightarrow> int" where "hdr_sectors_per_cluster h = hdr_u8 h 13"
definition hdr_reserved_sectors :: "u8 list \<Rightarrow> int" where "hdr_reserved_sectors h = hdr_u16 h 14"
definition hdr_fat_copies :: "u8 list \<Rightarrow> int" where "hdr_fat_copies h = hdr_u8 h 16"
definition hdr_root_dir_entries :: "u8 list \<Rightarrow> int" where "hdr_root_dir_entries h = hdr_u16 h 17"
definition hdr_sectors_per_fat :: "u8 list \<Rightarrow> int" where "hdr_sectors_per_fat h = hdr_u16 h 22"
definition hdr_signature :: "u8 list \<Rightarrow> u8" where "hdr_signature h = h ! 38"

text \<open>\<^verbatim>\<open>struct fat_directory_item\<close> at an address.\<close>

definition sizeof_fat_directory_item :: u32 where [const_defs]: "sizeof_fat_directory_item = 32"
definition ditem_attribute :: "mem \<Rightarrow> u32 \<Rightarrow> u8" where "ditem_attribute m p = m (p + 11)"
definition ditem_low_cluster :: "mem \<Rightarrow> u32 \<Rightarrow> u16" where "ditem_low_cluster m p = read16 m (p + 26)"
definition ditem_filesize :: "mem \<Rightarrow> u32 \<Rightarrow> u32" where "ditem_filesize m p = read32 m (p + 28)"

section \<open>State\<close>

datatype fat_item_type = fat_type_directory | fat_type_file

record fat_directory =
  dir_item :: u32
  dir_total :: int
  sector_pos :: int
  ending_sector_pos :: int

text \<open>The union of \<^verbatim>\<open>struct fat_item\<close> is one pointer.\<close>

record fat_item =
  item_ptr :: u32
  item_type :: fat_item_type

record fat_file_descriptor =
  desc_item :: u32
  desc_pos :: u32

record fat_private =
  header :: "u8 list"
  root_directory :: fat_directory
  first_fat_sector :: u32
  fat_table_address :: u32
  bytes_per_cluster :: int
  cluster_read_stream :: u32
  fat_read_stream :: u32
  directory_stream :: u32

record fat_state = path_state +
  fat_privates :: "u32 \<rightharpoonup> fat_private"
  fat_items :: "u32 \<rightharpoonup> fat_item"
  fat_directories :: "u32 \<rightharpoonup> fat_directory"
  fat_descs :: "u32 \<rightharpoonup> fat_file_descriptor"

definition sizeof_fat_private :: u32 where [const_defs]: "sizeof_fat_private = 104"
definition sizeof_fat_directory :: u32 where [const_defs]: "sizeof_fat_directory = 16"
definition sizeof_fat_item :: u32 where [const_defs]: "sizeof_fat_item = 8"
definition sizeof_fat_file_descriptor :: u32 where [const_defs]: "sizeof_fat_file_descriptor = 8"

definition empty_directory :: fat_directory where
  "empty_directory = \<lparr>dir_item = 0, dir_total = 0, sector_pos = 0, ending_sector_pos = 0\<rparr>"

text \<open>\<open>disk->fs_private\<close>, as the functions fetch it.\<close>

definition disk_private :: "'a fat_state_scheme \<Rightarrow> fat_private option" where
  "disk_private s = fat_privates s (fs_private (the_disk s))"

section \<open>Private data and release\<close>

definition fat16_init_private :: "u32 \<Rightarrow> 'a fat_state_scheme \<Rightarrow> 'a fat_state_scheme option" where
  "fat16_init_private fprivate s =
     (if fprivate = 0 then None
      else do {
        (crs, s1) \<leftarrow> diskstream_new (disk_id (the_disk s)) s;
        (frs, s2) \<leftarrow> diskstream_new (disk_id (the_disk s1)) s1;
        (drs, s3) \<leftarrow> diskstream_new (disk_id (the_disk s2)) s2;
        Some (s3\<lparr>fat_privates := (fat_privates s3)(fprivate \<mapsto>
          \<lparr>header = replicate sizeof_fat_header 0, root_directory = empty_directory,
           first_fat_sector = 0, fat_table_address = 0, bytes_per_cluster = 0,
           cluster_read_stream = crs, fat_read_stream = frs, directory_stream = drs\<rparr>)\<rparr>)
      })"

definition fat16_free_directory :: "u32 \<Rightarrow> 'a fat_state_scheme \<Rightarrow> 'a fat_state_scheme option" where
  "fat16_free_directory directory s =
     (if directory = 0 then Some s
      else do {
        d \<leftarrow> fat_directories s directory;
        s1 \<leftarrow> (if dir_item d \<noteq> 0 then kfree (dir_item d) s else Some s);
        s2 \<leftarrow> kfree directory s1;
        Some (s2\<lparr>fat_directories := (fat_directories s2)(directory := None)\<rparr>)
      })"

definition fat16_fat_item_free :: "u32 \<Rightarrow> 'a fat_state_scheme \<Rightarrow> 'a fat_state_scheme option" where
  "fat16_fat_item_free item s =
     (if item = 0 then Some s
      else do {
        it \<leftarrow> fat_items s item;
        s1 \<leftarrow> (case item_type it of
            fat_type_directory \<Rightarrow> fat16_free_directory (item_ptr it) s
          | fat_type_file \<Rightarrow> kfree (item_ptr it) s);
        s2 \<leftarrow> kfree item s1;
        Some (s2\<lparr>fat_items := (fat_items s2)(item := None)\<rparr>)
      })"

section \<open>Clusters\<close>

definition fat16_cluster_to_sector :: "fat_private \<Rightarrow> int \<Rightarrow> int" where
  "fat16_cluster_to_sector private cluster =
     (let cluster_idx = s32 (cluster - 2)
      in s32 (ending_sector_pos (root_directory private)
           + s32 (cluster_idx * hdr_sectors_per_cluster (header private))))"

definition fat16_get_fat_entry_for_cluster ::
    "int \<Rightarrow> 'a fat_state_scheme \<Rightarrow> (int \<times> 'a fat_state_scheme) option" where
  "fat16_get_fat_entry_for_cluster cluster s = do {
     private \<leftarrow> disk_private s;
     let stream = fat_read_stream private;
     (if stream = 0 then Some (- EIO, s)
      else do {
        (res, s1) \<leftarrow> diskstream_seek stream
          (sint (fat_table_address private + word_of_int (cluster * NUTSOS_FAT16_FAT_ENTRY_SIZE))) s;
        (if ISERR res then Some (res, s1)
         else do {
           (res', bs, s2) \<leftarrow> diskstream_read stream 2 s1;
           (if ISERR res' then Some (res', s2)
            else Some (uint (le16 (bs ! 0) (bs ! 1)), s2))
         })
      })
   }"

text \<open>The walk of \<open>n\<close> links from \<open>target_cluster\<close>.\<close>

fun cluster_walk :: "nat \<Rightarrow> int \<Rightarrow> 'a fat_state_scheme \<Rightarrow> (int \<times> 'a fat_state_scheme) option" where
  "cluster_walk 0 target_cluster s = Some (target_cluster, s)"
| "cluster_walk (Suc n) target_cluster s = do {
     (entry, s1) \<leftarrow> fat16_get_fat_entry_for_cluster target_cluster s;
     (if NUTSOS_FAT16_IS_LAST_SECTOR entry \<or> entry = NUTSOS_FAT16_BAD_SECTOR
         \<or> NUTSOS_FAT16_IS_RESERVED_SECTOR entry \<or> entry = NUTSOS_FAT16_FREE_CLUSTER
      then Some (- EIO, s1)
      else cluster_walk n entry s1)
   }"

text \<open>A division by zero has no result.\<close>

definition fat16_get_cluster_for_offset ::
    "int \<Rightarrow> int \<Rightarrow> 'a fat_state_scheme \<Rightarrow> (int \<times> 'a fat_state_scheme) option" where
  "fat16_get_cluster_for_offset from_cluster offset s = do {
     private \<leftarrow> disk_private s;
     (if bytes_per_cluster private = 0 then None
      else cluster_walk (nat (offset sdiv bytes_per_cluster private)) from_cluster s)
   }"

text \<open>The bytes read go to memory at \<open>out\<close>.\<close>

partial_function (option) fat16_read_internal ::
    "int \<Rightarrow> int \<Rightarrow> int \<Rightarrow> u32 \<Rightarrow> 'a fat_state_scheme \<Rightarrow> (int \<times> 'a fat_state_scheme) option" where
  "fat16_read_internal starting_cluster offset n out s = do {
     private \<leftarrow> disk_private s;
     (target_cluster, s1) \<leftarrow> fat16_get_cluster_for_offset starting_cluster offset s;
     (if ISERR target_cluster then Some (target_cluster, s1)
      else
        let stream = cluster_read_stream private;
            offset_from_cluster = offset smod bytes_per_cluster private;
            starting_sector = fat16_cluster_to_sector private target_cluster;
            starting_pos = s32 (s32 (starting_sector * sector_size (the_disk s1)) + offset_from_cluster);
            left_in_cluster = bytes_per_cluster private - offset_from_cluster;
            total_to_read = (if n > left_in_cluster then left_in_cluster else n)
        in do {
          (res, s2) \<leftarrow> diskstream_seek stream starting_pos s1;
          (if ISERR res then Some (res, s2)
           else do {
             (res', bs, s3) \<leftarrow> diskstream_read stream total_to_read s2;
             let s4 = s3\<lparr>kmem := write_bytes (kmem s3) out bs\<rparr>;
             (if ISERR res' then Some (res', s4)
              else if n > total_to_read
              then fat16_read_internal target_cluster (s32 (offset + total_to_read)) (n - total_to_read)
                     (out + word_of_int total_to_read) s4
              else Some (res', s4))
           })
        })
   }"

section \<open>Directories\<close>

text \<open>The counting loop: \<open>continue\<close> goes on with the loop's condition.\<close>

partial_function (option) total_items_loop ::
    "u32 \<Rightarrow> int \<Rightarrow> 'a fat_state_scheme \<Rightarrow> (int \<times> 'a fat_state_scheme) option" where
  "total_items_loop stream res s = do {
     (r, item, s1) \<leftarrow> diskstream_read stream (sint sizeof_fat_directory_item) s;
     (if r \<noteq> EOK then Some (- EIO, s1)
      else
        let res' = (if item ! 0 = NUTSOS_FAT16_UNUSED_ENTRY then res else s32 (res + 1))
        in if item ! 0 \<noteq> NUTSOS_FAT16_NOMORE_ENTRY then total_items_loop stream res' s1
           else Some (s32 (res' - 1), s1))
   }"

definition fat16_get_total_items_for_directory ::
    "u32 \<Rightarrow> 'a fat_state_scheme \<Rightarrow> (int \<times> 'a fat_state_scheme) option" where
  "fat16_get_total_items_for_directory directory_start_sector s = do {
     fat_private \<leftarrow> disk_private s;
     let directory_start_pos = sint (directory_start_sector * word_of_int (sector_size (the_disk s)));
     let stream = directory_stream fat_private;
     (r, s1) \<leftarrow> diskstream_seek stream directory_start_pos s;
     (if r \<noteq> EOK then Some (- EIO, s1) else total_items_loop stream 0 s1)
   }"

definition fat16_sector_to_abs_address :: "int \<Rightarrow> 'a disk_state_scheme \<Rightarrow> int" where
  "fat16_sector_to_abs_address sector s = s32 (sector * sector_size (the_disk s))"

text \<open>The exit at \<open>cleanup\<close> with an error.\<close>

definition load_cleanup :: "int \<Rightarrow> u32 \<Rightarrow> 'a fat_state_scheme \<Rightarrow> (u32 \<times> 'a fat_state_scheme) option" where
  "load_cleanup res directory s = do {
     s1 \<leftarrow> (if directory \<noteq> 0 then fat16_free_directory directory s else Some s);
     Some (ERRTOPTR res, s1)
   }"

definition fat16_load_fat_directory :: "u32 \<Rightarrow> 'a fat_state_scheme \<Rightarrow> (u32 \<times> 'a fat_state_scheme) option" where
  "fat16_load_fat_directory item s = do {
     fat_private \<leftarrow> disk_private s;
     (if ditem_attribute (kmem s) item AND FAT_FILE_SUBDIRECTORY = 0
      then Some (ERRTOPTR (- EINVARG), s)
      else do {
        (directory, s1) \<leftarrow> kzalloc sizeof_fat_directory s;
        (if directory = 0 then load_cleanup (- ENOMEM) directory s1
         else do {
           let s2 = s1\<lparr>fat_directories := (fat_directories s1)(directory \<mapsto> empty_directory)\<rparr>;
           let cluster = uint (ditem_low_cluster (kmem s2) item);
           let cluster_sector = fat16_cluster_to_sector fat_private cluster;
           (res, s3) \<leftarrow> fat16_get_total_items_for_directory (word_of_int cluster_sector) s2;
           (if ISERR res then load_cleanup res directory s3
            else do {
              let s4 = s3\<lparr>fat_directories := (fat_directories s3)(directory \<mapsto> empty_directory\<lparr>dir_total := res\<rparr>)\<rparr>;
              let directory_size = word_of_int res * sizeof_fat_directory_item;
              (buf, s5) \<leftarrow> kzalloc directory_size s4;
              let s6 = s5\<lparr>fat_directories := (fat_directories s5)(directory \<mapsto>
                empty_directory\<lparr>dir_total := res, dir_item := buf\<rparr>)\<rparr>;
              (if buf = 0 then load_cleanup (- ENOMEM) directory s6
               else do {
                 (res', s7) \<leftarrow> fat16_read_internal cluster 0 (sint directory_size) buf s6;
                 (if ISERR res' then load_cleanup res' directory s7 else Some (directory, s7))
               })
            })
         })
      })
   }"

definition fat16_copy_directory_item :: "u32 \<Rightarrow> 'a fat_state_scheme \<Rightarrow> (u32 \<times> 'a fat_state_scheme) option" where
  "fat16_copy_directory_item item s = do {
     (copy, s1) \<leftarrow> kzalloc sizeof_fat_directory_item s;
     (if copy = 0 then Some (0, s1)
      else Some (copy, s1\<lparr>kmem := memcpy (kmem s1) copy item sizeof_fat_directory_item\<rparr>))
   }"

definition fat16_new_fat_item_for_directory_item ::
    "u32 \<Rightarrow> 'a fat_state_scheme \<Rightarrow> (u32 \<times> 'a fat_state_scheme) option" where
  "fat16_new_fat_item_for_directory_item item s = do {
     (fat_item, s1) \<leftarrow> kzalloc sizeof_fat_item s;
     (if fat_item = 0 then Some (0, s1)
      else if ditem_attribute (kmem s1) item AND FAT_FILE_SUBDIRECTORY \<noteq> 0 then do {
        (d, s2) \<leftarrow> fat16_load_fat_directory item s1;
        Some (fat_item, s2\<lparr>fat_items := (fat_items s2)(fat_item \<mapsto>
          \<lparr>item_ptr = d, item_type = fat_type_directory\<rparr>)\<rparr>)
      } else do {
        (c, s2) \<leftarrow> fat16_copy_directory_item item s1;
        Some (fat_item, s2\<lparr>fat_items := (fat_items s2)(fat_item \<mapsto>
          \<lparr>item_ptr = c, item_type = fat_type_file\<rparr>)\<rparr>)
      })
   }"

section \<open>Names\<close>

text \<open>
  The copying loops of \<open>fat16_get_full_filename\<close>: \<open>n\<close> characters left in the field at \<open>p\<close>.
  The result is the characters stored and what is left of \<open>max_len\<close>.
\<close>

fun field_loop :: "mem \<Rightarrow> u32 \<Rightarrow> nat \<Rightarrow> int \<Rightarrow> u8 list \<times> int" where
  "field_loop m p 0 max_len = ([], max_len)"
| "field_loop m p (Suc n) max_len =
     (if max_len = 0 \<or> m p = 0 \<or> isspace (m p) then ([], max_len)
      else let (cs, r) = field_loop m (p + 1) n (max_len - 1) in (m p # cs, r))"

text \<open>The bytes stored from \<open>out\<close> on.\<close>

definition fat16_get_full_filename :: "mem \<Rightarrow> u32 \<Rightarrow> int \<Rightarrow> u8 list" where
  "fat16_get_full_filename m item max_len =
     (let (name, left) = field_loop m item 8 (max_len - 1)
      in if ditem_attribute m item AND FAT_FILE_SUBDIRECTORY \<noteq> 0 then name @ [0]
         else if left - 1 = 0 then name
         else let (ext, left') = field_loop m (item + 8) 3 (left - 1)
              in name @ [46] @ ext @ [0])"

text \<open>
  The local buffer \<open>tmp_filename\<close> as a memory of its own. The bytes that were not stored are
  given as 0; the stored name is terminated, so they are never read.
\<close>

definition buf_mem :: "u8 list \<Rightarrow> mem" where
  "buf_mem bs a = (if unat a < length bs then bs ! unat a else 0)"

fun find_item_loop :: "u32 \<Rightarrow> u32 \<Rightarrow> nat \<Rightarrow> 'a fat_state_scheme \<Rightarrow> (u32 \<times> 'a fat_state_scheme) option" where
  "find_item_loop item name 0 s = Some (0, s)"
| "find_item_loop item name (Suc n) s =
     (let tmp = buf_mem (fat16_get_full_filename (kmem s) item (uint NUTSOS_MAX_PATH))
      in if istrncmp tmp (kmem s) 0 name NUTSOS_MAX_PATH = 0
         then fat16_new_fat_item_for_directory_item item s
         else find_item_loop (item + sizeof_fat_directory_item) name n s)"

definition fat16_find_item_in_directory ::
    "fat_directory \<Rightarrow> u32 \<Rightarrow> 'a fat_state_scheme \<Rightarrow> (u32 \<times> 'a fat_state_scheme) option" where
  "fat16_find_item_in_directory directory name s =
     find_item_loop (dir_item directory) name (nat (dir_total directory)) s"

partial_function (option) directory_entry_loop ::
    "u32 \<Rightarrow> u32 \<Rightarrow> 'a fat_state_scheme \<Rightarrow> (u32 \<times> 'a fat_state_scheme) option" where
  "directory_entry_loop current_item next_prt s =
     (if next_prt = 0 then Some (current_item, s)
      else do {
        it \<leftarrow> fat_items s current_item;
        (if item_type it \<noteq> fat_type_directory then do {
           s1 \<leftarrow> fat16_fat_item_free current_item s;
           Some (0, s1)
         } else do {
           d \<leftarrow> fat_directories s (item_ptr it);
           p \<leftarrow> path_parts s next_prt;
           (next_item, s1) \<leftarrow> fat16_find_item_in_directory d (part p) s;
           s2 \<leftarrow> fat16_fat_item_free current_item s1;
           (if next_item = 0 then Some (0, s2)
            else do {
              p' \<leftarrow> path_parts s2 next_prt;
              directory_entry_loop next_item (next_part p') s2
            })
         })
      })"

definition fat16_get_directory_entry :: "u32 \<Rightarrow> 'a fat_state_scheme \<Rightarrow> (u32 \<times> 'a fat_state_scheme) option" where
  "fat16_get_directory_entry path s = do {
     fat_private \<leftarrow> disk_private s;
     p \<leftarrow> path_parts s path;
     (root_item, s1) \<leftarrow> fat16_find_item_in_directory (root_directory fat_private) (part p) s;
     (if root_item = 0 then Some (0, s1)
      else do {
        p' \<leftarrow> path_parts s1 path;
        directory_entry_loop root_item (next_part p') s1
      })
   }"

end
