(* ===== verification/Fat16_Ops.thy ===== *)
theory Fat16_Ops
  imports Fat16
begin

text \<open>
  The operations the FAT16 driver (\<^verbatim>\<open>src/fs/fat/fat16.c\<close>) offers to the file layer: resolving
  a disk, opening, reading, seeking, \<open>stat\<close> and closing.
\<close>

section \<open>Modes (\<^verbatim>\<open>src/fs/file.h\<close>)\<close>

datatype file_seek_mode = SEEK_SET | SEEK_CUR | SEEK_END
datatype file_mode = FILE_MODE_READ | FILE_MODE_WRITE | FILE_MODE_APPEND | FILE_MODE_INVALID

definition FILE_STAT_RO :: u32 where [const_defs]: "FILE_STAT_RO = 0"

record file_stat =
  stat_flags :: u32
  stat_filesize :: u32

section \<open>Resolving a disk\<close>

text \<open>
  The root directory is read into a new block; the updated private data is stored by the
  caller's pointer \<open>fprivate\<close>.
\<close>

definition fat16_get_root_directory :: "u32 \<Rightarrow> 'a fat_state_scheme \<Rightarrow> (int \<times> 'a fat_state_scheme) option" where
  "fat16_get_root_directory fprivate s = do {
     private \<leftarrow> fat_privates s fprivate;
     let h = header private;
     let root_dir_sector_pos = hdr_fat_copies h * hdr_sectors_per_fat h + hdr_reserved_sectors h;
     let root_dir_size = hdr_root_dir_entries h * uint sizeof_fat_directory_item;
     let sec = sector_size (the_disk s);
     (if sec = 0 then None
      else do {
        let total_root_sectors = (root_dir_size sdiv sec) + (if root_dir_size smod sec \<noteq> 0 then 1 else 0);
        (total_items, s1) \<leftarrow> fat16_get_total_items_for_directory (word_of_int root_dir_sector_pos) s;
        (dir, s2) \<leftarrow> kzalloc (word_of_int root_dir_size) s1;
        (if dir = 0 then Some (- ENOMEM, s2)
         else do {
           let stream = directory_stream private;
           (r, s3) \<leftarrow> diskstream_seek stream (fat16_sector_to_abs_address root_dir_sector_pos s2) s2;
           (if r \<noteq> EOK then Some (- EIO, s3)
            else do {
              (r', bs, s4) \<leftarrow> diskstream_read stream root_dir_size s3;
              let s5 = s4\<lparr>kmem := write_bytes (kmem s4) dir bs\<rparr>;
              (if r' \<noteq> EOK then Some (- EIO, s5)
               else do {
                 p \<leftarrow> fat_privates s5 fprivate;
                 Some (0, s5\<lparr>fat_privates := (fat_privates s5)(fprivate \<mapsto> p\<lparr>root_directory :=
                   \<lparr>dir_item = dir, dir_total = total_items, sector_pos = root_dir_sector_pos,
                    ending_sector_pos = root_dir_sector_pos + total_root_sectors\<rparr>\<rparr>)\<rparr>)
               })
            })
         })
      })
   }"

text \<open>The exit at \<open>out\<close>.\<close>

definition resolve_out :: "int \<Rightarrow> u32 \<Rightarrow> u32 \<Rightarrow> 'a fat_state_scheme \<Rightarrow> (int \<times> 'a fat_state_scheme) option" where
  "resolve_out res stream fprivate s = do {
     s1 \<leftarrow> (if stream \<noteq> 0 then diskstream_close stream s else Some s);
     (if ISERR res then do {
        s2 \<leftarrow> kfree fprivate s1;
        Some (res, s2\<lparr>fat_privates := (fat_privates s2)(fprivate := None),
                      the_disk := (the_disk s2)\<lparr>fs_private := 0\<rparr>\<rparr>)
      } else Some (res, s1))
   }"

text \<open>The fields computed from the header.\<close>

definition with_geometry :: "int \<Rightarrow> fat_private \<Rightarrow> fat_private" where
  "with_geometry sec p = (let ffs = word_of_int (hdr_reserved_sectors (header p)) in
     p\<lparr>first_fat_sector := ffs,
       fat_table_address := ffs * word_of_int sec,
       bytes_per_cluster := s32 (hdr_sectors_per_cluster (header p) * sec)\<rparr>)"

definition fat16_resolve :: "'a fat_state_scheme \<Rightarrow> (int \<times> 'a fat_state_scheme) option" where
  "fat16_resolve s = do {
     (fprivate, s1) \<leftarrow> kzalloc sizeof_fat_private s;
     s2 \<leftarrow> fat16_init_private fprivate s1;
     let s3 = s2\<lparr>the_disk := (the_disk s2)\<lparr>fs_private := fprivate, filesystem := Some Fat16_Fs\<rparr>\<rparr>;
     (stream, s4) \<leftarrow> diskstream_new (disk_id (the_disk s3)) s3;
     (if stream = 0 then resolve_out (- ENOMEM) stream fprivate s4
      else do {
        (r, bs, s5) \<leftarrow> diskstream_read stream (int sizeof_fat_header) s4;
        p \<leftarrow> fat_privates s5 fprivate;
        let p1 = p\<lparr>header := bs @ drop (length bs) (header p)\<rparr>;
        let s6 = s5\<lparr>fat_privates := (fat_privates s5)(fprivate \<mapsto> p1)\<rparr>;
        (if r \<noteq> EOK then resolve_out (- EIO) stream fprivate s6
         else if hdr_signature (header p1) \<noteq> NUTOS_FAT16_SIGNATURE then resolve_out (- EINVALID) stream fprivate s6
         else do {
           let s7 = s6\<lparr>fat_privates := (fat_privates s6)(fprivate \<mapsto> with_geometry (sector_size (the_disk s6)) p1)\<rparr>;
           (r', s8) \<leftarrow> fat16_get_root_directory fprivate s7;
           resolve_out (if r' \<noteq> EOK then - EIO else 0) stream fprivate s8
         })
      })
   }"

section \<open>File operations\<close>

definition fat16_open :: "u32 \<Rightarrow> file_mode \<Rightarrow> 'a fat_state_scheme \<Rightarrow> (u32 \<times> 'a fat_state_scheme) option" where
  "fat16_open path mode s =
     (if mode \<noteq> FILE_MODE_READ then Some (ERRTOPTR (- EREADONLY), s)
      else do {
        (descriptor, s1) \<leftarrow> kzalloc sizeof_fat_file_descriptor s;
        (if descriptor = 0 then Some (ERRTOPTR (- ENOMEM), s1)
         else do {
           (item, s2) \<leftarrow> fat16_get_directory_entry path s1;
           (if item = 0 then do {
              s3 \<leftarrow> kfree descriptor s2;
              Some (ERRTOPTR (- EIO), s3)
            } else Some (descriptor, s2\<lparr>fat_descs := (fat_descs s2)(descriptor \<mapsto>
                \<lparr>desc_item = item, desc_pos = 0\<rparr>)\<rparr>))
         })
      })"

text \<open>
  The loop of \<open>fat16_read\<close>, \<open>nmemb\<close> members left. \<open>size > filesize - offset\<close> is unsigned.
\<close>

fun fat16_read_loop ::
    "u32 \<Rightarrow> u32 \<Rightarrow> int \<Rightarrow> u32 \<Rightarrow> nat \<Rightarrow> int \<Rightarrow> 'a fat_state_scheme \<Rightarrow> (u32 \<times> 'a fat_state_scheme) option" where
  "fat16_read_loop item sz offset out_ptr 0 cnt s = Some (word_of_int cnt, s)"
| "fat16_read_loop item sz offset out_ptr (Suc n) cnt s =
     (if sz > ditem_filesize (kmem s) item - word_of_int offset then Some (word_of_int cnt, s)
      else do {
        (res, s1) \<leftarrow> fat16_read_internal (uint (ditem_low_cluster (kmem s) item)) offset (sint sz) out_ptr s;
        (if ISERR res then Some (word_of_int cnt, s1)
         else fat16_read_loop item sz (sint (word_of_int offset + sz :: u32)) (out_ptr + sz) n (s32 (cnt + 1)) s1)
      })"

definition fat16_read :: "u32 \<Rightarrow> u32 \<Rightarrow> u32 \<Rightarrow> u32 \<Rightarrow> 'a fat_state_scheme \<Rightarrow> (u32 \<times> 'a fat_state_scheme) option" where
  "fat16_read descriptor sz nmemb out_ptr s = do {
     d \<leftarrow> fat_descs s descriptor;
     it \<leftarrow> fat_items s (desc_item d);
     fat16_read_loop (item_ptr it) sz (sint (desc_pos d)) out_ptr (unat nmemb) 0 s
   }"

definition fat16_seek :: "u32 \<Rightarrow> u32 \<Rightarrow> file_seek_mode \<Rightarrow> 'a fat_state_scheme \<Rightarrow> (int \<times> 'a fat_state_scheme) option" where
  "fat16_seek private offset seek_mode s = do {
     d \<leftarrow> fat_descs s private;
     it \<leftarrow> fat_items s (desc_item d);
     (if item_type it \<noteq> fat_type_file then Some (- EINVARG, s)
      else
        let filesize = ditem_filesize (kmem s) (item_ptr it)
        in case seek_mode of
             SEEK_SET \<Rightarrow>
               if offset \<ge> filesize then Some (- EIO, s)
               else Some (EOK, s\<lparr>fat_descs := (fat_descs s)(private \<mapsto> d\<lparr>desc_pos := offset\<rparr>)\<rparr>)
           | SEEK_END \<Rightarrow> Some (- 1, s)
           | SEEK_CUR \<Rightarrow>
               if desc_pos d + offset \<ge> filesize then Some (- EIO, s)
               else Some (EOK, s\<lparr>fat_descs := (fat_descs s)(private \<mapsto> d\<lparr>desc_pos := desc_pos d + offset\<rparr>)\<rparr>))
   }"

text \<open>The result code and what was stored in \<open>*stat\<close>, if anything.\<close>

definition fat16_stat :: "u32 \<Rightarrow> 'a fat_state_scheme \<Rightarrow> (int \<times> file_stat option) option" where
  "fat16_stat private s = do {
     d \<leftarrow> fat_descs s private;
     it \<leftarrow> fat_items s (desc_item d);
     (if item_type it \<noteq> fat_type_file then Some (- EINVARG, None)
      else
        let ritem = item_ptr it;
            flags = (if ditem_attribute (kmem s) ritem AND FAT_FILE_READ_ONLY \<noteq> 0 then 0 OR FILE_STAT_RO else 0)
        in Some (0, Some \<lparr>stat_flags = flags, stat_filesize = ditem_filesize (kmem s) ritem\<rparr>))
   }"

definition fat16_free_file_descriptor :: "u32 \<Rightarrow> 'a fat_state_scheme \<Rightarrow> 'a fat_state_scheme option" where
  "fat16_free_file_descriptor desc s = do {
     d \<leftarrow> fat_descs s desc;
     s1 \<leftarrow> fat16_fat_item_free (desc_item d) s;
     s2 \<leftarrow> kfree desc s1;
     Some (s2\<lparr>fat_descs := (fat_descs s2)(desc := None)\<rparr>)
   }"

definition fat16_close :: "u32 \<Rightarrow> 'a fat_state_scheme \<Rightarrow> (int \<times> 'a fat_state_scheme) option" where
  "fat16_close private s = do {
     s1 \<leftarrow> fat16_free_file_descriptor private s;
     Some (0, s1)
   }"

end
