(* ===== verification/Fat16_Read.thy ===== *)
theory Fat16_Read
  imports Fat16_Ops
begin

text \<open>
  What reading through the FAT16 driver delivers: the meaning of a mounted volume, of its
  cluster chains and of a file's bytes, and how \<open>fat16_get_cluster_for_offset\<close> and
  \<open>fat16_read_internal\<close> relate to it.
\<close>

section \<open>A mounted volume\<close>

definition stream_ok :: "'a disk_state_scheme \<Rightarrow> u32 \<Rightarrow> bool" where
  "stream_ok s p \<longleftrightarrow> p \<noteq> 0 \<and> (\<exists>q. streams s p = Some \<lparr>pos = q, stream_disk = GlobalDisk\<rparr>)"

definition spc :: "fat_private \<Rightarrow> int" where
  "spc fp = hdr_sectors_per_cluster (header fp)"

definition fat_ok :: "'a fat_state_scheme \<Rightarrow> fat_private \<Rightarrow> bool" where
  "fat_ok s fp \<longleftrightarrow> disk_private s = Some fp
     \<and> stream_ok s (cluster_read_stream fp) \<and> stream_ok s (fat_read_stream fp) \<and> stream_ok s (directory_stream fp)
     \<and> sector_size (the_disk s) = 512
     \<and> 0 < spc fp \<and> bytes_per_cluster fp = spc fp * 512
     \<and> 0 \<le> ending_sector_pos (root_directory fp)
     \<and> unat (fat_table_address fp) + 131072 < 2147483648"

text \<open>A cluster the driver can address: its last byte is below 2 GB.\<close>

definition cluster_ok :: "fat_private \<Rightarrow> int \<Rightarrow> bool" where
  "cluster_ok fp c \<longleftrightarrow> 2 \<le> c \<and> c < 65536
     \<and> (ending_sector_pos (root_directory fp) + (c - 1) * spc fp) * 512 < 2147483648"

definition cluster_pos :: "fat_private \<Rightarrow> int \<Rightarrow> nat" where
  "cluster_pos fp c = nat ((ending_sector_pos (root_directory fp) + (c - 2) * spc fp) * 512)"

definition bpc :: "fat_private \<Rightarrow> nat" where
  "bpc fp = nat (bytes_per_cluster fp)"

section \<open>The file allocation table\<close>

definition fat_entry :: "(nat \<Rightarrow> u8) \<Rightarrow> fat_private \<Rightarrow> int \<Rightarrow> int" where
  "fat_entry img fp c = (let a = unat (fat_table_address fp) + 2 * nat c in uint (le16 (img a) (img (a + 1))))"

definition next_cluster :: "(nat \<Rightarrow> u8) \<Rightarrow> fat_private \<Rightarrow> int \<Rightarrow> int option" where
  "next_cluster img fp c = (let e = fat_entry img fp c in
     if e \<in> {0xFFFF, 0xFFF8, 0xFFF7, 0xFFF0, 0xFFF5, 0xFFF6, 0} then None else Some e)"

fun nth_cluster :: "(nat \<Rightarrow> u8) \<Rightarrow> fat_private \<Rightarrow> nat \<Rightarrow> int \<Rightarrow> int option" where
  "nth_cluster img fp 0 c = Some c"
| "nth_cluster img fp (Suc n) c = Option.bind (next_cluster img fp c) (nth_cluster img fp n)"

lemma nth_cluster_add:
  "nth_cluster img fp (m + n) c = Option.bind (nth_cluster img fp m c) (nth_cluster img fp n)"
  by (induction m arbitrary: c) (auto split: Option.bind_splits)

section \<open>A file's bytes\<close>

definition cluster_slice :: "(nat \<Rightarrow> u8) \<Rightarrow> fat_private \<Rightarrow> int \<Rightarrow> nat \<Rightarrow> nat \<Rightarrow> u8 list" where
  "cluster_slice img fp c o\<^sub>0 n = image_slice img (cluster_pos fp c + o\<^sub>0) n"

text \<open>The byte at offset \<open>i\<close> of the file that starts at cluster \<open>c\<close>.\<close>

definition file_byte :: "(nat \<Rightarrow> u8) \<Rightarrow> fat_private \<Rightarrow> int \<Rightarrow> nat \<Rightarrow> u8" where
  "file_byte img fp c i = (case nth_cluster img fp (i div bpc fp) c of
     None \<Rightarrow> 0 | Some t \<Rightarrow> img (cluster_pos fp t + i mod bpc fp))"

definition file_bytes :: "(nat \<Rightarrow> u8) \<Rightarrow> fat_private \<Rightarrow> int \<Rightarrow> nat \<Rightarrow> nat \<Rightarrow> u8 list" where
  "file_bytes img fp c i n = map (\<lambda>k. file_byte img fp c (i + k)) [0..<n]"

section \<open>Streams\<close>

lemma seek_ok:
  "stream_ok s p \<Longrightarrow> diskstream_seek p q s
     = Some (0, s\<lparr>streams := (streams s)(p \<mapsto> \<lparr>pos = q, stream_disk = GlobalDisk\<rparr>)\<rparr>)"
  by (auto simp: stream_ok_def diskstream_seek_def)

lemma read_ok:
  assumes "streams s p = Some \<lparr>pos = int q, stream_disk = GlobalDisk\<rparr>" and "q + n < 2147483648"
  shows "diskstream_read p (int n) s = Some (0, image_slice (disk_image s) q n,
    s\<lparr>streams := (streams s)(p \<mapsto> \<lparr>pos = int (q + n), stream_disk = GlobalDisk\<rparr>)\<rparr>)"
  using diskstream_read_slice [OF assms(1) _ _ assms(2)] by simp

text \<open>What such operations do to the state: they move streams.\<close>

definition moved :: "'a fat_state_scheme \<Rightarrow> 'a fat_state_scheme \<Rightarrow> bool" where
  "moved s s' \<longleftrightarrow> (\<exists>st. s' = s\<lparr>streams := st\<rparr>) \<and> (\<forall>p. stream_ok s p \<longrightarrow> stream_ok s' p)"

lemma moved_refl [simp]: "moved s s"
proof -
  have "s = s\<lparr>streams := streams s\<rparr>" by simp
  then show ?thesis unfolding moved_def by blast
qed

lemma moved_trans [trans]: "moved s t \<Longrightarrow> moved t u \<Longrightarrow> moved s u"
  by (auto simp: moved_def)

lemma moved_upd: "moved s (s\<lparr>streams := (streams s)(p \<mapsto> \<lparr>pos = q, stream_disk = GlobalDisk\<rparr>)\<rparr>)"
  unfolding moved_def stream_ok_def by auto

lemma moved_kmem:
  assumes "moved s t"
  shows "moved (s\<lparr>kmem := m\<rparr>) (t\<lparr>kmem := m\<rparr>)"
proof -
  obtain st where t: "t = s\<lparr>streams := st\<rparr>" using assms by (auto simp: moved_def)
  have "t\<lparr>kmem := m\<rparr> = s\<lparr>kmem := m, streams := st\<rparr>" by (simp add: t)
  moreover have "stream_ok (t\<lparr>kmem := m\<rparr>) p" if "stream_ok (s\<lparr>kmem := m\<rparr>) p" for p
    using assms that by (simp add: moved_def stream_ok_def)
  ultimately show ?thesis unfolding moved_def by blast
qed

lemma moved_simps:
  assumes "moved s s'"
  shows "disk_image s' = disk_image s" "kmem s' = kmem s" "the_disk s' = the_disk s"
    "fat_privates s' = fat_privates s" "disk_private s' = disk_private s" "kernel_heap s' = kernel_heap s"
    "fat_items s' = fat_items s" "fat_directories s' = fat_directories s" "fat_descs s' = fat_descs s"
    "path_parts s' = path_parts s"
  using assms by (auto simp: moved_def disk_private_def)

lemma fat_ok_moved: "fat_ok s fp \<Longrightarrow> moved s s' \<Longrightarrow> fat_ok s' fp"
  by (auto simp: fat_ok_def moved_simps) (auto simp: moved_def)

lemma fat_ok_kmem: "fat_ok s fp \<Longrightarrow> fat_ok (s\<lparr>kmem := m\<rparr>) fp"
  by (auto simp: fat_ok_def disk_private_def stream_ok_def)

section \<open>Walking a chain\<close>

lemma image_slice_2: "image_slice img p 2 ! 0 = img p" "image_slice img p 2 ! 1 = img (p + 1)"
  by (simp_all add: image_slice_def)

lemma get_fat_entry_spec:
  assumes "fat_ok s fp" and "0 \<le> c" and "c < 65536"
  shows "\<exists>s'. fat16_get_fat_entry_for_cluster c s = Some (fat_entry (disk_image s) fp c, s') \<and> moved s s'"
proof -
  let ?p = "fat_read_stream fp"
  let ?a = "unat (fat_table_address fp) + 2 * nat c"
  have ok: "stream_ok s ?p" "disk_private s = Some fp" and a: "?a + 2 < 2147483648"
    using assms by (auto simp: fat_ok_def)
  have nz: "?p \<noteq> 0" using ok(1) by (simp add: stream_ok_def)
  have "fat_table_address fp + word_of_int (c * 2) = of_nat ?a" using assms(2) by simp
  then have addr: "sint (fat_table_address fp + word_of_int c * word_of_int NUTSOS_FAT16_FAT_ENTRY_SIZE) = int ?a"
    using a by (simp add: NUTSOS_FAT16_FAT_ENTRY_SIZE_def sint_small unat_of_nat del: of_nat_add)
  let ?s1 = "s\<lparr>streams := (streams s)(?p \<mapsto> \<lparr>pos = int ?a, stream_disk = GlobalDisk\<rparr>)\<rparr>"
  have m1: "moved s ?s1" by (rule moved_upd)
  have rd: "diskstream_read ?p 2 ?s1 = Some (0, image_slice (disk_image s) ?a 2,
      ?s1\<lparr>streams := (streams ?s1)(?p \<mapsto> \<lparr>pos = int (?a + 2), stream_disk = GlobalDisk\<rparr>)\<rparr>)" (is "_ = Some (0, _, ?s2)")
    using read_ok [of ?s1 ?p ?a 2] a by simp
  have "fat16_get_fat_entry_for_cluster c s = Some (fat_entry (disk_image s) fp c, ?s2)"
    using ok nz rd
    by (simp add: fat16_get_fat_entry_for_cluster_def addr seek_ok ISERR_def fat_entry_def image_slice_2 Let_def
        del: of_nat_add)
  moreover have "moved s ?s2" using m1 moved_upd [of ?s1 ?p] by (rule moved_trans)
  ultimately show ?thesis by blast
qed

lemma fat_entry_range: "0 \<le> fat_entry img fp c \<and> fat_entry img fp c < 65536"
proof -
  have "uint (w :: u16) < 2 ^ LENGTH(16)" for w by (rule uint_lt2p)
  then show ?thesis by (simp add: fat_entry_def Let_def)
qed

lemma next_cluster_range: "next_cluster img fp c = Some d \<Longrightarrow> 0 < d \<and> d < 65536"
  using fat_entry_range [of img fp c] by (auto simp: next_cluster_def Let_def split: if_splits)

lemma nth_cluster_range:
  "nth_cluster img fp n c = Some d \<Longrightarrow> 0 \<le> c \<Longrightarrow> c < 65536 \<Longrightarrow> 0 \<le> d \<and> d < 65536"
proof (induction n arbitrary: c)
  case (Suc n)
  then obtain e where "next_cluster img fp c = Some e" "nth_cluster img fp n e = Some d"
    by (auto simp: bind_eq_Some_conv)
  with Suc.IH [of e] next_cluster_range [of img fp c e] show ?case by simp
qed simp

lemma cluster_walk_spec:
  assumes "fat_ok s fp" and "0 \<le> c" and "c < 65536"
  shows "\<exists>s'. cluster_walk n c s = Some (case nth_cluster (disk_image s) fp n c of None \<Rightarrow> - EIO | Some t \<Rightarrow> t, s')
    \<and> moved s s'"
  using assms
proof (induction n arbitrary: c s)
  case 0
  then show ?case by (intro exI [of _ s]) simp
next
  case (Suc n)
  obtain s1 where e: "fat16_get_fat_entry_for_cluster c s = Some (fat_entry (disk_image s) fp c, s1)" "moved s s1"
    using get_fat_entry_spec [OF Suc.prems] by blast
  let ?e = "fat_entry (disk_image s) fp c"
  have stop: "NUTSOS_FAT16_IS_LAST_SECTOR ?e \<or> ?e = NUTSOS_FAT16_BAD_SECTOR \<or> NUTSOS_FAT16_IS_RESERVED_SECTOR ?e
      \<or> ?e = NUTSOS_FAT16_FREE_CLUSTER \<longleftrightarrow> next_cluster (disk_image s) fp c = None"
    by (auto simp: next_cluster_def Let_def NUTSOS_FAT16_IS_LAST_SECTOR_def NUTSOS_FAT16_IS_RESERVED_SECTOR_def const_defs)
  show ?case
  proof (cases "next_cluster (disk_image s) fp c")
    case None
    with stop e show ?thesis by (intro exI [of _ s1]) simp
  next
    case (Some d)
    then have d: "d = ?e" by (auto simp: next_cluster_def Let_def split: if_splits)
    have img: "disk_image s1 = disk_image s" using e(2) by (simp add: moved_simps)
    from Suc.IH [OF fat_ok_moved [OF Suc.prems(1) e(2)], of d] next_cluster_range [OF Some]
    obtain s2 where "cluster_walk n d s1 = Some (case nth_cluster (disk_image s) fp n d of None \<Rightarrow> - EIO | Some t \<Rightarrow> t, s2)"
      "moved s1 s2" unfolding img by auto
    with e stop Some d moved_trans [OF e(2)] show ?thesis by (intro exI [of _ s2]) simp
  qed
qed

lemma get_cluster_spec:
  assumes "fat_ok s fp" and "0 \<le> c" and "c < 65536"
  shows "\<exists>s'. fat16_get_cluster_for_offset c (int i) s
      = Some (case nth_cluster (disk_image s) fp (i div bpc fp) c of None \<Rightarrow> - EIO | Some t \<Rightarrow> t, s') \<and> moved s s'"
proof -
  have b: "0 < bytes_per_cluster fp" "disk_private s = Some fp" using assms(1) by (auto simp: fat_ok_def)
  then have "nat (int i sdiv bytes_per_cluster fp) = i div bpc fp"
    by (cases "i = 0") (simp_all add: signed_divide_int_def bpc_def nat_div_distrib)
  with b cluster_walk_spec [OF assms, of "i div bpc fp"] show ?thesis
    by (simp add: fat16_get_cluster_for_offset_def)
qed

section \<open>Reading across clusters\<close>

text \<open>Every cluster the chain from \<open>c\<close> reaches can be addressed.\<close>

definition chain_ok :: "(nat \<Rightarrow> u8) \<Rightarrow> fat_private \<Rightarrow> int \<Rightarrow> bool" where
  "chain_ok img fp c \<longleftrightarrow> (\<forall>n t. nth_cluster img fp n c = Some t \<longrightarrow> cluster_ok fp t)"

lemma chain_ok_start: "chain_ok img fp c \<Longrightarrow> cluster_ok fp c"
  by (auto simp: chain_ok_def dest: spec [of _ 0])

lemma chain_ok_nth: "chain_ok img fp c \<Longrightarrow> nth_cluster img fp m c = Some t \<Longrightarrow> chain_ok img fp t"
  by (auto simp: chain_ok_def) (metis nth_cluster_add bind.bind_lunit)

text \<open>
  What the driver's recursion delivers: result code and bytes. Each call walks from the
  cluster it is given by the whole offset.
\<close>

function chain_read :: "(nat \<Rightarrow> u8) \<Rightarrow> fat_private \<Rightarrow> int \<Rightarrow> nat \<Rightarrow> nat \<Rightarrow> int \<times> u8 list" where
  "chain_read img fp c i n =
     (if bpc fp = 0 then (0, [])
      else case nth_cluster img fp (i div bpc fp) c of
        None \<Rightarrow> (- EIO, [])
      | Some t \<Rightarrow>
          let left = bpc fp - i mod bpc fp
          in if left < n
             then (let (r, bs) = chain_read img fp t (i + left) (n - left)
                   in (r, cluster_slice img fp t (i mod bpc fp) left @ bs))
             else (0, cluster_slice img fp t (i mod bpc fp) n))"
  by pat_completeness auto
termination
proof (relation "measure (\<lambda>(img, fp, c, i, n). n)")
  fix img :: "nat \<Rightarrow> u8" and fp :: fat_private and c t left :: int and i n l :: nat
  assume "bpc fp \<noteq> 0" "l = bpc fp - i mod bpc fp" "l < n"
  moreover from this have "i mod bpc fp < bpc fp" by simp
  ultimately show "((img, fp, t, i + l, n - l), img, fp, c, i, n) \<in> measure (\<lambda>(img, fp, c, i, n). n)" by simp
qed simp

declare chain_read.simps [simp del]

lemma write_bytes_append: "write_bytes m p (as @ bs) = write_bytes (write_bytes m p as) (p + of_nat (length as)) bs"
  by (induction as arbitrary: m p) (simp_all add: add.assoc)

lemma cluster_to_sector_spec:
  assumes "fat_ok s fp" and "cluster_ok fp t"
  shows "fat16_cluster_to_sector fp t = ending_sector_pos (root_directory fp) + (t - 2) * spc fp"
    and "fat16_cluster_to_sector fp t * 512 = int (cluster_pos fp t)"
    and "cluster_pos fp t + bpc fp < 2147483648"
proof -
  let ?e = "ending_sector_pos (root_directory fp)"
  have e: "0 \<le> ?e" "0 < spc fp" "bytes_per_cluster fp = spc fp * 512" using assms(1) by (auto simp: fat_ok_def)
  have t: "2 \<le> t" "t < 65536" "(?e + (t - 1) * spc fp) * 512 < 2147483648" using assms(2) by (auto simp: cluster_ok_def)
  have m: "0 \<le> (t - 2) * spc fp" using e t by simp
  have d: "(t - 1) * spc fp = (t - 2) * spc fp + spc fp" by (simp add: algebra_simps)
  have lim: "?e + (t - 2) * spc fp + spc fp < 4194304"
  proof -
    have "x + y < (4194304 :: int)" if "(x + y) * 512 < 2147483648" for x y using that by simp
    from this [of ?e "(t - 2) * spc fp + spc fp"] show ?thesis using t(3) unfolding d by simp
  qed
  have "s32 (t - 2) = t - 2" using t by (intro s32_id) auto
  moreover have "s32 ((t - 2) * spc fp) = (t - 2) * spc fp" using m lim e by (intro s32_id) linarith+
  moreover have "s32 (?e + (t - 2) * spc fp) = ?e + (t - 2) * spc fp" using m lim e by (intro s32_id) linarith+
  ultimately show c: "fat16_cluster_to_sector fp t = ?e + (t - 2) * spc fp"
    by (simp add: fat16_cluster_to_sector_def spc_def)
  show "fat16_cluster_to_sector fp t * 512 = int (cluster_pos fp t)"
    using m e by (simp add: c cluster_pos_def)
  have "int (cluster_pos fp t + bpc fp) = (?e + (t - 2) * spc fp) * 512 + spc fp * 512"
    using m e by (simp add: cluster_pos_def bpc_def)
  moreover have "x < 2147483648" if "x = (u + v) * 512 + w * 512" "u + v + w < 4194304" for x u v w :: int
    using that by simp
  ultimately have "int (cluster_pos fp t + bpc fp) < 2147483648" using lim by blast
  then show "cluster_pos fp t + bpc fp < 2147483648" by linarith
qed

lemma smod_bpc:
  "0 < bytes_per_cluster fp \<Longrightarrow> int i smod bytes_per_cluster fp = int (i mod bpc fp)"
  by (cases "i = 0") (simp_all add: signed_modulo_int_def bpc_def zmod_int)

lemma read_internal_step:
  assumes "fat_ok s fp" and "0 \<le> c" and "c < 65536"
    and "nth_cluster (disk_image s) fp (i div bpc fp) c = Some t" and "cluster_ok fp t"
    and "i + n < 2147483648" and "k = (if bpc fp - i mod bpc fp < n then bpc fp - i mod bpc fp else n)"
  shows "\<exists>s'. moved (s\<lparr>kmem := write_bytes (kmem s) out (cluster_slice (disk_image s) fp t (i mod bpc fp) k)\<rparr>) s'
    \<and> fat16_read_internal c (int i) (int n) out s =
      (if bpc fp - i mod bpc fp < n then fat16_read_internal t (int (i + k)) (int (n - k)) (out + of_nat k) s'
       else Some (0, s'))"
proof -
  let ?b = "bpc fp" and ?o = "i mod bpc fp"
  let ?p = "cluster_read_stream fp"
  let ?q = "cluster_pos fp t + ?o"
  have ok: "disk_private s = Some fp" "0 < bytes_per_cluster fp" and b: "0 < ?b" "int ?b = bytes_per_cluster fp"
    using assms(1) by (auto simp: fat_ok_def bpc_def)
  have o: "?o < ?b" using b by simp
  obtain s1 where w: "fat16_get_cluster_for_offset c (int i) s = Some (t, s1)" "moved s s1"
    using get_cluster_spec [OF assms(1-3), of i] assms(4) by auto
  have f1: "fat_ok s1 fp" using assms(1) w(2) by (rule fat_ok_moved)
  then have st1: "stream_ok s1 ?p" and sec: "sector_size (the_disk s1) = 512" by (auto simp: fat_ok_def)
  have pos: "cluster_pos fp t + ?b < 2147483648" using cluster_to_sector_spec(3) [OF assms(1,5)] .
  have "s32 (fat16_cluster_to_sector fp t * 512) = int (cluster_pos fp t)"
    unfolding cluster_to_sector_spec(2) [OF assms(1,5)] using pos by (intro s32_id) simp_all
  moreover have "s32 (int (cluster_pos fp t) + int ?o) = int ?q"
    using pos o by (intro s32_id [THEN trans]) simp_all
  ultimately have start: "s32 (s32 (fat16_cluster_to_sector fp t * sector_size (the_disk s1)) + int ?o) = int ?q"
    by (simp only: sec)
  have left: "bytes_per_cluster fp - int ?o = int (?b - ?o)" using b o by (simp add: of_nat_diff)
  have k: "(if int n > int (?b - ?o) then int (?b - ?o) else int n) = int k" by (simp add: assms(7))
  have kb: "k \<le> ?b - ?o" "k \<le> n" by (simp_all add: assms(7))
  let ?s2 = "s1\<lparr>streams := (streams s1)(?p \<mapsto> \<lparr>pos = int ?q, stream_disk = GlobalDisk\<rparr>)\<rparr>"
  let ?s3 = "s1\<lparr>streams := (streams s1)(?p \<mapsto> \<lparr>pos = int (?q + k), stream_disk = GlobalDisk\<rparr>)\<rparr>"
  have "?q + k < 2147483648" using pos kb o by linarith
  then have rd: "diskstream_read ?p (int k) ?s2 = Some (0, image_slice (disk_image s) ?q k, ?s3)"
    using read_ok [of ?s2 ?p ?q k] w(2) by (simp add: moved_simps)
  let ?s' = "?s3\<lparr>kmem := write_bytes (kmem s) out (image_slice (disk_image s) ?q k)\<rparr>"
  have neg: "\<not> t < 0" using assms(5) by (simp add: cluster_ok_def)
  have off: "s32 (int i + int k) = int (i + k)" using assms(6) kb by (intro s32_id [THEN trans]) simp_all
  have sub: "int n - int k = int (n - k)" using kb by (simp add: of_nat_diff)
  have more: "int n > int k \<longleftrightarrow> ?b - ?o < n" by (auto simp: assms(7))
  have "fat16_read_internal c (int i) (int n) out s =
      (if ?b - ?o < n then fat16_read_internal t (int (i + k)) (int (n - k)) (out + of_nat k) ?s' else Some (0, ?s'))"
    by (subst fat16_read_internal.simps, simp only: ok(1) w(1) ISERR_def neg if_False Let_def smod_bpc [OF ok(2)] start left k seek_ok [OF st1]
        rd off sub more moved_simps(2) [OF w(2)] of_int_of_nat_eq Option.bind.simps prod.case less_irrefl)
      (simp add: moved_simps(2) [OF w(2)])
  moreover have "moved (s\<lparr>kmem := write_bytes (kmem s) out (image_slice (disk_image s) ?q k)\<rparr>) ?s'"
    using moved_kmem [OF moved_trans [OF w(2) moved_upd]] .
  ultimately show ?thesis unfolding cluster_slice_def by blast
qed

lemma read_internal_stuck:
  assumes "fat_ok s fp" and "0 \<le> c" and "c < 65536"
    and "nth_cluster (disk_image s) fp (i div bpc fp) c = None"
  shows "\<exists>s'. moved s s' \<and> fat16_read_internal c (int i) n out s = Some (- EIO, s')"
proof -
  have ok: "disk_private s = Some fp" using assms(1) by (simp add: fat_ok_def)
  obtain s1 where w: "fat16_get_cluster_for_offset c (int i) s = Some (- EIO, s1)" "moved s s1"
    using get_cluster_spec [OF assms(1-3), of i] assms(4) by auto
  have "fat16_read_internal c (int i) n out s = Some (- EIO, s1)"
    by (subst fat16_read_internal.simps) (simp add: ok w(1) ISERR_def EIO_def)
  with w(2) show ?thesis by blast
qed

lemma read_internal_chain:
  assumes "fat_ok s fp" and "chain_ok (disk_image s) fp c" and "i + n < 2147483648"
  shows "\<exists>s'. fat16_read_internal c (int i) (int n) out s = Some (fst (chain_read (disk_image s) fp c i n), s')
    \<and> moved (s\<lparr>kmem := write_bytes (kmem s) out (snd (chain_read (disk_image s) fp c i n))\<rparr>) s'"
  using assms
proof (induction n arbitrary: c i out s rule: less_induct)
  case (less n)
  let ?img = "disk_image s"
  have c: "0 \<le> c" "c < 65536" using chain_ok_start [OF less.prems(2)] by (auto simp: cluster_ok_def)
  have b: "0 < bpc fp" using less.prems(1) by (auto simp: fat_ok_def bpc_def)
  show ?case
  proof (cases "nth_cluster ?img fp (i div bpc fp) c")
    case None
    with b have "chain_read ?img fp c i n = (- EIO, [])" by (subst chain_read.simps) simp
    with read_internal_stuck [OF less.prems(1) c None, of "int n" out] show ?thesis by auto
  next
    case (Some t)
    have t: "cluster_ok fp t" "chain_ok ?img fp t"
      using less.prems(2) Some chain_ok_nth chain_ok_start by blast+
    define left where "left = bpc fp - i mod bpc fp"
    have left: "0 < left" using b by (simp add: left_def)
    show ?thesis
    proof (cases "left < n")
      case True
      let ?bs = "cluster_slice ?img fp t (i mod bpc fp) left"
      obtain s1 where s1: "moved (s\<lparr>kmem := write_bytes (kmem s) out ?bs\<rparr>) s1"
        "fat16_read_internal c (int i) (int n) out s
          = fat16_read_internal t (int (i + left)) (int (n - left)) (out + of_nat left) s1"
        using read_internal_step [OF less.prems(1) c Some t(1) less.prems(3) refl, of out] True
        unfolding left_def by auto
      have f1: "fat_ok s1 fp" using fat_ok_moved [OF fat_ok_kmem [OF less.prems(1)] s1(1)] .
      have img: "disk_image s1 = ?img" "kmem s1 = write_bytes (kmem s) out ?bs"
        using moved_simps(1,2) [OF s1(1)] by simp_all
      have "n - left < n" "i + left + (n - left) < 2147483648" using left True less.prems(3) by simp_all
      from less.IH [OF this(1) f1 _ this(2), of t "out + of_nat left"] t(2)
      obtain s2 where s2: "fat16_read_internal t (int (i + left)) (int (n - left)) (out + of_nat left) s1
          = Some (fst (chain_read ?img fp t (i + left) (n - left)), s2)"
        "moved (s1\<lparr>kmem := write_bytes (kmem s1) (out + of_nat left) (snd (chain_read ?img fp t (i + left) (n - left)))\<rparr>) s2"
        unfolding img(1) by blast
      obtain r bs' where r: "chain_read ?img fp t (i + left) (n - left) = (r, bs')" by (cases "chain_read ?img fp t (i + left) (n - left)")
      have eq: "chain_read ?img fp c i n = (r, ?bs @ bs')"
        using b Some True r by (subst chain_read.simps) (simp add: left_def Let_def)
      have len: "length ?bs = left" by (simp add: cluster_slice_def)
      have "write_bytes (kmem s1) (out + of_nat left) bs' = write_bytes (kmem s) out (?bs @ bs')"
        by (simp only: img(2) write_bytes_append len)
      with moved_kmem [OF s1(1), of "write_bytes (kmem s) out (?bs @ bs')"] s2(2) r
      have "moved (s\<lparr>kmem := write_bytes (kmem s) out (?bs @ bs')\<rparr>) s2" using moved_trans by simp
      with s1(2) s2(1) r eq show ?thesis by (intro exI [of _ s2]) simp
    next
      case False
      have "chain_read ?img fp c i n = (0, cluster_slice ?img fp t (i mod bpc fp) n)"
        using b Some False by (subst chain_read.simps) (simp add: left_def Let_def)
      then show ?thesis
        using read_internal_step [OF less.prems(1) c Some t(1) less.prems(3) refl, of out] False
        unfolding left_def by auto
    qed
  qed
qed

section \<open>Where the bytes are the file's\<close>

text \<open>Inside one cluster a slice of it is the file's bytes.\<close>

lemma cluster_slice_file:
  assumes "0 < bpc fp" and "nth_cluster img fp (i div bpc fp) c = Some t" and "i mod bpc fp + n \<le> bpc fp"
  shows "cluster_slice img fp t (i mod bpc fp) n = file_bytes img fp c i n"
proof (rule nth_equalityI)
  show "length (cluster_slice img fp t (i mod bpc fp) n) = length (file_bytes img fp c i n)"
    by (simp add: cluster_slice_def file_bytes_def)
  fix k
  assume "k < length (cluster_slice img fp t (i mod bpc fp) n)"
  then have k: "k < n" by (simp add: cluster_slice_def)
  define q r where "q = i div bpc fp" and "r = i mod bpc fp"
  have i: "i = q * bpc fp + r" by (simp add: q_def r_def)
  have kr: "r + k < bpc fp" using k assms(3) by (simp add: r_def)
  have ik: "i + k = (r + k) + q * bpc fp" by (simp add: i)
  have "(i + k) div bpc fp = q" "(i + k) mod bpc fp = r + k"
    unfolding ik using kr assms(1) by simp_all
  with assms(2) k show "cluster_slice img fp t (i mod bpc fp) n ! k = file_bytes img fp c i n ! k"
    by (simp add: cluster_slice_def file_bytes_def file_byte_def add.assoc flip: q_def r_def)
qed

text \<open>A read that stays inside a cluster.\<close>

lemma chain_read_inside:
  assumes "0 < bpc fp" and "i mod bpc fp + n \<le> bpc fp"
  shows "chain_read img fp c i n = (case nth_cluster img fp (i div bpc fp) c of
    None \<Rightarrow> (- EIO, []) | Some t \<Rightarrow> (0, file_bytes img fp c i n))"
  using assms cluster_slice_file [OF assms(1) _ assms(2), of img c]
  by (subst chain_read.simps) (auto simp: Let_def split: option.splits)

lemma file_bytes_append: "file_bytes img fp c i m @ file_bytes img fp c (i + m) n = file_bytes img fp c i (m + n)"
  by (rule nth_equalityI) (auto simp: file_bytes_def nth_append add.assoc)

text \<open>A read that starts in the first cluster and ends in the second.\<close>

lemma chain_read_second:
  assumes "0 < bpc fp" and "i < bpc fp" and "bpc fp < i + n" and "i + n \<le> 2 * bpc fp"
    and "next_cluster img fp c = Some d"
  shows "chain_read img fp c i n = (0, file_bytes img fp c i n)"
proof -
  let ?b = "bpc fp"
  define l r where "l = ?b - i" and "r = i + n - ?b"
  have lr: "i + l = ?b" "n = l + r" "n - l = r" "0 < r" "r \<le> ?b" using assms(2-4) by (simp_all add: l_def r_def)
  have first: "cluster_slice img fp c i l = file_bytes img fp c i l"
    using cluster_slice_file [of fp img i c c l] assms(1,2) lr(1) by simp
  have snd: "cluster_slice img fp d 0 r = file_bytes img fp c ?b r"
    using cluster_slice_file [of fp img ?b c d r] assms(1,5) lr(5) by simp
  have rest: "chain_read img fp c ?b r = (0, cluster_slice img fp d 0 r)"
    using assms(1,5) lr(5) by (subst chain_read.simps) (simp add: Let_def)
  have "chain_read img fp c i n = (let (x, bs) = chain_read img fp c (i + l) (n - l) in (x, cluster_slice img fp c i l @ bs))"
  proof -
    have "bpc fp - i mod bpc fp < n" "bpc fp - i mod bpc fp = l" using assms(2) lr(2,4) by (simp_all add: l_def)
    then show ?thesis using assms(1,2) by (subst chain_read.simps) (simp add: Let_def)
  qed
  then have "chain_read img fp c i n = (0, file_bytes img fp c i l @ file_bytes img fp c (i + l) r)"
    by (simp only: lr(1,3) rest snd first Let_def prod.case)
  then show ?thesis by (simp only: file_bytes_append lr(2))
qed

section \<open>Where they are not\<close>

text \<open>
  Each recursive call hands on the cluster it just read from together with the whole offset,
  so the walk starts too far along: of the clusters of the chain, number 0, 1, 3, 6, 10,
  \<dots> are read.
\<close>

definition tri :: "nat \<Rightarrow> nat" where
  "tri j = j * (j + 1) div 2"

lemma tri_0 [simp]: "tri 0 = 0"
  by (simp add: tri_def)

lemma tri_Suc: "tri (Suc j) = tri j + Suc j"
  by (simp add: tri_def)

lemma chain_read_tri:
  assumes "0 < bpc fp" and "0 < m" and "nth_cluster img fp (tri j - j) c = Some u"
    and "\<And>k. k < m \<Longrightarrow> nth_cluster img fp (tri (j + k)) c = Some (t k)"
  shows "chain_read img fp u (j * bpc fp) (m * bpc fp)
    = (0, concat (map (\<lambda>k. cluster_slice img fp (t k) 0 (bpc fp)) [0..<m]))"
  using assms(2-)
proof (induction m arbitrary: j u t)
  case 0
  then show ?case by simp
next
  case (Suc m)
  have le: "j \<le> tri j" by (cases j) (simp_all add: tri_Suc)
  have "nth_cluster img fp (tri j - j + j) c = Option.bind (nth_cluster img fp (tri j - j) c) (nth_cluster img fp j)"
    by (rule nth_cluster_add)
  then have hop: "nth_cluster img fp j u = Some (t 0)"
    using Suc.prems(2) Suc.prems(3) [of 0] le by simp
  show ?case
  proof (cases m)
    case 0
    then show ?thesis using assms(1) hop by (subst chain_read.simps) (simp add: Let_def)
  next
    case (Suc m')
    have t': "nth_cluster img fp (tri (Suc j + k)) c = Some (t (Suc k))" if "k < m" for k
      using Suc.prems(3) [of "Suc k"] that by simp
    have u': "nth_cluster img fp (tri (Suc j) - Suc j) c = Some (t 0)"
      using Suc.prems(3) [of 0] by (simp add: tri_Suc)
    have IH: "chain_read img fp (t 0) (Suc j * bpc fp) (m * bpc fp)
        = (0, concat (map (\<lambda>k. cluster_slice img fp (t (Suc k)) 0 (bpc fp)) [0..<m]))"
      using Suc.IH [OF _ u', of "\<lambda>k. t (Suc k)"] t' Suc by blast
    have lt: "bpc fp < Suc m * bpc fp" using assms(1) Suc by simp
    have "chain_read img fp u (j * bpc fp) (Suc m * bpc fp) =
        (let (r, bs) = chain_read img fp (t 0) (Suc j * bpc fp) (m * bpc fp)
         in (r, cluster_slice img fp (t 0) 0 (bpc fp) @ bs))"
      using assms(1) hop lt by (subst chain_read.simps) (simp add: Let_def add.commute)
    moreover have "[0..<Suc m] = 0 # map Suc [0..<m]" by (simp add: map_Suc_upt upt_conv_Cons del: upt_Suc)
    ultimately show ?thesis by (simp only: IH Let_def prod.case) (simp add: comp_def del: upt_Suc)
  qed
qed

end
