(* ===== verification/Fat16_Dir.thy ===== *)
theory Fat16_Dir
  imports Fat16_Read
begin

text \<open>
  Directories of the FAT16 driver: the names of entries, the search by name, the count of a
  directory's entries, and the file operations on an open descriptor.
\<close>

section \<open>Names\<close>

text \<open>The 8.3 name of an entry: the padded fields up to the first blank, joined by a dot.\<close>

definition name_char :: "u8 \<Rightarrow> bool" where
  "name_char c \<longleftrightarrow> c \<noteq> 0 \<and> \<not> isspace c"

definition item_is_dir :: "mem \<Rightarrow> u32 \<Rightarrow> bool" where
  "item_is_dir m p \<longleftrightarrow> ditem_attribute m p AND FAT_FILE_SUBDIRECTORY \<noteq> 0"

definition full_name :: "mem \<Rightarrow> u32 \<Rightarrow> u8 list" where
  "full_name m p = takeWhile name_char (read_bytes m p 8) @
     (if item_is_dir m p then [] else 46 # takeWhile name_char (read_bytes m (p + 8) 3))"

lemma field_loop_spec:
  "int n \<le> r \<Longrightarrow> field_loop m p n r =
     (takeWhile name_char (read_bytes m p n), r - int (length (takeWhile name_char (read_bytes m p n))))"
proof (induction n arbitrary: p r)
  case (Suc n)
  then have "field_loop m (p + 1) n (r - 1) = (takeWhile name_char (read_bytes m (p + 1) n),
      r - 1 - int (length (takeWhile name_char (read_bytes m (p + 1) n))))" by simp
  moreover have "name_char (m p) \<longleftrightarrow> m p \<noteq> 0 \<and> \<not> isspace (m p)" by (simp add: name_char_def)
  ultimately show ?case using Suc.prems by auto
qed simp

lemma length_field: "length (takeWhile name_char (read_bytes m p n)) \<le> n"
  by (metis length_read_bytes length_takeWhile_le)

lemma full_filename_spec: "fat16_get_full_filename m p (uint NUTSOS_MAX_PATH) = full_name m p @ [0]"
  using length_field [of m p 8]
  by (simp add: fat16_get_full_filename_def full_name_def item_is_dir_def NUTSOS_MAX_PATH_def field_loop_spec)

lemma full_name_length: "length (full_name m p) \<le> 12"
  using length_field [of m p 8] length_field [of m "p + 8" 3] by (simp add: full_name_def)

lemma full_name_no_0: "0 \<notin> set (full_name m p)"
  by (auto simp: full_name_def name_char_def dest: set_takeWhileD)

lemma buf_mem_cstr:
  assumes "0 \<notin> set t" and "length t < 4294967295"
  shows "cstr (buf_mem (t @ [0])) 0 t"
  using assms by (auto simp: cstr_iff buf_mem_def nth_append unat_of_nat) (metis nth_mem)

definition same_name :: "u8 list \<Rightarrow> u8 list \<Rightarrow> bool" where
  "same_name s t \<longleftrightarrow> map tolower s = map tolower t"

lemma find_compare:
  assumes "cstr m q t"
  shows "istrncmp (buf_mem (fat16_get_full_filename m' p (uint NUTSOS_MAX_PATH))) m 0 q NUTSOS_MAX_PATH = 0
    \<longleftrightarrow> same_name (full_name m' p) t"
proof -
  let ?f = "full_name m' p"
  have f: "length ?f \<le> 12" "0 \<notin> set ?f" by (rule full_name_length, rule full_name_no_0)
  then have "cstr (buf_mem (?f @ [0])) 0 ?f" by (intro buf_mem_cstr) simp_all
  then have "istrncmp (buf_mem (?f @ [0])) m 0 q NUTSOS_MAX_PATH = 0
      \<longleftrightarrow> map tolower (take 256 ?f) = map tolower (take 256 t)"
    using istrncmp_eq_iff [OF _ assms] by (simp add: NUTSOS_MAX_PATH_def)
  also have "\<dots> \<longleftrightarrow> map tolower ?f = map tolower t"
  proof -
    have "take 256 ?f = ?f" using f(1) by simp
    moreover have "take 256 t = t" if "map tolower ?f = map tolower (take 256 t)"
    proof -
      have "length (take 256 t) \<le> 12" using that f(1) by (metis length_map)
      then show ?thesis by (simp split: if_splits)
    qed
    moreover have "take 256 t = t" if "map tolower ?f = map tolower t"
    proof -
      have "length t \<le> 12" using that f(1) by (metis length_map)
      then show ?thesis by simp
    qed
    ultimately show ?thesis by metis
  qed
  finally show ?thesis by (simp add: full_filename_spec same_name_def)
qed

section \<open>Searching a directory\<close>

lemma find_item_loop_spec:
  assumes "cstr (kmem s) name t"
  shows "find_item_loop item name n s =
    (case find (\<lambda>k. same_name (full_name (kmem s) (item + 32 * of_nat k)) t) [0..<n] of
       None \<Rightarrow> Some (0, s)
     | Some k \<Rightarrow> fat16_new_fat_item_for_directory_item (item + 32 * of_nat k) s)"
proof (induction n arbitrary: item)
  case 0
  then show ?case by simp
next
  case (Suc n)
  have upt: "[0..<Suc n] = 0 # map Suc [0..<n]" by (simp add: map_Suc_upt upt_conv_Cons del: upt_Suc)
  have fm: "find P (map Suc xs) = map_option Suc (find (\<lambda>k. P (Suc k)) xs)" for P xs
    by (induction xs) auto
  have "(\<lambda>k. same_name (full_name (kmem s) (item + 32 * of_nat (Suc k))) t)
      = (\<lambda>k. same_name (full_name (kmem s) (item + 32 + 32 * of_nat k)) t)"
    by (simp add: algebra_simps)
  with Suc.IH [of "item + 32"] find_compare [OF assms, of "kmem s" item]
  show ?case unfolding upt
    by (auto simp: Let_def sizeof_fat_directory_item_def fm algebra_simps split: option.splits)
qed

section \<open>Counting entries\<close>

text \<open>
  The first byte of entry \<open>k\<close> of a directory at byte position \<open>q\<close> of the disk.
\<close>

definition entry_mark :: "(nat \<Rightarrow> u8) \<Rightarrow> nat \<Rightarrow> nat \<Rightarrow> u8" where
  "entry_mark img q k = img (q + 32 * k)"

lemma total_items_loop_spec:
  assumes "streams s p = Some \<lparr>pos = int q, stream_disk = GlobalDisk\<rparr>" and "p \<noteq> 0"
    and "q + 32 * (n + 1) < 2147483648" and "0 \<le> res" and "res + int n + 1 < 2147483648"
    and "entry_mark (disk_image s) q n = 0" and "\<And>k. k < n \<Longrightarrow> entry_mark (disk_image s) q k \<noteq> 0"
  shows "\<exists>s'. total_items_loop p res s
      = Some (res + int (length (filter (\<lambda>k. entry_mark (disk_image s) q k \<noteq> 0xE5) [0..<n])), s') \<and> moved s s'"
  using assms
proof (induction n arbitrary: q res s)
  case 0
  let ?s1 = "s\<lparr>streams := (streams s)(p \<mapsto> \<lparr>pos = int (q + 32), stream_disk = GlobalDisk\<rparr>)\<rparr>"
  have rd: "diskstream_read p 32 s = Some (0, image_slice (disk_image s) q 32, ?s1)"
    using read_ok [OF 0(1), of 32] 0(3) by simp
  have b: "image_slice (disk_image s) q 32 ! 0 = 0" using 0(6) by (simp add: entry_mark_def)
  have r: "s32 (s32 (res + 1) - 1) = res" using 0(4,5) by (simp add: s32_id)
  have "total_items_loop p res s = Some (res, ?s1)"
    using rd b r by (subst total_items_loop.simps) (simp add: const_defs Let_def)
  then show ?case using moved_upd by fastforce
next
  case (Suc n)
  let ?s1 = "s\<lparr>streams := (streams s)(p \<mapsto> \<lparr>pos = int (q + 32), stream_disk = GlobalDisk\<rparr>)\<rparr>"
  let ?b = "entry_mark (disk_image s) q 0"
  let ?res = "if ?b = 0xE5 then res else res + 1"
  have rd: "diskstream_read p 32 s = Some (0, image_slice (disk_image s) q 32, ?s1)"
    using read_ok [OF Suc(2), of 32] Suc(4) by simp
  have b: "image_slice (disk_image s) q 32 ! 0 = ?b" "?b \<noteq> 0" using Suc(8) [of 0] by (simp_all add: entry_mark_def)
  have r: "s32 (res + 1) = res + 1" using Suc(5,6) by (simp add: s32_id)
  have run: "total_items_loop p res s = total_items_loop p ?res ?s1"
    using rd b r by (subst total_items_loop.simps) (simp add: const_defs Let_def)
  have shift: "entry_mark (disk_image s) (q + 32) k = entry_mark (disk_image s) q (Suc k)" for k
    by (simp add: entry_mark_def add.assoc)
  have "\<exists>s'. total_items_loop p ?res ?s1
      = Some (?res + int (length (filter (\<lambda>k. entry_mark (disk_image ?s1) (q + 32) k \<noteq> 0xE5) [0..<n])), s') \<and> moved ?s1 s'"
    using Suc(4-8) by (intro Suc.IH) (simp_all add: shift Suc(3))
  then obtain s2 where s2: "total_items_loop p ?res ?s1
      = Some (?res + int (length (filter (\<lambda>k. entry_mark (disk_image s) q (Suc k) \<noteq> 0xE5) [0..<n])), s2)" "moved ?s1 s2"
    by (auto simp: shift)
  have upt: "[0..<Suc n] = 0 # map Suc [0..<n]" by (simp add: map_Suc_upt upt_conv_Cons del: upt_Suc)
  have "int (length (filter (\<lambda>k. entry_mark (disk_image s) q k \<noteq> 0xE5) [0..<Suc n])) =
      (if ?b = 0xE5 then 0 else 1) + int (length (filter (\<lambda>k. entry_mark (disk_image s) q (Suc k) \<noteq> 0xE5) [0..<n]))"
    unfolding upt by (simp add: filter_map comp_def)
  with s2(1) run have "total_items_loop p res s
      = Some (res + int (length (filter (\<lambda>k. entry_mark (disk_image s) q k \<noteq> 0xE5) [0..<Suc n])), s2)"
    by simp
  moreover have "moved s s2" using moved_trans [OF moved_upd s2(2)] .
  ultimately show ?case by blast
qed

lemma total_items_spec:
  assumes "fat_ok s fp" and "unat sector * 512 = q" and "q + 32 * (n + 1) < 2147483648"
    and "entry_mark (disk_image s) q n = 0" and "\<And>k. k < n \<Longrightarrow> entry_mark (disk_image s) q k \<noteq> 0"
  shows "\<exists>s'. fat16_get_total_items_for_directory sector s
      = Some (int (length (filter (\<lambda>k. entry_mark (disk_image s) q k \<noteq> 0xE5) [0..<n])), s') \<and> moved s s'"
proof -
  let ?p = "directory_stream fp"
  have ok: "disk_private s = Some fp" "stream_ok s ?p" "sector_size (the_disk s) = 512" "?p \<noteq> 0"
    using assms(1) by (auto simp: fat_ok_def stream_ok_def)
  have "unat (sector * 512) = q" using assms(2,3) by (simp add: unat_word_ariths)
  then have start: "sint (sector * 512) = int q"
    using assms(3) by (simp add: sint_small)
  let ?s1 = "s\<lparr>streams := (streams s)(?p \<mapsto> \<lparr>pos = int q, stream_disk = GlobalDisk\<rparr>)\<rparr>"
  obtain s2 where "total_items_loop ?p 0 ?s1
      = Some (int (length (filter (\<lambda>k. entry_mark (disk_image s) q k \<noteq> 0xE5) [0..<n])), s2)" "moved ?s1 s2"
    using total_items_loop_spec [of ?s1 ?p q n 0] ok(4) assms(3-5) by auto
  moreover have "fat16_get_total_items_for_directory sector s = total_items_loop ?p 0 ?s1"
    using ok by (simp add: fat16_get_total_items_for_directory_def start seek_ok Let_def EOK_def)
  ultimately show ?thesis using moved_trans [OF moved_upd] by fastforce
qed

section \<open>Items of files\<close>

text \<open>The 32 bytes of an entry lie in memory that is not free.\<close>

definition item_held :: "heap \<Rightarrow> u32 \<Rightarrow> bool" where
  "item_held h p \<longleftrightarrow> (\<forall>i < 32. \<not> free_byte h (p + of_nat i))"

definition item_new :: "heap \<Rightarrow> u32 \<Rightarrow> bool" where
  "item_new h p \<longleftrightarrow> (\<forall>i < 32. free_byte h (p + of_nat i))"

definition same_item :: "mem \<Rightarrow> u32 \<Rightarrow> mem \<Rightarrow> u32 \<Rightarrow> bool" where
  "same_item m p m' q \<longleftrightarrow> (\<forall>i < 32. m (p + of_nat i) = m' (q + of_nat i))"

lemma same_item_fields:
  assumes "same_item m p m' q"
  shows "ditem_attribute m p = ditem_attribute m' q" "ditem_low_cluster m p = ditem_low_cluster m' q"
    "ditem_filesize m p = ditem_filesize m' q"
proof -
  have b: "m (p + of_nat i) = m' (q + of_nat i)" if "i < 32" for i using assms that by (simp add: same_item_def)
  from b [of 11] show "ditem_attribute m p = ditem_attribute m' q" by (simp add: ditem_attribute_def)
  from b [of 26] b [of 27] show "ditem_low_cluster m p = ditem_low_cluster m' q"
    by (simp add: ditem_low_cluster_def read16_def add.assoc)
  from b [of 28] b [of 29] b [of 30] b [of 31] show "ditem_filesize m p = ditem_filesize m' q"
    by (simp add: ditem_filesize_def read32_def add.assoc)
qed

lemma same_item_name: "same_item m p m' q \<Longrightarrow> full_name m p = full_name m' q"
proof -
  assume e: "same_item m p m' q"
  then have b: "m (p + of_nat i) = m' (q + of_nat i)" if "i < 32" for i using that by (simp add: same_item_def)
  have "read_bytes m p 8 = read_bytes m' q 8"
    by (rule nth_equalityI) (simp_all add: nth_read_bytes b)
  moreover have "read_bytes m (p + 8) 3 = read_bytes m' (q + 8) 3"
    using b [of "8 + i" for i] by (intro nth_equalityI) (simp_all add: nth_read_bytes add.assoc)
  ultimately show ?thesis using same_item_fields(1) [OF e] by (simp add: full_name_def item_is_dir_def)
qed

lemma new_file_item:
  fixes s :: "'a fat_state_scheme"
  assumes "heap_wf (kernel_heap s)" and "2 \<le> free_count (blocks (kernel_heap s))"
    and "\<not> item_is_dir (kmem s) item" and "item_held (kernel_heap s) item"
  shows "\<exists>fi cp h m. fat16_new_fat_item_for_directory_item item s =
      Some (fi, s\<lparr>kernel_heap := h, kmem := m, fat_items := (fat_items s)(fi \<mapsto> \<lparr>item_ptr = cp, item_type = fat_type_file\<rparr>)\<rparr>)
    \<and> fi \<noteq> 0 \<and> cp \<noteq> 0 \<and> fi \<noteq> cp \<and> heap_wf h \<and> free_count (blocks h) + 2 = free_count (blocks (kernel_heap s))
    \<and> same_item m cp (kmem s) item \<and> item_held h cp \<and> item_new (kernel_heap s) cp
    \<and> kept s (s\<lparr>kernel_heap := h, kmem := m\<rparr>)
    \<and> \<not> live_block (kernel_heap s) fi \<and> \<not> live_block (kernel_heap s) cp
    \<and> (\<forall>q. live_block h q \<longleftrightarrow> q = fi \<or> q = cp \<or> live_block (kernel_heap s) q) \<and> heap_grown (kernel_heap s) h
    \<and> heap_used 2 (kernel_heap s) h"
proof -
  obtain fi h1 m1 where k1: "kzalloc sizeof_fat_item s = Some (fi, s\<lparr>kernel_heap := h1, kmem := m1\<rparr>)" "fi \<noteq> 0" "heap_wf h1"
    "Suc (free_count (blocks h1)) = free_count (blocks (kernel_heap s))"
    and keep1: "\<forall>a. \<not> free_byte (kernel_heap s) a \<longrightarrow> \<not> free_byte h1 a \<and> m1 a = kmem s a"
    and live1: "\<not> live_block (kernel_heap s) fi" "\<forall>q. live_block h1 q \<longleftrightarrow> q = fi \<or> live_block (kernel_heap s) q"
    and grown1: "heap_grown (kernel_heap s) h1" "heap_used 1 (kernel_heap s) h1"
    using kzalloc_block [OF assms(1), of sizeof_fat_item] assms(2) by (auto simp: sizeof_fat_item_def)
  let ?s1 = "s\<lparr>kernel_heap := h1, kmem := m1\<rparr>"
  obtain cp h2 m2 where k2: "kzalloc sizeof_fat_directory_item ?s1 = Some (cp, ?s1\<lparr>kernel_heap := h2, kmem := m2\<rparr>)"
      "cp \<noteq> 0" "heap_wf h2" "Suc (free_count (blocks h2)) = free_count (blocks h1)"
    and fresh2: "\<forall>a. in_region cp sizeof_fat_directory_item a \<longrightarrow> free_byte h1 a \<and> \<not> free_byte h2 a \<and> m2 a = 0"
    and keep2: "\<forall>a. \<not> free_byte h1 a \<longrightarrow> \<not> free_byte h2 a \<and> m2 a = m1 a"
    and live2: "\<not> live_block h1 cp" "\<forall>q. live_block h2 q \<longleftrightarrow> q = cp \<or> live_block h1 q"
    and grown2: "heap_grown h1 h2" "heap_used 1 h1 h2"
    using kzalloc_block [of ?s1 sizeof_fat_directory_item] k1(3,4) assms(2) by (auto simp: sizeof_fat_directory_item_def)
  let ?m = "memcpy m2 cp item sizeof_fat_directory_item"
  have item: "m2 (item + of_nat i) = kmem s (item + of_nat i)" "\<not> free_byte h1 (item + of_nat i)" if "i < 32" for i
    using that assms(4) keep1 keep2 by (simp_all add: item_held_def)
  have reg: "in_region cp sizeof_fat_directory_item (cp + of_nat i)" if "i < 32" for i
    using that by (simp add: in_region_def sizeof_fat_directory_item_def word_less_nat_alt unat_of_nat)
  have "\<not> cp - item < 32"
  proof
    assume "cp - item < 32"
    then have lt: "unat (cp - item) < 32" by (simp add: word_less_nat_alt)
    have "cp = item + of_nat (unat (cp - item))" by simp
    with item(2) [OF lt] fresh2 reg [of 0] show False by auto
  qed
  then have cpy: "?m a = (if in_region cp sizeof_fat_directory_item a then m2 (item + (a - cp)) else m2 a)" for a
    by (intro memcpy_apply) (simp add: sizeof_fat_directory_item_def not_less)
  have "?m (cp + of_nat i) = kmem s (item + of_nat i)" if "i < 32" for i
    using reg [OF that] item(1) [OF that] by (simp add: cpy)
  then have same: "same_item ?m cp (kmem s) item" by (simp add: same_item_def)
  have kp: "kept s (s\<lparr>kernel_heap := h2, kmem := ?m\<rparr>)"
    using keep1 keep2 fresh2 by (auto simp: kept_def cpy)
  have held: "item_held h2 cp" using fresh2 reg by (simp add: item_held_def)
  have new: "item_new (kernel_heap s) cp" using fresh2 reg keep1 by (auto simp: item_new_def)
  have attr: "ditem_attribute m1 item = ditem_attribute (kmem s) item"
    using keep1 assms(4) by (auto simp: ditem_attribute_def item_held_def dest: spec [of _ 11])
  have "fat16_new_fat_item_for_directory_item item s =
      Some (fi, s\<lparr>kernel_heap := h2, kmem := ?m, fat_items := (fat_items s)(fi \<mapsto> \<lparr>item_ptr = cp, item_type = fat_type_file\<rparr>)\<rparr>)"
    using k1(1,2) k2(1,2) assms(3) attr
    by (simp add: fat16_new_fat_item_for_directory_item_def fat16_copy_directory_item_def item_is_dir_def)
  moreover have used: "heap_used 2 (kernel_heap s) h2" using grown1(2) grown2(2) by (rule heap_used_trans) simp
  moreover have "fi \<noteq> cp" using live2(1) live1(2) by auto
  ultimately show ?thesis
    using k1(2,4) k2(2-4) same held new kp live1 live2 heap_grown_trans [OF grown1(1) grown2(1)] used
    by (rule_tac exI [of _ fi], rule_tac exI [of _ cp], rule_tac exI [of _ h2], rule_tac exI [of _ ?m]) auto
qed

section \<open>Reading members\<close>

text \<open>The destination stays clear of the entry, whose fields the loop reads again each round.\<close>

definition apart :: "u32 \<Rightarrow> u32 \<Rightarrow> nat \<Rightarrow> bool" where
  "apart item out n \<longleftrightarrow> (\<forall>i < 32. n \<le> unat (item + of_nat i - out))"

lemma apart_write:
  assumes "apart item out n" and "length bs \<le> n" and "n < 4294967296"
  shows "same_item (write_bytes m out bs) item m item"
  using assms by (auto simp: same_item_def apart_def write_bytes_spec)

lemma apart_step:
  assumes "apart item out n" and "k \<le> n" and "n < 4294967296"
  shows "apart item (out + of_nat k) (n - k)"
  unfolding apart_def
proof (intro allI impI)
  fix i
  assume "i < (32 :: nat)"
  with assms(1) have n: "n \<le> unat (item + of_nat i - out)" by (simp add: apart_def)
  have k: "unat (of_nat k :: u32) = k" using assms(2,3) by (intro unat_of_nat_small) simp
  have "of_nat k \<le> item + of_nat i - out" using n assms(2) k by (simp add: word_le_nat_alt)
  then have "unat (item + of_nat i - out - of_nat k) = unat (item + of_nat i - out) - k"
    using unat_sub k by metis
  then show "n - k \<le> unat (item + of_nat i - (out + of_nat k))" using n by (simp add: diff_diff_eq)
qed

text \<open>Reads for which the driver's recursion delivers the file's bytes.\<close>

definition readable :: "(nat \<Rightarrow> u8) \<Rightarrow> fat_private \<Rightarrow> int \<Rightarrow> nat \<Rightarrow> nat \<Rightarrow> bool" where
  "readable img fp c i n \<longleftrightarrow> chain_read img fp c i n = (0, file_bytes img fp c i n)"

lemma readable_inside:
  assumes "0 < bpc fp" and "i mod bpc fp + n \<le> bpc fp" and "nth_cluster img fp (i div bpc fp) c \<noteq> None"
  shows "readable img fp c i n"
  using chain_read_inside [OF assms(1,2), of img c] assms(3) by (auto simp: readable_def)

lemma readable_second:
  assumes "0 < bpc fp" and "i < bpc fp" and "i + n \<le> 2 * bpc fp" and "next_cluster img fp c \<noteq> None"
  shows "readable img fp c i n"
proof (cases "bpc fp < i + n")
  case True
  then show ?thesis using chain_read_second [OF assms(1,2) True assms(3)] assms(4) by (auto simp: readable_def)
next
  case False
  then show ?thesis using readable_inside [OF assms(1), of i n img c] assms(2) by simp
qed

lemma read_internal_readable:
  assumes "fat_ok s fp" and "chain_ok (disk_image s) fp c" and "i + n < 2147483648"
    and "readable (disk_image s) fp c i n"
  shows "\<exists>s'. fat16_read_internal c (int i) (int n) out s = Some (0, s')
    \<and> moved (s\<lparr>kmem := write_bytes (kmem s) out (file_bytes (disk_image s) fp c i n)\<rparr>) s'"
  using read_internal_chain [OF assms(1-3), of out] assms(4) by (simp add: readable_def)

lemma read_loop_spec:
  assumes "fat_ok s fp" and "chain_ok (disk_image s) fp c"
    and "uint (ditem_low_cluster (kmem s) item) = c" and "unat (ditem_filesize (kmem s) item) = F"
    and "0 < z" and "z < 2147483648" and "i \<le> F" and "i + n * z < 2147483648" and "cnt + n < 2147483648"
    and "\<And>j. j < n \<Longrightarrow> i + j * z < F \<Longrightarrow> readable (disk_image s) fp c (i + j * z) z"
    and "apart item out (n * z)"
  shows "\<exists>s'. fat16_read_loop item (of_nat z) (int i) out n (int cnt) s
      = Some (of_nat (cnt + min n ((F - i) div z)), s')
    \<and> moved (s\<lparr>kmem := write_bytes (kmem s) out (file_bytes (disk_image s) fp c i (min n ((F - i) div z) * z))\<rparr>) s'"
  using assms
proof (induction n arbitrary: i out cnt s)
  case 0
  then show ?case by (intro exI [of _ s]) (simp add: file_bytes_def)
next
  case (Suc n)
  let ?img = "disk_image s"
  have z: "unat (of_nat z :: u32) = z" "sint (of_nat z :: u32) = int z"
    using Suc.prems(6) by (simp_all add: unat_of_nat sint_small)
  have F: "F < 4294967296" using Suc.prems(4) unat_u32_less by metis
  have "i < 4294967296" using Suc.prems(8) by simp
  then have "unat (of_nat i :: u32) = i" by (rule unat_of_nat_small)
  then have "unat (ditem_filesize (kmem s) item - of_nat i) = F - i"
    using Suc.prems(4,7) unat_sub [of "of_nat i" "ditem_filesize (kmem s) item"] by (simp add: word_le_nat_alt)
  then have cmp: "of_nat z > ditem_filesize (kmem s) item - of_nat i \<longleftrightarrow> F - i < z"
    by (simp add: word_less_nat_alt z)
  show ?case
  proof (cases "F - i < z")
    case True
    then have "(F - i) div z = 0" by simp
    with True cmp show ?thesis by (intro exI [of _ s]) (simp add: file_bytes_def)
  next
    case False
    then have iz: "i + z \<le> F" "i < F" using Suc.prems(5,7) by simp_all
    have lim: "i + z < 2147483648" using Suc.prems(8) by simp
    have in0: "readable ?img fp c i z" using Suc.prems(10) [of 0] iz(2) by simp
    let ?bs = "file_bytes ?img fp c i z"
    obtain s1 where s1: "fat16_read_internal c (int i) (int z) out s = Some (0, s1)"
      "moved (s\<lparr>kmem := write_bytes (kmem s) out ?bs\<rparr>) s1"
      using read_internal_readable [OF Suc.prems(1,2) lim in0, of out] by blast
    have f1: "fat_ok s1 fp" using fat_ok_moved [OF fat_ok_kmem [OF Suc.prems(1)] s1(2)] .
    have eq: "disk_image s1 = ?img" "kmem s1 = write_bytes (kmem s) out ?bs"
      using moved_simps(1,2) [OF s1(2)] by simp_all
    have nz: "Suc n * z < 4294967296" using Suc.prems(8) by simp
    have len: "length ?bs = z" by (simp add: file_bytes_def)
    then have same: "same_item (kmem s1) item (kmem s) item"
      using apart_write [OF Suc.prems(11) _ nz, of ?bs "kmem s"] by (simp add: eq(2))
    have ap: "apart item (out + of_nat z) (n * z)" using apart_step [OF Suc.prems(11), of z] nz by simp
    have nxt: "readable (disk_image s1) fp c (i + z + j * z) z"
      if "j < n" "i + z + j * z < F" for j
      using Suc.prems(10) [of "Suc j"] that by (simp add: eq(1) add.assoc)
    have "\<exists>s'. fat16_read_loop item (of_nat z) (int (i + z)) (out + of_nat z) n (int (Suc cnt)) s1
        = Some (of_nat (Suc cnt + min n ((F - (i + z)) div z)), s')
      \<and> moved (s1\<lparr>kmem := write_bytes (kmem s1) (out + of_nat z)
          (file_bytes (disk_image s1) fp c (i + z) (min n ((F - (i + z)) div z) * z))\<rparr>) s'"
      by (rule Suc.IH [OF f1]) (use Suc.prems iz same_item_fields [OF same] nxt ap in \<open>simp_all add: eq(1)\<close>)
    then obtain s2 where s2: "fat16_read_loop item (of_nat z) (int (i + z)) (out + of_nat z) n (int (Suc cnt)) s1
        = Some (of_nat (Suc cnt + min n ((F - (i + z)) div z)), s2)"
      "moved (s1\<lparr>kmem := write_bytes (kmem s1) (out + of_nat z)
          (file_bytes ?img fp c (i + z) (min n ((F - (i + z)) div z) * z))\<rparr>) s2"
      unfolding eq(1) by blast
    have "(F - i) div z = Suc ((F - (i + z)) div z)"
      using iz Suc.prems(5) div_add_self1 [of z "F - (i + z)"] by (simp add: le_div_geq)
    then have mn: "min (Suc n) ((F - i) div z) = Suc (min n ((F - (i + z)) div z))" by simp
    let ?k = "min n ((F - (i + z)) div z)"
    have ba: "file_bytes ?img fp c i (Suc ?k * z) = ?bs @ file_bytes ?img fp c (i + z) (?k * z)"
      by (simp add: file_bytes_append)
    have off: "sint (word_of_int (int i) + of_nat z :: u32) = int (i + z)"
    proof -
      have "sint (of_nat (i + z) :: u32) = int (i + z)" using lim by (simp add: sint_small unat_of_nat del: of_nat_add)
      then show ?thesis by simp
    qed
    have cn: "s32 (int cnt + 1) = int (Suc cnt)" using Suc.prems(9) by (simp add: s32_id)
    have run: "fat16_read_loop item (of_nat z) (int i) out (Suc n) (int cnt) s
        = fat16_read_loop item (of_nat z) (int (i + z)) (out + of_nat z) n (int (Suc cnt)) s1"
      using False cmp s1(1) Suc.prems(3) off cn
      by (simp add: z(2) ISERR_def del: of_nat_add)
    have "write_bytes (kmem s1) (out + of_nat z) (file_bytes ?img fp c (i + z) (?k * z))
        = write_bytes (kmem s) out (file_bytes ?img fp c i (Suc ?k * z))"
      unfolding ba eq(2) write_bytes_append len ..
    then have "moved (s\<lparr>kmem := write_bytes (kmem s) out (file_bytes ?img fp c i (Suc ?k * z))\<rparr>) s2"
      using moved_trans [OF moved_kmem [OF s1(2), of "write_bytes (kmem s) out (file_bytes ?img fp c i (Suc ?k * z))"]] s2(2)
      by simp
    with run s2(1) show ?thesis unfolding mn by (intro exI [of _ s2]) simp
  qed
qed

section \<open>Opening a file of the root directory\<close>

lemma item_kept: "item_held (kernel_heap s) p \<Longrightarrow> kept s s' \<Longrightarrow> item_held (kernel_heap s') p \<and> same_item (kmem s') p (kmem s) p"
  by (auto simp: item_held_def kept_def same_item_def)

text \<open>The index of the first entry of the root directory with a given name.\<close>

definition root_find :: "'a fat_state_scheme \<Rightarrow> fat_private \<Rightarrow> u8 list \<Rightarrow> nat option" where
  "root_find s fp t = find (\<lambda>k. same_name (full_name (kmem s) (dir_item (root_directory fp) + 32 * of_nat k)) t)
     [0..<nat (dir_total (root_directory fp))]"

definition root_held :: "'a fat_state_scheme \<Rightarrow> fat_private \<Rightarrow> bool" where
  "root_held s fp \<longleftrightarrow> (\<forall>k < nat (dir_total (root_directory fp)).
     item_held (kernel_heap s) (dir_item (root_directory fp) + 32 * of_nat k))"

lemma root_find_kept:
  assumes "root_held s fp" and "kept s s'"
  shows "root_held s' fp" and "root_find s' fp t = root_find s fp t"
proof -
  show "root_held s' fp" using assms item_kept unfolding root_held_def by blast
  have "full_name (kmem s') (dir_item (root_directory fp) + 32 * of_nat k)
      = full_name (kmem s) (dir_item (root_directory fp) + 32 * of_nat k)"
    if "k < nat (dir_total (root_directory fp))" for k
    using assms item_kept same_item_name that unfolding root_held_def by blast
  then show "root_find s' fp t = root_find s fp t" unfolding root_find_def by (intro find_cong) auto
qed

lemma root_find_range: "root_find s fp t = Some k \<Longrightarrow> k < nat (dir_total (root_directory fp))"
  unfolding root_find_def by (auto simp: find_Some_iff)

lemma get_entry_root:
  assumes "disk_private s = Some fp" and "path_parts s path = Some \<lparr>part = str, next_part = 0\<rparr>"
    and "held s str t"
  shows "fat16_get_directory_entry path s = (case root_find s fp t of None \<Rightarrow> Some (0, s)
    | Some k \<Rightarrow> Option.bind (fat16_new_fat_item_for_directory_item (dir_item (root_directory fp) + 32 * of_nat k) s)
        (\<lambda>(it, s1). if it = 0 then Some (0, s1)
           else Option.bind (path_parts s1 path) (\<lambda>p. directory_entry_loop it (next_part p) s1)))"
proof -
  have c: "cstr (kmem s) str t" using assms(3) by (simp add: held_def)
  show ?thesis
    unfolding root_find_def
    by (simp add: fat16_get_directory_entry_def fat16_find_item_in_directory_def assms(1,2)
        find_item_loop_spec [OF c] split: option.splits)
qed

lemma alloc_desc:
  fixes s :: "'a fat_state_scheme"
  assumes "heap_wf (kernel_heap s)" and "0 < free_count (blocks (kernel_heap s))"
  shows "\<exists>d h m. kzalloc sizeof_fat_file_descriptor s = Some (d, s\<lparr>kernel_heap := h, kmem := m\<rparr>) \<and> d \<noteq> 0 \<and> heap_wf h
    \<and> Suc (free_count (blocks h)) = free_count (blocks (kernel_heap s)) \<and> kept s (s\<lparr>kernel_heap := h, kmem := m\<rparr>)
    \<and> \<not> live_block (kernel_heap s) d \<and> (\<forall>q. live_block h q \<longleftrightarrow> q = d \<or> live_block (kernel_heap s) q)
    \<and> heap_grown (kernel_heap s) h \<and> heap_used 1 (kernel_heap s) h"
  using kzalloc_block [OF assms(1) _ _ assms(2), of sizeof_fat_file_descriptor]
  by (fastforce simp: sizeof_fat_file_descriptor_def kept_def)

lemma open_found:
  fixes s :: "'a fat_state_scheme"
  assumes "heap_wf (kernel_heap s)" and "3 \<le> free_count (blocks (kernel_heap s))"
    and "disk_private s = Some fp" and "path_parts s path = Some \<lparr>part = str, next_part = 0\<rparr>"
    and "held s str t" and "root_held s fp" and "root_find s fp t = Some k"
    and "item = dir_item (root_directory fp) + 32 * of_nat k" and "\<not> item_is_dir (kmem s) item"
  shows "\<exists>d fi cp h m. fat16_open path FILE_MODE_READ s = Some (d, s\<lparr>kernel_heap := h, kmem := m,
        fat_items := (fat_items s)(fi \<mapsto> \<lparr>item_ptr = cp, item_type = fat_type_file\<rparr>),
        fat_descs := (fat_descs s)(d \<mapsto> \<lparr>desc_item = fi, desc_pos = 0\<rparr>)\<rparr>)
    \<and> d \<noteq> 0 \<and> heap_wf h \<and> free_count (blocks h) + 3 = free_count (blocks (kernel_heap s))
    \<and> same_item m cp (kmem s) item \<and> item_held h cp \<and> item_new (kernel_heap s) cp
    \<and> kept s (s\<lparr>kernel_heap := h, kmem := m\<rparr>)
    \<and> distinct [d, fi, cp] \<and> (\<forall>q \<in> {d, fi, cp}. \<not> live_block (kernel_heap s) q)
    \<and> (\<forall>q. live_block h q \<longleftrightarrow> q \<in> {d, fi, cp} \<or> live_block (kernel_heap s) q) \<and> heap_grown (kernel_heap s) h
    \<and> heap_used 3 (kernel_heap s) h"
proof -
  have fc: "0 < free_count (blocks (kernel_heap s))" using assms(2) by simp
  obtain d h1 m1 where k1: "kzalloc sizeof_fat_file_descriptor s = Some (d, s\<lparr>kernel_heap := h1, kmem := m1\<rparr>)" "d \<noteq> 0" "heap_wf h1"
    "Suc (free_count (blocks h1)) = free_count (blocks (kernel_heap s))" "kept s (s\<lparr>kernel_heap := h1, kmem := m1\<rparr>)"
    "\<not> live_block (kernel_heap s) d" "\<forall>q. live_block h1 q \<longleftrightarrow> q = d \<or> live_block (kernel_heap s) q"
    "heap_grown (kernel_heap s) h1" "heap_used 1 (kernel_heap s) h1"
    using alloc_desc [OF assms(1) fc] by blast
  let ?s1 = "s\<lparr>kernel_heap := h1, kmem := m1\<rparr>"
  have p1: "disk_private ?s1 = Some fp" using assms(3) by (simp add: disk_private_def)
  have hd1: "held ?s1 str t" using assms(5) k1(5) by (rule held_kept)
  have rh1: "root_held ?s1 fp" and rf1: "root_find ?s1 fp t = Some k"
    using root_find_kept [OF assms(6) k1(5)] assms(7) by simp_all
  have it: "item_held (kernel_heap s) item"
    using assms(6) root_find_range [OF assms(7)] by (simp add: root_held_def assms(8))
  have it1: "item_held h1 item" "same_item m1 item (kmem s) item" using item_kept [OF it k1(5)] by simp_all
  have nd: "\<not> item_is_dir (kmem ?s1) item"
    using assms(9) same_item_fields(1) [OF it1(2)] by (simp add: item_is_dir_def)
  obtain fi cp h2 m2 where k2: "fat16_new_fat_item_for_directory_item item ?s1 =
      Some (fi, ?s1\<lparr>kernel_heap := h2, kmem := m2, fat_items := (fat_items s)(fi \<mapsto> \<lparr>item_ptr = cp, item_type = fat_type_file\<rparr>)\<rparr>)"
    "fi \<noteq> 0" "cp \<noteq> 0" "fi \<noteq> cp" "heap_wf h2" "free_count (blocks h2) + 2 = free_count (blocks h1)"
    "same_item m2 cp m1 item" "item_held h2 cp" "item_new h1 cp" "kept ?s1 (?s1\<lparr>kernel_heap := h2, kmem := m2\<rparr>)"
    "\<not> live_block h1 fi" "\<not> live_block h1 cp" "\<forall>q. live_block h2 q \<longleftrightarrow> q = fi \<or> q = cp \<or> live_block h1 q"
    "heap_grown h1 h2" "heap_used 2 h1 h2"
    using new_file_item [of ?s1 item] k1(3,4) assms(2) nd it1(1) by auto
  have new: "item_new (kernel_heap s) cp" using k2(9) k1(5) by (auto simp: item_new_def kept_def)
  have same: "same_item m2 cp (kmem s) item" using k2(7) it1(2) by (simp add: same_item_def)
  have kp: "kept s (s\<lparr>kernel_heap := h2, kmem := m2\<rparr>)" using kept_trans [OF k1(5) k2(10)] by simp
  have nl: "directory_entry_loop fi 0 x = Some (fi, x)" for x by (subst directory_entry_loop.simps) simp
  have "fat16_get_directory_entry path ?s1 = Some (fi, s\<lparr>kernel_heap := h2, kmem := m2,
      fat_items := (fat_items s)(fi \<mapsto> \<lparr>item_ptr = cp, item_type = fat_type_file\<rparr>)\<rparr>)"
    using get_entry_root [OF p1 _ hd1, of path] assms(4) rf1 k2(1,2) nl by (simp flip: assms(8))
  then have "fat16_open path FILE_MODE_READ s = Some (d, s\<lparr>kernel_heap := h2, kmem := m2,
      fat_items := (fat_items s)(fi \<mapsto> \<lparr>item_ptr = cp, item_type = fat_type_file\<rparr>),
      fat_descs := (fat_descs s)(d \<mapsto> \<lparr>desc_item = fi, desc_pos = 0\<rparr>)\<rparr>)"
    using k1(1,2) k2(2) by (simp add: fat16_open_def)
  moreover have "heap_used 3 (kernel_heap s) h2" using k1(9) k2(15) by (rule heap_used_trans) simp
  ultimately show ?thesis using same kp new k1 k2 heap_grown_trans [OF k1(8) k2(14)]
    by (rule_tac exI [of _ d], rule_tac exI [of _ fi], rule_tac exI [of _ cp], rule_tac exI [of _ h2],
        rule_tac exI [of _ m2]) auto
qed

lemma open_missing:
  fixes s :: "'a fat_state_scheme"
  assumes "heap_wf (kernel_heap s)" and "0 < free_count (blocks (kernel_heap s))"
    and "disk_private s = Some fp" and "path_parts s path = Some \<lparr>part = str, next_part = 0\<rparr>"
    and "held s str t" and "root_held s fp" and "root_find s fp t = None"
  shows "\<exists>m. fat16_open path FILE_MODE_READ s = Some (ERRTOPTR (- EIO), s\<lparr>kernel_heap := kernel_heap s, kmem := m\<rparr>)
    \<and> (\<forall>a. \<not> free_byte (kernel_heap s) a \<longrightarrow> m a = kmem s a)"
proof -
  obtain d h1 m1 where k1: "kzalloc sizeof_fat_file_descriptor s = Some (d, s\<lparr>kernel_heap := h1, kmem := m1\<rparr>)" "d \<noteq> 0" "heap_wf h1"
    "Suc (free_count (blocks h1)) = free_count (blocks (kernel_heap s))" "kept s (s\<lparr>kernel_heap := h1, kmem := m1\<rparr>)"
    using alloc_desc [OF assms(1,2)] by blast
  let ?s1 = "s\<lparr>kernel_heap := h1, kmem := m1\<rparr>"
  have p1: "disk_private ?s1 = Some fp" using assms(3) by (simp add: disk_private_def)
  have hd1: "held ?s1 str t" using assms(5) k1(5) by (rule held_kept)
  have "root_find ?s1 fp t = None" using root_find_kept(2) [OF assms(6) k1(5)] assms(7) by simp
  then have e: "fat16_get_directory_entry path ?s1 = Some (0, ?s1)"
    using get_entry_root [OF p1 _ hd1, of path] assms(4) by simp
  have "kfree d ?s1 = Some (?s1\<lparr>kernel_heap := kernel_heap s\<rparr>)"
    using kzalloc_kfree [OF assms(1) _ _ k1(1,2)] by (simp add: size_ok_def sizeof_fat_file_descriptor_def)
  with e k1(1,2,5) show ?thesis
    by (intro exI [of _ m1]) (simp add: fat16_open_def kept_def)
qed

end
