(* ===== verification/Fat16_Mount.thy ===== *)
theory Fat16_Mount
  imports Fat16_Dir
begin

text \<open>
  Mounting a volume: what \<open>fat16_resolve\<close> leaves behind when the disk holds a FAT16 image,
  and that it is what reading and opening rely on (\<open>fat_ok\<close>, \<open>root_held\<close>).
\<close>

section \<open>Images\<close>

definition image_header :: "(nat \<Rightarrow> u8) \<Rightarrow> u8 list" where
  "image_header img = image_slice img 0 sizeof_fat_header"

text \<open>The first sector of the root directory and its size in bytes.\<close>

definition root_sector :: "(nat \<Rightarrow> u8) \<Rightarrow> nat" where
  "root_sector img = (let h = image_header img in
     nat (hdr_fat_copies h * hdr_sectors_per_fat h + hdr_reserved_sectors h))"

definition root_bytes :: "(nat \<Rightarrow> u8) \<Rightarrow> nat" where
  "root_bytes img = 32 * nat (hdr_root_dir_entries (image_header img))"

text \<open>
  A volume whose root directory has \<open>n\<close> entries, deleted ones included, before the end mark,
  and lies below 2 GB.
\<close>

definition fat_volume :: "(nat \<Rightarrow> u8) \<Rightarrow> nat \<Rightarrow> bool" where
  "fat_volume img n \<longleftrightarrow> hdr_signature (image_header img) = NUTOS_FAT16_SIGNATURE
     \<and> 0 < hdr_sectors_per_cluster (image_header img)
     \<and> 32 * n < root_bytes img \<and> 512 * root_sector img + root_bytes img < 2147483648
     \<and> entry_mark img (512 * root_sector img) n = 0
     \<and> (\<forall>k < n. entry_mark img (512 * root_sector img) k \<noteq> 0)"

definition live_entries :: "(nat \<Rightarrow> u8) \<Rightarrow> nat \<Rightarrow> nat" where
  "live_entries img n = length (filter (\<lambda>k. entry_mark img (512 * root_sector img) k \<noteq> 0xE5) [0..<n])"

text \<open>The private data of a mounted volume: \<open>dir\<close> is where the root directory was loaded.\<close>

definition mounted_private :: "(nat \<Rightarrow> u8) \<Rightarrow> nat \<Rightarrow> u32 \<Rightarrow> u32 \<Rightarrow> u32 \<Rightarrow> u32 \<Rightarrow> fat_private" where
  "mounted_private img n dir crs frs drs =
     \<lparr>header = image_header img,
      root_directory = \<lparr>dir_item = dir, dir_total = int (live_entries img n), sector_pos = int (root_sector img),
        ending_sector_pos = int (root_sector img + (root_bytes img + 511) div 512)\<rparr>,
      first_fat_sector = word_of_int (hdr_reserved_sectors (image_header img)),
      fat_table_address = word_of_int (hdr_reserved_sectors (image_header img)) * 512,
      bytes_per_cluster = hdr_sectors_per_cluster (image_header img) * 512,
      cluster_read_stream = crs, fat_read_stream = frs, directory_stream = drs\<rparr>"

lemma hdr_u8_range: "0 \<le> hdr_u8 h i \<and> hdr_u8 h i < 256"
  using uint_lt2p [of "h ! i"] by (simp add: hdr_u8_def)

lemma hdr_u16_range: "0 \<le> hdr_u16 h i \<and> hdr_u16 h i < 65536"
  using uint_lt2p [of "le16 (h ! i) (h ! (i + 1))"] by (simp add: hdr_u16_def)

section \<open>Streams of the driver\<close>

lemma stream_new:
  fixes s :: "'a fat_state_scheme"
  assumes "heap_wf (kernel_heap s)" and "has_run (kernel_heap s) (Suc k)"
  shows "\<exists>p h m. diskstream_new 0 s = Some (p, s\<lparr>kernel_heap := h, kmem := m,
        streams := (streams s)(p \<mapsto> \<lparr>pos = 0, stream_disk = GlobalDisk\<rparr>)\<rparr>)
    \<and> kzalloc sizeof_disk_stream s = Some (p, s\<lparr>kernel_heap := h, kmem := m\<rparr>)
    \<and> p \<noteq> 0 \<and> heap_wf h \<and> has_run h k \<and> kept s (s\<lparr>kernel_heap := h, kmem := m\<rparr>)
    \<and> \<not> live_block (kernel_heap s) p \<and> (\<forall>q. live_block h q \<longleftrightarrow> q = p \<or> live_block (kernel_heap s) q)"
proof -
  have n: "sizeof_disk_stream \<noteq> 0" "size_ok sizeof_disk_stream" "blocks_for sizeof_disk_stream = 1"
    using blocks_for_small [of 8] by (simp_all add: sizeof_disk_stream_def size_ok_def)
  obtain p h m where k: "kzalloc sizeof_disk_stream s = Some (p, s\<lparr>kernel_heap := h, kmem := m\<rparr>)" "p \<noteq> 0" "heap_wf h" "has_run h k"
    "\<forall>a. \<not> free_byte (kernel_heap s) a \<longrightarrow> \<not> free_byte h a \<and> m a = kmem s a"
    "\<not> live_block (kernel_heap s) p" "\<forall>q. live_block h q \<longleftrightarrow> q = p \<or> live_block (kernel_heap s) q"
    using kzalloc_run [OF assms(1) n(1,2), of k] assms(2) n(3) by auto
  then show ?thesis
    by (rule_tac exI [of _ p], rule_tac exI [of _ h], rule_tac exI [of _ m])
      (simp add: diskstream_new_def disk_get_def kept_def)
qed

text \<open>The driver's three streams.\<close>

definition with_streams :: "u32 \<Rightarrow> u32 \<Rightarrow> u32 \<Rightarrow> fat_private" where
  "with_streams crs frs drs =
     \<lparr>header = replicate sizeof_fat_header 0, root_directory = empty_directory,
      first_fat_sector = 0, fat_table_address = 0, bytes_per_cluster = 0,
      cluster_read_stream = crs, fat_read_stream = frs, directory_stream = drs\<rparr>"

abbreviation "start_of_disk \<equiv> \<lparr>pos = 0, stream_disk = GlobalDisk\<rparr>"

lemma init_private_spec:
  fixes s :: "'a fat_state_scheme"
  assumes "heap_wf (kernel_heap s)" and "has_run (kernel_heap s) (k + 3)" and "fpr \<noteq> 0" and "disk_id (the_disk s) = 0"
  shows "\<exists>crs frs drs h m. fat16_init_private fpr s = Some (s\<lparr>kernel_heap := h, kmem := m,
        streams := (streams s)(crs \<mapsto> start_of_disk, frs \<mapsto> start_of_disk, drs \<mapsto> start_of_disk),
        fat_privates := (fat_privates s)(fpr \<mapsto> with_streams crs frs drs)\<rparr>)
    \<and> crs \<noteq> 0 \<and> frs \<noteq> 0 \<and> drs \<noteq> 0 \<and> heap_wf h \<and> has_run h k \<and> kept s (s\<lparr>kernel_heap := h, kmem := m\<rparr>)
    \<and> distinct [crs, frs, drs] \<and> (\<forall>q \<in> {crs, frs, drs}. \<not> live_block (kernel_heap s) q)
    \<and> (\<forall>q. live_block h q \<longleftrightarrow> q \<in> {crs, frs, drs} \<or> live_block (kernel_heap s) q)"
proof -
  obtain p1 h1 m1 where a1: "diskstream_new 0 s = Some (p1, s\<lparr>kernel_heap := h1, kmem := m1, streams := (streams s)(p1 \<mapsto> start_of_disk)\<rparr>)"
    "p1 \<noteq> 0" "heap_wf h1" "has_run h1 (k + 2)" "kept s (s\<lparr>kernel_heap := h1, kmem := m1\<rparr>)"
    "\<forall>q. live_block h1 q \<longleftrightarrow> q = p1 \<or> live_block (kernel_heap s) q" "\<not> live_block (kernel_heap s) p1"
    using stream_new [OF assms(1), of "k + 2"] assms(2) by (auto simp: numeral_3_eq_3)
  let ?s1 = "s\<lparr>kernel_heap := h1, kmem := m1, streams := (streams s)(p1 \<mapsto> start_of_disk)\<rparr>"
  obtain p2 h2 m2 where a2: "diskstream_new 0 ?s1 = Some (p2, ?s1\<lparr>kernel_heap := h2, kmem := m2, streams := (streams ?s1)(p2 \<mapsto> start_of_disk)\<rparr>)"
    "p2 \<noteq> 0" "heap_wf h2" "has_run h2 (k + 1)" "kept ?s1 (?s1\<lparr>kernel_heap := h2, kmem := m2\<rparr>)"
    "\<forall>q. live_block h2 q \<longleftrightarrow> q = p2 \<or> live_block h1 q" "\<not> live_block h1 p2"
    using stream_new [of ?s1 "k + 1"] a1(3,4) by auto
  let ?s2 = "?s1\<lparr>kernel_heap := h2, kmem := m2, streams := (streams ?s1)(p2 \<mapsto> start_of_disk)\<rparr>"
  obtain p3 h3 m3 where a3: "diskstream_new 0 ?s2 = Some (p3, ?s2\<lparr>kernel_heap := h3, kmem := m3, streams := (streams ?s2)(p3 \<mapsto> start_of_disk)\<rparr>)"
    "p3 \<noteq> 0" "heap_wf h3" "has_run h3 k" "kept ?s2 (?s2\<lparr>kernel_heap := h3, kmem := m3\<rparr>)"
    "\<forall>q. live_block h3 q \<longleftrightarrow> q = p3 \<or> live_block h2 q" "\<not> live_block h2 p3"
    using stream_new [of ?s2 k] a2(3,4) by auto
  have run: "fat16_init_private fpr s = Some (s\<lparr>kernel_heap := h3, kmem := m3,
        streams := (streams s)(p1 \<mapsto> start_of_disk, p2 \<mapsto> start_of_disk, p3 \<mapsto> start_of_disk),
        fat_privates := (fat_privates s)(fpr \<mapsto> with_streams p1 p2 p3)\<rparr>)"
    using a1(1) a2(1) a3(1) assms(3,4) by (simp add: fat16_init_private_def with_streams_def)
  have kp: "kept s (s\<lparr>kernel_heap := h3, kmem := m3\<rparr>)"
    using a1(5) a2(5) a3(5) by (simp add: kept_def)
  have "\<forall>q. live_block h3 q \<longleftrightarrow> q \<in> {p1, p2, p3} \<or> live_block (kernel_heap s) q"
    using a1(6) a2(6) a3(6) by auto
  moreover have "distinct [p1, p2, p3]" "\<forall>q \<in> {p1, p2, p3}. \<not> live_block (kernel_heap s) q"
    using a1(6,7) a2(6,7) a3(7) by auto
  ultimately show ?thesis using run kp a1(2) a2(2) a3(2,3,4)
    by (rule_tac exI [of _ p1], rule_tac exI [of _ p2], rule_tac exI [of _ p3], rule_tac exI [of _ h3], rule_tac exI [of _ m3]) simp
qed

section \<open>The root directory\<close>

lemma kzalloc_same:
  assumes "kzalloc n s = Some (p, s\<lparr>kernel_heap := h, kmem := m\<rparr>)"
    and "kernel_heap t = kernel_heap s" and "kmem t = kmem s"
  shows "kzalloc n t = Some (p, t\<lparr>kernel_heap := h, kmem := m\<rparr>)"
proof -
  obtain h' where h': "heap_malloc (kernel_heap s) n = Some (p, h')"
    and eq: "s\<lparr>kernel_heap := h, kmem := m\<rparr> = (if p = 0 then s\<lparr>kernel_heap := h'\<rparr>
      else s\<lparr>kernel_heap := h', kmem := memset (kmem s) p 0 n\<rparr>)"
    using assms(1) by (auto simp: kzalloc_def kmalloc_def bind_eq_Some_conv split: if_splits)
  have "h = h'" "m = (if p = 0 then kmem s else memset (kmem s) p 0 n)"
    using arg_cong [OF eq, of kernel_heap] arg_cong [OF eq, of kmem] by (simp_all split: if_splits)
  then show ?thesis using h' assms(2,3) by (simp add: kzalloc_def kmalloc_def)
qed

lemma root_sizes:
  assumes "fat_volume img n"
  shows "hdr_fat_copies (image_header img) * hdr_sectors_per_fat (image_header img)
      + hdr_reserved_sectors (image_header img) = int (root_sector img)"
    and "hdr_root_dir_entries (image_header img) * 32 = int (root_bytes img)"
    and "root_sector img < 4194304" and "0 < root_bytes img" and "root_bytes img < 2147483648"
proof -
  have h: "0 \<le> hdr_fat_copies x" "0 \<le> hdr_sectors_per_fat x" "0 \<le> hdr_reserved_sectors x" "0 \<le> hdr_root_dir_entries x" for x
    using hdr_u8_range hdr_u16_range
    by (simp_all add: hdr_fat_copies_def hdr_sectors_per_fat_def hdr_reserved_sectors_def hdr_root_dir_entries_def)
  then show "hdr_fat_copies (image_header img) * hdr_sectors_per_fat (image_header img)
      + hdr_reserved_sectors (image_header img) = int (root_sector img)"
    by (simp add: root_sector_def Let_def)
  show "hdr_root_dir_entries (image_header img) * 32 = int (root_bytes img)" using h by (simp add: root_bytes_def)
  show "root_sector img < 4194304" "0 < root_bytes img" "root_bytes img < 2147483648"
    using assms by (simp_all add: fat_volume_def)
qed

lemma sectors_up: "int b sdiv 512 + (if int b smod 512 \<noteq> 0 then 1 else 0) = int ((b + 511) div 512)"
proof -
  have "int b sdiv 512 = int (b div 512)" "int b smod 512 = int (b mod 512)"
    by (cases "b = 0"; simp add: signed_divide_int_def signed_modulo_int_def zdiv_int zmod_int)+
  moreover have "(b + 511) div 512 = b div 512 + (if b mod 512 = 0 then 0 else 1)"
  proof -
    define q r where "q = b div 512" and "r = b mod 512"
    have b: "b = r + q * 512" "r < 512" by (simp_all add: q_def r_def)
    have "(r + 511) div 512 = (if r = 0 then 0 else 1)" using b(2) by (auto intro: div_nat_eqI)
    moreover have "(b + 511) div 512 = q + (r + 511) div 512" by (simp add: b(1) add.commute add.left_commute)
    ultimately show ?thesis by (simp add: q_def r_def)
  qed
  ultimately show ?thesis by simp
qed

lemma root_directory_spec:
  fixes s :: "'a fat_state_scheme"
  assumes "heap_wf (kernel_heap s)" and "has_run (kernel_heap s) (k + blocks_for (of_nat (root_bytes (disk_image s))))"
    and "fat_volume (disk_image s) n" and "fat_ok s fp" and "header fp = image_header (disk_image s)"
    and "fs_private (the_disk s) = fpr"
  shows "\<exists>dir h m m' st. fat16_get_root_directory fpr s = Some (0, s\<lparr>kernel_heap := h, kmem := m, streams := st,
        fat_privates := (fat_privates s)(fpr \<mapsto> fp\<lparr>root_directory :=
          \<lparr>dir_item = dir, dir_total = int (live_entries (disk_image s) n), sector_pos = int (root_sector (disk_image s)),
           ending_sector_pos = int (root_sector (disk_image s) + (root_bytes (disk_image s) + 511) div 512)\<rparr>\<rparr>)\<rparr>)
    \<and> dir \<noteq> 0 \<and> heap_wf h \<and> has_run h k \<and> kept s (s\<lparr>kernel_heap := h, kmem := m\<rparr>)
    \<and> kzalloc (of_nat (root_bytes (disk_image s))) s = Some (dir, s\<lparr>kernel_heap := h, kmem := m'\<rparr>)
    \<and> (\<forall>q. live_block h q \<longleftrightarrow> q = dir \<or> live_block (kernel_heap s) q)
    \<and> (\<forall>p. stream_ok s p \<longrightarrow> stream_ok (s\<lparr>streams := st\<rparr>) p)
    \<and> (\<forall>i < root_bytes (disk_image s). m (dir + of_nat i) = disk_image s (512 * root_sector (disk_image s) + i))"
proof -
  let ?img = "disk_image s" and ?rb = "root_bytes (disk_image s)" and ?rs = "root_sector (disk_image s)"
  let ?p = "directory_stream fp"
  note sz = root_sizes [OF assms(3)]
  have ok: "fat_privates s fpr = Some fp" "stream_ok s ?p" "sector_size (the_disk s) = 512"
    using assms(4,6) by (auto simp: fat_ok_def disk_private_def)
  have vol: "32 * n < ?rb" "512 * ?rs + ?rb < 2147483648" "entry_mark ?img (512 * ?rs) n = 0"
    "\<And>k. k < n \<Longrightarrow> entry_mark ?img (512 * ?rs) k \<noteq> 0" using assms(3) by (auto simp: fat_volume_def)
  have rb: "\<exists>e. ?rb = 32 * e" by (auto simp: root_bytes_def)
  then have fits: "512 * ?rs + 32 * (n + 1) < 2147483648" using vol(1,2) by auto
  have urs: "unat (word_of_int (int ?rs) :: u32) = ?rs" using sz(3) by (simp add: unat_of_nat)
  then have q: "unat (word_of_int (int ?rs) :: u32) * 512 = 512 * ?rs" by simp
  obtain s1 where t: "fat16_get_total_items_for_directory (word_of_int (int ?rs)) s = Some (int (live_entries ?img n), s1)"
      "moved s s1"
    using total_items_spec [OF assms(4) q fits vol(3,4)] unfolding live_entries_def by blast
  obtain st1 where s1: "s1 = s\<lparr>streams := st1\<rparr>" using t(2) by (auto simp: moved_def)
  have urb: "unat (of_nat ?rb :: u32) = ?rb" using sz(5) by (intro unat_of_nat_small) simp
  then have "(of_nat ?rb :: u32) \<noteq> 0" using sz(4) by (metis less_irrefl unat_0)
  moreover have "size_ok (of_nat ?rb)" using sz(5) by (simp add: size_ok_def urb)
  ultimately obtain dir h m' where k: "kzalloc (of_nat ?rb) s = Some (dir, s\<lparr>kernel_heap := h, kmem := m'\<rparr>)" "dir \<noteq> 0" "heap_wf h"
    "has_run h k" "\<forall>a. in_region dir (of_nat ?rb) a \<longrightarrow> free_byte (kernel_heap s) a \<and> \<not> free_byte h a \<and> m' a = 0"
    "\<forall>a. \<not> free_byte (kernel_heap s) a \<longrightarrow> \<not> free_byte h a \<and> m' a = kmem s a"
    "\<forall>q. live_block h q \<longleftrightarrow> q = dir \<or> live_block (kernel_heap s) q"
    using kzalloc_run [OF assms(1), of "of_nat ?rb" k] assms(2) by blast
  let ?s2 = "s1\<lparr>kernel_heap := h, kmem := m'\<rparr>"
  have k1: "kzalloc (of_nat ?rb) s1 = Some (dir, ?s2)" using kzalloc_same [OF k(1), of s1] by (simp add: s1)
  have st_ok: "stream_ok ?s2 ?p" using t(2) ok(2) by (auto simp: moved_def stream_ok_def)
  have addr: "fat16_sector_to_abs_address (int ?rs) ?s2 = int (512 * ?rs)"
  proof -
    have "s32 (int ?rs * 512) = int (512 * ?rs)" using sz(3) by (intro s32_id [THEN trans]) simp_all
    then show ?thesis by (simp add: fat16_sector_to_abs_address_def s1 ok(3))
  qed
  let ?s3 = "?s2\<lparr>streams := (streams ?s2)(?p \<mapsto> \<lparr>pos = int (512 * ?rs), stream_disk = GlobalDisk\<rparr>)\<rparr>"
  let ?bs = "image_slice ?img (512 * ?rs) ?rb"
  let ?s4 = "?s3\<lparr>streams := (streams ?s3)(?p \<mapsto> \<lparr>pos = int (512 * ?rs + ?rb), stream_disk = GlobalDisk\<rparr>)\<rparr>"
  have rd: "diskstream_read ?p (int ?rb) ?s3 = Some (0, ?bs, ?s4)"
    using read_ok [of ?s3 ?p "512 * ?rs" ?rb] vol(2) by (simp add: s1)
  let ?m = "write_bytes m' dir ?bs"
  let ?st = "(streams s1)(?p \<mapsto> \<lparr>pos = int (512 * ?rs + ?rb), stream_disk = GlobalDisk\<rparr>)"
  let ?r = "\<lparr>dir_item = dir, dir_total = int (live_entries ?img n), sector_pos = int ?rs,
      ending_sector_pos = int (?rs + (?rb + 511) div 512)\<rparr>"
  have run: "fat16_get_root_directory fpr s = Some (0, s\<lparr>kernel_heap := h, kmem := ?m, streams := ?st,
        fat_privates := (fat_privates s)(fpr \<mapsto> fp\<lparr>root_directory := ?r\<rparr>)\<rparr>)"
  proof -
    have us: "uint sizeof_fat_directory_item = 32" by (simp add: sizeof_fat_directory_item_def)
    have w: "(word_of_int (int ?rb) :: u32) = of_nat ?rb" by simp
    have fin: "fat_privates ?s4 fpr = Some fp" by (simp add: s1 ok(1))
    have "fat16_get_root_directory fpr s = Some (0, (?s4\<lparr>kmem := ?m\<rparr>)\<lparr>fat_privates := (fat_privates (?s4\<lparr>kmem := ?m\<rparr>))(fpr \<mapsto>
        fp\<lparr>root_directory := \<lparr>dir_item = dir, dir_total = int (live_entries ?img n), sector_pos = int ?rs,
          ending_sector_pos = int ?rs + int ((?rb + 511) div 512)\<rparr>\<rparr>)\<rparr>)"
      unfolding fat16_get_root_directory_def Let_def ok(1,3) bind.bind_lunit assms(5) us sz(1,2) sectors_up t(1) w k1 prod.case
        addr seek_ok [OF st_ok] rd EOK_def
      using k(2) fin by simp
    then show ?thesis by (simp add: s1)
  qed
  have len: "length ?bs \<le> 2 ^ 32" using sz(5) by simp
  have reg: "in_region dir (of_nat ?rb) a \<longleftrightarrow> unat (a - dir) < ?rb" for a
    by (simp add: in_region_def word_less_nat_alt urb)
  have out: "?m a = m' a" if "\<not> in_region dir (of_nat ?rb) a" for a
    using that write_bytes_spec [OF len, of m' dir a] by (simp add: reg)
  have kp: "kept s (s\<lparr>kernel_heap := h, kmem := ?m\<rparr>)"
    using k(5,6) out unfolding kept_def by simp metis
  have bytes: "?m (dir + of_nat i) = ?img (512 * ?rs + i)" if "i < ?rb" for i
  proof -
    have "unat (of_nat i :: u32) = i" using that sz(5) by (intro unat_of_nat_small) simp
    then show ?thesis using write_bytes_spec [OF len, of m' dir "dir + of_nat i"] that by simp
  qed
  have sok: "\<forall>p. stream_ok s p \<longrightarrow> stream_ok (s\<lparr>streams := ?st\<rparr>) p"
    using t(2) by (auto simp: moved_def stream_ok_def)
  show ?thesis
    using run k(1-4,7) kp bytes sok
    by (rule_tac exI [of _ dir], rule_tac exI [of _ h], rule_tac exI [of _ ?m], rule_tac exI [of _ m'], rule_tac exI [of _ ?st])
      blast
qed

section \<open>Mounting\<close>

text \<open>The private data once the header is read and the geometry computed.\<close>

lemma geometry:
  assumes "0 < hdr_sectors_per_cluster (image_header img)"
  shows "with_geometry 512 ((with_streams crs frs drs)\<lparr>header := image_header img\<rparr>)
      = (mounted_private img n dir crs frs drs)\<lparr>root_directory := empty_directory\<rparr>"
    and "unat (word_of_int (hdr_reserved_sectors (image_header img)) * 512 :: u32) + 131072 < 2147483648"
proof -
  have c: "hdr_sectors_per_cluster (image_header img) < 256"
    using hdr_u8_range by (simp add: hdr_sectors_per_cluster_def)
  have "s32 (hdr_sectors_per_cluster (image_header img) * 512) = hdr_sectors_per_cluster (image_header img) * 512"
    using c assms by (intro s32_id) simp_all
  then show "with_geometry 512 ((with_streams crs frs drs)\<lparr>header := image_header img\<rparr>)
      = (mounted_private img n dir crs frs drs)\<lparr>root_directory := empty_directory\<rparr>"
    by (simp add: with_geometry_def with_streams_def mounted_private_def Let_def)
  obtain r where r: "hdr_reserved_sectors (image_header img) = int r" "r < 65536"
    using hdr_u16_range [of "image_header img" 14] by (auto simp: hdr_reserved_sectors_def dest!: zero_le_imp_eq_int)
  have "unat (of_nat r * 512 :: u32) = r * 512" using r(2) by (simp add: unat_word_ariths unat_of_nat)
  then show "unat (word_of_int (hdr_reserved_sectors (image_header img)) * 512 :: u32) + 131072 < 2147483648"
    using r by simp
qed

lemma mounted_simps [simp]:
  "header (mounted_private img n dir crs frs drs) = image_header img"
  "cluster_read_stream (mounted_private img n dir crs frs drs) = crs"
  "fat_read_stream (mounted_private img n dir crs frs drs) = frs"
  "directory_stream (mounted_private img n dir crs frs drs) = drs"
  "dir_item (root_directory (mounted_private img n dir crs frs drs)) = dir"
  "dir_total (root_directory (mounted_private img n dir crs frs drs)) = int (live_entries img n)"
  "bytes_per_cluster (mounted_private img n dir crs frs drs) = hdr_sectors_per_cluster (image_header img) * 512"
  "fat_table_address (mounted_private img n dir crs frs drs) = word_of_int (hdr_reserved_sectors (image_header img)) * 512"
  "ending_sector_pos (root_directory (mounted_private img n dir crs frs drs))
     = int (root_sector img + (root_bytes img + 511) div 512)"
  by (simp_all add: mounted_private_def)

lemma mounted_fat_ok:
  assumes "fat_volume img n" and "fat_privates s (fs_private (the_disk s)) = Some fp"
    and "fp = mounted_private img n dir crs frs drs \<or> fp = (mounted_private img n dir crs frs drs)\<lparr>root_directory := empty_directory\<rparr>"
    and "stream_ok s crs" and "stream_ok s frs" and "stream_ok s drs" and "sector_size (the_disk s) = 512"
  shows "fat_ok s fp"
proof -
  have "0 < hdr_sectors_per_cluster (image_header img)" using assms(1) by (simp add: fat_volume_def)
  with geometry(2) [OF this] assms show ?thesis
    by (auto simp: fat_ok_def disk_private_def spc_def empty_directory_def)
qed

text \<open>
  The first half of \<open>fat16_resolve\<close>: the private data at \<open>fpr\<close>, its three streams and the
  stream \<open>p\<close> the header is read through.
\<close>

definition half_mounted :: "'a fat_state_scheme \<Rightarrow> heap \<Rightarrow> mem \<Rightarrow> u32 \<Rightarrow> u32 \<Rightarrow> fat_private \<Rightarrow> 'a fat_state_scheme" where
  "half_mounted s h m fpr p fp =
     s\<lparr>kernel_heap := h, kmem := m,
       streams := (streams s)(cluster_read_stream fp \<mapsto> start_of_disk, fat_read_stream fp \<mapsto> start_of_disk,
         directory_stream fp \<mapsto> start_of_disk, p \<mapsto> \<lparr>pos = int sizeof_fat_header, stream_disk = GlobalDisk\<rparr>),
       fat_privates := (fat_privates s)(fpr \<mapsto> fp),
       the_disk := (the_disk s)\<lparr>fs_private := fpr, filesystem := Some Fat16_Fs\<rparr>\<rparr>"

abbreviation with_header :: "u8 list \<Rightarrow> u32 \<Rightarrow> u32 \<Rightarrow> u32 \<Rightarrow> fat_private" where
  "with_header bs crs frs drs \<equiv> (with_streams crs frs drs)\<lparr>header := bs\<rparr>"

lemma resolve_start:
  fixes s :: "'a fat_state_scheme"
  assumes "heap_wf (kernel_heap s)" and "has_run (kernel_heap s) (k + 5)" and "disk_id (the_disk s) = 0"
  shows "\<exists>fpr crs frs drs p h2 m2 h m.
      fat16_resolve s = (let fp = with_header (image_header (disk_image s)) crs frs drs in
        if hdr_signature (image_header (disk_image s)) \<noteq> NUTOS_FAT16_SIGNATURE
        then resolve_out (- EINVALID) p fpr (half_mounted s h m fpr p fp)
        else do {
          (r', s8) \<leftarrow> fat16_get_root_directory fpr (half_mounted s h m fpr p (with_geometry (sector_size (the_disk s)) fp));
          resolve_out (if r' \<noteq> EOK then - EIO else 0) p fpr s8
        })
    \<and> distinct [fpr, crs, frs, drs, p] \<and> 0 \<notin> {fpr, crs, frs, drs, p} \<and> heap_wf h2 \<and> heap_wf h \<and> has_run h k
    \<and> kept s (s\<lparr>kernel_heap := h2, kmem := m2\<rparr>) \<and> kept s (s\<lparr>kernel_heap := h, kmem := m\<rparr>)
    \<and> kzalloc sizeof_disk_stream (s\<lparr>kernel_heap := h2, kmem := m2\<rparr>) = Some (p, s\<lparr>kernel_heap := h, kmem := m\<rparr>)
    \<and> (\<forall>q \<in> {fpr, crs, frs, drs, p}. \<not> live_block (kernel_heap s) q)
    \<and> (\<forall>q. live_block h q \<longleftrightarrow> q \<in> {fpr, crs, frs, drs, p} \<or> live_block (kernel_heap s) q)"
proof -
  let ?img = "disk_image s"
  have n: "sizeof_fat_private \<noteq> 0" "size_ok sizeof_fat_private" "blocks_for sizeof_fat_private = 1"
    using blocks_for_small [of 104] by (simp_all add: sizeof_fat_private_def size_ok_def)
  have r0: "has_run (kernel_heap s) (k + 4 + blocks_for sizeof_fat_private)"
    by (rule has_run_mono [OF assms(2)]) (use n(3) in linarith)
  obtain fpr h0 m0 where a0: "kzalloc sizeof_fat_private s = Some (fpr, s\<lparr>kernel_heap := h0, kmem := m0\<rparr>)" "fpr \<noteq> 0" "heap_wf h0"
    "has_run h0 (k + 4)" "\<forall>a. \<not> free_byte (kernel_heap s) a \<longrightarrow> \<not> free_byte h0 a \<and> m0 a = kmem s a"
    "\<not> live_block (kernel_heap s) fpr" "\<forall>q. live_block h0 q \<longleftrightarrow> q = fpr \<or> live_block (kernel_heap s) q"
    using kzalloc_run [OF assms(1) n(1,2) r0] by blast
  let ?s1 = "s\<lparr>kernel_heap := h0, kmem := m0\<rparr>"
  have r1: "has_run (kernel_heap ?s1) (k + 1 + 3)" using has_run_mono [OF a0(4), of "k + 1 + 3"] by simp
  obtain crs frs drs h2 m2 where a2: "fat16_init_private fpr ?s1 = Some (?s1\<lparr>kernel_heap := h2, kmem := m2,
        streams := (streams ?s1)(crs \<mapsto> start_of_disk, frs \<mapsto> start_of_disk, drs \<mapsto> start_of_disk),
        fat_privates := (fat_privates ?s1)(fpr \<mapsto> with_streams crs frs drs)\<rparr>)"
    "crs \<noteq> 0" "frs \<noteq> 0" "drs \<noteq> 0" "heap_wf h2" "has_run h2 (k + 1)" "kept ?s1 (?s1\<lparr>kernel_heap := h2, kmem := m2\<rparr>)"
    "distinct [crs, frs, drs]" "\<forall>q \<in> {crs, frs, drs}. \<not> live_block h0 q"
    "\<forall>q. live_block h2 q \<longleftrightarrow> q \<in> {crs, frs, drs} \<or> live_block h0 q"
    using init_private_spec [of ?s1, OF _ r1 a0(2)] a0(3) assms(3) by auto
  let ?d = "(the_disk s)\<lparr>fs_private := fpr, filesystem := Some Fat16_Fs\<rparr>"
  let ?s3 = "s\<lparr>kernel_heap := h2, kmem := m2, streams := (streams s)(crs \<mapsto> start_of_disk, frs \<mapsto> start_of_disk, drs \<mapsto> start_of_disk),
      fat_privates := (fat_privates s)(fpr \<mapsto> with_streams crs frs drs), the_disk := ?d\<rparr>"
  obtain p h m where a4: "diskstream_new 0 ?s3 = Some (p, ?s3\<lparr>kernel_heap := h, kmem := m, streams := (streams ?s3)(p \<mapsto> start_of_disk)\<rparr>)"
    "kzalloc sizeof_disk_stream ?s3 = Some (p, ?s3\<lparr>kernel_heap := h, kmem := m\<rparr>)"
    "p \<noteq> 0" "heap_wf h" "has_run h k" "kept ?s3 (?s3\<lparr>kernel_heap := h, kmem := m\<rparr>)"
    "\<not> live_block h2 p" "\<forall>q. live_block h q \<longleftrightarrow> q = p \<or> live_block h2 q"
    using stream_new [of ?s3 k] a2(5,6) by auto
  have run: "fat16_resolve s = (let fp = with_header (image_header ?img) crs frs drs in
        if hdr_signature (image_header ?img) \<noteq> NUTOS_FAT16_SIGNATURE
        then resolve_out (- EINVALID) p fpr (half_mounted s h m fpr p fp)
        else do {
          (r', s8) \<leftarrow> fat16_get_root_directory fpr (half_mounted s h m fpr p (with_geometry (sector_size (the_disk s)) fp));
          resolve_out (if r' \<noteq> EOK then - EIO else 0) p fpr s8
        })"
  proof -
    let ?s2 = "?s1\<lparr>kernel_heap := h2, kmem := m2, streams := (streams ?s1)(crs \<mapsto> start_of_disk, frs \<mapsto> start_of_disk, drs \<mapsto> start_of_disk),
        fat_privates := (fat_privates ?s1)(fpr \<mapsto> with_streams crs frs drs)\<rparr>"
    let ?s4 = "?s3\<lparr>kernel_heap := h, kmem := m, streams := (streams ?s3)(p \<mapsto> start_of_disk)\<rparr>"
    let ?s5 = "?s4\<lparr>streams := (streams ?s4)(p \<mapsto> \<lparr>pos = int (0 + sizeof_fat_header), stream_disk = GlobalDisk\<rparr>)\<rparr>"
    let ?p1 = "with_header (image_header ?img) crs frs drs"
    have s3: "?s2\<lparr>the_disk := (the_disk ?s2)\<lparr>fs_private := fpr, filesystem := Some Fat16_Fs\<rparr>\<rparr> = ?s3" by simp
    have id: "disk_id (the_disk ?s3) = 0" using assms(3) by simp
    have rd: "diskstream_read p (int sizeof_fat_header) ?s4 = Some (0, image_header ?img, ?s5)"
      using read_ok [of ?s4 p 0 sizeof_fat_header] by (simp add: image_header_def sizeof_fat_header_def)
    have p5: "fat_privates ?s5 fpr = Some (with_streams crs frs drs)" by simp
    have hd: "image_header ?img @ drop (length (image_header ?img)) (header (with_streams crs frs drs)) = image_header ?img"
      by (simp add: with_streams_def image_header_def)
    have s6: "?s5\<lparr>fat_privates := (fat_privates ?s5)(fpr \<mapsto> ?p1)\<rparr> = half_mounted s h m fpr p ?p1"
      by (simp add: half_mounted_def with_streams_def)
    have sz: "sector_size (the_disk (half_mounted s h m fpr p ?p1)) = sector_size (the_disk s)" by (simp add: half_mounted_def)
    have s7: "(half_mounted s h m fpr p ?p1)\<lparr>fat_privates := (fat_privates (half_mounted s h m fpr p ?p1))(fpr \<mapsto>
        with_geometry (sector_size (the_disk s)) ?p1)\<rparr> = half_mounted s h m fpr p (with_geometry (sector_size (the_disk s)) ?p1)"
      by (simp add: half_mounted_def with_geometry_def with_streams_def Let_def)
    have hp: "header ?p1 = image_header ?img" by simp
    have pnz: "\<not> p = 0" and ok: "\<not> (0 :: int) \<noteq> 0" using a4(3) by simp_all
    show ?thesis
      unfolding fat16_resolve_def a0(1) bind.bind_lunit prod.case a2(1) Let_def s3 id a4(1) rd p5 hd
      unfolding if_not_P [OF pnz] EOK_def if_not_P [OF ok] s6 sz s7 hp ..
  qed
  have k2: "kzalloc sizeof_disk_stream (s\<lparr>kernel_heap := h2, kmem := m2\<rparr>) = Some (p, s\<lparr>kernel_heap := h, kmem := m\<rparr>)"
    using kzalloc_same [OF a4(2), of "s\<lparr>kernel_heap := h2, kmem := m2\<rparr>"] by simp
  have kp: "kept s (s\<lparr>kernel_heap := h2, kmem := m2\<rparr>)" "kept s (s\<lparr>kernel_heap := h, kmem := m\<rparr>)"
    using a0(5) a2(7) a4(6) by (simp_all add: kept_def)
  have dist: "distinct [fpr, crs, frs, drs, p]" "\<forall>q \<in> {fpr, crs, frs, drs, p}. \<not> live_block (kernel_heap s) q"
    "\<forall>q. live_block h q \<longleftrightarrow> q \<in> {fpr, crs, frs, drs, p} \<or> live_block (kernel_heap s) q"
    using a0(6,7) a2(8-10) a4(7,8) by auto
  from run k2 kp dist a0(2) a2(2-5) a4(3-5) show ?thesis
    by (rule_tac exI [of _ fpr], rule_tac exI [of _ crs], rule_tac exI [of _ frs], rule_tac exI [of _ drs], rule_tac exI [of _ p],
        rule_tac exI [of _ h2], rule_tac exI [of _ m2], rule_tac exI [of _ h], rule_tac exI [of _ m]) simp
qed

text \<open>Releasing the header's stream exposes nothing that was taken before it or after it.\<close>

lemma stream_release:
  fixes s :: "'a kheap_state_scheme"
  assumes "heap_wf h2" and "heap_wf h" and "heap_wf h8" and "p \<noteq> 0" and "dir \<noteq> 0" and "rb \<noteq> 0" and "size_ok rb"
    and "kzalloc sizeof_disk_stream (s\<lparr>kernel_heap := h2, kmem := m2\<rparr>) = Some (p, s\<lparr>kernel_heap := h, kmem := m\<rparr>)"
    and "kzalloc rb (s\<lparr>kernel_heap := h, kmem := m\<rparr>) = Some (dir, s\<lparr>kernel_heap := h8, kmem := m8\<rparr>)"
    and "live_block h8 p" and "kfree p t = Some (t\<lparr>kernel_heap := h9\<rparr>)" and "kernel_heap t = h8"
    and "\<not> free_byte h2 a \<or> in_region dir rb a"
  shows "\<not> free_byte h9 a"
proof -
  let ?t2 = "s\<lparr>kernel_heap := h8, kmem := m8\<rparr>"
  have ds: "size_ok sizeof_disk_stream" "sizeof_disk_stream \<noteq> 0" by (simp_all add: sizeof_disk_stream_def size_ok_def)
  have "heap_free h8 p = Some h9"
    using assms(11,12) by (auto simp: kfree_def bind_eq_Some_conv dest!: arg_cong [of _ _ kernel_heap])
  then have "kfree p ?t2 = Some (?t2\<lparr>kernel_heap := h9\<rparr>)" by (simp add: kfree_def)
  from kze.temporary_block [OF _ ds assms(8,4) _ assms(7,6,9,5) _ _ this, of a] assms(1-3,10,13) show ?thesis by simp
qed

lemma fat16_resolve_spec:
  fixes s :: "'a fat_state_scheme"
  assumes "heap_wf (kernel_heap s)" and "fat_volume (disk_image s) n"
    and "has_run (kernel_heap s) (k + blocks_for (of_nat (root_bytes (disk_image s))) + 5)"
    and "disk_id (the_disk s) = 0" and "sector_size (the_disk s) = 512"
  shows "\<exists>fpr dir crs frs drs h m st. let fp = mounted_private (disk_image s) n dir crs frs drs;
        s' = s\<lparr>kernel_heap := h, kmem := m, streams := st, fat_privates := (fat_privates s)(fpr \<mapsto> fp),
               the_disk := (the_disk s)\<lparr>fs_private := fpr, filesystem := Some Fat16_Fs\<rparr>\<rparr>
      in fat16_resolve s = Some (0, s') \<and> fat_ok s' fp \<and> heap_wf h \<and> has_run h k \<and> kept s s'
        \<and> (\<forall>i < root_bytes (disk_image s). free_byte (kernel_heap s) (dir + of_nat i) \<and> \<not> free_byte h (dir + of_nat i)
              \<and> m (dir + of_nat i) = disk_image s (512 * root_sector (disk_image s) + i))"
proof -
  let ?img = "disk_image s"
  let ?rb = "of_nat (root_bytes ?img) :: u32"
  let ?r = "blocks_for ?rb"
  note vol = assms(2)
  have spc: "0 < hdr_sectors_per_cluster (image_header ?img)" using vol by (simp add: fat_volume_def)
  obtain fpr crs frs drs p h2 m2 h4 m4 where
    start: "fat16_resolve s = (let fp = with_header (image_header ?img) crs frs drs in
        if hdr_signature (image_header ?img) \<noteq> NUTOS_FAT16_SIGNATURE
        then resolve_out (- EINVALID) p fpr (half_mounted s h4 m4 fpr p fp)
        else do {
          (r', s8) \<leftarrow> fat16_get_root_directory fpr (half_mounted s h4 m4 fpr p (with_geometry (sector_size (the_disk s)) fp));
          resolve_out (if r' \<noteq> EOK then - EIO else 0) p fpr s8
        })"
    and ne: "distinct [fpr, crs, frs, drs, p]" "0 \<notin> {fpr, crs, frs, drs, p}"
    and a4: "heap_wf h2" "heap_wf h4" "has_run h4 (k + ?r)" "kept s (s\<lparr>kernel_heap := h2, kmem := m2\<rparr>)" "kept s (s\<lparr>kernel_heap := h4, kmem := m4\<rparr>)"
      "kzalloc sizeof_disk_stream (s\<lparr>kernel_heap := h2, kmem := m2\<rparr>) = Some (p, s\<lparr>kernel_heap := h4, kmem := m4\<rparr>)"
      "\<forall>q. live_block h4 q \<longleftrightarrow> q \<in> {fpr, crs, frs, drs, p} \<or> live_block (kernel_heap s) q"
    using resolve_start [OF assms(1,3,4)] by blast
  let ?fp7 = "(mounted_private ?img n 0 crs frs drs)\<lparr>root_directory := empty_directory\<rparr>"
  let ?s7 = "half_mounted s h4 m4 fpr p ?fp7"
  have sok7: "stream_ok ?s7 crs" "stream_ok ?s7 frs" "stream_ok ?s7 drs"
    using ne by (auto simp: stream_ok_def half_mounted_def)
  have f7: "fat_ok ?s7 ?fp7"
    using vol sok7 assms(5) by (intro mounted_fat_ok [where img = ?img and n = n and dir = 0 and crs = crs and frs = frs and drs = drs])
      (simp_all add: half_mounted_def)
  obtain dir h8 m8 m8' st8 where a8: "fat16_get_root_directory fpr ?s7 = Some (0, ?s7\<lparr>kernel_heap := h8, kmem := m8, streams := st8,
        fat_privates := (fat_privates ?s7)(fpr \<mapsto> ?fp7\<lparr>root_directory :=
          \<lparr>dir_item = dir, dir_total = int (live_entries ?img n), sector_pos = int (root_sector ?img),
           ending_sector_pos = int (root_sector ?img + (root_bytes ?img + 511) div 512)\<rparr>\<rparr>)\<rparr>)"
    "dir \<noteq> 0" "heap_wf h8" "has_run h8 k" "kept ?s7 (?s7\<lparr>kernel_heap := h8, kmem := m8\<rparr>)"
    "kzalloc ?rb ?s7 = Some (dir, ?s7\<lparr>kernel_heap := h8, kmem := m8'\<rparr>)"
    "\<forall>q. live_block h8 q \<longleftrightarrow> q = dir \<or> live_block h4 q"
    "\<forall>p. stream_ok ?s7 p \<longrightarrow> stream_ok (?s7\<lparr>streams := st8\<rparr>) p"
    "\<forall>i < root_bytes ?img. m8 (dir + of_nat i) = ?img (512 * root_sector ?img + i)"
    using root_directory_spec [of ?s7 k n ?fp7 fpr] a4(2,3) vol f7 by (auto simp: half_mounted_def)
  let ?fp = "mounted_private ?img n dir crs frs drs"
  let ?d = "(the_disk s)\<lparr>fs_private := fpr, filesystem := Some Fat16_Fs\<rparr>"
  let ?s8 = "s\<lparr>kernel_heap := h8, kmem := m8, streams := st8, fat_privates := (fat_privates s)(fpr \<mapsto> ?fp), the_disk := ?d\<rparr>"
  have root: "fat16_get_root_directory fpr ?s7 = Some (0, ?s8)"
    using a8(1) by (simp add: mounted_private_def half_mounted_def)
  have lp: "live_block h8 p" using a8(7) a4(7) by blast
  obtain h9 where h9: "kfree p ?s8 = Some (?s8\<lparr>kernel_heap := h9\<rparr>)" "heap_wf h9" "has_run h9 k"
    using kfree_run [of ?s8 p] a8(3,4) lp by auto
  let ?s9 = "s\<lparr>kernel_heap := h9, kmem := m8, streams := st8(p := None), fat_privates := (fat_privates s)(fpr \<mapsto> ?fp), the_disk := ?d\<rparr>"
  have run: "fat16_resolve s = Some (0, ?s9)"
    using start vol root h9(1) ne(2) geometry(1) [OF spc, of crs frs drs n 0]
    by (simp add: assms(5) fat_volume_def resolve_out_def diskstream_close_def ISERR_def EOK_def Let_def)
  have k8: "kzalloc ?rb (s\<lparr>kernel_heap := h4, kmem := m4\<rparr>) = Some (dir, s\<lparr>kernel_heap := h8, kmem := m8'\<rparr>)"
    using kzalloc_same [OF a8(6), of "s\<lparr>kernel_heap := h4, kmem := m4\<rparr>"] by (simp add: half_mounted_def)
  have urb: "unat ?rb = root_bytes ?img" using root_sizes(5) [OF vol] by (intro unat_of_nat_small) simp
  have rb: "?rb \<noteq> 0" "size_ok ?rb" using root_sizes(4,5) [OF vol] urb by (auto simp: size_ok_def)
  have pnz: "p \<noteq> 0" using ne(2) by auto
  note taken = stream_release [OF a4(1,2) a8(3) pnz a8(2) rb a4(6) k8 lp h9(1)]
  have m8: "\<forall>a. \<not> free_byte (kernel_heap s) a \<longrightarrow> m8 a = kmem s a"
    using a4(5) a8(5) by (simp add: kept_def half_mounted_def)
  have kp: "kept s ?s9" using m8 a4(4) taken by (simp add: kept_def)
  have dir: "free_byte (kernel_heap s) (dir + of_nat i) \<and> \<not> free_byte h9 (dir + of_nat i)" if "i < root_bytes ?img" for i
  proof -
    have "unat (of_nat i :: u32) = i" using root_sizes(5) [OF vol] that by (simp add: unat_of_nat_small)
    then have r: "in_region dir ?rb (dir + of_nat i)" using that urb by (simp add: in_region_def word_less_nat_alt)
    have w: "heap_wf (kernel_heap (s\<lparr>kernel_heap := h4, kmem := m4\<rparr>))" using a4(2) by simp
    have "free_byte h4 (dir + of_nat i)" using kz.alloc_fresh [OF w rb(2) k8 a8(2) r] by simp
    then show ?thesis using r a4(5) taken [of "dir + of_nat i"] by (auto simp: kept_def)
  qed
  have "stream_ok ?s9 crs" "stream_ok ?s9 frs" "stream_ok ?s9 drs"
    using a8(8) sok7 ne(1) by (auto simp: stream_ok_def half_mounted_def)
  then have "fat_ok ?s9 ?fp" using vol assms(5) by (intro mounted_fat_ok [where img = ?img and n = n and dir = dir and crs = crs and frs = frs and drs = drs]) simp_all
  with run h9(2,3) kp dir a8(9) show ?thesis
    unfolding Let_def
    by (rule_tac exI [of _ fpr], rule_tac exI [of _ dir], rule_tac exI [of _ crs], rule_tac exI [of _ frs], rule_tac exI [of _ drs],
        rule_tac exI [of _ h9], rule_tac exI [of _ m8], rule_tac exI [of _ "st8(p := None)"]) simp
qed

text \<open>A disk without the signature: the private data is released, the driver's streams are not.\<close>

lemma fat16_resolve_unsigned:
  fixes s :: "'a fat_state_scheme"
  assumes "heap_wf (kernel_heap s)" and "has_run (kernel_heap s) (k + 5)" and "disk_id (the_disk s) = 0"
    and "hdr_signature (image_header (disk_image s)) \<noteq> NUTOS_FAT16_SIGNATURE"
  shows "\<exists>s' crs frs drs. fat16_resolve s = Some (- EINVALID, s') \<and> fs_private (the_disk s') = 0 \<and> heap_wf (kernel_heap s')
    \<and> (\<forall>a. \<not> free_byte (kernel_heap s) a \<longrightarrow> kmem s' a = kmem s a)
    \<and> distinct [crs, frs, drs] \<and> (\<forall>q \<in> {crs, frs, drs}. \<not> live_block (kernel_heap s) q)
    \<and> (\<forall>q. live_block (kernel_heap s') q \<longleftrightarrow> q \<in> {crs, frs, drs} \<or> live_block (kernel_heap s) q)"
proof -
  let ?img = "disk_image s"
  obtain fpr crs frs drs p h m where
    start: "fat16_resolve s = (let fp = with_header (image_header ?img) crs frs drs in
        if hdr_signature (image_header ?img) \<noteq> NUTOS_FAT16_SIGNATURE
        then resolve_out (- EINVALID) p fpr (half_mounted s h m fpr p fp)
        else do {
          (r', s8) \<leftarrow> fat16_get_root_directory fpr (half_mounted s h m fpr p (with_geometry (sector_size (the_disk s)) fp));
          resolve_out (if r' \<noteq> EOK then - EIO else 0) p fpr s8
        })"
    and ne: "distinct [fpr, crs, frs, drs, p]" "0 \<notin> {fpr, crs, frs, drs, p}"
    and a: "heap_wf h" "kept s (s\<lparr>kernel_heap := h, kmem := m\<rparr>)"
      "\<forall>q \<in> {fpr, crs, frs, drs, p}. \<not> live_block (kernel_heap s) q"
      "\<forall>q. live_block h q \<longleftrightarrow> q \<in> {fpr, crs, frs, drs, p} \<or> live_block (kernel_heap s) q"
    using resolve_start [OF assms(1-3)] by blast
  let ?s1 = "half_mounted s h m fpr p (with_header (image_header ?img) crs frs drs)"
  have h1: "kernel_heap ?s1 = h" by (simp add: half_mounted_def)
  obtain h2 where k1: "kfree p ?s1 = Some (?s1\<lparr>kernel_heap := h2\<rparr>)" "heap_wf h2"
    "\<forall>q. live_block h2 q \<longleftrightarrow> live_block h q \<and> q \<noteq> p"
    using kfree_live [of ?s1 p] a(1,4) unfolding h1 by auto
  let ?s2 = "?s1\<lparr>kernel_heap := h2, streams := (streams ?s1)(p := None)\<rparr>"
  obtain h3 where k2: "kfree fpr ?s2 = Some (?s2\<lparr>kernel_heap := h3\<rparr>)" "heap_wf h3"
    "\<forall>q. live_block h3 q \<longleftrightarrow> live_block h2 q \<and> q \<noteq> fpr"
    using kfree_live [of ?s2 fpr] a(4) k1(2,3) ne(1) by auto
  let ?s3 = "?s2\<lparr>kernel_heap := h3, fat_privates := (fat_privates ?s2)(fpr := None), the_disk := (the_disk ?s2)\<lparr>fs_private := 0\<rparr>\<rparr>"
  have "fat16_resolve s = Some (- EINVALID, ?s3)"
    using start assms(4) k1(1) k2(1) ne(2)
    by (simp add: resolve_out_def diskstream_close_def ISERR_def EINVALID_def Let_def)
  moreover have "kmem ?s3 = m" by (simp add: half_mounted_def)
  ultimately show ?thesis using a ne(1) k1(3) k2(2,3)
    by (rule_tac exI [of _ ?s3], rule_tac exI [of _ crs], rule_tac exI [of _ frs], rule_tac exI [of _ drs])
      (auto simp: kept_def)
qed

end
