(* ===== verification/Fat16_Demo.thy ===== *)
theory Fat16_Demo
  imports Fat16_Mount
begin

text \<open>
  A small FAT16 volume on which the statements about the driver are instantiated: one reserved
  sector, one table of one sector, 16 root entries, one sector per cluster. The chain of
  cluster 2 runs through clusters 2 to 9; data sectors hold their own number in each byte.
\<close>

section \<open>The image\<close>

definition demo_header :: "u8 list" where
  "demo_header = (replicate 62 0)[13 := 1, 14 := 1, 16 := 1, 17 := 16, 22 := 1, 38 := 0x29]"

definition demo_link :: "nat \<Rightarrow> nat" where
  "demo_link c = (if 2 \<le> c \<and> c \<le> 8 then c + 1 else if c = 9 then 65535 else 0)"

definition demo_image :: "u8 list \<Rightarrow> nat \<Rightarrow> u8" where
  "demo_image rs a =
     (if a < 512 then (if a < 62 then demo_header ! a else 0)
      else if a < 1024 then
        (let e = demo_link ((a - 512) div 2) in if even a then of_nat e else of_nat (e div 256))
      else if a < 1536 then (if a - 1024 < length rs then rs ! (a - 1024) else 0)
      else of_nat (a div 512))"

text \<open>Two entries: the file \<^verbatim>\<open>AB.C\<close> of 4096 bytes from cluster 2 on, and a deleted one.\<close>

definition demo_file :: "u8 list" where
  "demo_file = [65, 66, 32, 32, 32, 32, 32, 32, 67, 32, 32, 0x20] @ replicate 14 0 @ [2, 0, 0, 16, 0, 0]"

definition demo_deleted :: "u8 list" where
  "demo_deleted = 0xE5 # replicate 31 1"

lemma length_demo [simp]: "length demo_file = 32" "length demo_deleted = 32" "length demo_header = 62"
  by (simp_all add: demo_file_def demo_deleted_def demo_header_def)

lemma demo_image_header: "image_header (demo_image rs) = demo_header"
  by (rule nth_equalityI)
    (simp_all add: image_header_def sizeof_fat_header_def demo_image_def)

lemma demo_hdr [simp]:
  "hdr_signature demo_header = 0x29" "hdr_sectors_per_cluster demo_header = 1" "hdr_reserved_sectors demo_header = 1"
  "hdr_fat_copies demo_header = 1" "hdr_root_dir_entries demo_header = 16" "hdr_sectors_per_fat demo_header = 1"
  by (simp_all add: demo_header_def hdr_signature_def hdr_sectors_per_cluster_def hdr_reserved_sectors_def
      hdr_fat_copies_def hdr_root_dir_entries_def hdr_sectors_per_fat_def hdr_u8_def hdr_u16_def le16_def)

lemma demo_root [simp]: "root_sector (demo_image rs) = 2" "root_bytes (demo_image rs) = 512"
  by (simp_all add: root_sector_def root_bytes_def demo_image_header Let_def)

lemma demo_entry:
  assumes "a < length rs" and "length rs \<le> 512"
  shows "demo_image rs (1024 + a) = rs ! a"
  using assms by (simp add: demo_image_def)

lemma demo_volume_file: "fat_volume (demo_image demo_file) 1" "live_entries (demo_image demo_file) 1 = 1"
proof -
  have m: "entry_mark (demo_image demo_file) 1024 0 = 65" "entry_mark (demo_image demo_file) 1024 1 = 0"
    by (simp_all add: entry_mark_def demo_image_def demo_file_def)
  then show "fat_volume (demo_image demo_file) 1"
    by (simp add: fat_volume_def demo_image_header NUTOS_FAT16_SIGNATURE_def)
  from m show "live_entries (demo_image demo_file) 1 = 1" by (simp add: live_entries_def)
qed

lemma demo_volume_deleted:
  "fat_volume (demo_image (demo_deleted @ demo_file)) 2" "live_entries (demo_image (demo_deleted @ demo_file)) 2 = 1"
proof -
  let ?img = "demo_image (demo_deleted @ demo_file)"
  have m: "entry_mark ?img 1024 0 = 0xE5" "entry_mark ?img 1024 (Suc 0) = 65" "entry_mark ?img 1024 2 = 0"
    by (simp_all add: entry_mark_def demo_image_def demo_file_def demo_deleted_def nth_append)
  have all: "(\<forall>k < 2. P k) \<longleftrightarrow> P 0 \<and> P (Suc 0)" for P :: "nat \<Rightarrow> bool"
    by (auto simp: less_2_cases_iff)
  from m show "fat_volume ?img 2" by (simp add: fat_volume_def demo_image_header NUTOS_FAT16_SIGNATURE_def all)
  from m show "live_entries ?img 2 = 1" by (simp add: live_entries_def upt_rec)
qed

section \<open>Its chain\<close>

abbreviation demo_private :: "u8 list \<Rightarrow> nat \<Rightarrow> u32 \<Rightarrow> u32 \<Rightarrow> u32 \<Rightarrow> u32 \<Rightarrow> fat_private" where
  "demo_private rs n \<equiv> mounted_private (demo_image rs) n"

lemma demo_bpc [simp]: "bpc (demo_private rs n dir crs frs drs) = 512"
  by (simp add: bpc_def mounted_private_def demo_image_header)

lemma demo_cluster_pos: "2 \<le> c \<Longrightarrow> cluster_pos (demo_private rs n dir crs frs drs) c = nat (c + 1) * 512"
  by (simp add: cluster_pos_def mounted_private_def demo_image_header spc_def nat_mult_distrib)

lemma demo_link_less: "demo_link c < 65536"
  by (simp add: demo_link_def)

lemma demo_fat_entry:
  assumes "0 \<le> c" and "c < 256"
  shows "fat_entry (demo_image rs) (demo_private rs n dir crs frs drs) c = int (demo_link (nat c))"
proof -
  let ?e = "demo_link (nat c)"
  have a: "unat (fat_table_address (demo_private rs n dir crs frs drs)) = 512"
    by (simp add: mounted_private_def demo_image_header)
  have c2: "2 * nat c < 512" using assms by simp
  have b: "demo_image rs (512 + 2 * nat c) = of_nat ?e" "demo_image rs (Suc (512 + 2 * nat c)) = of_nat (?e div 256)"
    using c2 by (simp_all add: demo_image_def Let_def)
  have link: "uint (le16 (of_nat ?e) (of_nat (?e div 256))) = int ?e"
  proof (cases "2 \<le> nat c \<and> nat c \<le> 8")
    case True
    then have "c = 2 \<or> c = 3 \<or> c = 4 \<or> c = 5 \<or> c = 6 \<or> c = 7 \<or> c = 8" by auto
    then show ?thesis by (elim disjE) (simp_all add: demo_link_def le16_def)
  next
    case False
    then show ?thesis by (auto simp: demo_link_def le16_def)
  qed
  with a b show ?thesis by (simp add: fat_entry_def Let_def)
qed

lemma demo_next_cluster:
  assumes "2 \<le> c" and "c \<le> 9"
  shows "next_cluster (demo_image rs) (demo_private rs n dir crs frs drs) c = (if c = 9 then None else Some (c + 1))"
proof -
  have "fat_entry (demo_image rs) (demo_private rs n dir crs frs drs) c = (if c = 9 then 65535 else c + 1)"
    using demo_fat_entry [of c rs n dir crs frs drs] assms by (auto simp: demo_link_def)
  with assms show ?thesis by (auto simp: next_cluster_def Let_def)
qed

lemma demo_nth_cluster:
  assumes "2 \<le> c" and "c \<le> 9"
  shows "nth_cluster (demo_image rs) (demo_private rs n dir crs frs drs) k c = (if c + int k \<le> 9 then Some (c + int k) else None)"
  using assms
proof (induction k arbitrary: c)
  case (Suc k)
  show ?case
  proof (cases "c = 9")
    case True
    then show ?thesis using demo_next_cluster [of c] by simp
  next
    case False
    then show ?thesis using demo_next_cluster [of c] Suc.IH [of "c + 1"] Suc.prems by (simp add: add.assoc)
  qed
qed simp

lemma demo_cluster_ok: "2 \<le> c \<Longrightarrow> c \<le> 9 \<Longrightarrow> cluster_ok (demo_private rs n dir crs frs drs) c"
  by (simp add: cluster_ok_def mounted_private_def demo_image_header spc_def)

lemma demo_chain_ok: "chain_ok (demo_image rs) (demo_private rs n dir crs frs drs) 2"
  unfolding chain_ok_def by (auto simp: demo_nth_cluster demo_cluster_ok split: if_splits)

lemma demo_data: "1536 \<le> a \<Longrightarrow> demo_image rs a = of_nat (a div 512)"
  by (simp add: demo_image_def)

lemma demo_cluster_slice:
  assumes "2 \<le> c"
  shows "cluster_slice (demo_image rs) (demo_private rs n dir crs frs drs) c 0 512 = replicate 512 (of_nat (nat (c + 1)))"
proof (rule nth_equalityI)
  fix i
  assume "i < length (cluster_slice (demo_image rs) (demo_private rs n dir crs frs drs) c 0 512)"
  then have i: "i < 512" by (simp add: cluster_slice_def)
  have c: "3 \<le> nat (c + 1)" using assms by simp
  have "(nat (c + 1) * 512 + i) div 512 = nat (c + 1)" using i by simp
  moreover have "1536 \<le> nat (c + 1) * 512 + i" using c by linarith
  ultimately show "cluster_slice (demo_image rs) (demo_private rs n dir crs frs drs) c 0 512 ! i
      = replicate 512 (of_nat (nat (c + 1))) ! i"
    using i assms by (simp add: cluster_slice_def demo_cluster_pos demo_data)
qed (simp add: cluster_slice_def)

lemma demo_file_byte:
  assumes "i < 4096"
  shows "file_byte (demo_image rs) (demo_private rs n dir crs frs drs) 2 i = of_nat (i div 512 + 3)"
proof -
  have q: "i div 512 \<le> 7" using assms by auto
  have "((i div 512 + 3) * 512 + i mod 512) div 512 = i div 512 + 3" by simp
  moreover have "1536 \<le> (i div 512 + 3) * 512 + i mod 512" by simp
  moreover have "nat (2 + int (i div 512) + 1) = i div 512 + 3" by simp
  ultimately show ?thesis
    using q by (simp add: file_byte_def demo_nth_cluster demo_cluster_pos demo_data del: of_nat_add)
qed

section \<open>Mounted\<close>

text \<open>
  A kernel with 64 free blocks, the path \<open>t\<close> at 0x1000 as the only part of a parsed path
  at 0x2000, and the volume on its disk.
\<close>

definition blank_fat :: "(nat \<Rightarrow> u8) \<Rightarrow> u8 list \<Rightarrow> fat_state" where
  "blank_fat img t = path_state.extend ((blank_paths 64 t)\<lparr>disk_image := img, path_parts := [0x2000 \<mapsto> \<lparr>part = 0x1000, next_part = 0\<rparr>]\<rparr>)
     \<lparr>fat_privates = Map.empty, fat_items = Map.empty, fat_directories = Map.empty, fat_descs = Map.empty\<rparr>"

lemma blank_fat_simps [simp]:
  "kernel_heap (blank_fat img t) = fresh_heap 64" "disk_image (blank_fat img t) = img"
  "disk_id (the_disk (blank_fat img t)) = 0" "sector_size (the_disk (blank_fat img t)) = 512"
  "path_parts (blank_fat img t) = [0x2000 \<mapsto> \<lparr>part = 0x1000, next_part = 0\<rparr>]"
  "kmem (blank_fat img t) = write_bytes (\<lambda>_. 0) 0x1000 t"
  by (simp_all add: blank_fat_def blank_paths_def blank_disk_def blank_paging_def blank_kheap_def
      path_state.defs disk_state.defs paging_state.defs kheap_state.defs)

lemma demo_mounted:
  assumes "fat_volume (demo_image rs) n" and "length rs \<le> 512"
  shows "\<exists>dir crs frs drs s. fat16_resolve (blank_fat (demo_image rs) t) = Some (0, s)
    \<and> fat_ok s (demo_private rs n dir crs frs drs) \<and> heap_wf (kernel_heap s) \<and> has_run (kernel_heap s) 32
    \<and> kept (blank_fat (demo_image rs) t) s \<and> disk_image s = demo_image rs \<and> path_parts s = path_parts (blank_fat (demo_image rs) t)
    \<and> (\<forall>i < 512. \<not> free_byte (kernel_heap s) (dir + of_nat i)
          \<and> kmem s (dir + of_nat i) = (if i < length rs then rs ! i else 0))"
proof -
  let ?s = "blank_fat (demo_image rs) t"
  have wf: "heap_wf (kernel_heap ?s)" by (simp add: fresh_heap_wf)
  have vol: "fat_volume (disk_image ?s) n" using assms(1) by simp
  have run: "has_run (kernel_heap ?s) (32 + blocks_for (of_nat (root_bytes (disk_image ?s))) + 5)"
    using has_run_fresh [of 64] blocks_for_small [of 512] by (simp add: has_run_mono)
  have root: "demo_image rs (1024 + i) = (if i < length rs then rs ! i else 0)" if "i < 512" for i
    using that assms(2) by (simp add: demo_image_def)
  have "disk_id (the_disk ?s) = 0" "sector_size (the_disk ?s) = 512" by simp_all
  from fat16_resolve_spec [OF wf vol run this] obtain fpr dir crs frs drs h m st s' where
    r: "s' = ?s\<lparr>kernel_heap := h, kmem := m, streams := st,
        fat_privates := (fat_privates ?s)(fpr \<mapsto> demo_private rs n dir crs frs drs),
        the_disk := (the_disk ?s)\<lparr>fs_private := fpr, filesystem := Some Fat16_Fs\<rparr>\<rparr>"
    "fat16_resolve ?s = Some (0, s')" "fat_ok s' (demo_private rs n dir crs frs drs)" "heap_wf h" "has_run h 32" "kept ?s s'"
    "\<forall>i < 512. \<not> free_byte h (dir + of_nat i) \<and> m (dir + of_nat i) = demo_image rs (1024 + i)"
    unfolding Let_def blank_fat_simps demo_root by auto
  have "kernel_heap s' = h" "kmem s' = m" "disk_image s' = demo_image rs"
    "path_parts s' = path_parts ?s" by (simp_all add: r(1))
  with r(2-) root show ?thesis by metis
qed

section \<open>Its file\<close>

lemma read_bytes_map: "read_bytes m p n = map (\<lambda>i. m (p + of_nat i)) [0..<n]"
  by (rule nth_equalityI) (simp_all add: nth_read_bytes)

lemma demo_item:
  assumes "\<And>i. i < 32 \<Longrightarrow> m (p + of_nat i) = demo_file ! i"
  shows "full_name m p = [65, 66, 46, 67]" "\<not> item_is_dir m p"
    "ditem_low_cluster m p = 2" "ditem_filesize m p = 4096"
proof -
  have b: "m (p + numeral k) = demo_file ! numeral k" if "numeral k < (32 :: nat)" for k
    using assms [OF that] by simp
  have b0: "m p = 65" "m (p + 1) = 66" using assms [of 0] assms [of 1] by (simp_all add: demo_file_def nth_append)
  show d: "\<not> item_is_dir m p"
    by (simp add: item_is_dir_def ditem_attribute_def b FAT_FILE_SUBDIRECTORY_def) (simp add: demo_file_def)
  have "read_bytes m p 8 = [65, 66, 32, 32, 32, 32, 32, 32]" "read_bytes m (p + 8) 3 = [67, 32, 32]"
    by (simp_all add: read_bytes_map upt_rec b b0 add.assoc) (simp_all add: demo_file_def nth_append)
  then show "full_name m p = [65, 66, 46, 67]"
    using d by (simp add: full_name_def name_char_def isspace_def)
  show "ditem_low_cluster m p = 2" "ditem_filesize m p = 4096"
    by (simp_all add: ditem_low_cluster_def ditem_filesize_def read16_def read32_def add.assoc b) (simp_all add: demo_file_def nth_append)
qed

definition demo_name :: "u8 list" where
  "demo_name = [97, 98, 46, 99]"

lemma blank_fat_held:
  assumes "0 \<notin> set t" and "length t \<le> 4096"
  shows "held (blank_fat img t) 0x1000 t"
proof -
  have "held (blank_paths 64 t) 0x1000 t" using assms by (intro blank_paths_held) simp_all
  moreover have "kmem (blank_paths 64 t) = write_bytes (\<lambda>_. 0) 0x1000 t"
    by (simp add: blank_paths_def disk_state.defs)
  ultimately show ?thesis by (simp add: held_def)
qed

text \<open>The volume with the one file, mounted.\<close>

lemma demo_mounted_file:
  "\<exists>dir crs frs drs s. fat16_resolve (blank_fat (demo_image demo_file) demo_name) = Some (0, s)
    \<and> fat_ok s (demo_private demo_file 1 dir crs frs drs) \<and> heap_wf (kernel_heap s) \<and> has_run (kernel_heap s) 32
    \<and> disk_image s = demo_image demo_file \<and> path_parts s 0x2000 = Some \<lparr>part = 0x1000, next_part = 0\<rparr>
    \<and> held s 0x1000 demo_name \<and> root_held s (demo_private demo_file 1 dir crs frs drs)
    \<and> root_find s (demo_private demo_file 1 dir crs frs drs) demo_name = Some 0
    \<and> \<not> item_is_dir (kmem s) dir \<and> ditem_low_cluster (kmem s) dir = 2 \<and> ditem_filesize (kmem s) dir = 4096"
proof -
  obtain dir crs frs drs s where s: "fat16_resolve (blank_fat (demo_image demo_file) demo_name) = Some (0, s)"
    "fat_ok s (demo_private demo_file 1 dir crs frs drs)" "heap_wf (kernel_heap s)" "has_run (kernel_heap s) 32"
    "kept (blank_fat (demo_image demo_file) demo_name) s" "disk_image s = demo_image demo_file"
    "path_parts s = path_parts (blank_fat (demo_image demo_file) demo_name)"
    and b: "\<forall>i < 512. \<not> free_byte (kernel_heap s) (dir + of_nat i)
          \<and> kmem s (dir + of_nat i) = (if i < length demo_file then demo_file ! i else 0)"
    using demo_mounted [OF demo_volume_file(1), of demo_name] by auto
  let ?fp = "demo_private demo_file 1 dir crs frs drs"
  have "kmem s (dir + of_nat i) = demo_file ! i" if "i < 32" for i using b that by simp
  note item = demo_item [of "kmem s" dir, OF this]
  have "held (blank_fat (demo_image demo_file) demo_name) 0x1000 demo_name"
    by (rule blank_fat_held) (simp_all add: demo_name_def)
  then have h: "held s 0x1000 demo_name" using s(5) by (rule held_kept)
  have total: "nat (dir_total (root_directory ?fp)) = 1" 
    using demo_volume_file(2) by (simp add: mounted_private_def del: One_nat_def)
  have "same_name (full_name (kmem s) dir) demo_name"
    by (simp add: item(1) demo_name_def same_name_def tolower_def)
  then have f: "root_find s ?fp demo_name = Some 0" unfolding root_find_def total by simp
  have "root_held s ?fp" unfolding root_held_def total using b by (simp add: item_held_def)
  with s h f item(2-) show ?thesis by (simp only: blank_fat_simps) auto
qed

end
