(* ===== verification/Fat16_Files.thy ===== *)
theory Fat16_Files
  imports Fat16_Demo
begin

text \<open>
  The properties of the FAT16 driver: mounting, counting a directory, finding a name, opening
  and closing, reading and seeking, each with an instance on the demonstration volume.
\<close>

section \<open>Mounting\<close>

text \<open>
  C16. Mounting: on a disk that holds a FAT16 volume, and with heap to spare, \<open>fat16_resolve\<close>
  succeeds; it leaves the driver's data as the image describes it (\<open>fat_ok\<close>), the root
  directory loaded byte for byte, and every byte that was allocated before as it was.
\<close>

theorem fat16_resolve_mounts:
  fixes s :: "'a fat_state_scheme"
  assumes "heap_wf (kernel_heap s)" and "fat_volume (disk_image s) n"
    and "has_run (kernel_heap s) (k + blocks_for (of_nat (root_bytes (disk_image s))) + 5)"
    and "disk_id (the_disk s) = 0" and "sector_size (the_disk s) = 512"
  shows "\<exists>dir crs frs drs s'. fat16_resolve s = Some (0, s')
    \<and> fat_ok s' (mounted_private (disk_image s) n dir crs frs drs)
    \<and> filesystem (the_disk s') = Some Fat16_Fs \<and> heap_wf (kernel_heap s') \<and> has_run (kernel_heap s') k \<and> kept s s'
    \<and> (\<forall>i < root_bytes (disk_image s). kmem s' (dir + of_nat i) = disk_image s (512 * root_sector (disk_image s) + i))"
proof -
  obtain fpr dir crs frs drs h m st s' where r:
    "s' = s\<lparr>kernel_heap := h, kmem := m, streams := st,
        fat_privates := (fat_privates s)(fpr \<mapsto> mounted_private (disk_image s) n dir crs frs drs),
        the_disk := (the_disk s)\<lparr>fs_private := fpr, filesystem := Some Fat16_Fs\<rparr>\<rparr>"
    "fat16_resolve s = Some (0, s')" "fat_ok s' (mounted_private (disk_image s) n dir crs frs drs)" "heap_wf h" "has_run h k" "kept s s'"
    "\<forall>i < root_bytes (disk_image s). m (dir + of_nat i) = disk_image s (512 * root_sector (disk_image s) + i)"
    using fat16_resolve_spec [OF assms] unfolding Let_def by blast
  have "kernel_heap s' = h" "kmem s' = m" "filesystem (the_disk s') = Some Fat16_Fs" by (simp_all add: r(1))
  with r(2-) show ?thesis by metis
qed

theorem fat16_resolve_mounts_witness:
  "\<exists>s'. fat16_resolve (blank_fat (demo_image demo_file) []) = Some (0, s') \<and> filesystem (the_disk s') = Some Fat16_Fs"
  using fat16_resolve_mounts [of "blank_fat (demo_image demo_file) []" 1 32] demo_volume_file(1) blocks_for_small [of 512]
  by (auto simp: fresh_heap_wf)

text \<open>
  On a disk without the FAT16 signature \<open>fat16_resolve\<close> reports \<open>EINVALID\<close> and releases
  the private data, but not the driver's three streams: exactly three blocks are lost.
\<close>

lemma fat16_resolve_leaks:
  fixes s :: "'a fat_state_scheme"
  assumes "heap_wf (kernel_heap s)" and "has_run (kernel_heap s) 5" and "disk_id (the_disk s) = 0"
    and "hdr_signature (image_header (disk_image s)) \<noteq> NUTOS_FAT16_SIGNATURE"
  shows "\<exists>s' crs frs drs. fat16_resolve s = Some (- EINVALID, s') \<and> fs_private (the_disk s') = 0
    \<and> (\<forall>a. \<not> free_byte (kernel_heap s) a \<longrightarrow> kmem s' a = kmem s a)
    \<and> distinct [crs, frs, drs] \<and> (\<forall>q \<in> {crs, frs, drs}. \<not> live_block (kernel_heap s) q)
    \<and> (\<forall>q. live_block (kernel_heap s') q \<longleftrightarrow> q \<in> {crs, frs, drs} \<or> live_block (kernel_heap s) q)"
  using fat16_resolve_unsigned [OF assms(1) _ assms(3,4), of 0] assms(2) by auto

lemma fat16_resolve_leaks_witness:
  "\<exists>s' p. fat16_resolve (blank_fat (\<lambda>_. 0) []) = Some (- EINVALID, s') \<and> live_block (kernel_heap s') p"
proof -
  let ?s = "blank_fat (\<lambda>_. 0) []"
  have "heap_wf (kernel_heap ?s)" "has_run (kernel_heap ?s) 5" "disk_id (the_disk ?s) = 0" by (simp_all add: fresh_heap_wf)
  moreover have "hdr_signature (image_header (disk_image ?s)) \<noteq> NUTOS_FAT16_SIGNATURE"
    by (simp add: hdr_signature_def image_header_def sizeof_fat_header_def NUTOS_FAT16_SIGNATURE_def)
  ultimately show ?thesis using fat16_resolve_leaks [of ?s] by blast
qed

section \<open>Directories\<close>

text \<open>
  The size a directory gets is the number of its entries before the end mark that are not
  deleted; the walk over the disk moves only streams. The search then looks at that many raw
  entries, deleted ones included, so with deleted entries the last ones are out of reach.
\<close>

lemma fat16_total_items_counts:
  assumes "fat_ok s fp" and "512 * unat sector + 32 * (n + 1) < 2147483648"
    and "entry_mark (disk_image s) (512 * unat sector) n = 0"
    and "\<And>k. k < n \<Longrightarrow> entry_mark (disk_image s) (512 * unat sector) k \<noteq> 0"
  shows "\<exists>s'. fat16_get_total_items_for_directory sector s
      = Some (int (card {k. k < n \<and> entry_mark (disk_image s) (512 * unat sector) k \<noteq> 0xE5}), s') \<and> moved s s'"
proof -
  have "card {k. k < n \<and> entry_mark (disk_image s) (512 * unat sector) k \<noteq> 0xE5}
      = length (filter (\<lambda>k. entry_mark (disk_image s) (512 * unat sector) k \<noteq> 0xE5) [0..<n])"
    by (simp add: length_filter_conv_card cong: conj_cong)
  with total_items_spec [of s fp sector "512 * unat sector" n] assms show ?thesis by (simp add: mult.commute)
qed

lemma demo_marks:
  "entry_mark (demo_image (demo_deleted @ demo_file)) 1024 2 = 0"
  "k < 2 \<Longrightarrow> entry_mark (demo_image (demo_deleted @ demo_file)) 1024 k = (if k = 0 then 0xE5 else 65)"
  by (auto simp: entry_mark_def demo_image_def demo_file_def demo_deleted_def nth_append less_2_cases_iff)

lemma fat16_total_items_counts_witness:
  "\<exists>s s'. fat16_resolve (blank_fat (demo_image (demo_deleted @ demo_file)) []) = Some (0, s)
    \<and> fat16_get_total_items_for_directory 2 s = Some (1, s')"
proof -
  obtain dir crs frs drs s where s: "fat16_resolve (blank_fat (demo_image (demo_deleted @ demo_file)) []) = Some (0, s)"
    "fat_ok s (demo_private (demo_deleted @ demo_file) 2 dir crs frs drs)" "disk_image s = demo_image (demo_deleted @ demo_file)"
    using demo_mounted [OF demo_volume_deleted(1), of "[]"] by auto
  have "{k. k < 2 \<and> entry_mark (demo_image (demo_deleted @ demo_file)) 1024 k \<noteq> 0xE5} = {1 :: nat}"
    using demo_marks(2) by (auto split: if_splits)
  moreover have "entry_mark (disk_image s) 1024 2 = 0" by (simp add: s(3) demo_marks(1))
  moreover have "entry_mark (disk_image s) 1024 k \<noteq> 0" if "k < 2" for k
    using demo_marks(2) [OF that] by (simp add: s(3))
  ultimately show ?thesis
    using fat16_total_items_counts [OF s(2), of 2 2] s(1,3) by auto
qed

text \<open>
  The search by name returns the item made from the first entry, among as many as the
  directory's size, whose 8.3 name equals the name up to letter case; without one it returns
  the null pointer and changes nothing.
\<close>

lemma fat16_find_first:
  assumes "cstr (kmem s) name t"
    and "\<And>k. P k \<longleftrightarrow> same_name (full_name (kmem s) (dir_item d + 32 * of_nat k)) t"
  shows "fat16_find_item_in_directory d name s =
    (if \<exists>k < nat (dir_total d). P k
     then fat16_new_fat_item_for_directory_item (dir_item d + 32 * of_nat (LEAST k. P k)) s
     else Some (0, s))"
proof -
  have f: "find P [0..<n] = (if \<exists>k < n. P k then Some (LEAST k. P k) else None)" for n
  proof (cases "find P [0..<n]")
    case None
    then show ?thesis by (auto simp: find_None_iff)
  next
    case (Some k)
    then have k: "k < n" "P k" "\<And>j. j < k \<Longrightarrow> \<not> P j" by (auto simp: find_Some_iff)
    then have "(LEAST k. P k) = k" by (intro Least_equality) (auto simp: not_less [symmetric])
    with k(1,2) Some show ?thesis by auto
  qed
  have "(\<lambda>k. same_name (full_name (kmem s) (dir_item d + 32 * of_nat k)) t) = P" using assms(2) by auto
  then show ?thesis
    by (auto simp: fat16_find_item_in_directory_def find_item_loop_spec [OF assms(1)] f)
qed

lemma fat16_find_first_witness:
  "\<exists>s d it s'. fat16_resolve (blank_fat (demo_image demo_file) demo_name) = Some (0, s)
    \<and> fat16_find_item_in_directory d 0x1000 s = fat16_new_fat_item_for_directory_item (dir_item d) s
    \<and> fat16_find_item_in_directory d 0x1000 s = Some (it, s') \<and> it \<noteq> 0"
proof -
  obtain dir crs frs drs s where s: "fat16_resolve (blank_fat (demo_image demo_file) demo_name) = Some (0, s)"
    "heap_wf (kernel_heap s)" "has_run (kernel_heap s) 32" "held s 0x1000 demo_name"
    "root_held s (demo_private demo_file 1 dir crs frs drs)"
    "root_find s (demo_private demo_file 1 dir crs frs drs) demo_name = Some 0" "\<not> item_is_dir (kmem s) dir"
    using demo_mounted_file by blast
  let ?d = "root_directory (demo_private demo_file 1 dir crs frs drs)"
  let ?P = "\<lambda>k. same_name (full_name (kmem s) (dir_item ?d + 32 * of_nat k)) demo_name"
  have c: "cstr (kmem s) 0x1000 demo_name" using s(4) by (simp add: held_def)
  have k: "0 < nat (dir_total ?d)" "?P 0"
    using s(6) root_find_range [OF s(6)] by (auto simp: root_find_def find_Some_iff)
  then have "(LEAST k. ?P k) = 0" by (intro Least_eq_0) simp
  then have f: "fat16_find_item_in_directory ?d 0x1000 s = fat16_new_fat_item_for_directory_item (dir_item ?d) s"
    using fat16_find_first [OF c, of ?P ?d] k by auto
  have "item_held (kernel_heap s) dir" using s(5) k(1) by (auto simp: root_held_def)
  moreover have "2 \<le> free_count (blocks (kernel_heap s))" using has_run_free_count [OF s(3)] by simp
  ultimately have "\<exists>it s'. fat16_new_fat_item_for_directory_item dir s = Some (it, s') \<and> it \<noteq> 0"
    using new_file_item [OF s(2) _ s(7)] by blast
  with f s(1) show ?thesis by (metis mounted_simps(5))
qed

section \<open>Opening and closing\<close>

text \<open>
  C33. Opening a path of one part, on every branch: another mode than reading is refused, a
  name the search does not find gives the error \<open>EIO\<close> with the heap as it was, and a file
  found gives a descriptor at position 0 on a private copy of its entry. In no case is
  allocated memory written to.
\<close>

theorem fat16_open_outcome:
  fixes s :: "'a fat_state_scheme"
  assumes "heap_wf (kernel_heap s)" and "3 \<le> free_count (blocks (kernel_heap s))"
    and "disk_private s = Some fp" and "path_parts s path = Some \<lparr>part = str, next_part = 0\<rparr>"
    and "held s str t" and "root_held s fp"
    and "\<And>k. root_find s fp t = Some k \<Longrightarrow> \<not> item_is_dir (kmem s) (dir_item (root_directory fp) + 32 * of_nat k)"
  shows "(mode \<noteq> FILE_MODE_READ \<longrightarrow> fat16_open path mode s = Some (ERRTOPTR (- EREADONLY), s))
    \<and> (\<exists>r s'. fat16_open path FILE_MODE_READ s = Some (r, s') \<and> kept s s' \<and> heap_wf (kernel_heap s')
        \<and> (case root_find s fp t of
             None \<Rightarrow> r = ERRTOPTR (- EIO) \<and> kernel_heap s' = kernel_heap s
           | Some k \<Rightarrow> r \<noteq> 0 \<and> (\<exists>fi cp. fat_descs s' r = Some \<lparr>desc_item = fi, desc_pos = 0\<rparr>
               \<and> fat_items s' fi = Some \<lparr>item_ptr = cp, item_type = fat_type_file\<rparr>
               \<and> same_item (kmem s') cp (kmem s) (dir_item (root_directory fp) + 32 * of_nat k))))"
proof (intro conjI)
  show "mode \<noteq> FILE_MODE_READ \<longrightarrow> fat16_open path mode s = Some (ERRTOPTR (- EREADONLY), s)"
    by (simp add: fat16_open_def)
  show "\<exists>r s'. fat16_open path FILE_MODE_READ s = Some (r, s') \<and> kept s s' \<and> heap_wf (kernel_heap s')
      \<and> (case root_find s fp t of
           None \<Rightarrow> r = ERRTOPTR (- EIO) \<and> kernel_heap s' = kernel_heap s
         | Some k \<Rightarrow> r \<noteq> 0 \<and> (\<exists>fi cp. fat_descs s' r = Some \<lparr>desc_item = fi, desc_pos = 0\<rparr>
             \<and> fat_items s' fi = Some \<lparr>item_ptr = cp, item_type = fat_type_file\<rparr>
             \<and> same_item (kmem s') cp (kmem s) (dir_item (root_directory fp) + 32 * of_nat k)))"
  proof (cases "root_find s fp t")
    case None
    have "0 < free_count (blocks (kernel_heap s))" using assms(2) by simp
    from open_missing [OF assms(1) this assms(3-6) None] None assms(1) show ?thesis
      by (auto simp: kept_def)
  next
    case (Some k)
    obtain d fi cp h m where o: "fat16_open path FILE_MODE_READ s = Some (d, s\<lparr>kernel_heap := h, kmem := m,
        fat_items := (fat_items s)(fi \<mapsto> \<lparr>item_ptr = cp, item_type = fat_type_file\<rparr>),
        fat_descs := (fat_descs s)(d \<mapsto> \<lparr>desc_item = fi, desc_pos = 0\<rparr>)\<rparr>)" "d \<noteq> 0" "heap_wf h"
      "same_item m cp (kmem s) (dir_item (root_directory fp) + 32 * of_nat k)" "kept s (s\<lparr>kernel_heap := h, kmem := m\<rparr>)"
      using open_found [OF assms(1-6) Some refl assms(7) [OF Some]] by blast
    with Some show ?thesis by (simp add: kept_def)
  qed
qed

theorem fat16_open_outcome_witness:
  "\<exists>s d s' fi cp. fat16_resolve (blank_fat (demo_image demo_file) demo_name) = Some (0, s)
    \<and> fat16_open 0x2000 FILE_MODE_READ s = Some (d, s') \<and> d \<noteq> 0
    \<and> fat_descs s' d = Some \<lparr>desc_item = fi, desc_pos = 0\<rparr>
    \<and> fat_items s' fi = Some \<lparr>item_ptr = cp, item_type = fat_type_file\<rparr>
    \<and> ditem_filesize (kmem s') cp = 4096"
proof -
  obtain dir crs frs drs s where s: "fat16_resolve (blank_fat (demo_image demo_file) demo_name) = Some (0, s)"
    "heap_wf (kernel_heap s)" "has_run (kernel_heap s) 32" "fat_ok s (demo_private demo_file 1 dir crs frs drs)"
    "path_parts s 0x2000 = Some \<lparr>part = 0x1000, next_part = 0\<rparr>" "held s 0x1000 demo_name"
    "root_held s (demo_private demo_file 1 dir crs frs drs)"
    "root_find s (demo_private demo_file 1 dir crs frs drs) demo_name = Some 0" "\<not> item_is_dir (kmem s) dir"
    "ditem_filesize (kmem s) dir = 4096"
    using demo_mounted_file by blast
  have "3 \<le> free_count (blocks (kernel_heap s))" using has_run_free_count [OF s(3)] by simp
  from fat16_open_outcome [OF s(2) this _ s(5-7), where mode = FILE_MODE_READ] s(4,8,9) obtain d s' fi cp where
    "fat16_open 0x2000 FILE_MODE_READ s = Some (d, s')" "d \<noteq> 0" "fat_descs s' d = Some \<lparr>desc_item = fi, desc_pos = 0\<rparr>"
    "fat_items s' fi = Some \<lparr>item_ptr = cp, item_type = fat_type_file\<rparr>" "same_item (kmem s') cp (kmem s) dir"
    by (auto simp: fat_ok_def)
  with s(1,10) same_item_fields(3) show ?thesis by metis
qed

text \<open>
  C36. Deleted entries hide files: on a mounted volume a name that no entry below the number of
  live ones carries cannot be opened, even when a later entry of the directory carries it.
\<close>

theorem fat16_open_hidden:
  fixes s :: "'a fat_state_scheme"
  assumes "heap_wf (kernel_heap s)" and "0 < free_count (blocks (kernel_heap s))"
    and "fat_ok s (mounted_private img n dir crs frs drs)" and "path_parts s path = Some \<lparr>part = str, next_part = 0\<rparr>"
    and "held s str t" and "root_held s (mounted_private img n dir crs frs drs)"
    and "\<And>k. k < live_entries img n \<Longrightarrow> \<not> same_name (full_name (kmem s) (dir + 32 * of_nat k)) t"
  shows "\<exists>s'. fat16_open path FILE_MODE_READ s = Some (ERRTOPTR (- EIO), s') \<and> kernel_heap s' = kernel_heap s \<and> kept s s'"
proof -
  let ?fp = "mounted_private img n dir crs frs drs"
  have p: "disk_private s = Some ?fp" using assms(3) by (simp add: fat_ok_def)
  have "root_find s ?fp t = None" using assms(7) by (auto simp: root_find_def find_None_iff)
  from open_missing [OF assms(1,2) p assms(4-6) this] show ?thesis by (auto simp: kept_def)
qed

theorem fat16_open_hidden_witness:
  "\<exists>s dir s'. fat16_resolve (blank_fat (demo_image (demo_deleted @ demo_file)) demo_name) = Some (0, s)
    \<and> same_name (full_name (kmem s) (dir + 32)) demo_name \<and> kmem s (dir + 32) \<noteq> 0xE5
    \<and> fat16_open 0x2000 FILE_MODE_READ s = Some (ERRTOPTR (- EIO), s')"
proof -
  let ?rs = "demo_deleted @ demo_file"
  obtain dir crs frs drs s where s: "fat16_resolve (blank_fat (demo_image ?rs) demo_name) = Some (0, s)"
    "fat_ok s (demo_private ?rs 2 dir crs frs drs)" "heap_wf (kernel_heap s)" "has_run (kernel_heap s) 32"
    "kept (blank_fat (demo_image ?rs) demo_name) s" "path_parts s = path_parts (blank_fat (demo_image ?rs) demo_name)"
    and b: "\<forall>i < 512. \<not> free_byte (kernel_heap s) (dir + of_nat i) \<and> kmem s (dir + of_nat i) = (if i < length ?rs then ?rs ! i else 0)"
    using demo_mounted [OF demo_volume_deleted(1), of demo_name] by auto
  have at: "kmem s (dir + of_nat i) = ?rs ! i" if "i < 64" for i using b that by simp
  have "kmem s (dir + 32 + of_nat i) = demo_file ! i" if "i < 32" for i
    using at [of "32 + i"] that by (simp add: nth_append add.assoc)
  note item = demo_item(1) [of "kmem s" "dir + 32", OF this]
  have "name_char (kmem s dir)" "kmem s dir = 0xE5" using at [of 0] by (simp_all add: demo_deleted_def name_char_def isspace_def)
  then have first: "\<not> same_name (full_name (kmem s) dir) demo_name"
    by (simp add: full_name_def same_name_def demo_name_def read_bytes_map upt_rec tolower_def)
  have "held (blank_fat (demo_image ?rs) demo_name) 0x1000 demo_name"
    by (rule blank_fat_held) (simp_all add: demo_name_def)
  then have h: "held s 0x1000 demo_name" using s(5) by (rule held_kept)
  have "root_held s (demo_private ?rs 2 dir crs frs drs)"
    using b by (simp add: root_held_def item_held_def demo_volume_deleted(2))
  moreover have "0 < free_count (blocks (kernel_heap s))" using has_run_free_count [OF s(4)] by simp
  moreover have "path_parts s 0x2000 = Some \<lparr>part = 0x1000, next_part = 0\<rparr>" using s(6) by simp
  ultimately obtain s' where "fat16_open 0x2000 FILE_MODE_READ s = Some (ERRTOPTR (- EIO), s')"
    using fat16_open_hidden [OF s(3) _ s(2) _ h] first by (auto simp: demo_volume_deleted(2))
  moreover have "same_name (full_name (kmem s) (dir + 32)) demo_name"
    by (simp add: item demo_name_def same_name_def tolower_def)
  moreover have "kmem s (dir + 32) \<noteq> 0xE5" using at [of 32] by (simp add: nth_append demo_file_def)
  ultimately show ?thesis using s(1) by blast
qed



section \<open>Reading\<close>



text \<open>
  C24. Past the second cluster the wrong data is delivered: of the chain's clusters a read of
  \<open>m\<close> whole clusters returns number 0, 1, 3, 6, 10, \<dots>, with a success code, because every
  step hands on the cluster it has reached together with the offset from the file's start.
\<close>

theorem fat16_read_internal_skips:
  assumes "fat_ok s fp" and "chain_ok (disk_image s) fp c" and "m * bpc fp < 2147483648" and "0 < m"
    and "\<And>k. k < m \<Longrightarrow> nth_cluster (disk_image s) fp (tri k) c = Some (t k)"
  shows "\<exists>s'. fat16_read_internal c 0 (int (m * bpc fp)) out s = Some (0, s')
    \<and> kmem s' = write_bytes (kmem s) out (concat (map (\<lambda>k. cluster_slice (disk_image s) fp (t k) 0 (bpc fp)) [0..<m]))"
proof -
  have b: "0 < bpc fp" using assms(1) by (auto simp: fat_ok_def bpc_def)
  have "chain_read (disk_image s) fp c (0 * bpc fp) (m * bpc fp)
      = (0, concat (map (\<lambda>k. cluster_slice (disk_image s) fp (t k) 0 (bpc fp)) [0..<m]))"
    by (rule chain_read_tri [OF b assms(4), of _ 0 c]) (use assms(5) in simp_all)
  with read_internal_chain [OF assms(1,2), of 0 "m * bpc fp" out] assms(3) moved_simps(2) show ?thesis by fastforce
qed

theorem fat16_read_internal_skips_witness:
  "\<exists>s s'. fat16_resolve (blank_fat (demo_image demo_file) demo_name) = Some (0, s)
    \<and> fat16_read_internal 2 0 1536 0x8000 s = Some (0, s')
    \<and> kmem s' = write_bytes (kmem s) 0x8000 (replicate 512 3 @ replicate 512 4 @ replicate 512 6)"
proof -
  obtain dir crs frs drs s where s: "fat16_resolve (blank_fat (demo_image demo_file) demo_name) = Some (0, s)"
    "fat_ok s (demo_private demo_file 1 dir crs frs drs)" "disk_image s = demo_image demo_file"
    using demo_mounted_file by blast
  let ?fp = "demo_private demo_file 1 dir crs frs drs"
  have t: "nth_cluster (disk_image s) ?fp (tri k) 2 = Some (2 + int (tri k))" if "k < 3" for k
  proof -
    from that have "k = 0 \<or> k = 1 \<or> k = 2" by auto
    then have "tri k \<le> 3" by (auto simp: tri_def)
    then show ?thesis by (simp add: s(3) demo_nth_cluster)
  qed
  have "concat (map (\<lambda>k. cluster_slice (disk_image s) ?fp (2 + int (tri k)) 0 512) [0..<3])
      = replicate 512 3 @ replicate 512 4 @ replicate 512 6"
    by (simp add: s(3) upt_rec demo_cluster_slice tri_def)
  moreover have "chain_ok (disk_image s) ?fp 2" unfolding s(3) by (rule demo_chain_ok)
  ultimately show ?thesis
    using fat16_read_internal_skips [OF s(2), of 2 3 "\<lambda>k. 2 + int (tri k)" "0x8000"] t s(1)
    by (simp only: demo_bpc) auto
qed

lemma fat16_read_spec:
  assumes "fat_ok s fp" and "fat_descs s d = Some \<lparr>desc_item = fi, desc_pos = of_nat i\<rparr>"
    and "fat_items s fi = Some \<lparr>item_ptr = p, item_type = fat_type_file\<rparr>"
    and "uint (ditem_low_cluster (kmem s) p) = c" and "unat (ditem_filesize (kmem s) p) = F"
    and "chain_ok (disk_image s) fp c"
    and "0 < z" and "z < 2147483648" and "i \<le> F" and "i + n * z < 2147483648"
    and "\<And>j. j < n \<Longrightarrow> i + j * z < F \<Longrightarrow> readable (disk_image s) fp c (i + j * z) z"
    and "apart p out (n * z)"
  shows "\<exists>s'. fat16_read d (of_nat z) (of_nat n) out s = Some (of_nat (min n ((F - i) div z)), s')
    \<and> kmem s' = write_bytes (kmem s) out (file_bytes (disk_image s) fp c i (min n ((F - i) div z) * z))
    \<and> fat_descs s' = fat_descs s \<and> kernel_heap s' = kernel_heap s
    \<and> moved (s\<lparr>kmem := write_bytes (kmem s) out (file_bytes (disk_image s) fp c i (min n ((F - i) div z) * z))\<rparr>) s'"
proof -
  have "n \<le> n * z" using assms(7) by simp
  then have n: "n < 2147483648" using assms(10) by linarith
  then have un: "unat (of_nat n :: u32) = n" by (intro unat_of_nat_small) simp
  have "i < 2147483648" using assms(10) by simp
  then have si: "sint (of_nat i :: u32) = int i" by (simp add: sint_small unat_of_nat)
  obtain s' where "fat16_read_loop p (of_nat z) (int i) out n 0 s = Some (of_nat (min n ((F - i) div z)), s')"
    "moved (s\<lparr>kmem := write_bytes (kmem s) out (file_bytes (disk_image s) fp c i (min n ((F - i) div z) * z))\<rparr>) s'"
    using read_loop_spec [OF assms(1,6,4,5,7-10), of 0 out] n assms(11,12) by auto
  with assms(2,3) moved_simps show ?thesis by (fastforce simp: fat16_read_def un si)
qed


lemma demo_apart: "n \<le> 4096 \<Longrightarrow> apart p (p + 0x1000) n"
proof -
  assume n: "n \<le> 4096"
  have "n \<le> unat (p + of_nat i - (p + 0x1000))" if "i < 32" for i
  proof -
    have "p + of_nat i - (p + 0x1000) = of_nat i - 0x1000" by simp
    moreover have "unat (of_nat i - 0x1000 :: u32) = i + 4294967296 - 4096"
      using that by (simp add: unat_sub_if' unat_of_nat)
    ultimately show ?thesis using n by simp
  qed
  then show ?thesis by (simp add: apart_def)
qed


section \<open>Seeking\<close>



end
