(* ===== verification/File_System.thy ===== *)
theory File_System
  imports Fat16_Files
begin

text \<open>
  The file layer (\<^verbatim>\<open>src/fs/file.c\<close>): the tables of filesystems and of open descriptors,
  \<open>fopen\<close>, \<open>fread\<close>, \<open>fseek\<close>, \<open>fstat\<close>, \<open>fclose\<close>, and \<open>disk_search_and_init\<close>
  (\<^verbatim>\<open>src/disk/disk.c\<close>), which asks the filesystems to resolve the disk. A filesystem is a record
  of function pointers; the calls through it go to the driver it designates.
\<close>

section \<open>State\<close>

definition NUTSOS_MAX_FILESYSTEMS :: nat where [const_defs]: "NUTSOS_MAX_FILESYSTEMS = 16"
definition NUTSOS_MAX_FILE_DESCRIPTORS :: int where [const_defs]: "NUTSOS_MAX_FILE_DESCRIPTORS = 1024"
definition sizeof_file_descriptor :: u32 where [const_defs]: "sizeof_file_descriptor = 20"

record file_descriptor =
  fd_index :: int
  fd_filesystem :: "filesystem option"
  fd_private :: u32
  fd_mode :: file_mode
  fd_disk :: disk_ref

record fs_state = fat_state +
  filesystems :: "filesystem option list"
  file_descriptors :: "u32 list"
  fdescs :: "u32 \<rightharpoonup> file_descriptor"
  errno :: int

section \<open>Calls through a filesystem's table\<close>

definition fs_resolve_op :: "filesystem \<Rightarrow> 'a fs_state_scheme \<Rightarrow> (int \<times> 'a fs_state_scheme) option" where
  "fs_resolve_op fs = (case fs of Fat16_Fs \<Rightarrow> fat16_resolve)"

definition fs_open_op :: "filesystem \<Rightarrow> u32 \<Rightarrow> file_mode \<Rightarrow> 'a fs_state_scheme \<Rightarrow> (u32 \<times> 'a fs_state_scheme) option" where
  "fs_open_op fs = (case fs of Fat16_Fs \<Rightarrow> fat16_open)"

definition fs_read_op :: "filesystem \<Rightarrow> u32 \<Rightarrow> u32 \<Rightarrow> u32 \<Rightarrow> u32 \<Rightarrow> 'a fs_state_scheme \<Rightarrow> (u32 \<times> 'a fs_state_scheme) option" where
  "fs_read_op fs = (case fs of Fat16_Fs \<Rightarrow> fat16_read)"

definition fs_seek_op :: "filesystem \<Rightarrow> u32 \<Rightarrow> u32 \<Rightarrow> file_seek_mode \<Rightarrow> 'a fs_state_scheme \<Rightarrow> (int \<times> 'a fs_state_scheme) option" where
  "fs_seek_op fs = (case fs of Fat16_Fs \<Rightarrow> fat16_seek)"

definition fs_stat_op :: "filesystem \<Rightarrow> u32 \<Rightarrow> 'a fs_state_scheme \<Rightarrow> (int \<times> file_stat option) option" where
  "fs_stat_op fs = (case fs of Fat16_Fs \<Rightarrow> fat16_stat)"

definition fs_close_op :: "filesystem \<Rightarrow> u32 \<Rightarrow> 'a fs_state_scheme \<Rightarrow> (int \<times> 'a fs_state_scheme) option" where
  "fs_close_op fs = (case fs of Fat16_Fs \<Rightarrow> fat16_close)"

section \<open>Filesystems\<close>

fun free_slot :: "'b option list \<Rightarrow> nat \<Rightarrow> nat option" where
  "free_slot [] i = None"
| "free_slot (x # xs) i = (if x = None then Some i else free_slot xs (Suc i))"

definition fs_get_free_filesystem :: "'a fs_state_scheme \<Rightarrow> nat option" where
  "fs_get_free_filesystem s = free_slot (filesystems s) 0"

definition fs_insert_filesystem :: "filesystem \<Rightarrow> 'a fs_state_scheme \<Rightarrow> int \<times> 'a fs_state_scheme" where
  "fs_insert_filesystem fs s =
     (case fs_get_free_filesystem s of
        None \<Rightarrow> (- ENOMEM, s)
      | Some i \<Rightarrow> (0, s\<lparr>filesystems := (filesystems s)[i := Some fs]\<rparr>))"

text \<open>\<open>fat16_init\<close> names the driver's static record and returns its address.\<close>

definition fat16_init :: filesystem where
  "fat16_init = Fat16_Fs"

definition fs_init :: "'a fs_state_scheme \<Rightarrow> 'a fs_state_scheme" where
  "fs_init s =
     (let s1 = s\<lparr>file_descriptors := replicate (nat NUTSOS_MAX_FILE_DESCRIPTORS) 0,
                 filesystems := replicate NUTSOS_MAX_FILESYSTEMS None\<rparr>
      in snd (fs_insert_filesystem fat16_init s1))"

fun fs_resolve_loop ::
    "filesystem option list \<Rightarrow> 'a fs_state_scheme \<Rightarrow> (filesystem option \<times> 'a fs_state_scheme) option" where
  "fs_resolve_loop [] s = Some (None, s)"
| "fs_resolve_loop (None # fss) s = fs_resolve_loop fss s"
| "fs_resolve_loop (Some fs # fss) s = do {
     (r, s1) \<leftarrow> fs_resolve_op fs s;
     (if r = 0 then Some (Some fs, s1) else fs_resolve_loop fss s1)
   }"

definition fs_resolve :: "'a fs_state_scheme \<Rightarrow> (filesystem option \<times> 'a fs_state_scheme) option" where
  "fs_resolve s = fs_resolve_loop (filesystems s) s"

definition disk_search_and_init :: "'a fs_state_scheme \<Rightarrow> 'a fs_state_scheme option" where
  "disk_search_and_init s = do {
     let s1 = s\<lparr>the_disk := \<lparr>disk_type = NUTSOS_DISK_TYPE_REAL, sector_size = NUTSOS_SECTOR_SIZE,
       disk_id = 0, filesystem = None, fs_private = 0\<rparr>\<rparr>;
     (fs, s2) \<leftarrow> fs_resolve s1;
     Some (s2\<lparr>the_disk := (the_disk s2)\<lparr>filesystem := fs\<rparr>\<rparr>)
   }"

section \<open>Descriptors\<close>

fun null_slot :: "u32 list \<Rightarrow> nat \<Rightarrow> nat option" where
  "null_slot [] i = None"
| "null_slot (x # xs) i = (if x = 0 then Some i else null_slot xs (Suc i))"

text \<open>The result code and the new descriptor.\<close>

definition file_descriptor_new :: "'a fs_state_scheme \<Rightarrow> (int \<times> u32 \<times> 'a fs_state_scheme) option" where
  "file_descriptor_new s =
     (case null_slot (file_descriptors s) 0 of
        None \<Rightarrow> Some (- ENOMEM, 0, s)
      | Some i \<Rightarrow> do {
          (desc, s1) \<leftarrow> kzalloc sizeof_file_descriptor s;
          (if desc = 0 then None
           else Some (EOK, desc, s1\<lparr>
             fdescs := (fdescs s1)(desc \<mapsto> \<lparr>fd_index = int i + 1, fd_filesystem = None, fd_private = 0,
               fd_mode = FILE_MODE_READ, fd_disk = NullDisk\<rparr>),
             file_descriptors := (file_descriptors s1)[i := desc]\<rparr>))
        })"

definition file_get_descriptor :: "int \<Rightarrow> 'a fs_state_scheme \<Rightarrow> u32" where
  "file_get_descriptor fd s =
     (if fd \<le> 0 \<or> fd \<ge> NUTSOS_MAX_FILE_DESCRIPTORS then 0 else file_descriptors s ! nat (fd - 1))"

definition file_mode_from_string :: "mem \<Rightarrow> u32 \<Rightarrow> file_mode" where
  "file_mode_from_string m str =
     (if strncmp m (lit_mem ''r'') str 0 1 = 0 then FILE_MODE_READ
      else if strncmp m (lit_mem ''w'') str 0 1 = 0 then FILE_MODE_WRITE
      else if strncmp m (lit_mem ''a'') str 0 1 = 0 then FILE_MODE_APPEND
      else FILE_MODE_INVALID)"

text \<open>
  The mode string is a pointer into the memory \<open>mm\<close>: the caller's literal. A null result is
  the address 0.
\<close>

definition fopen :: "u32 \<Rightarrow> mem \<Rightarrow> u32 \<Rightarrow> 'a fs_state_scheme \<Rightarrow> (u32 \<times> 'a fs_state_scheme) option" where
  "fopen filename mm mode_str s = do {
     (root_path, s1) \<leftarrow> pathparser_parse filename s;
     (if root_path = 0 then Some (0, s1\<lparr>errno := - EINVARG\<rparr>)
      else do {
        root \<leftarrow> path_roots s1 root_path;
        (if first_part root = 0 then Some (0, s1\<lparr>errno := - EINVARG\<rparr>)
         else
           let dsk = disk_get (drive_no root)
           in if dsk = NullDisk then Some (0, s1\<lparr>errno := - EIO\<rparr>)
           else case filesystem (the_disk s1) of
             None \<Rightarrow> Some (0, s1\<lparr>errno := - EIO\<rparr>)
           | Some fs \<Rightarrow>
               let mode = file_mode_from_string mm mode_str
               in if mode = FILE_MODE_INVALID then Some (0, s1\<lparr>errno := - EINVARG\<rparr>)
               else do {
                 (priv, s2) \<leftarrow> fs_open_op fs (first_part root) mode s1;
                 (if ISERR_ptr priv then Some (0, s2\<lparr>errno := PTRTOERR priv\<rparr>)
                  else do {
                    (e, fdesc, s3) \<leftarrow> file_descriptor_new s2;
                    let s4 = s3\<lparr>errno := e\<rparr>;
                    (if ISERR e then Some (0, s4)
                     else do {
                       d \<leftarrow> fdescs s4 fdesc;
                       Some (fdesc, s4\<lparr>fdescs := (fdescs s4)(fdesc \<mapsto>
                         d\<lparr>fd_filesystem := Some fs, fd_private := priv, fd_mode := mode, fd_disk := dsk\<rparr>)\<rparr>)
                     })
                  })
               })
      })
   }"

text \<open>\<open>size_t\<close> results: an error code is returned as its unsigned value.\<close>

definition fread :: "u32 \<Rightarrow> u32 \<Rightarrow> u32 \<Rightarrow> int \<Rightarrow> 'a fs_state_scheme \<Rightarrow> (u32 \<times> 'a fs_state_scheme) option" where
  "fread ptr sz nmemb fd s =
     (if sz = 0 \<or> nmemb = 0 \<or> fd < 1 then Some (word_of_int (- EINVARG), s)
      else if file_get_descriptor fd s = 0 then Some (word_of_int (- EINVARG), s)
      else do {
        d \<leftarrow> fdescs s (file_get_descriptor fd s);
        fs \<leftarrow> fd_filesystem d;
        fs_read_op fs (fd_private d) sz nmemb ptr s
      })"

definition fseek :: "int \<Rightarrow> int \<Rightarrow> file_seek_mode \<Rightarrow> 'a fs_state_scheme \<Rightarrow> (int \<times> 'a fs_state_scheme) option" where
  "fseek fd offset mode s =
     (if file_get_descriptor fd s = 0 then Some (- EIO, s)
      else do {
        d \<leftarrow> fdescs s (file_get_descriptor fd s);
        fs \<leftarrow> fd_filesystem d;
        fs_seek_op fs (fd_private d) (word_of_int offset) mode s
      })"

definition fstat :: "int \<Rightarrow> 'a fs_state_scheme \<Rightarrow> (int \<times> file_stat option) option" where
  "fstat fd s =
     (if file_get_descriptor fd s = 0 then Some (- EIO, None)
      else do {
        d \<leftarrow> fdescs s (file_get_descriptor fd s);
        fs \<leftarrow> fd_filesystem d;
        fs_stat_op fs (fd_private d) s
      })"

definition fclose :: "int \<Rightarrow> 'a fs_state_scheme \<Rightarrow> (int \<times> 'a fs_state_scheme) option" where
  "fclose fd s =
     (if file_get_descriptor fd s = 0 then Some (- EIO, s)
      else do {
        d \<leftarrow> fdescs s (file_get_descriptor fd s);
        fs \<leftarrow> fd_filesystem d;
        (r, s1) \<leftarrow> fs_close_op fs (fd_private d) s;
        Some (0, s1)
      })"

end
