(* ===== verification/Fat16_Paths.thy ===== *)
theory Fat16_Paths
  imports Fat16_Dir
begin

text \<open>
  Paths of any depth: directories are loaded from the disk, searched, and released again when
  the next part has been found. A relation over the disk image says which entry a path leads
  to, and the driver's walk finds exactly that entry.
\<close>

section \<open>Growing and shrinking\<close>

text \<open>
  From \<open>s\<close> to \<open>s'\<close> the blocks \<open>B\<close> were added, at most \<open>r\<close> blocks of a free run were used,
  and nothing that was allocated has changed.
\<close>

definition grew :: "'a kheap_state_scheme \<Rightarrow> 'a kheap_state_scheme \<Rightarrow> u32 list \<Rightarrow> nat \<Rightarrow> bool" where
  "grew s s' B r \<longleftrightarrow> heap_wf (kernel_heap s') \<and> (\<forall>a. \<not> free_byte (kernel_heap s) a \<longrightarrow> kmem s' a = kmem s a)
     \<and> heap_grown (kernel_heap s) (kernel_heap s') \<and> heap_used r (kernel_heap s) (kernel_heap s')
     \<and> distinct B \<and> (\<forall>q \<in> set B. \<not> live_block (kernel_heap s) q)
     \<and> (\<forall>q. live_block (kernel_heap s') q \<longleftrightarrow> q \<in> set B \<or> live_block (kernel_heap s) q)"

lemma grew_refl: "heap_wf (kernel_heap s) \<Longrightarrow> grew s s [] 0"
  by (simp add: grew_def)

lemma grew_cong:
  "kernel_heap t = kernel_heap s \<Longrightarrow> kmem t = kmem s \<Longrightarrow> kernel_heap t' = kernel_heap s' \<Longrightarrow> kmem t' = kmem s'
    \<Longrightarrow> grew t t' B r \<longleftrightarrow> grew s s' B r"
  by (simp add: grew_def)

lemma grew_taken: "grew s s' B r \<Longrightarrow> \<not> free_byte (kernel_heap s) a \<Longrightarrow> \<not> free_byte (kernel_heap s') a \<and> kmem s' a = kmem s a"
  by (simp add: grew_def heap_grown_def)

lemma grew_trans:
  assumes "grew s s' B r" and "grew s' s'' B' r'"
  shows "grew s s'' (B @ B') (r + r')"
proof -
  have "heap_grown (kernel_heap s) (kernel_heap s'')"
    using assms heap_grown_trans unfolding grew_def by blast
  moreover have "heap_used (r + r') (kernel_heap s) (kernel_heap s'')"
    using assms heap_used_trans [of r _ _ r'] unfolding grew_def by blast
  moreover have "kmem s'' a = kmem s a" if "\<not> free_byte (kernel_heap s) a" for a
    using grew_taken [OF assms(1) that] grew_taken [OF assms(2)] by simp
  moreover have "distinct (B @ B')" using assms by (auto simp: grew_def)
  ultimately show ?thesis using assms by (auto simp: grew_def)
qed

lemma grew_alloc:
  fixes s :: "'a kheap_state_scheme"
  assumes "heap_wf (kernel_heap s)" and "n \<noteq> 0" and "size_ok n" and "has_run (kernel_heap s) (k + blocks_for n)"
  shows "\<exists>p h m. kzalloc n s = Some (p, s\<lparr>kernel_heap := h, kmem := m\<rparr>) \<and> p \<noteq> 0 \<and> has_run h k
    \<and> grew s (s\<lparr>kernel_heap := h, kmem := m\<rparr>) [p] (blocks_for n)
    \<and> (\<forall>a. in_region p n a \<longrightarrow> free_byte (kernel_heap s) a \<and> \<not> free_byte h a \<and> m a = 0)"
proof -
  obtain p h m where k: "kzalloc n s = Some (p, s\<lparr>kernel_heap := h, kmem := m\<rparr>)" "p \<noteq> 0" "heap_wf h" "has_run h k"
    "\<forall>a. in_region p n a \<longrightarrow> free_byte (kernel_heap s) a \<and> \<not> free_byte h a \<and> m a = 0"
    "\<forall>a. \<not> free_byte (kernel_heap s) a \<longrightarrow> \<not> free_byte h a \<and> m a = kmem s a"
    "\<not> live_block (kernel_heap s) p" "\<forall>q. live_block h q \<longleftrightarrow> q = p \<or> live_block (kernel_heap s) q"
    using kzalloc_run [OF assms] by blast
  have "heap_grown (kernel_heap s) h" using kzalloc_grown [OF assms(1,3,2) k(1,2)] by simp
  moreover have "heap_used (blocks_for n) (kernel_heap s) h" using kzalloc_used [OF assms(1-3) k(1)] by simp
  ultimately show ?thesis using k
    by (rule_tac exI [of _ p], rule_tac exI [of _ h], rule_tac exI [of _ m]) (simp add: grew_def)
qed

lemma grew_free:
  assumes "grew s s' (xs @ p # ys) r"
  shows "\<exists>h. kfree p s' = Some (s'\<lparr>kernel_heap := h\<rparr>) \<and> grew s (s'\<lparr>kernel_heap := h\<rparr>) (xs @ ys) r
    \<and> (\<forall>a. \<not> free_byte (kernel_heap s') a \<longrightarrow> \<not> in_chunk (kernel_heap s') p a \<longrightarrow> \<not> free_byte h a)
    \<and> (\<forall>q. q \<noteq> p \<longrightarrow> in_chunk h q = in_chunk (kernel_heap s') q)"
proof -
  have wf: "heap_wf (kernel_heap s')" and lv: "live_block (kernel_heap s') p" and nl: "\<not> live_block (kernel_heap s) p"
    and ne: "p \<notin> set xs" "p \<notin> set ys"
    using assms by (auto simp: grew_def)
  obtain h where k: "kfree p s' = Some (s'\<lparr>kernel_heap := h\<rparr>)" "heap_wf h"
    "\<forall>q. live_block h q \<longleftrightarrow> live_block (kernel_heap s') q \<and> q \<noteq> p" using kfree_live [OF wf lv] by blast
  have "heap_grown (kernel_heap s) (kernel_heap s')" using assms by (simp add: grew_def)
  from kfree_grown [OF this wf lv nl k(1)] have g: "heap_grown (kernel_heap s) h" by simp
  have "heap_used r (kernel_heap s) (kernel_heap s')" using assms by (simp add: grew_def)
  from heap_used_trans [OF this kfree_used [OF wf lv k(1)]] have u: "heap_used r (kernel_heap s) h" by simp
  have "grew s (s'\<lparr>kernel_heap := h\<rparr>) (xs @ ys) r"
    using assms k(2,3) g u ne by (auto simp: grew_def)
  with k(1) kfree_others [OF wf lv k(1)] show ?thesis by auto
qed

section \<open>Frames\<close>

definition fat_frame :: "'a fat_state_scheme \<Rightarrow> 'a fat_state_scheme \<Rightarrow> bool" where
  "fat_frame s s' \<longleftrightarrow> (\<exists>h m st its ds. s' = s\<lparr>kernel_heap := h, kmem := m, streams := st, fat_items := its, fat_directories := ds\<rparr>)
     \<and> (\<forall>p. stream_ok s p \<longrightarrow> stream_ok s' p)"

lemma fat_frameI:
  assumes "s' = s\<lparr>kernel_heap := h, kmem := m, streams := st, fat_items := its, fat_directories := ds\<rparr>"
    and "\<And>p. stream_ok s p \<Longrightarrow> stream_ok s' p"
  shows "fat_frame s s'"
  unfolding fat_frame_def using assms by blast

lemma fat_frame_refl [simp]: "fat_frame s s"
proof -
  have "s = s\<lparr>kernel_heap := kernel_heap s, kmem := kmem s, streams := streams s, fat_items := fat_items s,
      fat_directories := fat_directories s\<rparr>" by simp
  then show ?thesis unfolding fat_frame_def by blast
qed

lemma fat_frame_trans: "fat_frame s s' \<Longrightarrow> fat_frame s' s'' \<Longrightarrow> fat_frame s s''"
proof -
  assume a: "fat_frame s s'" "fat_frame s' s''"
  from a(1) obtain h m st its ds where 1: "s' = s\<lparr>kernel_heap := h, kmem := m, streams := st, fat_items := its, fat_directories := ds\<rparr>"
    unfolding fat_frame_def by blast
  from a(2) obtain h' m' st' its' ds' where 2: "s'' = s'\<lparr>kernel_heap := h', kmem := m', streams := st', fat_items := its', fat_directories := ds'\<rparr>"
    unfolding fat_frame_def by blast
  have "s'' = s\<lparr>kernel_heap := h', kmem := m', streams := st', fat_items := its', fat_directories := ds'\<rparr>"
    unfolding 2 1 by simp
  then show "fat_frame s s''" using a by (intro fat_frameI) (auto simp: fat_frame_def)
qed

lemma fat_frame_heap: "fat_frame s (s\<lparr>kernel_heap := h, kmem := m\<rparr>)"
proof -
  have "s\<lparr>kernel_heap := h, kmem := m\<rparr> = s\<lparr>kernel_heap := h, kmem := m, streams := streams s, fat_items := fat_items s,
      fat_directories := fat_directories s\<rparr>" by simp
  then show ?thesis by (rule fat_frameI) (simp add: stream_ok_def)
qed

lemma fat_frame_simps:
  assumes "fat_frame s s'"
  shows "disk_image s' = disk_image s" "the_disk s' = the_disk s" "fat_privates s' = fat_privates s"
    "disk_private s' = disk_private s" "path_parts s' = path_parts s" "path_roots s' = path_roots s" "fat_descs s' = fat_descs s"
  using assms by (auto simp: fat_frame_def disk_private_def)

lemma fat_frame_ok: "fat_frame s s' \<Longrightarrow> fat_ok s fp \<Longrightarrow> fat_ok s' fp"
  using fat_frame_simps [of s s'] by (auto simp: fat_ok_def fat_frame_def)

section \<open>Loading a directory\<close>

text \<open>
  A directory on the disk: \<open>n\<close> entries before the end mark at the start of its chain. What the
  driver loads is as many entries, from the first on, as there are live ones.
\<close>

definition live_count :: "(nat \<Rightarrow> u8) \<Rightarrow> fat_private \<Rightarrow> int \<Rightarrow> nat \<Rightarrow> nat" where
  "live_count img fp c n = length (filter (\<lambda>k. entry_mark img (cluster_pos fp c) k \<noteq> 0xE5) [0..<n])"

definition sub_bytes :: "(nat \<Rightarrow> u8) \<Rightarrow> fat_private \<Rightarrow> int \<Rightarrow> nat \<Rightarrow> u8 list" where
  "sub_bytes img fp c n = file_bytes img fp c 0 (32 * live_count img fp c n)"

definition sub_dir :: "(nat \<Rightarrow> u8) \<Rightarrow> fat_private \<Rightarrow> int \<Rightarrow> nat \<Rightarrow> bool" where
  "sub_dir img fp c n \<longleftrightarrow> chain_ok img fp c \<and> cluster_pos fp c + 32 * (n + 1) < 2147483648
     \<and> entry_mark img (cluster_pos fp c) n = 0 \<and> (\<forall>k < n. entry_mark img (cluster_pos fp c) k \<noteq> 0)
     \<and> 0 < live_count img fp c n \<and> readable img fp c 0 (32 * live_count img fp c n)"

lemma live_count_le: "live_count img fp c n \<le> n"
  unfolding live_count_def by (metis diff_zero length_filter_le length_upt)

lemma length_sub_bytes [simp]: "length (sub_bytes img fp c n) = 32 * live_count img fp c n"
  by (simp add: sub_bytes_def file_bytes_def)

lemma sub_dir_small: "sub_dir img fp c n \<Longrightarrow> 32 * live_count img fp c n < 2147483648"
proof -
  have "32 * l < 2147483648" if "l \<le> n" "x + 32 * (n + 1) < 2147483648" for l x :: nat using that by simp
  from this [OF live_count_le] show "sub_dir img fp c n \<Longrightarrow> ?thesis" unfolding sub_dir_def by blast
qed

text \<open>A listing in memory, in bytes that are taken now and were free at the start.\<close>

definition listed :: "heap \<Rightarrow> 'a kheap_state_scheme \<Rightarrow> u32 \<Rightarrow> u8 list \<Rightarrow> bool" where
  "listed h0 s buf bs \<longleftrightarrow> (\<forall>i < length bs. kmem s (buf + of_nat i) = bs ! i
     \<and> \<not> free_byte (kernel_heap s) (buf + of_nat i) \<and> free_byte h0 (buf + of_nat i))"

lemma cluster_word:
  assumes "fat_ok s fp" and "cluster_ok fp c"
  shows "unat (word_of_int (fat16_cluster_to_sector fp c) :: u32) * 512 = cluster_pos fp c"
proof -
  let ?x = "fat16_cluster_to_sector fp c"
  have x: "?x * 512 = int (cluster_pos fp c)" "cluster_pos fp c + bpc fp < 2147483648"
    using cluster_to_sector_spec [OF assms] by simp_all
  then have "0 \<le> ?x" "?x < 4294967296" by linarith+
  then have "int (unat (word_of_int ?x :: u32)) = ?x"
    by (simp add: uint_word_of_int)
  then have "int (unat (word_of_int ?x :: u32) * 512) = int (cluster_pos fp c)" using x(1) by simp
  then show ?thesis by (simp only: of_nat_eq_iff)
qed

lemma load_directory_spec:
  fixes s :: "'a fat_state_scheme"
  assumes "heap_wf (kernel_heap s)" and "has_run (kernel_heap s) (k + blocks_for (of_nat (32 * live_count (disk_image s) fp c n)) + 1)"
    and "fat_ok s fp" and "item_is_dir (kmem s) item" and "item_held (kernel_heap s) item"
    and "uint (ditem_low_cluster (kmem s) item) = c" and "sub_dir (disk_image s) fp c n"
  shows "\<exists>d buf s'. fat16_load_fat_directory item s = Some (d, s') \<and> d \<noteq> 0 \<and> buf \<noteq> 0
    \<and> grew s s' [d, buf] (1 + blocks_for (of_nat (32 * live_count (disk_image s) fp c n))) \<and> fat_frame s s'
    \<and> fat_items s' = fat_items s
    \<and> fat_directories s' = (fat_directories s)(d \<mapsto> empty_directory\<lparr>dir_total := int (live_count (disk_image s) fp c n), dir_item := buf\<rparr>)
    \<and> listed (kernel_heap s) s' buf (sub_bytes (disk_image s) fp c n)"
proof -
  let ?img = "disk_image s"
  let ?l = "live_count ?img fp c n"
  let ?N = "32 * ?l"
  have D: "chain_ok ?img fp c" "cluster_pos fp c + 32 * (n + 1) < 2147483648" "entry_mark ?img (cluster_pos fp c) n = 0"
    "\<And>k. k < n \<Longrightarrow> entry_mark ?img (cluster_pos fp c) k \<noteq> 0" "0 < ?l" "readable ?img fp c 0 ?N"
    using assms(7) by (auto simp: sub_dir_def)
  have N: "?N < 2147483648" "0 < ?N" using sub_dir_small [OF assms(7)] D(5) by simp_all
  have uN: "unat (of_nat ?N :: u32) = ?N" using N(1) by (intro unat_of_nat_small) simp
  have dp: "disk_private s = Some fp" using assms(3) by (simp add: fat_ok_def)
  have bf: "blocks_for sizeof_fat_directory = 1" by (rule blocks_for_small) (simp_all add: sizeof_fat_directory_def)
  have sz: "sizeof_fat_directory \<noteq> 0" "size_ok sizeof_fat_directory" by (simp_all add: sizeof_fat_directory_def size_ok_def)
  have r0: "has_run (kernel_heap s) ((k + blocks_for (of_nat ?N)) + blocks_for sizeof_fat_directory)" using assms(2) bf by simp
  obtain d h1 m1 where k1: "kzalloc sizeof_fat_directory s = Some (d, s\<lparr>kernel_heap := h1, kmem := m1\<rparr>)" "d \<noteq> 0"
    "has_run h1 (k + blocks_for (of_nat ?N))" "grew s (s\<lparr>kernel_heap := h1, kmem := m1\<rparr>) [d] 1"
    using grew_alloc [OF assms(1) sz r0] bf by auto
  let ?s2 = "s\<lparr>kernel_heap := h1, kmem := m1, fat_directories := (fat_directories s)(d \<mapsto> empty_directory)\<rparr>"
  have w1: "heap_wf h1" using k1(4) by (simp add: grew_def)
  have ok2: "fat_ok ?s2 fp" using assms(3) by (simp add: fat_ok_def disk_private_def stream_ok_def)
  have "m1 (item + of_nat i) = kmem s (item + of_nat i)" if "i < 32" for i
    using grew_taken [OF k1(4)] assms(5) that by (simp add: item_held_def)
  then have "same_item m1 item (kmem s) item" by (simp add: same_item_def)
  note fields = same_item_fields [OF this]
  have c2: "uint (ditem_low_cluster (kmem ?s2) item) = c" using assms(6) fields by simp
  have cok: "cluster_ok fp c" using chain_ok_start [OF D(1)] .
  obtain s3 where t: "fat16_get_total_items_for_directory (word_of_int (fat16_cluster_to_sector fp c)) ?s2 = Some (int ?l, s3)" "moved ?s2 s3"
    using total_items_spec [OF ok2 cluster_word [OF assms(3) cok], of n] D(2-4) unfolding live_count_def by auto
  obtain st3 where s3: "s3 = ?s2\<lparr>streams := st3\<rparr>" using t(2) by (auto simp: moved_def)
  let ?s4 = "s3\<lparr>fat_directories := (fat_directories s3)(d \<mapsto> empty_directory\<lparr>dir_total := int ?l\<rparr>)\<rparr>"
  have dsz: "word_of_int (int ?l) * sizeof_fat_directory_item = (of_nat ?N :: u32)" by (simp add: sizeof_fat_directory_item_def)
  have nz: "(of_nat ?N :: u32) \<noteq> 0" using uN N(2) by (metis less_irrefl unat_0)
  have so: "size_ok (of_nat ?N)" using uN N(1) by (simp add: size_ok_def)
  have w4: "heap_wf (kernel_heap ?s4)" "has_run (kernel_heap ?s4) (k + blocks_for (of_nat ?N))" using w1 k1(3) by (simp_all add: s3)
  obtain buf h5 m5 where k5: "kzalloc (of_nat ?N) ?s4 = Some (buf, ?s4\<lparr>kernel_heap := h5, kmem := m5\<rparr>)" "buf \<noteq> 0"
    "grew ?s4 (?s4\<lparr>kernel_heap := h5, kmem := m5\<rparr>) [buf] (blocks_for (of_nat ?N))"
    "\<forall>a. in_region buf (of_nat ?N) a \<longrightarrow> free_byte (kernel_heap ?s4) a \<and> \<not> free_byte h5 a \<and> m5 a = 0"
    using grew_alloc [OF w4(1) nz so w4(2)] by blast
  let ?dir = "empty_directory\<lparr>dir_total := int ?l, dir_item := buf\<rparr>"
  let ?s6 = "?s4\<lparr>kernel_heap := h5, kmem := m5, fat_directories := (fat_directories s)(d \<mapsto> ?dir)\<rparr>"
  have ok6: "fat_ok ?s6 fp" using fat_ok_moved [OF ok2 t(2)] by (simp add: fat_ok_def disk_private_def stream_ok_def)
  have img6: "disk_image ?s6 = ?img" by (simp add: s3)
  have c6: "chain_ok (disk_image ?s6) fp c" "readable (disk_image ?s6) fp c 0 ?N" using D(1,6) by (simp_all add: s3)
  have N6: "0 + ?N < 2147483648" using N(1) by simp
  let ?bs = "sub_bytes ?img fp c n"
  obtain s7 where r7: "fat16_read_internal c (int 0) (int ?N) buf ?s6 = Some (0, s7)"
    "moved (?s6\<lparr>kmem := write_bytes m5 buf ?bs\<rparr>) s7"
    using read_internal_readable [OF ok6 c6(1) N6 c6(2), of buf] by (auto simp: sub_bytes_def s3)
  obtain st7 where s7: "s7 = ?s6\<lparr>kmem := write_bytes m5 buf ?bs, streams := st7\<rparr>" using r7(2) by (auto simp: moved_def)
  have si: "sint (of_nat ?N :: u32) = int ?N" using N(1) uN by (simp add: sint_small)
  have run: "fat16_load_fat_directory item s = Some (d, s7)"
    using assms(4) dp k1(1,2) c2 t(1) k5(1,2) r7(1) dsz si
    by (simp add: fat16_load_fat_directory_def item_is_dir_def Let_def ISERR_def s3)
  have reg: "in_region buf (of_nat ?N) a \<longleftrightarrow> unat (a - buf) < ?N" for a
    by (simp only: in_region_def word_less_nat_alt uN)
  have wb: "write_bytes m5 buf ?bs a = (if in_region buf (of_nat ?N) a then ?bs ! unat (a - buf) else m5 a)" for a
    using write_bytes_spec [of ?bs m5 buf a] N(1) by (simp add: reg del: of_nat_mult)
  have "grew ?s4 s7 [buf] (blocks_for (of_nat ?N))"
    using k5(3,4) by (auto simp: grew_def s7 wb)
  moreover have "grew s ?s4 [d] 1" using k1(4) by (simp add: grew_def s3)
  ultimately have g: "grew s s7 [d, buf] (1 + blocks_for (of_nat ?N))" using grew_trans by fastforce
  have so7: "stream_ok s7 p" if "stream_ok s p" for p
  proof -
    have "stream_ok ?s2 p" using that by (simp add: stream_ok_def)
    then have "stream_ok s3 p" using t(2) by (simp add: moved_def)
    then have "stream_ok (?s6\<lparr>kmem := write_bytes m5 buf ?bs\<rparr>) p" by (simp add: stream_ok_def)
    then show ?thesis using r7(2) by (simp add: moved_def)
  qed
  have eq7: "s7 = s\<lparr>kernel_heap := h5, kmem := write_bytes m5 buf ?bs, streams := st7, fat_items := fat_items s,
      fat_directories := (fat_directories s)(d \<mapsto> ?dir)\<rparr>" by (simp add: s7 s3)
  then have fr: "fat_frame s s7" using so7 unfolding fat_frame_def by blast
  have "listed (kernel_heap s) s7 buf ?bs"
    unfolding listed_def
  proof (intro allI impI)
    fix i
    assume i: "i < length ?bs"
    then have ui: "unat (of_nat i :: u32) = i" using N(1) by (intro unat_of_nat_small) simp
    then have rg: "in_region buf (of_nat ?N) (buf + of_nat i)" using i by (simp add: reg del: of_nat_mult)
    then have f: "free_byte h1 (buf + of_nat i)" "\<not> free_byte h5 (buf + of_nat i)" using k5(4) by (simp_all add: s3 del: of_nat_mult)
    have "free_byte (kernel_heap s) (buf + of_nat i)" using grew_taken [OF k1(4)] f(1) by auto
    with f rg ui show "kmem s7 (buf + of_nat i) = ?bs ! i \<and> \<not> free_byte (kernel_heap s7) (buf + of_nat i)
        \<and> free_byte (kernel_heap s) (buf + of_nat i)" by (simp add: s7 wb del: of_nat_mult)
  qed
  with run k1(2) k5(2) g fr show ?thesis
    by (rule_tac exI [of _ d], rule_tac exI [of _ buf], rule_tac exI [of _ s7]) (simp add: eq7)
qed

section \<open>What a path leads to\<close>

text \<open>The index of the first entry of a listing with a given name.\<close>

definition dir_find :: "u8 list \<Rightarrow> u8 list \<Rightarrow> nat option" where
  "dir_find bs t = find (\<lambda>k. same_name (full_name (buf_mem bs) (32 * of_nat k)) t) [0..<length bs div 32]"

text \<open>
  \<open>leads img fp bs names r bs' k\<close>: from the listing \<open>bs\<close> the names lead, through directories on
  the disk, to the file with entry \<open>k\<close> of the listing \<open>bs'\<close>; the walk needs room for \<open>r\<close> blocks.
\<close>

inductive leads :: "(nat \<Rightarrow> u8) \<Rightarrow> fat_private \<Rightarrow> u8 list \<Rightarrow> u8 list list \<Rightarrow> nat \<Rightarrow> u8 list \<Rightarrow> nat \<Rightarrow> bool"
  for img :: "nat \<Rightarrow> u8" and fp :: fat_private where
  leads_file: "dir_find bs t = Some k \<Longrightarrow> \<not> item_is_dir (buf_mem bs) (32 * of_nat k) \<Longrightarrow> leads img fp bs [t] 2 bs k"
| leads_sub: "dir_find bs t = Some j \<Longrightarrow> item_is_dir (buf_mem bs) (32 * of_nat j)
    \<Longrightarrow> c = uint (ditem_low_cluster (buf_mem bs) (32 * of_nat j)) \<Longrightarrow> sub_dir img fp c n
    \<Longrightarrow> leads img fp (sub_bytes img fp c n) names r bs' k
    \<Longrightarrow> leads img fp bs (t # names) (2 + blocks_for (of_nat (32 * live_count img fp c n)) + r) bs' k"

inductive_cases leads_NilE: "leads img fp bs [] r bs' k"

lemma leads_ConsE:
  assumes "leads img fp bs (t # names) r bs' k"
  obtains (last) "names = []" "r = 2" "bs' = bs" "dir_find bs t = Some k" "\<not> item_is_dir (buf_mem bs) (32 * of_nat k)"
  | (sub) j c n r' where "r = 2 + blocks_for (of_nat (32 * live_count img fp c n)) + r'" "dir_find bs t = Some j"
      "item_is_dir (buf_mem bs) (32 * of_nat j)" "uint (ditem_low_cluster (buf_mem bs) (32 * of_nat j)) = c"
      "sub_dir img fp c n" "leads img fp (sub_bytes img fp c n) names r' bs' k"
  using assms by (rule leads.cases) blast+

lemma listing_item:
  assumes "\<And>i. i < length bs \<Longrightarrow> m (buf + of_nat i) = bs ! i" and "length bs < 2147483648" and "k < length bs div 32"
  shows "same_item m (buf + 32 * of_nat k) (buf_mem bs) (32 * of_nat k)"
  unfolding same_item_def
proof (intro allI impI)
  fix i
  assume "i < (32 :: nat)"
  then have j: "32 * k + i < length bs" using assms(3) by simp
  then have u: "unat (of_nat (32 * k + i) :: u32) = 32 * k + i" using assms(2) by (intro unat_of_nat_small) simp
  have "m (buf + of_nat (32 * k + i)) = buf_mem bs (of_nat (32 * k + i))"
    using assms(1) [OF j] j u by (simp only: buf_mem_def if_True)
  then show "m (buf + 32 * of_nat k + of_nat i) = buf_mem bs (32 * of_nat k + of_nat i)" by (simp add: add.assoc)
qed

lemma find_listing:
  fixes s :: "'a fat_state_scheme"
  assumes "\<And>i. i < length bs \<Longrightarrow> kmem s (buf + of_nat i) = bs ! i" and "length bs < 2147483648" and "held s str t"
  shows "find_item_loop buf str (length bs div 32) s =
    (case dir_find bs t of None \<Rightarrow> Some (0, s) | Some k \<Rightarrow> fat16_new_fat_item_for_directory_item (buf + 32 * of_nat k) s)"
proof -
  have c: "cstr (kmem s) str t" using assms(3) by (simp add: held_def)
  have "find (\<lambda>k. same_name (full_name (kmem s) (buf + 32 * of_nat k)) t) [0..<length bs div 32] = dir_find bs t"
    unfolding dir_find_def
    by (intro find_cong) (auto simp: same_item_name [OF listing_item [where m = "kmem s", OF assms(1,2)]])
  with find_item_loop_spec [OF c] show ?thesis by simp
qed

lemma dir_find_range: "dir_find bs t = Some k \<Longrightarrow> k < length bs div 32"
  unfolding dir_find_def by (auto simp: find_Some_iff)

section \<open>The walk\<close>

text \<open>
  The item \<open>it\<close> stands for a prefix of the path, \<open>names\<close> is what is left of it: a file at
  the end, a directory whose listing leads on before it. \<open>B\<close> are its blocks, new over \<open>h0\<close>.
\<close>

definition stands :: "(nat \<Rightarrow> u8) \<Rightarrow> fat_private \<Rightarrow> heap \<Rightarrow> 'a fat_state_scheme \<Rightarrow> u32 \<Rightarrow> u8 list list \<Rightarrow> nat \<Rightarrow> u8 list \<Rightarrow> nat \<Rightarrow> u32 list \<Rightarrow> bool" where
  "stands img fp h0 s it names r bs' k B \<longleftrightarrow> it \<noteq> 0 \<and>
     (if names = [] then r = 0 \<and> (\<exists>cp. B = [it, cp] \<and> fat_items s it = Some \<lparr>item_ptr = cp, item_type = fat_type_file\<rparr>
          \<and> cp \<noteq> 0 \<and> same_item (kmem s) cp (buf_mem bs') (32 * of_nat k) \<and> item_held (kernel_heap s) cp \<and> item_new h0 cp)
      else (\<exists>d buf bs dir. B = [it, d, buf] \<and> d \<noteq> 0 \<and> buf \<noteq> 0 \<and> fat_items s it = Some \<lparr>item_ptr = d, item_type = fat_type_directory\<rparr>
          \<and> fat_directories s d = Some dir \<and> dir_item dir = buf \<and> nat (dir_total dir) = length bs div 32
          \<and> listed h0 s buf bs \<and> length bs < 2147483648 \<and> leads img fp bs names r bs' k))"

lemma stands_transfer:
  assumes "stands img fp h s it names r bs' k B"
    and "fat_items s' it = fat_items s it" and "\<And>d. d \<in> set B \<Longrightarrow> fat_directories s' d = fat_directories s d"
    and "kmem s' = kmem s" and "\<And>a. free_byte h a \<Longrightarrow> \<not> free_byte (kernel_heap s) a \<Longrightarrow> \<not> free_byte (kernel_heap s') a"
    and "\<And>a. free_byte h a \<Longrightarrow> free_byte h' a"
  shows "stands img fp h' s' it names r bs' k B"
proof (cases "names = []")
  case True
  with assms(1) obtain cp where c: "it \<noteq> 0" "r = 0" "B = [it, cp]" "fat_items s it = Some \<lparr>item_ptr = cp, item_type = fat_type_file\<rparr>"
    "cp \<noteq> 0" "same_item (kmem s) cp (buf_mem bs') (32 * of_nat k)" "item_held (kernel_heap s) cp" "item_new h cp"
    by (auto simp: stands_def)
  have "item_held (kernel_heap s') cp" "item_new h' cp" using c(7,8) assms(5,6) by (auto simp: item_held_def item_new_def)
  with c True assms(2,4) show ?thesis by (simp add: stands_def)
next
  case False
  with assms(1) obtain d buf bs dir where c: "it \<noteq> 0" "B = [it, d, buf]" "d \<noteq> 0" "buf \<noteq> 0"
    "fat_items s it = Some \<lparr>item_ptr = d, item_type = fat_type_directory\<rparr>"
    "fat_directories s d = Some dir" "dir_item dir = buf" "nat (dir_total dir) = length bs div 32"
    "listed h s buf bs" "length bs < 2147483648" "leads img fp bs names r bs' k"
    by (auto simp: stands_def)
  have "listed h' s' buf bs" using c(9) assms(4-6) by (auto simp: listed_def)
  moreover have "fat_directories s' d = Some dir" using assms(3) [of d] c(2,6) by simp
  ultimately show ?thesis using c False assms(2) by (auto simp: stands_def intro!: exI [of _ bs])
qed

text \<open>Looking up one name in a listing in memory.\<close>

lemma find_step:
  fixes s :: "'a fat_state_scheme"
  assumes "heap_wf (kernel_heap s)" and "fat_ok s fp" and "disk_image s = img"
    and "\<forall>i < length bs. kmem s (buf + of_nat i) = bs ! i \<and> \<not> free_byte (kernel_heap s) (buf + of_nat i)"
    and "length bs < 2147483648" and "held s str t" and "leads img fp bs (t # names) r bs' k"
    and "has_run (kernel_heap s) (K + r)"
  shows "\<exists>it s' B r1 r2. find_item_loop buf str (length bs div 32) s = Some (it, s') \<and> r = r1 + r2
    \<and> grew s s' B r1 \<and> fat_frame s s' \<and> stands img fp (kernel_heap s) s' it names r2 bs' k B
    \<and> (\<forall>x. x \<noteq> it \<longrightarrow> fat_items s' x = fat_items s x)
    \<and> (\<forall>x. x \<notin> set B \<longrightarrow> fat_directories s' x = fat_directories s x)"
proof -
  have lst: "kmem s (buf + of_nat i) = bs ! i" if "i < length bs" for i using assms(4) that by blast
  have entry: "item_held (kernel_heap s) (buf + 32 * of_nat j)" "same_item (kmem s) (buf + 32 * of_nat j) (buf_mem bs) (32 * of_nat j)"
    if "dir_find bs t = Some j" for j
  proof -
    have j: "j < length bs div 32" using dir_find_range [OF that] .
    show "same_item (kmem s) (buf + 32 * of_nat j) (buf_mem bs) (32 * of_nat j)"
      using listing_item [OF lst assms(5) j] .
    have "\<not> free_byte (kernel_heap s) (buf + of_nat (32 * j + i))" if "i < 32" for i using spec [OF assms(4), of "32 * j + i"] j that by simp
    then show "item_held (kernel_heap s) (buf + 32 * of_nat j)" by (simp add: item_held_def add.assoc)
  qed
  note find = find_listing [where s = s, OF lst assms(5,6)]
  from assms(7) show ?thesis
  proof (cases rule: leads_ConsE)
    case last
    let ?item = "buf + 32 * of_nat k"
    note e = entry [OF last(4)]
    have nd: "\<not> item_is_dir (kmem s) ?item" using last same_item_fields(1) [OF e(2)] by (simp add: item_is_dir_def)
    have fc: "2 \<le> free_count (blocks (kernel_heap s))" using has_run_free_count [OF assms(8)] last by simp
    obtain fi cp h m where n: "fat16_new_fat_item_for_directory_item ?item s =
        Some (fi, s\<lparr>kernel_heap := h, kmem := m, fat_items := (fat_items s)(fi \<mapsto> \<lparr>item_ptr = cp, item_type = fat_type_file\<rparr>)\<rparr>)"
      (is "_ = Some (fi, ?s')")
      "fi \<noteq> 0" "cp \<noteq> 0" "fi \<noteq> cp" "heap_wf h" "same_item m cp (kmem s) ?item" "item_held h cp" "item_new (kernel_heap s) cp"
      "kept s (s\<lparr>kernel_heap := h, kmem := m\<rparr>)" "\<not> live_block (kernel_heap s) fi" "\<not> live_block (kernel_heap s) cp"
      "\<forall>q. live_block h q \<longleftrightarrow> q = fi \<or> q = cp \<or> live_block (kernel_heap s) q" "heap_grown (kernel_heap s) h"
      "heap_used 2 (kernel_heap s) h"
      using new_file_item [OF assms(1) fc nd e(1)] by blast
    have "grew s ?s' [fi, cp] 2" using n by (auto simp: grew_def kept_def)
    moreover have "same_item m cp (buf_mem bs) (32 * of_nat k)" using n(6) e(2) by (simp add: same_item_def)
    then have "stands img fp (kernel_heap s) ?s' fi names 0 bs' k [fi, cp]"
      using n(2,3,7,8) last by (simp add: stands_def)
    moreover have "?s' = s\<lparr>kernel_heap := h, kmem := m, streams := streams s,
        fat_items := (fat_items s)(fi \<mapsto> \<lparr>item_ptr = cp, item_type = fat_type_file\<rparr>), fat_directories := fat_directories s\<rparr>" by simp
    then have "fat_frame s ?s'" by (rule fat_frameI) (simp add: stream_ok_def)
    ultimately show ?thesis using find n(1) last
      by (rule_tac exI [of _ fi], rule_tac exI [of _ ?s'], rule_tac exI [of _ "[fi, cp]"], rule_tac exI [of _ 2], rule_tac exI [of _ 0]) simp
  next
    case (sub j c n r')
    let ?item = "buf + 32 * of_nat j" and ?N = "32 * live_count img fp c n"
    note e = entry [OF sub(2)]
    have flds: "item_is_dir (kmem s) ?item" "uint (ditem_low_cluster (kmem s) ?item) = c"
      using sub(3,4) same_item_fields(1,2) [OF e(2)] by (simp_all add: item_is_dir_def)
    have one: "blocks_for sizeof_fat_item = 1" by (rule blocks_for_small) (simp_all add: sizeof_fat_item_def)
    have sz: "sizeof_fat_item \<noteq> 0" "size_ok sizeof_fat_item" by (simp_all add: sizeof_fat_item_def size_ok_def)
    have run: "has_run (kernel_heap s) ((K + r' + blocks_for (of_nat ?N) + 1) + blocks_for sizeof_fat_item)"
      using assms(8) sub(1) one by (simp add: ac_simps)
    obtain it h1 m1 where k1: "kzalloc sizeof_fat_item s = Some (it, s\<lparr>kernel_heap := h1, kmem := m1\<rparr>)" "it \<noteq> 0"
      "has_run h1 (K + r' + blocks_for (of_nat ?N) + 1)" "grew s (s\<lparr>kernel_heap := h1, kmem := m1\<rparr>) [it] 1"
      using grew_alloc [OF assms(1) sz run] one by auto
    obtain q1 where q1: "q1 = s\<lparr>kernel_heap := h1, kmem := m1\<rparr>" by blast
    note k1 = k1 [folded q1]
    have fr1: "fat_frame s q1" unfolding q1 by (rule fat_frame_heap)
    have ok1: "fat_ok q1 fp" using fat_frame_ok [OF fr1 assms(2)] .
    have img1: "disk_image q1 = img" using assms(3) by (simp add: q1)
    have "kmem q1 (?item + of_nat i) = kmem s (?item + of_nat i) \<and> \<not> free_byte (kernel_heap q1) (?item + of_nat i)" if "i < 32" for i
      using grew_taken [OF k1(4)] e(1) that by (simp add: item_held_def)
    then have it1: "same_item (kmem q1) ?item (kmem s) ?item" "item_held (kernel_heap q1) ?item"
      by (simp_all add: same_item_def item_held_def)
    have fl1: "item_is_dir (kmem q1) ?item" "uint (ditem_low_cluster (kmem q1) ?item) = c"
      using flds same_item_fields(1,2) [OF it1(1)] by (simp_all add: item_is_dir_def)
    have w1: "heap_wf (kernel_heap q1)" using k1(4) by (simp add: grew_def)
    have r1: "has_run (kernel_heap q1) ((K + r') + blocks_for (of_nat (32 * live_count (disk_image q1) fp c n)) + 1)"
      using k1(3) by (simp add: img1) (simp add: q1)
    obtain d b s2 where k2: "fat16_load_fat_directory ?item q1 = Some (d, s2)" "d \<noteq> 0" "b \<noteq> 0"
      "grew q1 s2 [d, b] (1 + blocks_for (of_nat ?N))" "fat_frame q1 s2" "fat_items s2 = fat_items q1"
      "fat_directories s2 = (fat_directories q1)(d \<mapsto> empty_directory\<lparr>dir_total := int (live_count img fp c n), dir_item := b\<rparr>)"
      "listed (kernel_heap q1) s2 b (sub_bytes img fp c n)"
      using load_directory_spec [OF w1 r1 ok1 fl1(1) it1(2) fl1(2), unfolded img1, OF sub(5)]
      by (elim exE conjE) (rule that)
    let ?s3 = "s2\<lparr>fat_items := (fat_items s2)(it \<mapsto> \<lparr>item_ptr = d, item_type = fat_type_directory\<rparr>)\<rparr>"
    have at: "ditem_attribute (kmem q1) ?item AND FAT_FILE_SUBDIRECTORY \<noteq> 0" using fl1(1) by (simp add: item_is_dir_def)
    have new: "fat16_new_fat_item_for_directory_item ?item s = Some (it, ?s3)"
      using k1(1,2) k2(1) at by (simp add: fat16_new_fat_item_for_directory_item_def)
    have "grew s s2 ([it] @ [d, b]) (1 + (1 + blocks_for (of_nat ?N)))" by (rule grew_trans [OF k1(4) k2(4)])
    then have g: "grew s ?s3 [it, d, b] (2 + blocks_for (of_nat ?N))" by (simp add: grew_def)
    have fr2: "fat_frame s s2" using fat_frame_trans [OF fr1 k2(5)] .
    then obtain h' m' st' its' ds' where sh: "s2 = s\<lparr>kernel_heap := h', kmem := m', streams := st', fat_items := its', fat_directories := ds'\<rparr>"
      unfolding fat_frame_def by blast
    have "?s3 = s\<lparr>kernel_heap := h', kmem := m', streams := st',
        fat_items := (fat_items s2)(it \<mapsto> \<lparr>item_ptr = d, item_type = fat_type_directory\<rparr>), fat_directories := ds'\<rparr>"
      unfolding sh by simp
    then have fr3: "fat_frame s ?s3" by (rule fat_frameI) (use fr2 in \<open>simp add: fat_frame_def stream_ok_def\<close>)
    have "names \<noteq> []" using sub(6) leads_NilE by blast
    have ln: "length (sub_bytes img fp c n) < 2147483648" using sub_dir_small [OF sub(5)] by simp
    have old: "free_byte (kernel_heap s) a" if "free_byte (kernel_heap q1) a" for a using grew_taken [OF k1(4)] that by blast
    then have "listed (kernel_heap s) ?s3 b (sub_bytes img fp c n)" using k2(8) by (simp add: listed_def)
    then have st: "stands img fp (kernel_heap s) ?s3 it names r' bs' k [it, d, b]"
      using k1(2) k2(2,3,7) sub(6) \<open>names \<noteq> []\<close> ln
      unfolding stands_def by (auto intro!: exI [of _ "sub_bytes img fp c n"])
    have "fat_items s2 = fat_items s" "fat_directories q1 = fat_directories s" using k2(6) by (simp_all add: q1)
    then show ?thesis using find new sub(1,2) g fr3 st k2(7)
      by (rule_tac exI [of _ it], rule_tac exI [of _ ?s3], rule_tac exI [of _ "[it, d, b]"],
          rule_tac exI [of _ "2 + blocks_for (of_nat ?N)"], rule_tac exI [of _ r']) simp
  qed
qed

text \<open>Releasing a directory: its listing, its node and the item itself.\<close>

lemma release_dir:
  fixes s0 s :: "'a fat_state_scheme"
  assumes "grew s0 s ([it, d, buf] @ ys) r" and "it \<noteq> 0" and "d \<noteq> 0" and "buf \<noteq> 0"
    and "fat_items s it = Some \<lparr>item_ptr = d, item_type = fat_type_directory\<rparr>"
    and "fat_directories s d = Some dir" and "dir_item dir = buf"
  shows "\<exists>h. fat16_fat_item_free it s = Some (s\<lparr>kernel_heap := h, fat_items := (fat_items s)(it := None),
        fat_directories := (fat_directories s)(d := None)\<rparr>)
    \<and> grew s0 (s\<lparr>kernel_heap := h\<rparr>) ys r
    \<and> (\<forall>a. \<not> free_byte (kernel_heap s) a \<longrightarrow> (\<forall>q \<in> {it, d, buf}. \<not> in_chunk (kernel_heap s) q a) \<longrightarrow> \<not> free_byte h a)"
proof -
  have g0: "grew s0 s ([it, d] @ buf # ys) r" using assms(1) by simp
  obtain h1 where 1: "kfree buf s = Some (s\<lparr>kernel_heap := h1\<rparr>)" "grew s0 (s\<lparr>kernel_heap := h1\<rparr>) ([it, d] @ ys) r"
    "\<forall>a. \<not> free_byte (kernel_heap s) a \<longrightarrow> \<not> in_chunk (kernel_heap s) buf a \<longrightarrow> \<not> free_byte h1 a"
    "\<forall>q. q \<noteq> buf \<longrightarrow> in_chunk h1 q = in_chunk (kernel_heap s) q" using grew_free [OF g0] by blast
  let ?s1 = "s\<lparr>kernel_heap := h1\<rparr>"
  have g1: "grew s0 ?s1 ([it] @ d # ys) r" using 1(2) by simp
  obtain h2 where 2: "kfree d ?s1 = Some (?s1\<lparr>kernel_heap := h2\<rparr>)" "grew s0 (?s1\<lparr>kernel_heap := h2\<rparr>) ([it] @ ys) r"
    "\<forall>a. \<not> free_byte (kernel_heap ?s1) a \<longrightarrow> \<not> in_chunk (kernel_heap ?s1) d a \<longrightarrow> \<not> free_byte h2 a"
    "\<forall>q. q \<noteq> d \<longrightarrow> in_chunk h2 q = in_chunk (kernel_heap ?s1) q" using grew_free [OF g1] by blast
  let ?s2 = "?s1\<lparr>kernel_heap := h2, fat_directories := (fat_directories s)(d := None)\<rparr>"
  have g2: "grew s0 ?s2 ([] @ it # ys) r" using 2(2) by (simp add: grew_def)
  obtain h3 where 3: "kfree it ?s2 = Some (?s2\<lparr>kernel_heap := h3\<rparr>)" "grew s0 (?s2\<lparr>kernel_heap := h3\<rparr>) ([] @ ys) r"
    "\<forall>a. \<not> free_byte (kernel_heap ?s2) a \<longrightarrow> \<not> in_chunk (kernel_heap ?s2) it a \<longrightarrow> \<not> free_byte h3 a"
    "\<forall>q. q \<noteq> it \<longrightarrow> in_chunk h3 q = in_chunk (kernel_heap ?s2) q" using grew_free [OF g2] by blast
  have run: "fat16_fat_item_free it s = Some (?s2\<lparr>kernel_heap := h3, fat_items := (fat_items s)(it := None)\<rparr>)"
    using assms(2-7) 1(1) 2(1) 3(1) by (simp add: fat16_fat_item_free_def fat16_free_directory_def)
  have ne: "distinct [it, d, buf]" using assms(1) by (auto simp: grew_def)
  have "\<not> free_byte h3 a" if "\<not> free_byte (kernel_heap s) a" "\<forall>q \<in> {it, d, buf}. \<not> in_chunk (kernel_heap s) q a" for a
    using that 1(3,4) 2(3,4) 3(3) ne by simp
  moreover have "grew s0 (s\<lparr>kernel_heap := h3\<rparr>) ys r" using 3(2) by (simp add: grew_def)
  ultimately show ?thesis using run by (rule_tac exI [of _ h3]) simp
qed

lemma grew_kept: "grew s s' B r \<Longrightarrow> kept s s'"
  unfolding kept_def using grew_taken by blast

lemma stands_dirE:
  assumes "stands img fp h s it (t # names) r bs' k B"
  obtains d buf bs dir where "it \<noteq> 0" "B = [it, d, buf]" "d \<noteq> 0" "buf \<noteq> 0"
    "fat_items s it = Some \<lparr>item_ptr = d, item_type = fat_type_directory\<rparr>"
    "fat_directories s d = Some dir" "dir_item dir = buf" "nat (dir_total dir) = length bs div 32"
    "listed h s buf bs" "length bs < 2147483648" "leads img fp bs (t # names) r bs' k"
  using assms by (auto simp: stands_def)

lemma stands_head: "stands img fp h s it names r bs' k B \<Longrightarrow> it \<noteq> 0 \<and> it \<in> set B"
  by (auto simp: stands_def split: if_splits)

text \<open>One round of the loop: the next item is found and the current one released.\<close>

lemma walk_round:
  fixes s0 s :: "'a fat_state_scheme"
  assumes "grew s0 s B rr" and "fat_frame s0 s" and "fat_ok s0 fp" and "disk_image s0 = img"
    and "stands img fp (kernel_heap s0) s it (t # names) r bs' k B" and "held s0 str t"
    and "has_run (kernel_heap s0) (K + (rr + r))" and "heap_wf (kernel_heap s0)"
  shows "\<exists>d dir it2 s1 s2 B2 r1 r2. it \<noteq> 0 \<and> fat_items s it = Some \<lparr>item_ptr = d, item_type = fat_type_directory\<rparr>
    \<and> fat_directories s d = Some dir \<and> fat16_find_item_in_directory dir str s = Some (it2, s1)
    \<and> fat16_fat_item_free it s1 = Some s2 \<and> it2 \<noteq> 0 \<and> r = r1 + r2 \<and> grew s0 s2 B2 (rr + r1) \<and> fat_frame s0 s2
    \<and> stands img fp (kernel_heap s0) s2 it2 names r2 bs' k B2
    \<and> (\<forall>x. x \<notin> set (B @ B2) \<longrightarrow> fat_items s2 x = fat_items s x \<and> fat_directories s2 x = fat_directories s x)"
proof -
  obtain d buf bs dir where D: "it \<noteq> 0" "B = [it, d, buf]" "d \<noteq> 0" "buf \<noteq> 0"
    "fat_items s it = Some \<lparr>item_ptr = d, item_type = fat_type_directory\<rparr>"
    "fat_directories s d = Some dir" "dir_item dir = buf" "nat (dir_total dir) = length bs div 32"
    "listed (kernel_heap s0) s buf bs" "length bs < 2147483648" "leads img fp bs (t # names) r bs' k"
    using assms(5) by (rule stands_dirE)
  have wf: "heap_wf (kernel_heap s)" using assms(1) by (simp add: grew_def)
  have ok: "fat_ok s fp" and img: "disk_image s = img"
    using fat_frame_ok [OF assms(2,3)] fat_frame_simps(1) [OF assms(2)] assms(4) by simp_all
  have hs: "held s str t" using held_kept [OF assms(6) grew_kept [OF assms(1)]] .
  have "has_run (kernel_heap s0) ((K + r) + rr)" using assms(7) by (simp add: ac_simps)
  then have run: "has_run (kernel_heap s) (K + r)" using assms(1) by (simp add: grew_def heap_used_def)
  have bytes: "\<forall>i < length bs. kmem s (buf + of_nat i) = bs ! i \<and> \<not> free_byte (kernel_heap s) (buf + of_nat i)"
    using D(9) by (simp add: listed_def)
  obtain it2 s1 B2 r1 r2 where F: "find_item_loop buf str (length bs div 32) s = Some (it2, s1)" "r = r1 + r2"
    "grew s s1 B2 r1" "fat_frame s s1" "stands img fp (kernel_heap s) s1 it2 names r2 bs' k B2"
    "\<forall>x. x \<noteq> it2 \<longrightarrow> fat_items s1 x = fat_items s x" "\<forall>x. x \<notin> set B2 \<longrightarrow> fat_directories s1 x = fat_directories s x"
    using find_step [OF wf ok img bytes D(10) hs D(11) run] by (elim exE conjE) (rule that)
  have it2: "it2 \<noteq> 0" "it2 \<in> set B2" using stands_head [OF F(5)] by simp_all
  have lv: "live_block (kernel_heap s) q" if "q \<in> set B" for q using assms(1) that by (simp add: grew_def)
  have sep: "q \<notin> set B2" if "q \<in> set B" for q using lv [OF that] F(3) by (auto simp: grew_def)
  have same: "fat_items s1 it = fat_items s it" "fat_directories s1 d = fat_directories s d"
    using F(6,7) it2(2) sep [of it] sep [of d] D(2) by auto
  have g: "grew s0 s1 ([it, d, buf] @ B2) (rr + r1)" using grew_trans [OF assms(1) F(3)] by (simp add: D(2))
  obtain h where R: "fat16_fat_item_free it s1 = Some (s1\<lparr>kernel_heap := h, fat_items := (fat_items s1)(it := None),
        fat_directories := (fat_directories s1)(d := None)\<rparr>)"
    "grew s0 (s1\<lparr>kernel_heap := h\<rparr>) B2 (rr + r1)"
    "\<forall>a. \<not> free_byte (kernel_heap s1) a \<longrightarrow> (\<forall>q \<in> {it, d, buf}. \<not> in_chunk (kernel_heap s1) q a) \<longrightarrow> \<not> free_byte h a"
    using release_dir [OF g D(1,3,4), of dir] same D(5-7) by auto
  let ?s2 = "s1\<lparr>kernel_heap := h, fat_items := (fat_items s1)(it := None), fat_directories := (fat_directories s1)(d := None)\<rparr>"
  have g2: "grew s0 ?s2 B2 (rr + r1)" using R(2) by (simp add: grew_def)
  have fr1: "fat_frame s0 s1" using fat_frame_trans [OF assms(2) F(4)] .
  then obtain h' m' st' its' ds' where sh: "s1 = s0\<lparr>kernel_heap := h', kmem := m', streams := st', fat_items := its', fat_directories := ds'\<rparr>"
    unfolding fat_frame_def by blast
  have "?s2 = s0\<lparr>kernel_heap := h, kmem := m', streams := st', fat_items := (fat_items s1)(it := None),
      fat_directories := (fat_directories s1)(d := None)\<rparr>" unfolding sh by simp
  then have fr2: "fat_frame s0 ?s2" by (rule fat_frameI) (use fr1 in \<open>simp add: fat_frame_def stream_ok_def\<close>)
  have taken: "\<not> free_byte h a" if "free_byte (kernel_heap s) a" "\<not> free_byte (kernel_heap s1) a" for a
  proof -
    have "\<not> in_chunk (kernel_heap s1) q a" if "q \<in> set B" for q
    proof -
      have "in_chunk (kernel_heap s1) q = in_chunk (kernel_heap s) q" using F(3) lv [OF that] by (simp add: grew_def heap_grown_def)
      then show ?thesis using kze.extent_taken [OF wf] \<open>free_byte (kernel_heap s) a\<close> by auto
    qed
    then show ?thesis using R(3) \<open>\<not> free_byte (kernel_heap s1) a\<close> by (simp add: D(2))
  qed
  have older: "free_byte (kernel_heap s0) a" if "free_byte (kernel_heap s) a" for a using grew_taken [OF assms(1)] that by blast
  have "stands img fp (kernel_heap s0) ?s2 it2 names r2 bs' k B2"
  proof (rule stands_transfer [OF F(5)])
    show "fat_items ?s2 it2 = fat_items s1 it2" using it2(2) sep [of it] D(2) by auto
    show "fat_directories ?s2 x = fat_directories s1 x" if "x \<in> set B2" for x using that sep [of d] D(2) by auto
  qed (use taken older in simp_all)
  moreover have "fat_items ?s2 x = fat_items s x \<and> fat_directories ?s2 x = fat_directories s x" if "x \<notin> set (B @ B2)" for x
    using that F(6,7) it2(2) D(2) by auto
  moreover have "fat16_find_item_in_directory dir str s = Some (it2, s1)"
    using F(1) D(7,8) by (simp add: fat16_find_item_in_directory_def)
  ultimately show ?thesis using D(1,5,6) R(1) it2(1) F(2) g2 fr2 by blast
qed

lemma walk_spec:
  fixes s0 s :: "'a fat_state_scheme"
  assumes "grew s0 s B rr" and "fat_frame s0 s" and "fat_ok s0 fp" and "disk_image s0 = img"
    and "stands img fp (kernel_heap s0) s it names r bs' k B"
    and "part_chain (path_parts s0) nx ns" and "list_all2 (\<lambda>(q, str) t. held s0 str t) ns names"
    and "has_run (kernel_heap s0) (K + (rr + r))" and "heap_wf (kernel_heap s0)"
  shows "\<exists>it' s' B'. directory_entry_loop it nx s = Some (it', s') \<and> grew s0 s' B' (rr + r) \<and> fat_frame s0 s'
    \<and> stands img fp (kernel_heap s0) s' it' [] 0 bs' k B'
    \<and> (\<forall>x. live_block (kernel_heap s0) x \<longrightarrow> fat_items s' x = fat_items s x \<and> fat_directories s' x = fat_directories s x)"
  using assms(1,2,5-8)
proof (induction names arbitrary: s B rr it r nx ns)
  case Nil
  then have "ns = []" "nx = 0" "r = 0" by (auto simp: stands_def)
  with Nil.prems show ?case by (subst directory_entry_loop.simps) auto
next
  case (Cons t names)
  obtain q str ns' nx' where ns: "ns = (q, str) # ns'" "held s0 str t" "list_all2 (\<lambda>(q, str) t. held s0 str t) ns' names"
    "nx = q" "q \<noteq> 0" "path_parts s0 q = Some \<lparr>part = str, next_part = nx'\<rparr>" "part_chain (path_parts s0) nx' ns'"
    using Cons.prems(4,5) by (auto simp: list_all2_Cons2)
  obtain d dir it2 s1 s2 B2 r1 r2 where W: "it \<noteq> 0" "fat_items s it = Some \<lparr>item_ptr = d, item_type = fat_type_directory\<rparr>"
    "fat_directories s d = Some dir" "fat16_find_item_in_directory dir str s = Some (it2, s1)"
    "fat16_fat_item_free it s1 = Some s2" "it2 \<noteq> 0" "r = r1 + r2" "grew s0 s2 B2 (rr + r1)" "fat_frame s0 s2"
    "stands img fp (kernel_heap s0) s2 it2 names r2 bs' k B2"
    "\<forall>x. x \<notin> set (B @ B2) \<longrightarrow> fat_items s2 x = fat_items s x \<and> fat_directories s2 x = fat_directories s x"
    using walk_round [OF Cons.prems(1,2) assms(3,4) Cons.prems(3) ns(2) Cons.prems(6) assms(9)]
    by (elim exE conjE) (rule that)
  have pp: "path_parts s q = Some \<lparr>part = str, next_part = nx'\<rparr>" "path_parts s2 q = Some \<lparr>part = str, next_part = nx'\<rparr>"
    using fat_frame_simps(5) [OF Cons.prems(2)] fat_frame_simps(5) [OF W(9)] ns(6) by simp_all
  have step: "directory_entry_loop it nx s = directory_entry_loop it2 nx' s2"
    using ns(4,5) pp W(2-6) by (subst directory_entry_loop.simps) simp
  have room: "has_run (kernel_heap s0) (K + ((rr + r1) + r2))" using Cons.prems(6) W(7) by (simp add: ac_simps)
  obtain it' s' B' where I: "directory_entry_loop it2 nx' s2 = Some (it', s')" "grew s0 s' B' ((rr + r1) + r2)" "fat_frame s0 s'"
    "stands img fp (kernel_heap s0) s' it' [] 0 bs' k B'"
    "\<forall>x. live_block (kernel_heap s0) x \<longrightarrow> fat_items s' x = fat_items s2 x \<and> fat_directories s' x = fat_directories s2 x"
    using Cons.IH [OF W(8-10) ns(7,3) room] by blast
  have "x \<notin> set (B @ B2)" if "live_block (kernel_heap s0) x" for x
    using that Cons.prems(1) W(8) by (auto simp: grew_def)
  then have "\<forall>x. live_block (kernel_heap s0) x \<longrightarrow> fat_items s' x = fat_items s x \<and> fat_directories s' x = fat_directories s x"
    using I(5) W(11) by simp
  then show ?case using step I(1-4) W(7) by (rule_tac exI [of _ it'], rule_tac exI [of _ s'], rule_tac exI [of _ B']) (simp add: add.assoc)
qed

section \<open>Finding and opening\<close>

text \<open>The root directory as it lies in memory.\<close>

definition root_listing :: "'a fat_state_scheme \<Rightarrow> fat_private \<Rightarrow> u8 list" where
  "root_listing s fp = read_bytes (kmem s) (dir_item (root_directory fp)) (32 * nat (dir_total (root_directory fp)))"

lemma length_root_listing [simp]: "length (root_listing s fp) = 32 * nat (dir_total (root_directory fp))"
  by (simp add: root_listing_def)

lemma root_held_byte:
  assumes "root_held s fp" and "i < 32 * nat (dir_total (root_directory fp))"
  shows "\<not> free_byte (kernel_heap s) (dir_item (root_directory fp) + of_nat i)"
proof -
  have "i div 32 < nat (dir_total (root_directory fp))" using assms(2) by simp
  then have "item_held (kernel_heap s) (dir_item (root_directory fp) + 32 * of_nat (i div 32))"
    using assms(1) by (simp add: root_held_def)
  then have "\<not> free_byte (kernel_heap s) (dir_item (root_directory fp) + 32 * of_nat (i div 32) + of_nat (i mod 32))"
    by (simp add: item_held_def)
  moreover have "(32 * of_nat (i div 32) + of_nat (i mod 32) :: u32) = of_nat (32 * (i div 32) + i mod 32)"
    by (simp only: of_nat_add of_nat_mult of_nat_numeral)
  ultimately show ?thesis by (simp only: add.assoc mult_div_mod_eq) simp
qed

lemma root_listing_kept: "root_held s fp \<Longrightarrow> kept s s' \<Longrightarrow> root_listing s' fp = root_listing s fp"
  unfolding root_listing_def by (intro nth_equalityI) (auto simp: nth_read_bytes kept_def root_held_byte)

lemma get_entry_spec:
  fixes s :: "'a fat_state_scheme"
  assumes "heap_wf (kernel_heap s)" and "fat_ok s fp" and "root_held s fp"
    and "32 * nat (dir_total (root_directory fp)) < 2147483648"
    and "part_chain (path_parts s) path ns" and "list_all2 (\<lambda>(q, str) t. held s str t) ns names"
    and "leads (disk_image s) fp (root_listing s fp) names r bs k" and "has_run (kernel_heap s) (K + r)"
  shows "\<exists>it cp s'. fat16_get_directory_entry path s = Some (it, s') \<and> it \<noteq> 0 \<and> cp \<noteq> 0 \<and> grew s s' [it, cp] r \<and> fat_frame s s'
    \<and> fat_items s' it = Some \<lparr>item_ptr = cp, item_type = fat_type_file\<rparr>
    \<and> same_item (kmem s') cp (buf_mem bs) (32 * of_nat k) \<and> item_held (kernel_heap s') cp \<and> item_new (kernel_heap s) cp
    \<and> (\<forall>x. live_block (kernel_heap s) x \<longrightarrow> fat_items s' x = fat_items s x \<and> fat_directories s' x = fat_directories s x)"
proof -
  let ?root = "root_directory fp"
  have "names \<noteq> []" using assms(7) leads_NilE by blast
  then obtain t names' where nm: "names = t # names'" by (cases names) auto
  obtain str ns' nx where ns: "ns = (path, str) # ns'" "held s str t" "list_all2 (\<lambda>(q, str) t. held s str t) ns' names'"
    "path_parts s path = Some \<lparr>part = str, next_part = nx\<rparr>" "part_chain (path_parts s) nx ns'"
    using assms(5,6) by (auto simp: nm list_all2_Cons2)
  have bytes: "\<forall>i < length (root_listing s fp). kmem s (dir_item ?root + of_nat i) = root_listing s fp ! i
      \<and> \<not> free_byte (kernel_heap s) (dir_item ?root + of_nat i)"
    using root_held_byte [OF assms(3)] by (simp add: root_listing_def nth_read_bytes)
  have len: "length (root_listing s fp) < 2147483648" using assms(4) by simp
  obtain it s1 B r1 r2 where F: "find_item_loop (dir_item ?root) str (length (root_listing s fp) div 32) s = Some (it, s1)" "r = r1 + r2"
    "grew s s1 B r1" "fat_frame s s1" "stands (disk_image s) fp (kernel_heap s) s1 it names' r2 bs k B"
    "\<forall>x. x \<noteq> it \<longrightarrow> fat_items s1 x = fat_items s x" "\<forall>x. x \<notin> set B \<longrightarrow> fat_directories s1 x = fat_directories s x"
    using find_step [OF assms(1,2) refl bytes len ns(2) assms(7) [unfolded nm] assms(8)] by (elim exE conjE) (rule that)
  have room: "has_run (kernel_heap s) (K + (r1 + r2))" using assms(8) F(2) by simp
  obtain it' s' B' where W: "directory_entry_loop it nx s1 = Some (it', s')" "grew s s' B' (r1 + r2)" "fat_frame s s'"
    "stands (disk_image s) fp (kernel_heap s) s' it' [] 0 bs k B'"
    "\<forall>x. live_block (kernel_heap s) x \<longrightarrow> fat_items s' x = fat_items s1 x \<and> fat_directories s' x = fat_directories s1 x"
    using walk_spec [OF F(3,4) assms(2) refl F(5) ns(5,3) room assms(1)] by (elim exE conjE) (rule that)
  have "disk_private s = Some fp" using assms(2) by (simp add: fat_ok_def)
  moreover have "it \<noteq> 0" "it \<in> set B" using stands_head [OF F(5)] by simp_all
  moreover have "path_parts s1 path = Some \<lparr>part = str, next_part = nx\<rparr>" using fat_frame_simps(5) [OF F(4)] ns(4) by simp
  ultimately have run: "fat16_get_directory_entry path s = Some (it', s')"
    using F(1) W(1) ns(4) by (simp add: fat16_get_directory_entry_def fat16_find_item_in_directory_def)
  obtain cp where S: "it' \<noteq> 0" "B' = [it', cp]" "fat_items s' it' = Some \<lparr>item_ptr = cp, item_type = fat_type_file\<rparr>" "cp \<noteq> 0"
    "same_item (kmem s') cp (buf_mem bs) (32 * of_nat k)" "item_held (kernel_heap s') cp" "item_new (kernel_heap s) cp"
    using W(4) by (auto simp: stands_def)
  have "x \<notin> set B" if "live_block (kernel_heap s) x" for x using that F(3) by (auto simp: grew_def)
  then have "\<forall>x. live_block (kernel_heap s) x \<longrightarrow> fat_items s' x = fat_items s x \<and> fat_directories s' x = fat_directories s x"
    using W(5) F(6,7) \<open>it \<in> set B\<close> by metis
  then show ?thesis using run S W(2,3) F(2)
    by (rule_tac exI [of _ it'], rule_tac exI [of _ cp], rule_tac exI [of _ s']) simp
qed

lemma open_spec:
  fixes s :: "'a fat_state_scheme"
  assumes "heap_wf (kernel_heap s)" and "fat_ok s fp" and "root_held s fp"
    and "32 * nat (dir_total (root_directory fp)) < 2147483648"
    and "part_chain (path_parts s) path ns" and "list_all2 (\<lambda>(q, str) t. held s str t) ns names"
    and "leads (disk_image s) fp (root_listing s fp) names r bs k" and "has_run (kernel_heap s) (K + r + 1)"
  shows "\<exists>d fi cp s'. fat16_open path FILE_MODE_READ s = Some (d, s') \<and> d \<noteq> 0 \<and> fi \<noteq> 0 \<and> cp \<noteq> 0 \<and> grew s s' [d, fi, cp] (r + 1)
    \<and> fat_frame s (s'\<lparr>fat_descs := fat_descs s\<rparr>) \<and> fat_descs s' = (fat_descs s)(d \<mapsto> \<lparr>desc_item = fi, desc_pos = 0\<rparr>)
    \<and> fat_items s' fi = Some \<lparr>item_ptr = cp, item_type = fat_type_file\<rparr>
    \<and> same_item (kmem s') cp (buf_mem bs) (32 * of_nat k) \<and> item_held (kernel_heap s') cp \<and> item_new (kernel_heap s) cp
    \<and> (\<forall>x. live_block (kernel_heap s) x \<longrightarrow> fat_items s' x = fat_items s x \<and> fat_directories s' x = fat_directories s x)"
proof -
  have one: "blocks_for sizeof_fat_file_descriptor = 1" by (rule blocks_for_small) (simp_all add: sizeof_fat_file_descriptor_def)
  have sz: "sizeof_fat_file_descriptor \<noteq> 0" "size_ok sizeof_fat_file_descriptor"
    by (simp_all add: sizeof_fat_file_descriptor_def size_ok_def)
  have run: "has_run (kernel_heap s) ((K + r) + blocks_for sizeof_fat_file_descriptor)" using assms(8) one by simp
  obtain d h1 m1 where k1: "kzalloc sizeof_fat_file_descriptor s = Some (d, s\<lparr>kernel_heap := h1, kmem := m1\<rparr>)" "d \<noteq> 0"
    "has_run h1 (K + r)" "grew s (s\<lparr>kernel_heap := h1, kmem := m1\<rparr>) [d] 1"
    using grew_alloc [OF assms(1) sz run] one by auto
  obtain q1 where q1: "q1 = s\<lparr>kernel_heap := h1, kmem := m1\<rparr>" by blast
  note k1 = k1 [folded q1]
  have kp: "kept s q1" using grew_kept [OF k1(4)] .
  have fr: "fat_frame s q1" unfolding q1 by (rule fat_frame_heap)
  have w: "heap_wf (kernel_heap q1)" "has_run (kernel_heap q1) (K + r)" "fat_ok q1 fp" "root_held q1 fp"
    "part_chain (path_parts q1) path ns" "leads (disk_image q1) fp (root_listing q1 fp) names r bs k"
    using k1(3,4) fat_frame_ok [OF fr assms(2)] root_find_kept(1) [OF assms(3) kp] assms(5,7) root_listing_kept [OF assms(3) kp]
    by (simp_all add: grew_def) (simp_all add: q1)
  have nm: "list_all2 (\<lambda>(q, str) t. held q1 str t) ns names"
    using assms(6) by (rule list_all2_mono) (use held_kept [OF _ kp] in auto)
  obtain it cp s' where G: "fat16_get_directory_entry path q1 = Some (it, s')" "it \<noteq> 0" "cp \<noteq> 0" "grew q1 s' [it, cp] r" "fat_frame q1 s'"
    "fat_items s' it = Some \<lparr>item_ptr = cp, item_type = fat_type_file\<rparr>"
    "same_item (kmem s') cp (buf_mem bs) (32 * of_nat k)" "item_held (kernel_heap s') cp" "item_new (kernel_heap q1) cp"
    "\<forall>x. live_block (kernel_heap q1) x \<longrightarrow> fat_items s' x = fat_items q1 x \<and> fat_directories s' x = fat_directories q1 x"
    using get_entry_spec [OF w(1,3,4) assms(4) w(5) nm w(6,2)] by (elim exE conjE) (rule that)
  let ?s' = "s'\<lparr>fat_descs := (fat_descs s')(d \<mapsto> \<lparr>desc_item = it, desc_pos = 0\<rparr>)\<rparr>"
  have fd: "fat_descs s' = fat_descs s" using fat_frame_simps(7) [OF G(5)] by (simp add: q1)
  have opened: "fat16_open path FILE_MODE_READ s = Some (d, ?s')"
    using k1(1,2) G(1,2) by (simp add: fat16_open_def)
  have g: "grew s s' [d, it, cp] (r + 1)" using grew_trans [OF k1(4) G(4)] by simp
  have frame: "fat_frame s (?s'\<lparr>fat_descs := fat_descs s\<rparr>)" using fat_frame_trans [OF fr G(5)] by (simp flip: fd)
  have "item_new (kernel_heap s) cp" using G(9) kp by (auto simp: item_new_def kept_def)
  moreover have "live_block (kernel_heap q1) x" if "live_block (kernel_heap s) x" for x using k1(4) that by (simp add: grew_def)
  then have "\<forall>x. live_block (kernel_heap s) x \<longrightarrow> fat_items s' x = fat_items s x \<and> fat_directories s' x = fat_directories s x"
    using G(10) by (simp add: q1)
  ultimately show ?thesis using opened k1(2) G(2,3,6-8) g frame fd
    by (rule_tac exI [of _ d], rule_tac exI [of _ it], rule_tac exI [of _ cp], rule_tac exI [of _ ?s']) (simp add: grew_def)
qed

text \<open>
  The file a path leads to, with the cluster its data starts at and its size; the root directory
  lies in memory that is not free.
\<close>

definition file_entry :: "'a fat_state_scheme \<Rightarrow> fat_private \<Rightarrow> u8 list list \<Rightarrow> nat \<Rightarrow> int \<Rightarrow> nat \<Rightarrow> bool" where
  "file_entry s fp names r c F \<longleftrightarrow> root_held s fp \<and> 32 * nat (dir_total (root_directory fp)) < 2147483648
     \<and> (\<exists>bs k. leads (disk_image s) fp (root_listing s fp) names r bs k
          \<and> uint (ditem_low_cluster (buf_mem bs) (32 * of_nat k)) = c \<and> unat (ditem_filesize (buf_mem bs) (32 * of_nat k)) = F)"

lemma file_entry_kept:
  assumes "file_entry s fp names r c F" and "kept s s'" and "disk_image s' = disk_image s"
  shows "file_entry s' fp names r c F"
proof -
  have h: "root_held s fp" using assms(1) by (simp add: file_entry_def)
  show ?thesis
    using assms(1) root_find_kept(1) [OF h assms(2)] unfolding file_entry_def root_listing_kept [OF h assms(2)] assms(3) by blast
qed

text \<open>A file of the root directory.\<close>

lemma file_entry_root:
  assumes "root_held s fp" and "32 * nat (dir_total (root_directory fp)) < 2147483648" and "root_find s fp t = Some k"
    and "item = dir_item (root_directory fp) + 32 * of_nat k" and "\<not> item_is_dir (kmem s) item"
  shows "file_entry s fp [t] 2 (uint (ditem_low_cluster (kmem s) item)) (unat (ditem_filesize (kmem s) item))"
proof -
  let ?bs = "root_listing s fp"
  have b: "kmem s (dir_item (root_directory fp) + of_nat i) = ?bs ! i" if "i < length ?bs" for i
    using that by (simp add: root_listing_def nth_read_bytes)
  have len: "length ?bs < 2147483648" using assms(2) by simp
  have k: "k < length ?bs div 32" using root_find_range [OF assms(3)] by simp
  have same: "same_item (kmem s) (dir_item (root_directory fp) + 32 * of_nat j) (buf_mem ?bs) (32 * of_nat j)"
    if "j < length ?bs div 32" for j using listing_item [OF b len that] .
  have "dir_find ?bs t = root_find s fp t"
    unfolding dir_find_def root_find_def by (intro find_cong) (auto simp: same_item_name [OF same])
  moreover have "\<not> item_is_dir (buf_mem ?bs) (32 * of_nat k)"
    using assms(5) same_item_fields(1) [OF same [OF k]] by (simp add: item_is_dir_def assms(4))
  ultimately have "leads (disk_image s) fp ?bs [t] 2 ?bs k" using assms(3) by (intro leads_file) simp_all
  then show ?thesis using assms(1,2) same_item_fields(2,3) [OF same [OF k]] by (auto simp: file_entry_def assms(4))
qed

end
