(* ===== verification/Fat16_Tree.thy ===== *)
theory Fat16_Tree
  imports Fat16_Demo Fat16_Paths
begin

text \<open>
  A volume with a directory: the file \<^verbatim>\<open>EMPTY.BIN\<close> of 1000 bytes in the directory \<^verbatim>\<open>BIN\<close>, the
  layout the boot image of the kernel has. Everything else is the small volume of Fat16_Demo.
\<close>

section \<open>The image\<close>

definition tree_root :: "u8 list" where
  "tree_root = [66, 73, 78, 32, 32, 32, 32, 32, 32, 32, 32, 0x10] @ replicate 14 0 @ [9, 0, 0, 0, 0, 0]"

definition tree_sub :: "u8 list" where
  "tree_sub = [69, 77, 80, 84, 89, 32, 32, 32, 66, 73, 78, 0x20] @ replicate 14 0 @ [2, 0, 0xE8, 3, 0, 0]"

text \<open>The data of the file: cluster numbers, and at 768 the message of \<^verbatim>\<open>programs/empty\<close>.\<close>

definition tree_msg :: "u8 list" where
  "tree_msg = bytes_of ''Empty program is running yo!'' @ [0]"

lemma length_tree_msg [simp]: "length tree_msg = 29"
  by (simp add: tree_msg_def bytes_of_def)

definition tree_image :: "nat \<Rightarrow> u8" where
  "tree_image a = (if 5120 \<le> a \<and> a < 5632 then (if a < 5152 then tree_sub ! (a - 5120) else 0)
     else if 2304 \<le> a \<and> a < 2333 then tree_msg ! (a - 2304) else demo_image tree_root a)"

abbreviation bin_name :: "u8 list" where "bin_name \<equiv> [98, 105, 110]"
abbreviation empty_name :: "u8 list" where "empty_name \<equiv> [101, 109, 112, 116, 121, 46, 98, 105, 110]"

text \<open>The path \<^verbatim>\<open>bin/empty.bin\<close> behind the drive.\<close>

definition boot_name :: "u8 list" where
  "boot_name = bin_name @ 47 # empty_name"

lemma length_tree [simp]: "length tree_root = 32" "length tree_sub = 32"
  by (simp_all add: tree_root_def tree_sub_def)

section \<open>Entries\<close>

text \<open>The fields of an entry, from its 32 bytes.\<close>

lemma entry_fields:
  assumes "\<forall>i < 32. m (p + of_nat i) = bs ! i" and "length bs = 32"
  shows "item_is_dir m p \<longleftrightarrow> bs ! 11 AND 0x10 \<noteq> 0" "ditem_low_cluster m p = le16 (bs ! 26) (bs ! 27)"
    "ditem_filesize m p = ucast (bs ! 28) OR push_bit 8 (ucast (bs ! 29)) OR push_bit 16 (ucast (bs ! 30)) OR push_bit 24 (ucast (bs ! 31))"
    "full_name m p = takeWhile name_char (take 8 bs) @ (if bs ! 11 AND 0x10 \<noteq> 0 then [] else 46 # takeWhile name_char (take 3 (drop 8 bs)))"
proof -
  have b: "m (p + numeral k) = bs ! numeral k" if "numeral k < (32 :: nat)" for k
    using spec [OF assms(1), of "numeral k"] that by simp
  show d: "item_is_dir m p \<longleftrightarrow> bs ! 11 AND 0x10 \<noteq> 0"
    by (simp add: item_is_dir_def ditem_attribute_def b FAT_FILE_SUBDIRECTORY_def)
  show "ditem_low_cluster m p = le16 (bs ! 26) (bs ! 27)"
    "ditem_filesize m p = ucast (bs ! 28) OR push_bit 8 (ucast (bs ! 29)) OR push_bit 16 (ucast (bs ! 30)) OR push_bit 24 (ucast (bs ! 31))"
    by (simp_all add: ditem_low_cluster_def ditem_filesize_def read16_def read32_def le16_def add.assoc b)
  have "read_bytes m p 8 = take 8 bs" using assms by (intro nth_equalityI) (simp_all add: nth_read_bytes)
  moreover have "read_bytes m (p + 8) 3 = take 3 (drop 8 bs)"
  proof (rule nth_equalityI)
    fix i
    assume "i < length (read_bytes m (p + 8) 3)"
    then show "read_bytes m (p + 8) 3 ! i = take 3 (drop 8 bs) ! i"
      using spec [OF assms(1), of "8 + i"] assms(2) by (simp add: nth_read_bytes add.assoc)
  qed (simp add: assms(2))
  ultimately show "full_name m p = takeWhile name_char (take 8 bs) @ (if bs ! 11 AND 0x10 \<noteq> 0 then [] else 46 # takeWhile name_char (take 3 (drop 8 bs)))"
    by (simp add: full_name_def d)
qed

lemma tree_entry:
  assumes "\<forall>i < 32. m (p + of_nat i) = tree_root ! i"
  shows "item_is_dir m p" "ditem_low_cluster m p = 9" "full_name m p = [66, 73, 78]"
  using entry_fields [OF assms length_tree(1)]
  by (simp_all add: tree_root_def nth_append le16_def name_char_def isspace_def)

lemma tree_sub_entry:
  assumes "\<forall>i < 32. m (p + of_nat i) = tree_sub ! i"
  shows "\<not> item_is_dir m p" "ditem_low_cluster m p = 2" "ditem_filesize m p = 1000"
    "full_name m p = [69, 77, 80, 84, 89, 46, 66, 73, 78]"
  using entry_fields [OF assms length_tree(2)]
  by (simp_all add: tree_sub_def nth_append le16_def name_char_def isspace_def)

section \<open>The volume\<close>

lemma tree_low: "a < 1536 \<Longrightarrow> tree_image a = demo_image tree_root a"
  by (simp add: tree_image_def)

lemma tree_header: "image_header tree_image = demo_header"
proof -
  have "image_header tree_image = image_header (demo_image tree_root)"
    by (rule nth_equalityI) (simp_all add: image_header_def sizeof_fat_header_def tree_low)
  then show ?thesis by (simp add: demo_image_header)
qed

lemma tree_geometry: "root_sector tree_image = 2" "root_bytes tree_image = 512"
  using demo_root [of tree_root] by (simp_all only: root_sector_def root_bytes_def tree_header demo_image_header)

lemma tree_volume: "fat_volume tree_image 1" "live_entries tree_image 1 = 1"
proof -
  have m: "entry_mark tree_image 1024 0 = 66" "entry_mark tree_image 1024 1 = 0"
    by (simp_all add: entry_mark_def tree_image_def demo_image_def tree_root_def)
  then show "fat_volume tree_image 1"
    by (simp add: fat_volume_def tree_header tree_geometry NUTOS_FAT16_SIGNATURE_def)
  from m show "live_entries tree_image 1 = 1" by (simp add: live_entries_def tree_geometry)
qed

text \<open>What the driver keeps of it.\<close>

definition tree_private :: "u32 \<Rightarrow> u32 \<Rightarrow> u32 \<Rightarrow> u32 \<Rightarrow> fat_private" where
  "tree_private = demo_private tree_root 1"

lemma tree_mounted: "mounted_private tree_image 1 = tree_private"
proof -
  have m: "entry_mark (demo_image tree_root) 1024 0 = 66"
    by (simp add: entry_mark_def demo_image_def tree_root_def)
  then have "live_entries (demo_image tree_root) 1 = 1" by (simp add: live_entries_def)
  then show ?thesis
    by (simp add: fun_eq_iff tree_private_def mounted_private_def tree_header demo_image_header tree_geometry tree_volume(2)
        del: One_nat_def)
qed

lemma tree_root_directory [simp]: "dir_item (root_directory (tree_private dir crs frs drs)) = dir"
  "dir_total (root_directory (tree_private dir crs frs drs)) = 1"
  using tree_mounted tree_volume(2) by (simp_all add: mounted_private_def flip: tree_mounted del: One_nat_def)

lemma tree_bpc [simp]: "bpc (tree_private dir crs frs drs) = 512"
  by (simp add: tree_private_def del: One_nat_def)

lemma tree_cluster_pos: "2 \<le> c \<Longrightarrow> cluster_pos (tree_private dir crs frs drs) c = nat (c + 1) * 512"
  by (simp add: tree_private_def demo_cluster_pos del: One_nat_def)

text \<open>The chains are those of the small volume.\<close>

lemma tree_next:
  assumes "2 \<le> c" and "c \<le> 9"
  shows "next_cluster tree_image (tree_private dir crs frs drs) c = (if c = 9 then None else Some (c + 1))"
proof -
  have "unat (fat_table_address (tree_private dir crs frs drs)) = 512"
    by (simp add: tree_private_def mounted_private_def demo_image_header del: One_nat_def)
  then have "fat_entry tree_image (tree_private dir crs frs drs) c = fat_entry (demo_image tree_root) (tree_private dir crs frs drs) c"
    using assms by (simp add: fat_entry_def Let_def tree_low)
  moreover have "next_cluster (demo_image tree_root) (tree_private dir crs frs drs) c = (if c = 9 then None else Some (c + 1))"
    unfolding tree_private_def by (rule demo_next_cluster [OF assms])
  ultimately show ?thesis by (simp add: next_cluster_def)
qed

lemma tree_nth_cluster:
  assumes "2 \<le> c" and "c \<le> 9"
  shows "nth_cluster tree_image (tree_private dir crs frs drs) k c = (if c + int k \<le> 9 then Some (c + int k) else None)"
  using assms
proof (induction k arbitrary: c)
  case (Suc k)
  show ?case
  proof (cases "c = 9")
    case True
    then show ?thesis using tree_next [of c] by simp
  next
    case False
    then show ?thesis using tree_next [of c] Suc.IH [of "c + 1"] Suc.prems by (simp add: add.assoc)
  qed
qed simp

lemma tree_chain_ok:
  assumes "2 \<le> c" and "c \<le> 9"
  shows "chain_ok tree_image (tree_private dir crs frs drs) c"
proof -
  have "cluster_ok (tree_private dir crs frs drs) t" if "2 \<le> t" "t \<le> 9" for t
    unfolding tree_private_def by (rule demo_cluster_ok [OF that])
  then show ?thesis unfolding chain_ok_def using assms by (auto simp: tree_nth_cluster split: if_splits)
qed

lemma tree_readable: "readable tree_image (tree_private dir crs frs drs) 2 0 1000"
proof -
  have "next_cluster tree_image (tree_private dir crs frs drs) 2 \<noteq> None" using tree_next [of 2] by simp
  then show ?thesis by (intro readable_second) simp_all
qed

lemma tree_file_address:
  assumes "i < 3584"
  shows "file_byte tree_image (tree_private dir crs frs drs) 2 i = tree_image (i + 1536)"
proof -
  have q: "i div 512 \<le> 6" using assms by auto
  have n: "nat (2 + int (i div 512) + 1) = i div 512 + 3" by simp
  have "(i div 512 + 3) * 512 + i mod 512 = i + 1536" by (simp add: algebra_simps)
  then show ?thesis
    using q n by (simp add: file_byte_def tree_nth_cluster [of 2] tree_cluster_pos del: of_nat_add)
qed

lemma tree_file_byte:
  assumes "i < 3584" and "\<not> (768 \<le> i \<and> i < 797)"
  shows "file_byte tree_image (tree_private dir crs frs drs) 2 i = of_nat (i div 512 + 3)"
proof -
  have "(i + 1536) div 512 = i div 512 + 3" by simp
  then show ?thesis using assms by (auto simp: tree_file_address tree_image_def demo_data simp del: of_nat_add)
qed

lemma tree_file_msg: "j < 29 \<Longrightarrow> file_byte tree_image (tree_private dir crs frs drs) 2 (768 + j) = tree_msg ! j"
  by (simp add: tree_file_address tree_image_def)

section \<open>The directory\<close>

lemma tree_sub_mark: "entry_mark tree_image (cluster_pos (tree_private dir crs frs drs) 9) 0 = 69"
  "entry_mark tree_image (cluster_pos (tree_private dir crs frs drs) 9) (Suc 0) = 0"
  by (simp_all add: tree_cluster_pos entry_mark_def tree_image_def) (simp add: tree_sub_def)

lemma tree_sub_count [simp]: "live_count tree_image (tree_private dir crs frs drs) 9 (Suc 0) = Suc 0"
  by (simp add: live_count_def tree_sub_mark)

lemma tree_sub_dir: "sub_dir tree_image (tree_private dir crs frs drs) 9 (Suc 0)"
proof -
  have "readable tree_image (tree_private dir crs frs drs) 9 0 32"
    by (rule readable_inside) (simp_all add: tree_nth_cluster [of 9])
  then show ?thesis by (simp add: sub_dir_def tree_chain_ok tree_sub_mark) (simp add: tree_cluster_pos)
qed

lemma tree_sub_bytes: "sub_bytes tree_image (tree_private dir crs frs drs) 9 (Suc 0) = tree_sub"
proof (rule nth_equalityI)
  fix i
  assume "i < length (sub_bytes tree_image (tree_private dir crs frs drs) 9 (Suc 0))"
  then have i: "i < 32" by simp
  then have "file_byte tree_image (tree_private dir crs frs drs) 9 i = tree_sub ! i"
    by (simp add: file_byte_def tree_nth_cluster [of 9] tree_cluster_pos tree_image_def)
  with i show "sub_bytes tree_image (tree_private dir crs frs drs) 9 (Suc 0) ! i = tree_sub ! i"
    by (simp add: sub_bytes_def file_bytes_def)
qed simp

text \<open>The path leads to the file.\<close>

lemma tree_leads: "leads tree_image (tree_private dir crs frs drs) tree_root [bin_name, empty_name] 5 tree_sub 0"
proof -
  let ?fp = "tree_private dir crs frs drs"
  have b: "\<forall>i < 32. buf_mem tree_root (0 + of_nat i) = tree_root ! i" "\<forall>i < 32. buf_mem tree_sub (0 + of_nat i) = tree_sub ! i"
    by (auto simp: buf_mem_def unat_of_nat_small)
  have f1: "dir_find tree_root bin_name = Some 0"
    using tree_entry(3) [OF b(1)] by (simp add: dir_find_def same_name_def tolower_def)
  have f2: "dir_find tree_sub empty_name = Some 0"
    using tree_sub_entry(4) [OF b(2)] by (simp add: dir_find_def same_name_def tolower_def)
  have two: "leads tree_image ?fp tree_sub [empty_name] 2 tree_sub 0"
    using f2 tree_sub_entry(1) [OF b(2)] by (intro leads_file) simp_all
  have one: "blocks_for (of_nat (32 * live_count tree_image ?fp 9 (Suc 0))) = 1"
    using blocks_for_small [of 32] by simp
  have "leads tree_image ?fp tree_root (bin_name # [empty_name]) (2 + blocks_for (of_nat (32 * live_count tree_image ?fp 9 (Suc 0))) + 2) tree_sub 0"
    by (rule leads_sub [OF f1 _ _ tree_sub_dir]) (use tree_entry(1,2) [OF b(1)] two in \<open>simp_all add: tree_sub_bytes\<close>)
  then show ?thesis unfolding one by simp
qed

end
