(* ===== verification/File_Access.thy ===== *)
theory File_Access
  imports File_System Fat16_Tree
begin

text \<open>
  What the file layer guarantees: mounting at start-up, opening a file by its path, reading
  through the descriptor, the argument checks, and what is left of a descriptor after
  \<open>fclose\<close>.
\<close>

section \<open>Modes\<close>

lemma file_mode_cstr:
  assumes "cstr mm p ms"
  shows "file_mode_from_string mm p =
    (case ms of [] \<Rightarrow> FILE_MODE_INVALID
     | c # _ \<Rightarrow> if c = 114 then FILE_MODE_READ else if c = 119 then FILE_MODE_WRITE
         else if c = 97 then FILE_MODE_APPEND else FILE_MODE_INVALID)"
proof -
  have lit: "cstr (lit_mem ''r'') 0 [114]" "cstr (lit_mem ''w'') 0 [119]" "cstr (lit_mem ''a'') 0 [97]"
    by (simp_all add: lit_mem_def bytes_of_def)
  have d: "str_diff 1 ms [d] = 0 \<longleftrightarrow> take 1 ms = [d]" if "d \<noteq> 0" for d
    using str_diff_0_iff [OF cstr_no_0 [OF assms], of "[d]" 1] that by simp
  have "strncmp mm (lit_mem ''r'') p 0 1 = 0 \<longleftrightarrow> take 1 ms = [114]"
    "strncmp mm (lit_mem ''w'') p 0 1 = 0 \<longleftrightarrow> take 1 ms = [119]"
    "strncmp mm (lit_mem ''a'') p 0 1 = 0 \<longleftrightarrow> take 1 ms = [97]"
    using strncmp_cstr [OF assms lit(1), of 1] strncmp_cstr [OF assms lit(2), of 1] strncmp_cstr [OF assms lit(3), of 1]
    by (simp_all add: d del: One_nat_def)
  then show ?thesis unfolding file_mode_from_string_def by (cases ms) simp_all
qed

section \<open>Descriptors\<close>

lemma null_slot_Some:
  "null_slot xs i = Some k \<Longrightarrow> i \<le> k \<and> k < i + length xs \<and> xs ! (k - i) = 0 \<and> (\<forall>j < k - i. xs ! j \<noteq> 0)"
proof (induction xs arbitrary: i)
  case (Cons x xs)
  show ?case
  proof (cases "x = 0")
    case True
    with Cons.prems show ?thesis by simp
  next
    case False
    have "null_slot xs (Suc i) = Some k" using Cons.prems False by simp
    from Cons.IH [OF this] have IH: "Suc i \<le> k" "k < Suc i + length xs" "xs ! (k - Suc i) = 0" "\<forall>j < k - Suc i. xs ! j \<noteq> 0" by auto
    then have s: "k - i = Suc (k - Suc i)" by simp
    have "(x # xs) ! j \<noteq> 0" if "j < k - i" for j
      using that False IH(4) s by (cases j) auto
    moreover have "i \<le> k" "k < i + length (x # xs)" "(x # xs) ! (k - i) = 0" using IH(1-3) s by simp_all
    ultimately show ?thesis by blast
  qed
qed simp

lemma null_slot_None: "null_slot xs i = None \<longleftrightarrow> 0 \<notin> set xs"
  by (induction xs arbitrary: i) auto

lemma descriptor_new_spec:
  fixes s :: "'a fs_state_scheme"
  assumes "heap_wf (kernel_heap s)" and "0 < free_count (blocks (kernel_heap s))"
    and "null_slot (file_descriptors s) 0 = Some i"
  shows "\<exists>d h m. file_descriptor_new s = Some (EOK, d, s\<lparr>kernel_heap := h, kmem := m,
        fdescs := (fdescs s)(d \<mapsto> \<lparr>fd_index = int i + 1, fd_filesystem = None, fd_private = 0,
               fd_mode = FILE_MODE_READ, fd_disk = NullDisk\<rparr>),
        file_descriptors := (file_descriptors s)[i := d]\<rparr>)
    \<and> d \<noteq> 0 \<and> heap_wf h \<and> kept s (s\<lparr>kernel_heap := h, kmem := m\<rparr>) \<and> \<not> live_block (kernel_heap s) d
    \<and> heap_grown (kernel_heap s) h \<and> heap_used 1 (kernel_heap s) h \<and> Suc (free_count (blocks h)) = free_count (blocks (kernel_heap s))"
proof -
  obtain d h m where k: "kzalloc sizeof_file_descriptor s = Some (d, s\<lparr>kernel_heap := h, kmem := m\<rparr>)" "d \<noteq> 0" "heap_wf h"
    "\<forall>a. \<not> free_byte (kernel_heap s) a \<longrightarrow> \<not> free_byte h a \<and> m a = kmem s a" "\<not> live_block (kernel_heap s) d"
    "heap_grown (kernel_heap s) h" "Suc (free_count (blocks h)) = free_count (blocks (kernel_heap s))" "heap_used 1 (kernel_heap s) h"
    using kzalloc_block [OF assms(1) _ _ assms(2), of sizeof_file_descriptor] by (auto simp: sizeof_file_descriptor_def)
  then show ?thesis
    using assms(3) by (rule_tac exI [of _ d], rule_tac exI [of _ h], rule_tac exI [of _ m])
      (simp add: file_descriptor_new_def kept_def)
qed

section \<open>Opening\<close>

text \<open>A path of one part on drive 0, in memory that is not free.\<close>

definition simple_path :: "'a path_state_scheme \<Rightarrow> u32 \<Rightarrow> u8 list \<Rightarrow> bool" where
  "simple_path s path name \<longleftrightarrow> held s path ([48, 58, 47] @ name) \<and> name \<noteq> [] \<and> 47 \<notin> set name \<and> length name \<le> 253"

lemma simple_split: "name \<noteq> [] \<Longrightarrow> 47 \<notin> set name \<Longrightarrow> split_path name = [name]"
proof -
  assume n: "name \<noteq> []" "47 \<notin> set name"
  then have "\<forall>x \<in> set name. not_slash x" by (auto simp: not_slash_def)
  then have t: "takeWhile not_slash name = name" "dropWhile not_slash name = []"
    by (auto simp: takeWhile_eq_all_conv)
  have e: "split_path [] = []" by (subst split_path.simps) simp
  show ?thesis by (subst split_path.simps) (simp only: t n(1) e if_False drop_Nil)
qed

lemma parse_simple:
  fixes s :: "'a path_state_scheme"
  assumes "heap_wf (kernel_heap s)" and "simple_path s path name" and "4 \<le> free_count (blocks (kernel_heap s))"
  shows "\<exists>root q str h m st. pathparser_parse path s = Some (root, s\<lparr>kernel_heap := h, kmem := m, path_parts := st,
        path_roots := (path_roots s)(root \<mapsto> \<lparr>drive_no = 0, first_part = q\<rparr>)\<rparr>)
    \<and> root \<noteq> 0 \<and> q \<noteq> 0 \<and> st q = Some \<lparr>part = str, next_part = 0\<rparr>
    \<and> held (s\<lparr>kernel_heap := h, kmem := m\<rparr>) str name
    \<and> heap_wf h \<and> kept s (s\<lparr>kernel_heap := h, kmem := m\<rparr>) \<and> free_count (blocks h) + 3 = free_count (blocks (kernel_heap s))
    \<and> (\<forall>q. live_block (kernel_heap s) q \<longrightarrow> live_block h q) \<and> heap_used 3 (kernel_heap s) h"
proof -
  let ?t = "[48, 58, 47] @ name"
  have p: "held s path ?t" "name \<noteq> []" "47 \<notin> set name" "length name \<le> 253" using assms(2) by (simp_all add: simple_path_def)
  have v: "valid_drive ?t" by (simp add: valid_drive_def isdigit_def)
  have sp: "split_path (drop 3 ?t) = [name]" using simple_split [OF p(2,3)] by simp
  have len: "length ?t \<le> 256" using p(4) by simp
  have room: "2 * length (split_path (drop 3 ?t)) + 1 < free_count (blocks (kernel_heap s))" unfolding sp using assms(3) by simp
  have c0: "ctoi (?t ! 0) = 0" by (simp add: ctoi_def)
  obtain root q ns s' where a: "pathparser_parse path s = Some (root, s')" "root \<noteq> 0"
    "\<exists>h m st. s' = s\<lparr>kernel_heap := h, kmem := m, path_parts := st,
          path_roots := (path_roots s)(root \<mapsto> \<lparr>drive_no = ctoi (?t ! 0), first_part = q\<rparr>)\<rparr>"
    "part_chain (path_parts s') q ns" "list_all2 (\<lambda>(q, str) p. held s' str p) ns [name]"
    "heap_wf (kernel_heap s')" "kept s s'"
    "free_count (blocks (kernel_heap s')) + 2 * length ns + 1 = free_count (blocks (kernel_heap s))"
    "\<forall>q. live_block (kernel_heap s') q \<longleftrightarrow> q \<in> set (node_blocks ns @ [root]) \<or> live_block (kernel_heap s) q"
    "heap_used (2 * length ns + 1) (kernel_heap s) (kernel_heap s')"
    using parse_accept [OF assms(1) p(1) len v room] unfolding sp by blast
  obtain str where ns: "ns = [(q, str)]" "held s' str name" using a(4,5) by (auto simp: list_all2_Cons2)
  from a(3) obtain h m st where s': "s' = s\<lparr>kernel_heap := h, kmem := m, path_parts := st,
      path_roots := (path_roots s)(root \<mapsto> \<lparr>drive_no = 0, first_part = q\<rparr>)\<rparr>" unfolding c0 by blast
  have "st q = Some \<lparr>part = str, next_part = 0\<rparr>" "q \<noteq> 0" using a(4) by (auto simp: ns(1) s')
  with a(1,2,6-10) ns(2) show ?thesis unfolding s'
    by (rule_tac exI [of _ root], rule_tac exI [of _ q], rule_tac exI [of _ str], rule_tac exI [of _ h],
        rule_tac exI [of _ m], rule_tac exI [of _ st]) (simp add: ns(1) held_def kept_def)
qed

lemma fat_ok_cong:
  "fat_privates s' = fat_privates s \<Longrightarrow> the_disk s' = the_disk s \<Longrightarrow> streams s' = streams s \<Longrightarrow> fat_ok s' fp \<longleftrightarrow> fat_ok s fp"
  by (simp add: fat_ok_def disk_private_def stream_ok_def)

text \<open>An open file: what a descriptor number leads to.\<close>

definition open_file :: "'a fs_state_scheme \<Rightarrow> int \<Rightarrow> u32 \<Rightarrow> nat \<Rightarrow> u32 \<Rightarrow> bool" where
  "open_file s n fd i cp \<longleftrightarrow> fd \<noteq> 0 \<and> 0 < n \<and> file_descriptors s ! nat (n - 1) = fd
     \<and> (\<exists>d fi md dsk. fdescs s fd = Some \<lparr>fd_index = n, fd_filesystem = Some Fat16_Fs, fd_private = d, fd_mode = md, fd_disk = dsk\<rparr>
          \<and> fat_descs s d = Some \<lparr>desc_item = fi, desc_pos = of_nat i\<rparr>
          \<and> fat_items s fi = Some \<lparr>item_ptr = cp, item_type = fat_type_file\<rparr>)"

text \<open>The same with the blocks of the open file: driver descriptor, item, and copy of the entry.\<close>

definition file_at :: "'a fs_state_scheme \<Rightarrow> int \<Rightarrow> u32 \<Rightarrow> u32 \<Rightarrow> u32 \<Rightarrow> u32 \<Rightarrow> nat \<Rightarrow> bool" where
  "file_at s n fd d fi cp i \<longleftrightarrow> fd \<noteq> 0 \<and> 0 < n \<and> file_descriptors s ! nat (n - 1) = fd
     \<and> (\<exists>md dsk. fdescs s fd = Some \<lparr>fd_index = n, fd_filesystem = Some Fat16_Fs, fd_private = d, fd_mode = md, fd_disk = dsk\<rparr>)
     \<and> fat_descs s d = Some \<lparr>desc_item = fi, desc_pos = of_nat i\<rparr>
     \<and> fat_items s fi = Some \<lparr>item_ptr = cp, item_type = fat_type_file\<rparr>"

lemma file_at_open: "file_at s n fd d fi cp i \<Longrightarrow> open_file s n fd i cp"
  by (auto simp: file_at_def open_file_def)

text \<open>The file layer leaves everything above it, and the page tables' bookkeeping, alone.\<close>

abbreviation screen :: "'a kterm_scheme \<Rightarrow> u32 \<times> u16 \<times> u16" where
  "screen s \<equiv> (video_mem s, terminal_row s, terminal_col s)"

definition fs_frame :: "'a fs_state_scheme \<Rightarrow> 'a fs_state_scheme \<Rightarrow> bool" where
  "fs_frame s s' \<longleftrightarrow> fs_state.more s' = fs_state.more s \<and> chunks s' = chunks s \<and> cr3 s' = cr3 s
     \<and> current_directory s' = current_directory s \<and> cr0_pg s' = cr0_pg s \<and> disk_image s' = disk_image s
     \<and> fat_privates s' = fat_privates s \<and> the_disk s' = the_disk s \<and> screen s' = screen s"

lemma fs_frame_refl [simp]: "fs_frame s s" by (simp add: fs_frame_def)

lemma fs_frame_trans: "fs_frame s s' \<Longrightarrow> fs_frame s' s'' \<Longrightarrow> fs_frame s s''" by (simp add: fs_frame_def)

text \<open>A path on drive 0 with the parts \<open>names\<close>, in memory that is not free.\<close>

definition named_path :: "'a path_state_scheme \<Rightarrow> u32 \<Rightarrow> u8 list list \<Rightarrow> bool" where
  "named_path s path names \<longleftrightarrow> names \<noteq> []
     \<and> (\<exists>t. held s path ([48, 58, 47] @ t) \<and> split_path t = names \<and> length t \<le> 253)"

lemma named_path_kept: "named_path s path names \<Longrightarrow> kept s s' \<Longrightarrow> named_path s' path names"
  unfolding named_path_def using held_kept by blast

lemma named_simple: "simple_path s path name \<Longrightarrow> named_path s path [name]"
  unfolding simple_path_def named_path_def using simple_split by blast

lemma parse_names:
  fixes s :: "'a path_state_scheme"
  assumes "heap_wf (kernel_heap s)" and "named_path s path names" and "has_run (kernel_heap s) (Suc K + (2 * length names + 1))"
  shows "\<exists>root q ns h m st. pathparser_parse path s = Some (root, s\<lparr>kernel_heap := h, kmem := m, path_parts := st,
        path_roots := (path_roots s)(root \<mapsto> \<lparr>drive_no = 0, first_part = q\<rparr>)\<rparr>)
    \<and> root \<noteq> 0 \<and> q \<noteq> 0 \<and> part_chain st q ns \<and> list_all2 (\<lambda>(q, str) t. held (s\<lparr>kernel_heap := h, kmem := m\<rparr>) str t) ns names
    \<and> heap_wf h \<and> kept s (s\<lparr>kernel_heap := h, kmem := m\<rparr>)
    \<and> (\<forall>q. live_block (kernel_heap s) q \<longrightarrow> live_block h q) \<and> heap_used (2 * length names + 1) (kernel_heap s) h"
proof -
  obtain t where t: "held s path ([48, 58, 47] @ t)" "split_path t = names" "length t \<le> 253" "names \<noteq> []"
    using assms(2) by (auto simp: named_path_def)
  let ?t = "[48, 58, 47] @ t"
  have v: "valid_drive ?t" by (simp add: valid_drive_def isdigit_def)
  have sp: "split_path (drop 3 ?t) = names" using t(2) by simp
  have len: "length ?t \<le> 256" using t(3) by simp
  have room: "2 * length (split_path (drop 3 ?t)) + 1 < free_count (blocks (kernel_heap s))"
    unfolding sp using has_run_free_count [OF assms(3)] by simp
  have c0: "ctoi (?t ! 0) = 0" by (simp add: ctoi_def)
  obtain root q ns s' where a: "pathparser_parse path s = Some (root, s')" "root \<noteq> 0"
    "\<exists>h m st. s' = s\<lparr>kernel_heap := h, kmem := m, path_parts := st,
          path_roots := (path_roots s)(root \<mapsto> \<lparr>drive_no = ctoi (?t ! 0), first_part = q\<rparr>)\<rparr>"
    "part_chain (path_parts s') q ns" "list_all2 (\<lambda>(q, str) p. held s' str p) ns names"
    "heap_wf (kernel_heap s')" "kept s s'"
    "free_count (blocks (kernel_heap s')) + 2 * length ns + 1 = free_count (blocks (kernel_heap s))"
    "\<forall>q. live_block (kernel_heap s') q \<longleftrightarrow> q \<in> set (node_blocks ns @ [root]) \<or> live_block (kernel_heap s) q"
    "heap_used (2 * length ns + 1) (kernel_heap s) (kernel_heap s')"
    using parse_accept [OF assms(1) t(1) len v room] unfolding sp by blast
  from a(3) obtain h m st where s': "s' = s\<lparr>kernel_heap := h, kmem := m, path_parts := st,
      path_roots := (path_roots s)(root \<mapsto> \<lparr>drive_no = 0, first_part = q\<rparr>)\<rparr>" unfolding c0 by blast
  have n: "length ns = length names" using a(5) by (rule list_all2_lengthD)
  have "q \<noteq> 0" using a(4,5) t(4) by (cases ns) auto
  moreover have "list_all2 (\<lambda>(q, str) t. held (s\<lparr>kernel_heap := h, kmem := m\<rparr>) str t) ns names"
    using a(5) by (rule list_all2_mono) (auto simp: held_def s')
  ultimately show ?thesis using a(1,2,4,6,7,9,10) unfolding n unfolding s'
    by (rule_tac exI [of _ root], rule_tac exI [of _ q], rule_tac exI [of _ ns], rule_tac exI [of _ h],
        rule_tac exI [of _ m], rule_tac exI [of _ st]) (simp add: kept_def)
qed

text \<open>Opening a file by its path, through any number of directories.\<close>

lemma fopen_opens:
  fixes s :: "'a fs_state_scheme"
  assumes "heap_wf (kernel_heap s)" and "has_run (kernel_heap s) (K + (2 * length names + r + 3))"
    and "named_path s path names" and "cstr mm mp (114 # rest)"
    and "filesystem (the_disk s) = Some Fat16_Fs" and "fat_ok s fp" and "file_entry s fp names r c F"
    and "null_slot (file_descriptors s) 0 = Some i"
  shows "\<exists>fd d fi cp s'. fopen path mm mp s = Some (fd, s') \<and> file_at s' (int i + 1) fd d fi cp 0
    \<and> file_descriptors s' = (file_descriptors s)[i := fd] \<and> errno s' = EOK
    \<and> uint (ditem_low_cluster (kmem s') cp) = c \<and> unat (ditem_filesize (kmem s') cp) = F
    \<and> item_new (kernel_heap s) cp \<and> item_held (kernel_heap s') cp
    \<and> heap_wf (kernel_heap s') \<and> kept s s' \<and> fs_frame s s' \<and> fat_ok s' fp
    \<and> heap_used (2 * length names + r + 3) (kernel_heap s) (kernel_heap s')
    \<and> (\<forall>q. live_block (kernel_heap s) q \<longrightarrow> live_block (kernel_heap s') q)
    \<and> distinct [d, fi, cp] \<and> (\<forall>q \<in> {d, fi, cp}. live_block (kernel_heap s') q \<and> \<not> live_block (kernel_heap s) q
        \<and> (\<forall>a. in_chunk (kernel_heap s') q a \<longrightarrow> free_byte (kernel_heap s) a))"
proof -
  have "K + (2 * length names + r + 3) = Suc (K + r + 1) + (2 * length names + 1)" by simp
  with assms(2) have room: "has_run (kernel_heap s) (Suc (K + r + 1) + (2 * length names + 1))" by metis
  obtain root q ns h1 m1 st where p: "pathparser_parse path s = Some (root, s\<lparr>kernel_heap := h1, kmem := m1, path_parts := st,
        path_roots := (path_roots s)(root \<mapsto> \<lparr>drive_no = 0, first_part = q\<rparr>)\<rparr>)"
    "root \<noteq> 0" "q \<noteq> 0" "part_chain st q ns" "list_all2 (\<lambda>(q, str) t. held (s\<lparr>kernel_heap := h1, kmem := m1\<rparr>) str t) ns names"
    "heap_wf h1" "kept s (s\<lparr>kernel_heap := h1, kmem := m1\<rparr>)"
    "\<forall>q. live_block (kernel_heap s) q \<longrightarrow> live_block h1 q" "heap_used (2 * length names + 1) (kernel_heap s) h1"
    using parse_names [OF assms(1,3) room] by (elim exE conjE) (rule that)
  obtain s1 where s1: "s1 = s\<lparr>kernel_heap := h1, kmem := m1, path_parts := st,
        path_roots := (path_roots s)(root \<mapsto> \<lparr>drive_no = 0, first_part = q\<rparr>)\<rparr>" by blast
  note parsed = p(1) [folded s1]
  have k1: "kept s s1" using p(7) by (simp add: kept_def s1)
  have img1: "disk_image s1 = disk_image s" by (simp add: s1)
  obtain bs k where e: "root_held s1 fp" "32 * nat (dir_total (root_directory fp)) < 2147483648"
    "leads (disk_image s1) fp (root_listing s1 fp) names r bs k"
    "uint (ditem_low_cluster (buf_mem bs) (32 * of_nat k)) = c" "unat (ditem_filesize (buf_mem bs) (32 * of_nat k)) = F"
    using file_entry_kept [OF assms(7) k1 img1] by (auto simp: file_entry_def)
  have w1: "heap_wf (kernel_heap s1)" "fat_ok s1 fp" "part_chain (path_parts s1) q ns" "list_all2 (\<lambda>(q, str) t. held s1 str t) ns names"
    "has_run (kernel_heap s1) ((K + 1) + r + 1)"
    using p(4,5,6,9) assms(6) room by (simp_all add: s1 fat_ok_def disk_private_def stream_ok_def held_def heap_used_def)
  obtain d fi cp s2 where o: "fat16_open q FILE_MODE_READ s1 = Some (d, s2)" "d \<noteq> 0" "fi \<noteq> 0" "cp \<noteq> 0"
    "grew s1 s2 [d, fi, cp] (r + 1)" "fat_frame s1 (s2\<lparr>fat_descs := fat_descs s1\<rparr>)"
    "fat_descs s2 = (fat_descs s1)(d \<mapsto> \<lparr>desc_item = fi, desc_pos = 0\<rparr>)" "fat_items s2 fi = Some \<lparr>item_ptr = cp, item_type = fat_type_file\<rparr>"
    "same_item (kmem s2) cp (buf_mem bs) (32 * of_nat k)" "item_held (kernel_heap s2) cp" "item_new (kernel_heap s1) cp"
    using open_spec [OF w1(1,2) e(1,2) w1(3,4) e(3) w1(5)] by (elim exE conjE) (rule that)
  obtain h2 m2 st2 its ds where e2: "s2\<lparr>fat_descs := fat_descs s1\<rparr>
      = s1\<lparr>kernel_heap := h2, kmem := m2, streams := st2, fat_items := its, fat_directories := ds\<rparr>"
    and so: "\<forall>p. stream_ok s1 p \<longrightarrow> stream_ok (s2\<lparr>fat_descs := fat_descs s1\<rparr>) p"
    using o(6) by (auto simp: fat_frame_def)
  have "s2 = s2\<lparr>fat_descs := fat_descs s1\<rparr>\<lparr>fat_descs := fat_descs s2\<rparr>" by simp
  also have "\<dots> = s1\<lparr>kernel_heap := h2, kmem := m2, streams := st2, fat_items := its, fat_directories := ds,
      fat_descs := (fat_descs s1)(d \<mapsto> \<lparr>desc_item = fi, desc_pos = 0\<rparr>)\<rparr>" unfolding e2 o(7) ..
  finally have s2: "s2 = s1\<lparr>kernel_heap := h2, kmem := m2, streams := st2, fat_items := its, fat_directories := ds,
      fat_descs := (fat_descs s1)(d \<mapsto> \<lparr>desc_item = fi, desc_pos = 0\<rparr>)\<rparr>" .
  have ok2: "fat_ok s2 fp" using w1(2) so by (simp add: fat_ok_def disk_private_def s2 stream_ok_def)
  have k2: "kept s1 s2" using grew_kept [OF o(5)] .
  have u2: "heap_used (r + 1) (kernel_heap s1) (kernel_heap s2)" "heap_wf (kernel_heap s2)"
    "heap_grown (kernel_heap s1) (kernel_heap s2)" using o(5) by (simp_all add: grew_def)
  have "has_run (kernel_heap s2) (K + 1)" using u2(1) w1(5) by (simp add: heap_used_def)
  then have f2: "0 < free_count (blocks (kernel_heap s2))" using has_run_free_count by fastforce
  have sl: "null_slot (file_descriptors s2) 0 = Some i" using assms(8) by (simp add: s2 s1)
  obtain fd h3 m3 where n: "file_descriptor_new s2 = Some (EOK, fd, s2\<lparr>kernel_heap := h3, kmem := m3,
        fdescs := (fdescs s2)(fd \<mapsto> \<lparr>fd_index = int i + 1, fd_filesystem = None, fd_private = 0,
               fd_mode = FILE_MODE_READ, fd_disk = NullDisk\<rparr>),
        file_descriptors := (file_descriptors s2)[i := fd]\<rparr>)"
    "fd \<noteq> 0" "heap_wf h3" "kept s2 (s2\<lparr>kernel_heap := h3, kmem := m3\<rparr>)" "heap_grown (kernel_heap s2) h3"
    "heap_used 1 (kernel_heap s2) h3"
    using descriptor_new_spec [OF u2(2) f2 sl] by auto
  obtain s3 where s3: "s3 = s2\<lparr>kernel_heap := h3, kmem := m3,
        fdescs := (fdescs s2)(fd \<mapsto> \<lparr>fd_index = int i + 1, fd_filesystem = None, fd_private = 0,
               fd_mode = FILE_MODE_READ, fd_disk = NullDisk\<rparr>),
        file_descriptors := (file_descriptors s2)[i := fd]\<rparr>" by blast
  note new = n(1) [folded s3]
  let ?s' = "s3\<lparr>errno := EOK, fdescs := (fdescs s3)(fd \<mapsto> \<lparr>fd_index = int i + 1, fd_filesystem = Some Fat16_Fs,
      fd_private = d, fd_mode = FILE_MODE_READ, fd_disk = GlobalDisk\<rparr>)\<rparr>"
  have k3: "kept s2 ?s'" using n(4) by (simp add: kept_def s3)
  have kp: "kept s ?s'" using kept_trans [OF kept_trans [OF k1 k2] k3] .
  have mode: "file_mode_from_string mm mp = FILE_MODE_READ" using file_mode_cstr [OF assms(4)] by simp
  have r1: "path_roots s1 root = Some \<lparr>drive_no = 0, first_part = q\<rparr>" "filesystem (the_disk s1) = Some Fat16_Fs"
    using assms(5) by (simp_all add: s1)
  have r3: "fdescs s3 fd = Some \<lparr>fd_index = int i + 1, fd_filesystem = None, fd_private = 0, fd_mode = FILE_MODE_READ, fd_disk = NullDisk\<rparr>"
    by (simp add: s3)
  have d3: "the_disk s2 = the_disk s1" "the_disk s3 = the_disk s1" by (simp_all add: s2 s3)
  have run: "fopen path mm mp s = Some (fd, ?s')"
    using parsed p(2,3) r1 r3 d3 mode o(1) new
    by (simp add: fopen_def disk_get_def fs_open_op_def ISERR_def EOK_def Let_def)
  have i: "i < length (file_descriptors s)" using null_slot_Some [OF assms(8)] by simp
  have cp3: "same_item (kmem s3) cp (buf_mem bs) (32 * of_nat k)" "item_held (kernel_heap s3) cp"
    using item_kept [OF o(10) k3] o(9) by (simp_all add: same_item_def)
  have new0: "item_new (kernel_heap s) cp" using o(11) k1 by (auto simp: item_new_def kept_def)
  have hp: "kernel_heap ?s' = h3" "kernel_heap s1 = h1" "kernel_heap s3 = h3" by (simp_all add: s3 s1)
  have g: "heap_grown h1 h3" using heap_grown_trans [OF u2(3) n(5)] hp(2) by simp
  have lv: "\<forall>q. live_block (kernel_heap s) q \<longrightarrow> live_block h3 q" using g p(8) by (simp add: heap_grown_def)
  have blk: "live_block h3 q \<and> \<not> live_block (kernel_heap s) q \<and> (\<forall>a. in_chunk h3 q a \<longrightarrow> free_byte (kernel_heap s) a)"
    if q: "q \<in> {d, fi, cp}" for q
  proof -
    have l: "\<not> live_block h1 q" "live_block (kernel_heap s2) q" using o(5) q hp(2) by (auto simp: grew_def)
    have "\<not> live_block (kernel_heap s) q" using l(1) p(8) by blast
    moreover have "live_block h3 q" using l(2) n(5) by (simp add: heap_grown_def)
    moreover have "free_byte (kernel_heap s) a" if "in_chunk h3 q a" for a
    proof -
      have "free_byte h1 a" using g l(1) \<open>live_block h3 q\<close> that by (auto simp: heap_grown_def)
      then show ?thesis using p(7) by (auto simp: kept_def)
    qed
    ultimately show ?thesis by blast
  qed
  have "heap_used ((2 * length names + 1) + (r + 1)) (kernel_heap s) (kernel_heap s2)"
    using p(9) u2(1) [unfolded hp(2)] by (rule heap_used_trans) simp
  then have used: "heap_used (2 * length names + r + 3) (kernel_heap s) h3" using n(6) by (rule heap_used_trans) simp
  have at: "file_at ?s' (int i + 1) fd d fi cp 0" using n(2) o(8) i by (simp add: file_at_def s3 s2 s1)
  have ok: "fat_ok ?s' fp" using ok2 by (simp add: fat_ok_def disk_private_def s3 stream_ok_def)
  have frame: "fs_frame s ?s'" by (simp add: fs_frame_def s3 s2 s1)
  have fds: "file_descriptors ?s' = (file_descriptors s)[i := fd]" by (simp add: s3 s2 s1)
  show ?thesis
    using run at fds same_item_fields(2,3) [OF cp3(1)] e(4,5) new0 cp3(2) n(3) kp frame ok used lv o(5) blk
    by (rule_tac exI [of _ fd], rule_tac exI [of _ d], rule_tac exI [of _ fi], rule_tac exI [of _ cp], rule_tac exI [of _ ?s'])
      (simp add: hp(3) grew_def del: insert_iff)
qed

section \<open>Start-up\<close>

lemma fs_init_simps:
  "filesystems (fs_init s) = Some Fat16_Fs # replicate 15 None" "file_descriptors (fs_init s) = replicate 1024 0"
  "kernel_heap (fs_init s) = kernel_heap s" "kmem (fs_init s) = kmem s" "disk_image (fs_init s) = disk_image s"
  "fdescs (fs_init s) = fdescs s" "streams (fs_init s) = streams s" "fat_descs (fs_init s) = fat_descs s"
  "fs_state.more (fs_init s) = fs_state.more s"
proof -
  have r: "replicate 16 None = None # replicate 15 (None :: filesystem option)"
    by (simp flip: replicate_Suc)
  then show "filesystems (fs_init s) = Some Fat16_Fs # replicate 15 None"
    by (simp add: fs_init_def fs_insert_filesystem_def fs_get_free_filesystem_def NUTSOS_MAX_FILESYSTEMS_def
        fat16_init_def Let_def)
qed (simp_all add: fs_init_def fs_insert_filesystem_def NUTSOS_MAX_FILE_DESCRIPTORS_def Let_def split: option.splits)

lemma disk_search_spec:
  fixes s :: "'a fs_state_scheme"
  assumes "heap_wf (kernel_heap s)" and "fat_volume (disk_image s) n"
    and "has_run (kernel_heap s) (k + blocks_for (of_nat (root_bytes (disk_image s))) + 5)"
    and "filesystems s = Some Fat16_Fs # rest"
  shows "\<exists>dir crs frs drs s'. disk_search_and_init s = Some s' \<and> fat_ok s' (mounted_private (disk_image s) n dir crs frs drs)
    \<and> filesystem (the_disk s') = Some Fat16_Fs \<and> heap_wf (kernel_heap s') \<and> has_run (kernel_heap s') k \<and> kept s s'
    \<and> disk_image s' = disk_image s \<and> file_descriptors s' = file_descriptors s \<and> fdescs s' = fdescs s
    \<and> fat_descs s' = fat_descs s \<and> fs_state.more s' = fs_state.more s
    \<and> video_mem s' = video_mem s \<and> terminal_row s' = terminal_row s \<and> terminal_col s' = terminal_col s
    \<and> (\<forall>i < root_bytes (disk_image s). free_byte (kernel_heap s) (dir + of_nat i) \<and> \<not> free_byte (kernel_heap s') (dir + of_nat i)
          \<and> kmem s' (dir + of_nat i) = disk_image s (512 * root_sector (disk_image s) + i))"
proof -
  let ?s1 = "s\<lparr>the_disk := \<lparr>disk_type = NUTSOS_DISK_TYPE_REAL, sector_size = NUTSOS_SECTOR_SIZE,
       disk_id = 0, filesystem = None, fs_private = 0\<rparr>\<rparr>"
  have pre: "heap_wf (kernel_heap ?s1)" "fat_volume (disk_image ?s1) n"
    "has_run (kernel_heap ?s1) (k + blocks_for (of_nat (root_bytes (disk_image ?s1))) + 5)"
    "disk_id (the_disk ?s1) = 0" "sector_size (the_disk ?s1) = 512"
    using assms(1-3) by (simp_all add: NUTSOS_SECTOR_SIZE_def)
  obtain fpr dir crs frs drs h m st s2 where r:
    "s2 = ?s1\<lparr>kernel_heap := h, kmem := m, streams := st,
        fat_privates := (fat_privates ?s1)(fpr \<mapsto> mounted_private (disk_image s) n dir crs frs drs),
        the_disk := (the_disk ?s1)\<lparr>fs_private := fpr, filesystem := Some Fat16_Fs\<rparr>\<rparr>"
    "fat16_resolve ?s1 = Some (0, s2)" "fat_ok s2 (mounted_private (disk_image s) n dir crs frs drs)" "heap_wf h" "has_run h k"
    "kept ?s1 s2" "\<forall>i < root_bytes (disk_image s). free_byte (kernel_heap s) (dir + of_nat i) \<and> \<not> free_byte h (dir + of_nat i) \<and> m (dir + of_nat i) = disk_image s (512 * root_sector (disk_image s) + i)"
    using fat16_resolve_spec [OF pre] unfolding Let_def by auto
  have fs: "fs_resolve ?s1 = Some (Some Fat16_Fs, s2)"
    using r(2) assms(4) by (simp add: fs_resolve_def fs_resolve_op_def)
  have same: "s2\<lparr>the_disk := (the_disk s2)\<lparr>filesystem := Some Fat16_Fs\<rparr>\<rparr> = s2" by (simp add: r(1))
  have "disk_search_and_init s = Some s2"
    unfolding disk_search_and_init_def Let_def fs bind.bind_lunit prod.case same ..
  moreover have "kept s s2" using r(6) by (simp add: kept_def)
  moreover have "kernel_heap s2 = h" "kmem s2 = m" "disk_image s2 = disk_image s" "file_descriptors s2 = file_descriptors s"
    "fdescs s2 = fdescs s" "fat_descs s2 = fat_descs s" "filesystem (the_disk s2) = Some Fat16_Fs"
    "fs_state.more s2 = fs_state.more s" "video_mem s2 = video_mem s" "terminal_row s2 = terminal_row s" "terminal_col s2 = terminal_col s"
    by (simp_all add: r(1))
  ultimately show ?thesis using r(3-5,7) by metis
qed

text \<open>
  C27. Start-up: with a FAT16 volume in the drive, \<open>fs_init\<close> and \<open>disk_search_and_init\<close> mount
  it; every slot of the descriptor table is empty, the heap stays well formed, and the root
  directory in memory is the one on the disk.
\<close>

theorem disk_search_mounts:
  fixes s :: "'a fs_state_scheme"
  assumes "heap_wf (kernel_heap s)" and "fat_volume (disk_image s) n"
    and "has_run (kernel_heap s) (k + blocks_for (of_nat (root_bytes (disk_image s))) + 5)"
  shows "\<exists>dir crs frs drs s'. disk_search_and_init (fs_init s) = Some s'
    \<and> fat_ok s' (mounted_private (disk_image s) n dir crs frs drs) \<and> filesystem (the_disk s') = Some Fat16_Fs
    \<and> heap_wf (kernel_heap s') \<and> has_run (kernel_heap s') k \<and> kept s s'
    \<and> (\<forall>fd. file_get_descriptor fd s' = 0)
    \<and> (\<forall>i < root_bytes (disk_image s). kmem s' (dir + of_nat i) = disk_image s (512 * root_sector (disk_image s) + i))"
proof -
  obtain dir crs frs drs s' where s': "disk_search_and_init (fs_init s) = Some s'"
    "fat_ok s' (mounted_private (disk_image s) n dir crs frs drs)" "filesystem (the_disk s') = Some Fat16_Fs"
    "heap_wf (kernel_heap s')" "has_run (kernel_heap s') k" "kept (fs_init s) s'" "file_descriptors s' = replicate 1024 0"
    "\<forall>i < root_bytes (disk_image s). kmem s' (dir + of_nat i) = disk_image s (512 * root_sector (disk_image s) + i)"
    using disk_search_spec [of "fs_init s" n k "replicate 15 None"] assms by (auto simp: fs_init_simps)
  have "kept s s'" using s'(6) by (simp add: kept_def fs_init_simps)
  moreover have "file_get_descriptor fd s' = 0" for fd
    by (auto simp: file_get_descriptor_def s'(7) NUTSOS_MAX_FILE_DESCRIPTORS_def)
  ultimately show ?thesis using s' by blast
qed

definition blank_fs :: "(nat \<Rightarrow> u8) \<Rightarrow> u8 list \<Rightarrow> fs_state" where
  "blank_fs img t = fat_state.extend (blank_fat img t)
     \<lparr>filesystems = [], file_descriptors = [], fdescs = Map.empty, errno = 0\<rparr>"

lemma blank_fs_simps [simp]:
  "kernel_heap (blank_fs img t) = fresh_heap 64" "disk_image (blank_fs img t) = img"
  "kmem (blank_fs img t) = write_bytes (\<lambda>_. 0) 0x1000 t" "fat_descs (blank_fs img t) = Map.empty"
  using blank_fat_simps [of img t] by (simp_all add: blank_fs_def fat_state.defs blank_fat_def path_state.defs)

theorem disk_search_mounts_witness:
  "\<exists>s'. disk_search_and_init (fs_init (blank_fs (demo_image demo_file) [])) = Some s'
    \<and> filesystem (the_disk s') = Some Fat16_Fs \<and> heap_wf (kernel_heap s')"
  using disk_search_mounts [of "blank_fs (demo_image demo_file) []" 1 32] demo_volume_file(1) blocks_for_small [of 512]
  by (auto simp: fresh_heap_wf)

section \<open>Opening and reading by path\<close>

lemma fread_open_file:
  assumes "open_file s n fd i cp" and "n < 1024" and "fat_ok s fp"
    and "uint (ditem_low_cluster (kmem s) cp) = c" and "unat (ditem_filesize (kmem s) cp) = F"
    and "chain_ok (disk_image s) fp c"
    and "0 < z" and "z < 2147483648" and "i \<le> F" and "0 < m" and "i + m * z < 2147483648"
    and "\<And>j. j < m \<Longrightarrow> i + j * z < F \<Longrightarrow> readable (disk_image s) fp c (i + j * z) z"
    and "apart cp out (m * z)"
  shows "\<exists>s'. fread out (of_nat z) (of_nat m) n s = Some (of_nat (min m ((F - i) div z)), s')
    \<and> kmem s' = write_bytes (kmem s) out (file_bytes (disk_image s) fp c i (min m ((F - i) div z) * z))
    \<and> fat_descs s' = fat_descs s \<and> kernel_heap s' = kernel_heap s
    \<and> moved (s\<lparr>kmem := write_bytes (kmem s) out (file_bytes (disk_image s) fp c i (min m ((F - i) div z) * z))\<rparr>) s'"
proof -
  obtain d fi md dsk where o: "fd \<noteq> 0" "0 < n" "file_descriptors s ! nat (n - 1) = fd"
    "fdescs s fd = Some \<lparr>fd_index = n, fd_filesystem = Some Fat16_Fs, fd_private = d, fd_mode = md, fd_disk = dsk\<rparr>"
    "fat_descs s d = Some \<lparr>desc_item = fi, desc_pos = of_nat i\<rparr>"
    "fat_items s fi = Some \<lparr>item_ptr = cp, item_type = fat_type_file\<rparr>"
    using assms(1) by (auto simp: open_file_def)
  have "m \<le> m * z" using assms(7) by simp
  then have "m < 2147483648" using assms(11) by linarith
  then have nz: "(of_nat z :: u32) \<noteq> 0" "(of_nat m :: u32) \<noteq> 0"
    using assms(7,8,10) unat_of_nat_small [of z] unat_of_nat_small [of m] by (auto simp flip: unat_eq_0)
  have "file_get_descriptor n s = fd"
    using o(2,3) assms(2) by (simp add: file_get_descriptor_def NUTSOS_MAX_FILE_DESCRIPTORS_def)
  then have "fread out (of_nat z) (of_nat m) n s = fat16_read d (of_nat z) (of_nat m) out s"
    using o(1,2,4) nz by (simp add: fread_def fs_read_op_def)
  then show ?thesis using fat16_read_spec [OF assms(3) o(5,6) assms(4-9,11-13)] by simp
qed


text \<open>The demonstration volume, mounted at start-up over an empty heap of \<open>N\<close> blocks.\<close>

lemma fresh_outside:
  assumes "4096 * n \<le> unat (a - 0x01000000)"
  shows "\<not> free_byte (fresh_heap n) a"
proof -
  have "n \<le> unat (a - 0x01000000) div 4096" using assms by (simp add: less_eq_div_iff_mult_less_eq)
  then show ?thesis by (simp add: free_byte_def pool_block_def fresh_heap_def NUTSOS_HEAP_ADDRESS_def)
qed

lemma fresh_low: "n < 524288 \<Longrightarrow> unat a < 0x01000000 \<Longrightarrow> \<not> free_byte (fresh_heap n) a"
proof (rule fresh_outside)
  assume "n < 524288" "unat a < 0x01000000"
  moreover from this have "unat (a - 0x01000000) = unat a + 4294967296 - 0x01000000" by (simp add: unat_sub_if')
  ultimately show "4096 * n \<le> unat (a - 0x01000000)" by simp
qed

lemma path_held:
  fixes s :: "'a path_state_scheme"
  assumes "kernel_heap s = fresh_heap N" and "N < 524288" and "kmem s = write_bytes (\<lambda>_. 0) 0x1000 t"
    and "0 \<notin> set t" and "length t \<le> 4096"
  shows "held s 0x1000 t"
proof -
  have "held (blank_fat (\<lambda>_. 0) t) 0x1000 t" using assms(4,5) by (rule blank_fat_held)
  then have "cstr (kmem s) 0x1000 t" by (simp add: held_def assms(3))
  moreover have "\<not> free_byte (fresh_heap N) (0x1000 + of_nat j)" if "j \<le> length t" for j
  proof -
    have "unat (of_nat (0x1000 + j) :: u32) = 0x1000 + j" using that assms(5) by (intro unat_of_nat_small) simp
    then show ?thesis using that assms(2,5) by (intro fresh_low) simp_all
  qed
  ultimately show ?thesis by (simp add: held_def assms(1))
qed

lemma started:
  fixes s0 :: "'a fs_state_scheme"
  assumes "0 \<notin> set t" and "length t \<le> 253" and "kernel_heap s0 = fresh_heap N" and "N < 524288" and "k + 6 \<le> N"
    and "disk_image s0 = img" and "kmem s0 = write_bytes (\<lambda>_. 0) 0x1000 ([48, 58, 47] @ t)" and "fat_descs s0 = Map.empty"
    and "fat_volume img 1" and "live_entries img 1 = 1" and "root_bytes img = 512"
    and "\<forall>i < 32. img (512 * root_sector img + i) = rs ! i"
  shows "\<exists>dir crs frs drs s. disk_search_and_init (fs_init s0) = Some s
    \<and> fat_ok s (mounted_private img 1 dir crs frs drs) \<and> heap_wf (kernel_heap s) \<and> has_run (kernel_heap s) k
    \<and> disk_image s = img \<and> filesystem (the_disk s) = Some Fat16_Fs
    \<and> file_descriptors s = replicate 1024 0 \<and> held s 0x1000 ([48, 58, 47] @ t)
    \<and> (\<forall>a. \<not> free_byte (fresh_heap N) a \<longrightarrow> \<not> free_byte (kernel_heap s) a)
    \<and> root_held s (mounted_private img 1 dir crs frs drs) \<and> fat_descs s = Map.empty \<and> fs_state.more s = fs_state.more s0
    \<and> (\<forall>i < 32. kmem s (dir + of_nat i) = rs ! i)"
proof -
  let ?t = "[48, 58, 47] @ t"
  let ?s0 = "fs_init s0"
  note init = fs_init_simps assms(3,6-8)
  have pre: "heap_wf (kernel_heap ?s0)" "fat_volume (disk_image ?s0) 1"
    "has_run (kernel_heap ?s0) (k + blocks_for (of_nat (root_bytes (disk_image ?s0))) + 5)"
    using assms(9) blocks_for_small [of 512] assms(4,5) by (simp_all add: init fresh_heap_wf assms(11))
  obtain dir crs frs drs s where s: "disk_search_and_init ?s0 = Some s"
    "fat_ok s (mounted_private img 1 dir crs frs drs)" "filesystem (the_disk s) = Some Fat16_Fs" "heap_wf (kernel_heap s)"
    "has_run (kernel_heap s) k" "kept ?s0 s" "disk_image s = img" "file_descriptors s = replicate 1024 0" "fdescs s = fdescs s0"
    "fat_descs s = Map.empty" "fs_state.more s = fs_state.more s0" "video_mem s = video_mem ?s0"
    "terminal_row s = terminal_row ?s0" "terminal_col s = terminal_col ?s0"
    and b: "\<forall>i < 512. free_byte (fresh_heap N) (dir + of_nat i) \<and> \<not> free_byte (kernel_heap s) (dir + of_nat i)
        \<and> kmem s (dir + of_nat i) = img (512 * root_sector img + i)"
    using disk_search_spec [OF pre fs_init_simps(1), unfolded init assms(11)] by (elim exE conjE) (rule that)
  have out: "\<not> free_byte (kernel_heap s) a" if "\<not> free_byte (fresh_heap N) a" for a
    using that s(6) by (simp add: kept_def init)
  have "held ?s0 0x1000 ?t" using assms(1,2,4) by (intro path_held) (simp_all add: init)
  then have path: "held s 0x1000 ?t" using s(6) by (rule held_kept)
  have total: "nat (dir_total (root_directory (mounted_private img 1 dir crs frs drs))) = 1"
    using assms(10) by (simp add: mounted_private_def del: One_nat_def)
  have dir: "dir_item (root_directory (mounted_private img 1 dir crs frs drs)) = dir" by (simp add: mounted_private_def)
  have "root_held s (mounted_private img 1 dir crs frs drs)" unfolding root_held_def total dir using b by (simp add: item_held_def)
  moreover have "\<forall>i < 32. kmem s (dir + of_nat i) = rs ! i" using b assms(12) by simp
  ultimately show ?thesis using s out path by blast
qed

lemma demo_booted:
  assumes "name \<noteq> []" and "0 \<notin> set name" and "47 \<notin> set name" and "length name \<le> 253"
  shows "\<exists>dir crs frs drs s. disk_search_and_init (fs_init (blank_fs (demo_image demo_file) ([48, 58, 47] @ name))) = Some s
    \<and> fat_ok s (demo_private demo_file 1 dir crs frs drs) \<and> heap_wf (kernel_heap s) \<and> has_run (kernel_heap s) 32
    \<and> disk_image s = demo_image demo_file \<and> filesystem (the_disk s) = Some Fat16_Fs
    \<and> file_descriptors s = replicate 1024 0 \<and> simple_path s 0x1000 name
    \<and> root_held s (demo_private demo_file 1 dir crs frs drs)
    \<and> root_find s (demo_private demo_file 1 dir crs frs drs) name = (if same_name [65, 66, 46, 67] name then Some 0 else None)
    \<and> fat_descs s = Map.empty
    \<and> \<not> item_is_dir (kmem s) dir \<and> ditem_low_cluster (kmem s) dir = 2 \<and> ditem_filesize (kmem s) dir = 4096"
proof -
  have N: "(64 :: nat) < 524288" "32 + 6 \<le> (64 :: nat)" by simp_all
  have rs: "\<forall>i < 32. demo_image demo_file (512 * root_sector (demo_image demo_file) + i) = demo_file ! i" by (simp add: demo_image_def)
  let ?fp = "demo_private demo_file 1"
  obtain dir crs frs drs s where s: "disk_search_and_init (fs_init (blank_fs (demo_image demo_file) ([48, 58, 47] @ name))) = Some s"
    "fat_ok s (?fp dir crs frs drs)" "heap_wf (kernel_heap s)" "has_run (kernel_heap s) 32"
    "disk_image s = demo_image demo_file" "filesystem (the_disk s) = Some Fat16_Fs"
    "file_descriptors s = replicate 1024 0" "held s 0x1000 ([48, 58, 47] @ name)"
    "root_held s (?fp dir crs frs drs)" "fat_descs s = Map.empty" "\<forall>i < 32. kmem s (dir + of_nat i) = demo_file ! i"
    using started [OF assms(2,4) blank_fs_simps(1) N blank_fs_simps(2-4) demo_volume_file demo_root(2) rs]
    by (elim exE conjE) (rule that)
  have item: "full_name (kmem s) dir = [65, 66, 46, 67]" "\<not> item_is_dir (kmem s) dir"
    "ditem_low_cluster (kmem s) dir = 2" "ditem_filesize (kmem s) dir = 4096" using demo_item [of "kmem s" dir] s(11) by simp_all
  have total: "nat (dir_total (root_directory (?fp dir crs frs drs))) = 1"
    using demo_volume_file(2) by (simp add: mounted_private_def del: One_nat_def)
  have "root_find s (?fp dir crs frs drs) name = (if same_name [65, 66, 46, 67] name then Some 0 else None)"
    unfolding root_find_def total by (simp add: item(1))
  moreover have "simple_path s 0x1000 name" using s(8) assms by (simp add: simple_path_def)
  ultimately show ?thesis using s(1-7,9,10) item(2-4) by blast
qed

text \<open>The volume with the directory, its file's path at 0x1000.\<close>

lemma tree_named:
  assumes "held s 0x1000 ([48, 58, 47] @ boot_name)"
  shows "named_path s 0x1000 [bin_name, empty_name]"
proof -
  have "split_path boot_name = [bin_name, empty_name]"
    by (simp add: boot_name_def not_slash_def split_path.simps)
  then show ?thesis using assms by (auto simp: named_path_def boot_name_def)
qed

lemma tree_file_entry:
  assumes "root_held s (tree_private dir crs frs drs)" and "disk_image s = tree_image" and "\<forall>i < 32. kmem s (dir + of_nat i) = tree_root ! i"
  shows "file_entry s (tree_private dir crs frs drs) [bin_name, empty_name] 5 2 1000"
proof -
  have "root_listing s (tree_private dir crs frs drs) = tree_root"
    using assms(3) by (intro nth_equalityI) (simp_all add: root_listing_def nth_read_bytes)
  moreover have "\<forall>i < 32. buf_mem tree_sub (0 + of_nat i) = tree_sub ! i" by (auto simp: buf_mem_def unat_of_nat_small)
  note tree_sub_entry(2,3) [OF this]
  ultimately show ?thesis unfolding file_entry_def
    using assms(1,2) tree_leads by (auto intro!: exI [of _ tree_sub] exI [of _ 0])
qed

lemma boot_name_ok: "0 \<notin> set boot_name" "length boot_name \<le> 253"
  by (simp_all add: boot_name_def)

lemma tree_root_bytes: "\<forall>i < 32. tree_image (512 * root_sector tree_image + i) = tree_root ! i"
  by (simp add: tree_geometry tree_image_def demo_image_def)

lemma demo_name_ok: "demo_name \<noteq> []" "0 \<notin> set demo_name" "47 \<notin> set demo_name" "length demo_name \<le> 253"
  "same_name [65, 66, 46, 67] demo_name"
  by (simp_all add: demo_name_def same_name_def tolower_def)

lemma first_slot: "null_slot (replicate 1024 0) 0 = Some 0"
proof -
  have "replicate 1024 (0 :: u32) = 0 # replicate 1023 0" by (simp flip: replicate_Suc)
  then show ?thesis by simp
qed


text \<open>Closing an open file gives back its three blocks and only those.\<close>

lemma fclose_at:
  fixes s :: "'a fs_state_scheme"
  assumes "heap_wf (kernel_heap s)" and "file_at s n fd d fi cp i" and "n < 1024" and "distinct [d, fi, cp]"
    and "\<And>q. q \<in> {d, fi, cp} \<Longrightarrow> live_block (kernel_heap s) q"
  shows "\<exists>h. fclose n s = Some (0, s\<lparr>kernel_heap := h, fat_items := (fat_items s)(fi := None), fat_descs := (fat_descs s)(d := None)\<rparr>)
    \<and> heap_wf h \<and> (\<forall>q. live_block h q \<longleftrightarrow> live_block (kernel_heap s) q \<and> q \<notin> {d, fi, cp})
    \<and> (\<forall>a. \<not> free_byte (kernel_heap s) a \<longrightarrow> (\<forall>q \<in> {d, fi, cp}. \<not> in_chunk (kernel_heap s) q a) \<longrightarrow> \<not> free_byte h a)
    \<and> heap_used 0 (kernel_heap s) h"
proof -
  obtain md dsk where f: "fd \<noteq> 0" "0 < n" "file_descriptors s ! nat (n - 1) = fd"
    "fdescs s fd = Some \<lparr>fd_index = n, fd_filesystem = Some Fat16_Fs, fd_private = d, fd_mode = md, fd_disk = dsk\<rparr>"
    "fat_descs s d = Some \<lparr>desc_item = fi, desc_pos = of_nat i\<rparr>" "fat_items s fi = Some \<lparr>item_ptr = cp, item_type = fat_type_file\<rparr>"
    using assms(2) by (auto simp: file_at_def)
  have ne: "fi \<noteq> cp" "d \<noteq> cp" "d \<noteq> fi" using assms(4) by auto
  have lv: "live_block (kernel_heap s) d" "live_block (kernel_heap s) fi" "live_block (kernel_heap s) cp" using assms(5) by auto
  have nz: "fi \<noteq> 0" using live_block_nz [OF assms(1) lv(2)] .
  obtain h1 where k1: "kfree cp s = Some (s\<lparr>kernel_heap := h1\<rparr>)" "heap_wf h1" using kfree_live [OF assms(1) lv(3)] by blast
  note o1 = kfree_others [OF assms(1) lv(3) k1(1), simplified]
  let ?s1 = "s\<lparr>kernel_heap := h1\<rparr>"
  have w1: "heap_wf (kernel_heap ?s1)" "live_block (kernel_heap ?s1) fi" using k1(2) o1(3) lv(2) ne by simp_all
  obtain h2 where k2: "kfree fi ?s1 = Some (?s1\<lparr>kernel_heap := h2\<rparr>)" "heap_wf h2" using kfree_live [OF w1] by blast
  note o2 = kfree_others [OF w1 k2(1), simplified]
  let ?s2 = "s\<lparr>kernel_heap := h2, fat_items := (fat_items s)(fi := None)\<rparr>"
  have w2: "heap_wf (kernel_heap ?s2)" "live_block (kernel_heap ?s2) d" using k2(2) o1(3) o2(3) lv(1) ne by simp_all
  obtain h3 where k3: "kfree d ?s2 = Some (?s2\<lparr>kernel_heap := h3\<rparr>)" "heap_wf h3" using kfree_live [OF w2] by blast
  note o3 = kfree_others [OF w2 k3(1), simplified]
  have "fat16_fat_item_free fi s = Some ?s2"
    using f(6) k1(1) k2(1) nz by (simp add: fat16_fat_item_free_def)
  then have c: "fat16_close d s = Some (0, ?s2\<lparr>kernel_heap := h3, fat_descs := (fat_descs s)(d := None)\<rparr>)"
    using f(5) k3(1) by (simp add: fat16_close_def fat16_free_file_descriptor_def)
  have "file_get_descriptor n s = fd"
    using f(2,3) assms(3) by (simp add: file_get_descriptor_def NUTSOS_MAX_FILE_DESCRIPTORS_def)
  then have run: "fclose n s = Some (0, s\<lparr>kernel_heap := h3, fat_items := (fat_items s)(fi := None), fat_descs := (fat_descs s)(d := None)\<rparr>)"
    using f(1,4) c by (simp add: fclose_def fs_close_op_def)
  have "live_block h3 q \<longleftrightarrow> live_block (kernel_heap s) q \<and> q \<notin> {d, fi, cp}" for q
    using o1(3) o2(3) o3(3) by auto
  moreover have "\<not> free_byte h3 a" if "\<not> free_byte (kernel_heap s) a" "\<forall>q \<in> {d, fi, cp}. \<not> in_chunk (kernel_heap s) q a" for a
  proof -
    have "\<not> free_byte h1 a" using o1(1) that by simp
    moreover have "\<not> in_chunk h1 fi a" "\<not> in_chunk h1 d a" using o1(2) that(2) ne by simp_all
    ultimately have "\<not> free_byte h2 a" "\<not> in_chunk h2 d a" using o2(1,2) ne by simp_all
    then show ?thesis by (rule o3(1))
  qed
  moreover have "heap_used 0 (kernel_heap s) h1" "heap_used 0 h1 h2" "heap_used 0 h2 h3"
    using kfree_used [OF assms(1) lv(3) k1(1)] kfree_used [OF w1 k2(1)] kfree_used [OF w2 k3(1)] by simp_all
  then have "heap_used 0 (kernel_heap s) h3" by (simp add: heap_used_def)
  ultimately show ?thesis using run k3(2) by blast
qed

section \<open>Errors\<close>

text \<open>Opening a file the root directory does not have.\<close>

lemma missing_file_opened:
  fixes s :: "'a fs_state_scheme"
  assumes "heap_wf (kernel_heap s)" and "7 \<le> free_count (blocks (kernel_heap s))"
    and "simple_path s path name" and "cstr mm mp (114 # rest)"
    and "filesystem (the_disk s) = Some Fat16_Fs" and "disk_private s = Some fp" and "root_held s fp"
    and "root_find s fp name = None" and "null_slot (file_descriptors s) 0 = Some i" and "i < 1023"
    and "fat_descs s (- 1) = None"
  shows "\<exists>fd s' d. fopen path mm mp s = Some (fd, s') \<and> fd \<noteq> 0 \<and> errno s' = EOK
    \<and> file_get_descriptor (int i + 1) s' = fd \<and> fdescs s' fd = Some d \<and> fd_private d = - 1 \<and> fd_index d = int i + 1
    \<and> fstat (int i + 1) s' = None \<and> fclose (int i + 1) s' = None"
proof -
  have f4: "4 \<le> free_count (blocks (kernel_heap s))" using assms(2) by simp
  obtain root q str h1 m1 st where p: "pathparser_parse path s = Some (root, s\<lparr>kernel_heap := h1, kmem := m1, path_parts := st,
        path_roots := (path_roots s)(root \<mapsto> \<lparr>drive_no = 0, first_part = q\<rparr>)\<rparr>)" (is "_ = Some (root, ?s1)")
    "root \<noteq> 0" "q \<noteq> 0" "st q = Some \<lparr>part = str, next_part = 0\<rparr>" "held (s\<lparr>kernel_heap := h1, kmem := m1\<rparr>) str name"
    "heap_wf h1" "kept s (s\<lparr>kernel_heap := h1, kmem := m1\<rparr>)" "free_count (blocks h1) + 3 = free_count (blocks (kernel_heap s))"
    using parse_simple [OF assms(1,3) f4] by blast
  have k1: "kept s ?s1" using p(7) by (simp add: kept_def)
  have dp: "disk_private ?s1 = Some fp" using assms(6) by (simp add: disk_private_def)
  have hd1: "held ?s1 str name" using p(5) by (simp add: held_def)
  have f1: "0 < free_count (blocks (kernel_heap ?s1))" and w1: "heap_wf (kernel_heap ?s1)" using p(6,8) assms(2) by simp_all
  have pp: "path_parts ?s1 q = Some \<lparr>part = str, next_part = 0\<rparr>" using p(4) by simp
  have rh: "root_held ?s1 fp" and rf: "root_find ?s1 fp name = None"
    using root_find_kept [OF assms(7) k1] assms(8) by simp_all
  obtain m2 where o: "fat16_open q FILE_MODE_READ ?s1 = Some (ERRTOPTR (- EIO), ?s1\<lparr>kernel_heap := kernel_heap ?s1, kmem := m2\<rparr>)"
    using open_missing [OF w1 f1 dp pp hd1 rh rf] by blast
  let ?s2 = "?s1\<lparr>kmem := m2\<rparr>"
  have o2: "fat16_open q FILE_MODE_READ ?s1 = Some (ERRTOPTR (- EIO), ?s2)" using o by simp
  obtain fd h3 m3 where n: "file_descriptor_new ?s2 = Some (EOK, fd, ?s2\<lparr>kernel_heap := h3, kmem := m3,
        fdescs := (fdescs ?s2)(fd \<mapsto> \<lparr>fd_index = int i + 1, fd_filesystem = None, fd_private = 0,
               fd_mode = FILE_MODE_READ, fd_disk = NullDisk\<rparr>),
        file_descriptors := (file_descriptors ?s2)[i := fd]\<rparr>)" (is "_ = Some (EOK, fd, ?s3)")
    "fd \<noteq> 0"
    using descriptor_new_spec [of ?s2 i] w1 f1 assms(9) by auto
  let ?d = "\<lparr>fd_index = int i + 1, fd_filesystem = Some Fat16_Fs,
      fd_private = - 1, fd_mode = FILE_MODE_READ, fd_disk = GlobalDisk\<rparr>"
  let ?s' = "?s3\<lparr>errno := EOK, fdescs := (fdescs ?s3)(fd \<mapsto> ?d)\<rparr>"
  have mode: "file_mode_from_string mm mp = FILE_MODE_READ" using file_mode_cstr [OF assms(4)] by simp
  have priv: "ERRTOPTR (- EIO) = - 1" by (simp add: ERRTOPTR_def EIO_def)
  have "fopen path mm mp s = Some (fd, ?s')"
    using p(1-3) assms(5) mode o2 n(1)
    by (simp add: fopen_def disk_get_def fs_open_op_def ISERR_def EOK_def Let_def priv)
  moreover have "i < length (file_descriptors s)" using null_slot_Some [OF assms(9)] by simp
  then have g: "file_get_descriptor (int i + 1) ?s' = fd"
    using assms(10) by (simp add: file_get_descriptor_def NUTSOS_MAX_FILE_DESCRIPTORS_def)
  moreover have "fdescs ?s' fd = Some ?d" by simp
  moreover have "fstat (int i + 1) ?s' = None" "fclose (int i + 1) ?s' = None"
    using g n(2) assms(11)
    by (simp_all add: fstat_def fclose_def fs_stat_op_def fs_close_op_def fat16_stat_def fat16_close_def
        fat16_free_file_descriptor_def)
  ultimately show ?thesis using n(2) by (intro exI [of _ fd] exI [of _ ?s'] exI [of _ ?d]) simp
qed

text \<open>
  C37. A file that does not exist is reported as opened: \<open>fopen\<close> returns a descriptor whose
  private pointer is the error code -1, because the test for an error pointer never fires on a
  pointer; \<open>fstat\<close> and \<open>fclose\<close> then follow that pointer and have no result.
\<close>

theorem fopen_missing_file:
  fixes s :: "'a fs_state_scheme"
  assumes "heap_wf (kernel_heap s)" and "7 \<le> free_count (blocks (kernel_heap s))"
    and "simple_path s path name" and "cstr mm mp (114 # rest)"
    and "filesystem (the_disk s) = Some Fat16_Fs" and "disk_private s = Some fp" and "root_held s fp"
    and "root_find s fp name = None" and "null_slot (file_descriptors s) 0 = Some i" and "i < 1023"
    and "fat_descs s (- 1) = None"
  shows "\<exists>fd s' d. fopen path mm mp s = Some (fd, s') \<and> fd \<noteq> 0 \<and> errno s' = EOK
    \<and> file_get_descriptor (int i + 1) s' = fd \<and> fdescs s' fd = Some d \<and> fd_private d = - 1
    \<and> fstat (int i + 1) s' = None \<and> fclose (int i + 1) s' = None"
  using missing_file_opened [OF assms] by (elim exE conjE) (intro exI conjI; assumption)

theorem fopen_missing_file_witness:
  "\<exists>s fd s' d. disk_search_and_init (fs_init (blank_fs (demo_image demo_file) ([48, 58, 47] @ [120]))) = Some s
    \<and> fopen 0x1000 (lit_mem ''r'') 0 s = Some (fd, s') \<and> fd \<noteq> 0 \<and> fdescs s' fd = Some d \<and> fd_private d = - 1"
proof -
  have n: "[120 :: u8] \<noteq> []" "0 \<notin> set [120 :: u8]" "47 \<notin> set [120 :: u8]" "length [120 :: u8] \<le> 253" by simp_all
  have ns: "\<not> same_name [65, 66, 46, 67] [120]" by (simp add: same_name_def)
  obtain dir crs frs drs s where s: "disk_search_and_init (fs_init (blank_fs (demo_image demo_file) ([48, 58, 47] @ [120]))) = Some s"
    "fat_ok s (demo_private demo_file 1 dir crs frs drs)" "heap_wf (kernel_heap s)" "has_run (kernel_heap s) 32"
    "filesystem (the_disk s) = Some Fat16_Fs" "file_descriptors s = replicate 1024 0" "simple_path s 0x1000 [120]"
    "root_held s (demo_private demo_file 1 dir crs frs drs)"
    "root_find s (demo_private demo_file 1 dir crs frs drs) [120] = None" "fat_descs s = Map.empty"
    using demo_booted [OF n] unfolding if_not_P [OF ns] by blast
  have r: "cstr (lit_mem ''r'') 0 (114 # [])" by (simp add: lit_mem_def bytes_of_def)
  have fc: "7 \<le> free_count (blocks (kernel_heap s))" using has_run_free_count [OF s(4)] by simp
  have dp: "disk_private s = Some (demo_private demo_file 1 dir crs frs drs)" using s(2) by (simp add: fat_ok_def)
  have slot: "null_slot (file_descriptors s) 0 = Some 0" unfolding s(6) by (rule first_slot)
  have nd: "fat_descs s (- 1) = None" by (simp add: s(10))
  have "0 < (1023 :: nat)" by simp
  from fopen_missing_file [OF s(3) fc s(7) r s(5) dp s(8,9) slot this nd] s(1) show ?thesis by blast
qed

text \<open>
  A path without a drive prefix, or longer than 256 characters, makes \<open>fopen\<close> return the
  null pointer with \<open>errno\<close> \<open>EINVARG\<close>, whatever the mode, and changes nothing else.
\<close>

lemma fopen_bad_path:
  assumes "cstr (kmem s) path t" and "256 < length t \<or> \<not> valid_drive t"
  shows "fopen path mm mp s = Some (0, s\<lparr>errno := - EINVARG\<rparr>)"
  using parse_reject [OF assms] by (simp add: fopen_def)

lemma fopen_bad_path_witness:
  "errno (snd (the (fopen 0x1000 (lit_mem ''r'') 0 (blank_fs (demo_image demo_file) [97, 58, 47])))) = - 2"
proof -
  let ?s = "blank_fs (demo_image demo_file) [97, 58, 47]"
  have "held (blank_fat (demo_image demo_file) [97, 58, 47]) 0x1000 [97, 58, 47]" by (rule blank_fat_held) simp_all
  then have "cstr (kmem ?s) 0x1000 [97, 58, 47]" by (simp add: held_def)
  moreover have "\<not> valid_drive [97, 58, 47]" by (simp add: valid_drive_def isdigit_def)
  ultimately show ?thesis using fopen_bad_path [of ?s "0x1000" "[97, 58, 47]"] by (simp add: EINVARG_def)
qed

text \<open>
  Opening a path on another drive fails with \<open>EIO\<close>, but everything the parser allocated
  for the path, two blocks for each part and one for the root, stays allocated.
\<close>

lemma fopen_other_drive_leaks:
  fixes s :: "'a fs_state_scheme"
  assumes "heap_wf (kernel_heap s)" and "held s path t" and "length t \<le> 256" and "valid_drive t" and "t ! 0 \<noteq> 48"
    and "split_path (drop 3 t) \<noteq> []" and "2 * length (split_path (drop 3 t)) + 1 < free_count (blocks (kernel_heap s))"
  shows "\<exists>s'. fopen path mm mp s = Some (0, s') \<and> errno s' = - EIO
    \<and> free_count (blocks (kernel_heap s')) + 2 * length (split_path (drop 3 t)) + 1 = free_count (blocks (kernel_heap s))
    \<and> (\<forall>q. live_block (kernel_heap s) q \<longrightarrow> live_block (kernel_heap s') q)"
proof -
  obtain root fp ns s1 where p: "pathparser_parse path s = Some (root, s1)" "root \<noteq> 0"
    "\<exists>h m st. s1 = s\<lparr>kernel_heap := h, kmem := m, path_parts := st,
          path_roots := (path_roots s)(root \<mapsto> \<lparr>drive_no = ctoi (t ! 0), first_part = fp\<rparr>)\<rparr>"
    "part_chain (path_parts s1) fp ns" "list_all2 (\<lambda>(q, str) p. held s1 str p) ns (split_path (drop 3 t))"
    "\<forall>q. live_block (kernel_heap s1) q \<longleftrightarrow> q \<in> set (node_blocks ns @ [root]) \<or> live_block (kernel_heap s) q"
    "free_count (blocks (kernel_heap s1)) + 2 * length ns + 1 = free_count (blocks (kernel_heap s))"
    using parse_accept [OF assms(1-4,7)] by blast
  have len: "length ns = length (split_path (drop 3 t))" using p(5) by (rule list_all2_lengthD)
  then have "ns \<noteq> []" using assms(6) by auto
  then have fp: "fp \<noteq> 0" using p(4) by (cases ns) auto
  have rt: "path_roots s1 root = Some \<lparr>drive_no = ctoi (t ! 0), first_part = fp\<rparr>" using p(3) by auto
  have "ctoi (t ! 0) \<noteq> 0"
  proof
    assume "ctoi (t ! 0) = 0"
    then have "sint (t ! 0) = sint (48 :: u8)" by (simp add: ctoi_def)
    then show False using assms(5) signed_word_eqI by blast
  qed
  with p(1,2) rt fp have "fopen path mm mp s = Some (0, s1\<lparr>errno := - EIO\<rparr>)"
    by (simp add: fopen_def disk_get_def Let_def)
  with p(6,7) len show ?thesis by auto
qed

lemma fopen_other_drive_leaks_witness:
  "\<exists>s'. fopen 0x1000 (lit_mem ''r'') 0 (blank_fs (demo_image demo_file) [49, 58, 47, 97]) = Some (0, s')
    \<and> errno s' = - 1 \<and> free_count (blocks (kernel_heap s')) = 61"
proof -
  let ?s = "blank_fs (demo_image demo_file) [49, 58, 47, 97]"
  have "held (blank_fat (demo_image demo_file) [49, 58, 47, 97]) 0x1000 [49, 58, 47, 97]" by (rule blank_fat_held) simp_all
  then have h: "held ?s 0x1000 [49, 58, 47, 97]" by (simp add: held_def)
  have v: "valid_drive [49, 58, 47, 97]" by (simp add: valid_drive_def isdigit_def)
  have sp: "split_path (drop 3 [49, 58, 47, 97]) = [[97]]" using simple_split [of "[97]"] by simp
  have wf: "heap_wf (kernel_heap ?s)" by (simp add: fresh_heap_wf)
  have room: "2 * length (split_path (drop 3 [49, 58, 47, 97 :: u8])) + 1 < free_count (blocks (kernel_heap ?s))"
    unfolding sp by (simp add: fresh_heap_blocks free_count_replicate)
  have ne: "length [49, 58, 47, 97 :: u8] \<le> 256" "[49, 58, 47, 97] ! 0 \<noteq> (48 :: u8)" "split_path (drop 3 [49, 58, 47, 97 :: u8]) \<noteq> []"
    unfolding sp by simp_all
  obtain s' where s': "fopen 0x1000 (lit_mem ''r'') 0 ?s = Some (0, s')" "errno s' = - EIO"
    "free_count (blocks (kernel_heap s')) + 2 * length (split_path (drop 3 [49, 58, 47, 97 :: u8])) + 1 = free_count (blocks (kernel_heap ?s))"
    using fopen_other_drive_leaks [OF wf h ne(1) v ne(2,3) room] by blast
  have "free_count (blocks (kernel_heap ?s)) = 64" by (simp add: fresh_heap_blocks free_count_replicate)
  with s' show ?thesis unfolding sp by (simp add: EIO_def)
qed

section \<open>Descriptor numbers\<close>

text \<open>
  Every function that takes a descriptor number checks it first: for a number outside
  1 to 1023, and for one whose slot is empty, \<open>fread\<close> returns \<open>EINVARG\<close> (as an unsigned
  number) and the others \<open>EIO\<close>, without touching the state; \<open>fread\<close> also refuses empty
  members and empty requests. Number 1024, which \<open>fopen\<close> hands out for the last slot, is among
  those refused.
\<close>

lemma descriptor_checks:
  assumes "n \<le> 0 \<or> 1024 \<le> n \<or> file_descriptors s ! nat (n - 1) = 0"
  shows "fread ptr z m n s = Some (word_of_int (- EINVARG), s) \<and> fseek n off mode s = Some (- EIO, s)
    \<and> fstat n s = Some (- EIO, None) \<and> fclose n s = Some (- EIO, s)
    \<and> fread ptr 0 m k s = Some (word_of_int (- EINVARG), s) \<and> fread ptr z 0 k s = Some (word_of_int (- EINVARG), s)"
proof -
  have "file_get_descriptor n s = 0" using assms by (auto simp: file_get_descriptor_def NUTSOS_MAX_FILE_DESCRIPTORS_def)
  then show ?thesis by (simp add: fread_def fseek_def fstat_def fclose_def)
qed

lemma descriptor_checks_witness: "fclose 1024 (blank_fs (demo_image demo_file) []) = Some (- 1, blank_fs (demo_image demo_file) [])"
  using descriptor_checks [of 1024 "blank_fs (demo_image demo_file) []"] by (simp add: EIO_def)

text \<open>
  C38. \<open>fclose\<close> leaves the descriptor in its slot: when it succeeds the number still leads to
  the same descriptor, whose driver data has been freed, so that another \<open>fread\<close>, \<open>fseek\<close> or
  \<open>fclose\<close> of the number follows a dangling pointer and has no result.
\<close>

theorem fclose_dangling:
  assumes "fclose n s = Some (0, s')" and "file_get_descriptor n s \<noteq> 0"
  shows "file_get_descriptor n s' = file_get_descriptor n s \<and> fdescs s' = fdescs s
    \<and> fclose n s' = None \<and> fseek n off mode s' = None \<and> (z \<noteq> 0 \<and> m \<noteq> 0 \<longrightarrow> fread ptr z m n s' = None)"
proof -
  let ?fd = "file_get_descriptor n s"
  have kf: "file_descriptors t' = file_descriptors t \<and> fdescs t' = fdescs t \<and> fat_descs t' = fat_descs t"
    if "kfree q t = Some t'" for q and t t' :: "'a fs_state_scheme"
    using that by (auto simp: kfree_def bind_eq_Some_conv)
  have ty: "ty \<noteq> fat_type_directory \<longleftrightarrow> ty = fat_type_file" for ty by (cases ty) simp_all
  have itf: "file_descriptors t' = file_descriptors t \<and> fdescs t' = fdescs t \<and> fat_descs t' = fat_descs t"
    if "fat16_fat_item_free q t = Some t'" for q and t t' :: "'a fs_state_scheme"
    using that
    by (auto simp: ty fat16_fat_item_free_def fat16_free_directory_def bind_eq_Some_conv dest!: kf
        split: if_splits fat_item_type.splits)
  obtain d fs r where d: "fdescs s ?fd = Some d" "fd_filesystem d = Some fs" "fs_close_op fs (fd_private d) s = Some (r, s')"
    using assms by (auto simp: fclose_def bind_eq_Some_conv)
  have fs: "fs = Fat16_Fs" by (cases fs) simp
  have keep: "file_descriptors s' = file_descriptors s" "fdescs s' = fdescs s" "fat_descs s' (fd_private d) = None"
    using d(3) by (auto simp: fs fs_close_op_def fat16_close_def fat16_free_file_descriptor_def bind_eq_Some_conv
        dest!: kf itf)
  have g: "file_get_descriptor n s' = ?fd" using keep(1) by (simp add: file_get_descriptor_def)
  have n1: "\<not> n < 1" using assms(2) by (auto simp: file_get_descriptor_def)
  from g n1 keep d(1,2) assms(2) fs show ?thesis
    by (simp add: fclose_def fseek_def fread_def fs_close_op_def fs_seek_op_def fs_read_op_def fat16_close_def
        fat16_free_file_descriptor_def fat16_seek_def fat16_read_def)
qed

theorem fclose_dangling_witness:
  "\<exists>(s :: fs_state) s'. fclose 1 s = Some (0, s') \<and> file_get_descriptor 1 s' = 0x5000 \<and> fclose 1 s' = None"
proof -
  let ?b = "blank_fs (demo_image demo_file) []"
  obtain p h m where k: "kzalloc 8 ?b = Some (p, ?b\<lparr>kernel_heap := h, kmem := m\<rparr>)" "heap_wf h" "live_block h p"
    using kzalloc_block [of ?b 8] by (auto simp: fresh_heap_wf fresh_heap_blocks free_count_replicate)
  let ?s = "?b\<lparr>kernel_heap := h, kmem := m, fat_descs := [p \<mapsto> \<lparr>desc_item = 0, desc_pos = 0\<rparr>], file_descriptors := [0x5000],
    fdescs := [0x5000 \<mapsto> \<lparr>fd_index = 1, fd_filesystem = Some Fat16_Fs, fd_private = p, fd_mode = FILE_MODE_READ, fd_disk = GlobalDisk\<rparr>]\<rparr>"
  obtain h' where "kfree p ?s = Some (?s\<lparr>kernel_heap := h'\<rparr>)" using kfree_live [of ?s p] k(2,3) by auto
  then have c: "\<exists>s'. fclose 1 ?s = Some (0, s')"
    by (simp add: fclose_def file_get_descriptor_def NUTSOS_MAX_FILE_DESCRIPTORS_def fs_close_op_def fat16_close_def
        fat16_free_file_descriptor_def fat16_fat_item_free_def)
  then obtain s' where s': "fclose 1 ?s = Some (0, s')" by blast
  have g: "file_get_descriptor 1 ?s = 0x5000" by (simp add: file_get_descriptor_def NUTSOS_MAX_FILE_DESCRIPTORS_def)
  have "0x5000 \<noteq> (0 :: u32)" by simp
  with fclose_dangling [OF s'] g have "file_get_descriptor 1 s' = 0x5000 \<and> fclose 1 s' = None" by simp
  with s' show ?thesis by blast
qed

end
