(* ===== verification/Gdt.thy ===== *)
theory Gdt
  imports Nuts_Prelude
begin

text \<open>
  The segment descriptors (\<^verbatim>\<open>src/gdt/gdt.c\<close>, \<^verbatim>\<open>gdt.h\<close>) and the task state segment
  (\<^verbatim>\<open>src/task/tss.h\<close>): a readable segment is encoded into the processor's 8-byte format.
\<close>

section \<open>Constants and types\<close>

definition GDT_FLAGS_4KB_BLOCKS :: u8 where [const_defs]: "GDT_FLAGS_4KB_BLOCKS = 0b1000"
definition GDT_FLAGS_32BIT_SEGMENT :: u8 where [const_defs]: "GDT_FLAGS_32BIT_SEGMENT = 0b0100"
definition GDT_MAX_LIMIT_FOR_BYTE_MODE :: u32 where [const_defs]: "GDT_MAX_LIMIT_FOR_BYTE_MODE = 0xFFFFF + 1"

definition GDT_SEG_RW :: "u8 \<Rightarrow> u8" where "GDT_SEG_RW x = push_bit 1 x"
definition GDT_SEG_EX :: "u8 \<Rightarrow> u8" where "GDT_SEG_EX x = push_bit 3 x"
definition GDT_SEG_DESC :: "u8 \<Rightarrow> u8" where "GDT_SEG_DESC x = push_bit 4 x"
definition GDT_SEG_PRIV :: "u8 \<Rightarrow> u8" where "GDT_SEG_PRIV x = push_bit 5 (x AND 0b111)"
definition GDT_SEG_PRES :: "u8 \<Rightarrow> u8" where "GDT_SEG_PRES x = push_bit 7 x"
definition GDT_TSS_TSSLDT :: "u8 \<Rightarrow> u8" where "GDT_TSS_TSSLDT x = x"
definition GDT_TSS_32BIT :: "u8 \<Rightarrow> u8" where "GDT_TSS_32BIT x = push_bit 3 x"
definition GDT_TSS_PRIV :: "u8 \<Rightarrow> u8" where "GDT_TSS_PRIV x = push_bit 5 (x AND 0b111)"
definition GDT_TSS_PRES :: "u8 \<Rightarrow> u8" where "GDT_TSS_PRES x = push_bit 7 x"

definition GDT_ENTRY_SIZE :: u32 where [const_defs]: "GDT_ENTRY_SIZE = 2 * 4"
definition GDT_KERNEL_CODE_OFFSET :: u32 where [const_defs]: "GDT_KERNEL_CODE_OFFSET = 1 * GDT_ENTRY_SIZE"
definition GDT_KERNEL_DATA_OFFSET :: u32 where [const_defs]: "GDT_KERNEL_DATA_OFFSET = 2 * GDT_ENTRY_SIZE"
definition GDT_USER_CODE_OFFSET :: u32 where [const_defs]: "GDT_USER_CODE_OFFSET = 3 * GDT_ENTRY_SIZE"
definition GDT_USER_DATA_OFFSET :: u32 where [const_defs]: "GDT_USER_DATA_OFFSET = 4 * GDT_ENTRY_SIZE"
definition GDT_TSS_OFFSET :: u32 where [const_defs]: "GDT_TSS_OFFSET = 5 * GDT_ENTRY_SIZE"
definition GDT_PRIVILEGE_RING_3 :: u32 where [const_defs]: "GDT_PRIVILEGE_RING_3 = 3"

record gdt =
  gdt_base :: u32
  gdt_limit :: u32
  gdt_type :: u8

record gdt_raw =
  limit_low_16bits :: u16
  base_low_16bits :: u16
  base_mid_8bits :: u8
  access :: u8
  limit_high_and_flags :: u8
  base_high_8bits :: u8

section \<open>Encoding\<close>

text \<open>\<open>None\<close> is the call of \<open>panic\<close>, which does not return.\<close>

definition encode_gdt_entry :: "gdt \<Rightarrow> gdt_raw option" where
  "encode_gdt_entry source =
     (if gdt_limit source > GDT_MAX_LIMIT_FOR_BYTE_MODE \<and> gdt_limit source AND 0xFFF \<noteq> 0xFFF then None
      else
        let big = gdt_limit source > GDT_MAX_LIMIT_FOR_BYTE_MODE;
            flags = (if big then GDT_FLAGS_32BIT_SEGMENT OR GDT_FLAGS_4KB_BLOCKS else GDT_FLAGS_32BIT_SEGMENT);
            limit = (if big then drop_bit 12 (gdt_limit source) else gdt_limit source)
        in Some \<lparr>limit_low_16bits = ucast (limit AND 0xFFFF),
                 base_low_16bits = ucast (gdt_base source AND 0xFFFF),
                 base_mid_8bits = ucast (drop_bit 16 (gdt_base source) AND 0xFF),
                 access = gdt_type source,
                 limit_high_and_flags = (ucast (drop_bit 16 limit) AND 0x0F) OR (push_bit 4 flags AND 0xF0),
                 base_high_8bits = ucast (drop_bit 24 (gdt_base source) AND 0xFF)\<rparr>)"

text \<open>
  Every field of every entry is assigned, so what the table held before (the \<open>memset\<close> clears
  only the first four bytes) does not matter.
\<close>

fun get_raw_gdt_struct :: "gdt list \<Rightarrow> gdt_raw list option" where
  "get_raw_gdt_struct [] = Some []"
| "get_raw_gdt_struct (g # gs) = do {
     r \<leftarrow> encode_gdt_entry g;
     rs \<leftarrow> get_raw_gdt_struct gs;
     Some (r # rs)
   }"

section \<open>The kernel's segments (\<^verbatim>\<open>src/kernel.c\<close>)\<close>

definition sizeof_tss :: u32 where [const_defs]: "sizeof_tss = 104"

definition kernel_gdt :: "u32 \<Rightarrow> gdt list" where
  "kernel_gdt tss_address =
     [\<lparr>gdt_base = 0, gdt_limit = 0, gdt_type = 0\<rparr>,
      \<lparr>gdt_base = 0, gdt_limit = 0xffffffff, gdt_type = GDT_SEG_RW 1 OR GDT_SEG_EX 1 OR GDT_SEG_DESC 1 OR GDT_SEG_PRES 1\<rparr>,
      \<lparr>gdt_base = 0, gdt_limit = 0xffffffff, gdt_type = GDT_SEG_RW 1 OR GDT_SEG_DESC 1 OR GDT_SEG_PRES 1\<rparr>,
      \<lparr>gdt_base = 0, gdt_limit = 0xffffffff, gdt_type = GDT_SEG_DESC 1 OR GDT_SEG_EX 1 OR GDT_SEG_PRIV 3 OR GDT_SEG_PRES 1\<rparr>,
      \<lparr>gdt_base = 0, gdt_limit = 0xffffffff, gdt_type = GDT_SEG_DESC 1 OR GDT_SEG_RW 1 OR GDT_SEG_PRIV 3 OR GDT_SEG_PRES 1\<rparr>,
      \<lparr>gdt_base = tss_address, gdt_limit = sizeof_tss - 1,
       gdt_type = GDT_TSS_PRIV 3 OR GDT_TSS_PRES 1 OR GDT_TSS_32BIT 1 OR GDT_TSS_TSSLDT 1\<rparr>]"

section \<open>Decoding\<close>

text \<open>What the processor reads out of a descriptor: base, last valid offset and access byte.\<close>

definition decode_gdt_entry :: "gdt_raw \<Rightarrow> gdt" where
  "decode_gdt_entry r =
     (let l = (ucast (limit_low_16bits r) :: u32) OR push_bit 16 (ucast (limit_high_and_flags r AND 0x0F))
      in \<lparr>gdt_base = (ucast (base_low_16bits r) :: u32) OR push_bit 16 (ucast (base_mid_8bits r))
              OR push_bit 24 (ucast (base_high_8bits r)),
          gdt_limit = (if bit (limit_high_and_flags r) 7 then push_bit 12 l OR 0xFFF else l),
          gdt_type = access r\<rparr>)"

lemma low_bits: "(0xFFFF :: u32) = mask 16" "(0xFF :: u32) = mask 8" "(0xFFF :: u32) = mask 12" "(0x0F :: u8) = mask 4"
  "(0xF0 :: u8) = push_bit 4 (mask 4)"
  by (simp_all add: mask_eq_exp_minus_1)

lemma base_split:
  fixes b :: u32
  shows "ucast (ucast (b AND 0xFFFF) :: u16) OR push_bit 16 (ucast (ucast (drop_bit 16 b AND 0xFF) :: u8))
    OR push_bit 24 (ucast (ucast (drop_bit 24 b AND 0xFF) :: u8)) = b" (is "?l = b")
proof (rule bit_word_eqI)
  fix n
  assume "n < LENGTH(32)"
  moreover have "n < 16 \<or> 16 \<le> n \<and> n < 24 \<or> 24 \<le> n" by auto
  ultimately show "bit ?l n = bit b n" unfolding low_bits by (elim disjE) (auto simp: bit_simps)
qed

lemma limit_split:
  fixes l :: u32
  shows "ucast (ucast (l AND 0xFFFF) :: u16)
    OR push_bit 16 (ucast ((((ucast (drop_bit 16 l) :: u8) AND 0x0F) OR (push_bit 4 f AND 0xF0)) AND 0x0F)) = take_bit 20 l"
  unfolding low_bits by (rule bit_word_eqI) (auto simp: bit_simps)

lemma flag_bit: "bit (((x :: u8) AND 0x0F) OR (push_bit 4 f AND 0xF0)) 7 = bit f 3"
  unfolding low_bits by (auto simp: bit_simps)

lemma take_20: "(l :: u32) < 0x100000 \<Longrightarrow> take_bit 20 l = l"
  by (simp add: word_unat_eq_iff unsigned_take_bit_eq word_less_nat_alt take_bit_nat_eq_self)

lemma limit_pages:
  fixes l :: u32
  assumes "l AND 0xFFF = 0xFFF"
  shows "push_bit 12 (take_bit 20 (drop_bit 12 l)) OR 0xFFF = l"
proof (rule bit_word_eqI)
  fix n
  assume "n < LENGTH(32)"
  moreover have "bit l n" if "n < 12"
  proof -
    have "bit (l AND mask 12) n" using that assms unfolding low_bits by (simp add: bit_mask_iff)
    then show ?thesis by (simp add: bit_and_iff)
  qed
  ultimately show "bit (push_bit 12 (take_bit 20 (drop_bit 12 l)) OR 0xFFF) n = bit l n"
    unfolding low_bits by (auto simp: bit_simps)
qed

lemma decode_encoded:
  "decode_gdt_entry \<lparr>limit_low_16bits = ucast (l AND 0xFFFF), base_low_16bits = ucast (b AND 0xFFFF),
      base_mid_8bits = ucast (drop_bit 16 b AND 0xFF), access = ty,
      limit_high_and_flags = (ucast (drop_bit 16 l) AND 0x0F) OR (push_bit 4 f AND 0xF0),
      base_high_8bits = ucast (drop_bit 24 b AND 0xFF)\<rparr>
    = \<lparr>gdt_base = b, gdt_limit = (if bit f 3 then push_bit 12 (take_bit 20 l) OR 0xFFF else take_bit 20 l), gdt_type = ty\<rparr>"
  unfolding decode_gdt_entry_def Let_def gdt_raw.simps base_split limit_split flag_bit ..

lemma encode_big:
  assumes "0x100000 < gdt_limit g" and "gdt_limit g AND 0xFFF = 0xFFF"
  shows "\<exists>r. encode_gdt_entry g = Some r \<and> decode_gdt_entry r = g"
proof -
  have f: "bit (GDT_FLAGS_32BIT_SEGMENT OR GDT_FLAGS_4KB_BLOCKS) 3" by (simp add: const_defs bit_simps)
  have "GDT_MAX_LIMIT_FOR_BYTE_MODE < gdt_limit g" using assms(1) by (simp add: const_defs)
  then show ?thesis
    using limit_pages [OF assms(2)] f assms(2) unfolding encode_gdt_entry_def Let_def
    by (simp only: decode_encoded if_True not_True_eq_False simp_thms if_False option.inject) simp
qed

lemma encode_small:
  assumes "\<not> 0x100000 < gdt_limit g"
  shows "\<exists>r. encode_gdt_entry g = Some r \<and> decode_gdt_entry r = g\<lparr>gdt_limit := take_bit 20 (gdt_limit g)\<rparr>"
proof -
  have f: "\<not> bit GDT_FLAGS_32BIT_SEGMENT 3" by (simp add: const_defs bit_simps)
  have "\<not> GDT_MAX_LIMIT_FOR_BYTE_MODE < gdt_limit g" using assms(1) by (simp add: const_defs)
  then show ?thesis
    using f unfolding encode_gdt_entry_def Let_def
    by (simp only: decode_encoded if_True not_True_eq_False simp_thms if_False option.inject) simp
qed

text \<open>
  C40. Segment descriptors round trip: \<open>encode_gdt_entry\<close> panics exactly for the limits above
  0x100000 that do not end in 0xFFF, and what the processor decodes from any other entry is the
  segment as declared, except that the one limit 0x100000 becomes 0.
\<close>

theorem gdt_encode_decode:
  "case encode_gdt_entry g of
     None \<Rightarrow> 0x100000 < gdt_limit g \<and> gdt_limit g AND 0xFFF \<noteq> 0xFFF
   | Some r \<Rightarrow> (gdt_limit g \<le> 0x100000 \<or> gdt_limit g AND 0xFFF = 0xFFF)
       \<and> decode_gdt_entry r = (if gdt_limit g = 0x100000 then g\<lparr>gdt_limit := 0\<rparr> else g)"
proof (cases "0x100000 < gdt_limit g")
  case True
  show ?thesis
  proof (cases "gdt_limit g AND 0xFFF = 0xFFF")
    case True
    with encode_big [OF \<open>0x100000 < gdt_limit g\<close>] \<open>0x100000 < gdt_limit g\<close> show ?thesis by auto
  next
    case False
    with \<open>0x100000 < gdt_limit g\<close> show ?thesis by (simp add: encode_gdt_entry_def GDT_MAX_LIMIT_FOR_BYTE_MODE_def)
  qed
next
  case False
  then have "take_bit 20 (gdt_limit g) = (if gdt_limit g = 0x100000 then 0 else gdt_limit g)"
    using take_20 [of "gdt_limit g"] by auto
  with False encode_small [OF False] show ?thesis by auto
qed

text \<open>A table of valid entries has an encoding, and the processor reads its segments from it.\<close>

lemma gdt_table_decodes:
  assumes "\<forall>g \<in> set gs. gdt_limit g < 0x100000 \<or> 0x100000 < gdt_limit g \<and> gdt_limit g AND 0xFFF = 0xFFF"
  shows "\<exists>rs. get_raw_gdt_struct gs = Some rs \<and> map decode_gdt_entry rs = gs"
  using assms
proof (induction gs)
  case (Cons g gs)
  have "\<exists>r. encode_gdt_entry g = Some r \<and> decode_gdt_entry r = g"
  proof (cases "0x100000 < gdt_limit g")
    case True
    with Cons.prems show ?thesis by (intro encode_big) auto
  next
    case False
    then have "take_bit 20 (gdt_limit g) = gdt_limit g" using Cons.prems by (intro take_20) auto
    with encode_small [OF False] show ?thesis by auto
  qed
  with Cons show ?case by auto
qed simp

end
