(* ===== verification/Task.thy ===== *)
theory Task
  imports File_Access Gdt
begin

text \<open>
  Tasks (\<^verbatim>\<open>src/task/task.c\<close>, \<^verbatim>\<open>task.h\<close>, \<^verbatim>\<open>task.asm\<close>): the doubly linked list of tasks, the current
  task, switching, and the registers saved on an interrupt.
\<close>

section \<open>State\<close>

record registers =
  r_edi :: u32
  r_esi :: u32
  r_ebp :: u32
  r_ebx :: u32
  r_edx :: u32
  r_ecx :: u32
  r_eax :: u32
  r_ip :: u32
  r_cs :: u32
  r_flags :: u32
  r_esp :: u32
  r_ss :: u32

record task =
  page_directory :: u32
  task_registers :: registers
  task_process :: u32
  task_next :: u32
  task_prev :: u32

record task_state = fs_state +
  tasks :: "u32 \<rightharpoonup> task"
  current_task :: u32
  task_tail :: u32
  task_head :: u32

text \<open>The frame an interrupt pushes (\<^verbatim>\<open>src/idt/idt.h\<close>).\<close>

record interrupt_frame =
  f_edi :: u32
  f_esi :: u32
  f_ebp :: u32
  f_reserved :: u32
  f_ebx :: u32
  f_edx :: u32
  f_ecx :: u32
  f_eax :: u32
  f_ip :: u32
  f_cs :: u32
  f_flags :: u32
  f_esp :: u32
  f_ss :: u32

definition sizeof_task :: u32 where [const_defs]: "sizeof_task = 64"
definition NUTSOS_PROGRAM_VIRTUAL_ADDRESS :: u32 where [const_defs]: "NUTSOS_PROGRAM_VIRTUAL_ADDRESS = 0x00400000"
definition NUTSOS_USER_PROGRAM_STACK_SIZE :: u32 where [const_defs]: "NUTSOS_USER_PROGRAM_STACK_SIZE = 1024 * 16"
definition NUTSOS_PROGRAM_VIRTUAL_STACK_ADDRESS_START :: u32 where
  [const_defs]: "NUTSOS_PROGRAM_VIRTUAL_STACK_ADDRESS_START = 0x003FF000"
definition NUTSOS_PROGRAM_VIRTUAL_STACK_ADDRESS_END :: u32 where
  [const_defs]: "NUTSOS_PROGRAM_VIRTUAL_STACK_ADDRESS_END
     = NUTSOS_PROGRAM_VIRTUAL_STACK_ADDRESS_START - NUTSOS_USER_PROGRAM_STACK_SIZE"

definition zero_registers :: registers where
  "zero_registers = \<lparr>r_edi = 0, r_esi = 0, r_ebp = 0, r_ebx = 0, r_edx = 0, r_ecx = 0, r_eax = 0,
     r_ip = 0, r_cs = 0, r_flags = 0, r_esp = 0, r_ss = 0\<rparr>"

section \<open>Memory through the page tables\<close>

text \<open>
  With paging on, an address the kernel or a task uses goes through the directory in
  \<open>cr3\<close>; the walk is that of \<open>translate\<close>.
\<close>

definition view :: "'a paging_state_scheme \<Rightarrow> mem \<Rightarrow> mem" where
  "view s m = (if cr0_pg s then (\<lambda>a. m (translate m (cr3 s) a)) else m)"

section \<open>The list of tasks\<close>

definition task_get_next :: "'a task_state_scheme \<Rightarrow> u32 option" where
  "task_get_next s = do {
     t \<leftarrow> tasks s (current_task s);
     Some (if task_next t = 0 then task_head s else task_next t)
   }"

text \<open>\<open>task->prev->next = task->next; task->next->prev = task->prev;\<close> on the store.\<close>

definition unlink :: "u32 \<Rightarrow> (u32 \<rightharpoonup> task) \<Rightarrow> (u32 \<rightharpoonup> task) option" where
  "unlink task st = do {
     t \<leftarrow> st task;
     (if task_prev t = 0 then Some st
      else do {
        p \<leftarrow> st (task_prev t);
        let st1 = st(task_prev t \<mapsto> p\<lparr>task_next := task_next t\<rparr>);
        t' \<leftarrow> st1 task;
        n \<leftarrow> st1 (task_next t');
        Some (st1(task_next t' \<mapsto> n\<lparr>task_prev := task_prev t'\<rparr>))
      })
   }"

definition task_list_remove :: "u32 \<Rightarrow> 'a task_state_scheme \<Rightarrow> 'a task_state_scheme option" where
  "task_list_remove task s = do {
     st \<leftarrow> unlink task (tasks s);
     t \<leftarrow> st task;
     let s1 = s\<lparr>tasks := st\<rparr>;
     let s2 = (if task = task_head s1 then s1\<lparr>task_head := task_next t\<rparr> else s1);
     let s3 = (if task = task_tail s2 then s2\<lparr>task_tail := task_prev t\<rparr> else s2);
     (if task = current_task s3 then do {
        nx \<leftarrow> task_get_next s3;
        Some (s3\<lparr>current_task := nx\<rparr>)
      } else Some s3)
   }"

definition task_free :: "u32 \<Rightarrow> 'a task_state_scheme \<Rightarrow> 'a task_state_scheme option" where
  "task_free task s = do {
     t \<leftarrow> tasks s task;
     s1 \<leftarrow> paging_chunk_free (page_directory t) s;
     s2 \<leftarrow> task_list_remove task s1;
     s3 \<leftarrow> kfree task s2;
     Some (s3\<lparr>tasks := (tasks s3)(task := None)\<rparr>)
   }"

definition task_init :: "u32 \<Rightarrow> u32 \<Rightarrow> 'a task_state_scheme \<Rightarrow> (int \<times> 'a task_state_scheme) option" where
  "task_init task process s = do {
     let t0 = \<lparr>page_directory = 0, task_registers = zero_registers, task_process = 0, task_next = 0, task_prev = 0\<rparr>;
     let s1 = s\<lparr>tasks := (tasks s)(task \<mapsto> t0)\<rparr>;
     (chunk, s2) \<leftarrow> paging_chunk_new PAGING_TOTAL_DIR_ENTRIES PAGING_TOTAL_ENTRIES_PER_TABLE
       (ucast (PAGING_IS_PRESENT OR PAGING_ACCESS_FROM_ALL)) s1;
     (if chunk = 0 then Some (- EIO, s2)
      else Some (0, s2\<lparr>tasks := (tasks s2)(task \<mapsto> t0\<lparr>page_directory := chunk,
        task_registers := zero_registers\<lparr>r_ip := NUTSOS_PROGRAM_VIRTUAL_ADDRESS,
          r_ss := GDT_USER_DATA_OFFSET OR GDT_PRIVILEGE_RING_3,
          r_cs := GDT_USER_CODE_OFFSET OR GDT_PRIVILEGE_RING_3,
          r_esp := NUTSOS_PROGRAM_VIRTUAL_STACK_ADDRESS_START\<rparr>,
        task_process := process\<rparr>)\<rparr>))
   }"

definition task_new :: "u32 \<Rightarrow> 'a task_state_scheme \<Rightarrow> (u32 \<times> 'a task_state_scheme) option" where
  "task_new process s = do {
     (task, s1) \<leftarrow> kzalloc sizeof_task s;
     (res, s2) \<leftarrow> (if task = 0 then Some (- ENOMEM, s1) else task_init task process s1);
     (if ISERR res then do {
        s3 \<leftarrow> task_free task s2;
        Some (ERRTOPTR res, s3)
      } else if task_head s2 = 0 then Some (task, s2\<lparr>task_head := task, task_tail := task\<rparr>)
      else do {
        tl \<leftarrow> tasks s2 (task_tail s2);
        let st1 = (tasks s2)(task_tail s2 \<mapsto> tl\<lparr>task_next := task\<rparr>);
        t \<leftarrow> st1 task;
        Some (task, s2\<lparr>tasks := st1(task \<mapsto> t\<lparr>task_prev := task_tail s2\<rparr>), task_tail := task\<rparr>)
      })
   }"

section \<open>Switching and saving\<close>

definition task_switch :: "u32 \<Rightarrow> 'a task_state_scheme \<Rightarrow> (int \<times> 'a task_state_scheme) option" where
  "task_switch task s = do {
     t \<leftarrow> tasks s task;
     d \<leftarrow> paging_chunk_get_directory (page_directory t) s;
     Some (0, paging_switch d (s\<lparr>current_task := task\<rparr>))
   }"

text \<open>
  What \<open>task_return\<close> (\<^verbatim>\<open>task.asm\<close>) loads before \<open>iretd\<close>: the segment registers all get
  \<open>ss\<close>, and the flags are the kernel's own with the interrupt flag set, not the saved ones.
\<close>

record cpu_state = registers +
  cpu_ds :: u32
  cpu_es :: u32
  cpu_fs :: u32
  cpu_gs :: u32

definition task_return :: "u32 \<Rightarrow> registers \<Rightarrow> cpu_state" where
  "task_return eflags r =
     \<lparr>r_edi = r_edi r, r_esi = r_esi r, r_ebp = r_ebp r, r_ebx = r_ebx r, r_edx = r_edx r, r_ecx = r_ecx r,
      r_eax = r_eax r, r_ip = r_ip r, r_cs = r_cs r, r_flags = eflags OR 0x200, r_esp = r_esp r, r_ss = r_ss r,
      cpu_ds = ucast (ucast (r_ss r) :: u16), cpu_es = ucast (ucast (r_ss r) :: u16),
      cpu_fs = ucast (ucast (r_ss r) :: u16), cpu_gs = ucast (ucast (r_ss r) :: u16)\<rparr>"

text \<open>
  How a function that may panic ends: it returns, the kernel stops in \<open>panic\<close> with a
  message, or the processor leaves for user mode.
\<close>

datatype ('a, 's) outcome = Returns 'a 's | Panics string 's | Enters_User cpu_state 's

definition panic :: "string \<Rightarrow> 'a kterm_scheme \<Rightarrow> ('b, 'a kterm_scheme) outcome" where
  "panic msg s = Panics msg (print_lit (print_lit s ''PANIC!!'') msg)"

definition task_run_as_task0 :: "u32 \<Rightarrow> u32 \<Rightarrow> 'a task_state_scheme \<Rightarrow> (unit, 'a task_state_scheme) outcome option" where
  "task_run_as_task0 eflags task s =
     (if task \<noteq> task_head s
      then Some (panic (''Can't run a first task that is not the first task!!'' @ [CHR 0x0A]) s)
      else do {
        (r, s1) \<leftarrow> task_switch task s;
        t \<leftarrow> tasks s1 task;
        Some (Enters_User (task_return eflags (task_registers t)) s1)
      })"

definition saved_registers :: "interrupt_frame \<Rightarrow> registers" where
  "saved_registers f = \<lparr>r_edi = f_edi f, r_esi = f_esi f, r_ebp = f_ebp f, r_ebx = f_ebx f, r_edx = f_edx f,
     r_ecx = f_ecx f, r_eax = f_eax f, r_ip = f_ip f, r_cs = f_cs f, r_flags = f_flags f, r_esp = f_esp f, r_ss = f_ss f\<rparr>"

definition task_save_state :: "u32 \<Rightarrow> interrupt_frame \<Rightarrow> 'a task_state_scheme \<Rightarrow> 'a task_state_scheme option" where
  "task_save_state task frame s = do {
     t \<leftarrow> tasks s task;
     Some (s\<lparr>tasks := (tasks s)(task \<mapsto> t\<lparr>task_registers := saved_registers frame\<rparr>)\<rparr>)
   }"

definition task_current_save_state ::
    "interrupt_frame \<Rightarrow> 'a task_state_scheme \<Rightarrow> (unit, 'a task_state_scheme) outcome option" where
  "task_current_save_state frame s =
     (if current_task s = 0 then Some (panic (''No current task to save'' @ [CHR 0x0A]) s)
      else do {
        s1 \<leftarrow> task_save_state (current_task s) frame s;
        Some (Returns () s1)
      })"

definition task_current_get_stack_item ::
    "int \<Rightarrow> 'a task_state_scheme \<Rightarrow> (u32, 'a task_state_scheme) outcome option" where
  "task_current_get_stack_item index s =
     (if current_task s = 0 then Some (panic (''No current task to save'' @ [CHR 0x0A]) s)
      else do {
        t \<leftarrow> tasks s (current_task s);
        Some (Returns (read32 (view s (kmem s)) (r_esp (task_registers t) + 4 * word_of_int index)) s)
      })"

end
