(* ===== verification/Task_List.thy ===== *)
theory Task_List
  imports Task
begin

text \<open>
  The list of tasks as a queue: the doubly linked nodes of \<^verbatim>\<open>src/task/task.c\<close> stand for a list
  of task addresses, \<open>task_new\<close> appends to it, \<open>task_get_next\<close> walks it in a circle, and
  \<open>task_free\<close> takes a task out of it.
\<close>

section \<open>Linked segments\<close>

text \<open>
  \<open>task_segment st p xs n\<close>: the tasks \<open>xs\<close> are linked in this order in both directions, the first
  one's \<open>prev\<close> is \<open>p\<close> and the last one's \<open>next\<close> is \<open>n\<close>.
\<close>

definition first :: "u32 list \<Rightarrow> u32 \<Rightarrow> u32" where
  "first xs n = (case xs of [] \<Rightarrow> n | x # _ \<Rightarrow> x)"

definition final :: "u32 list \<Rightarrow> u32 \<Rightarrow> u32" where
  "final xs p = (if xs = [] then p else last xs)"

lemma first_simps [simp]: "first [] n = n" "first (x # xs) n = x" "first (xs @ ys) n = first xs (first ys n)"
  by (simp_all add: first_def split: list.splits)

lemma final_simps [simp]: "final [] p = p" "final (x # xs) p = final xs x" "final (xs @ ys) p = final ys (final xs p)"
  by (simp_all add: final_def)

lemma first_in: "xs \<noteq> [] \<Longrightarrow> first xs n \<in> set xs" by (cases xs) simp_all

lemma final_in: "xs \<noteq> [] \<Longrightarrow> final xs p \<in> set xs" by (simp add: final_def)

fun task_segment :: "(u32 \<rightharpoonup> task) \<Rightarrow> u32 \<Rightarrow> u32 list \<Rightarrow> u32 \<Rightarrow> bool" where
  "task_segment st p [] n = True"
| "task_segment st p (x # xs) n = (x \<noteq> 0 \<and> (case st x of None \<Rightarrow> False
     | Some t \<Rightarrow> task_prev t = p \<and> task_next t = first xs n \<and> task_segment st x xs n))"

lemma segment_append: "task_segment st p (xs @ ys) n \<longleftrightarrow> task_segment st p xs (first ys n) \<and> task_segment st (final xs p) ys n"
  by (induction xs arbitrary: p) (auto split: option.splits)

lemma segment_cong: "(\<And>x. x \<in> set xs \<Longrightarrow> st' x = st x) \<Longrightarrow> task_segment st' p xs n = task_segment st p xs n"
  by (induction xs arbitrary: p) (auto split: option.splits)

lemma segment_nz: "task_segment st p xs n \<Longrightarrow> 0 \<notin> set xs"
  by (induction xs arbitrary: p) (auto split: option.splits)

lemma segment_task: "task_segment st p xs n \<Longrightarrow> x \<in> set xs \<Longrightarrow> \<exists>t. st x = Some t"
  by (induction xs arbitrary: p) (auto split: option.splits)

text \<open>Redirecting the outgoing links at either end.\<close>

lemma segment_relink_next:
  assumes "task_segment st p (xs @ [x]) n" and "x \<notin> set xs" and "st x = Some t"
  shows "task_segment (st(x \<mapsto> t\<lparr>task_next := n'\<rparr>)) p (xs @ [x]) n'"
proof -
  have "task_segment (st(x \<mapsto> t\<lparr>task_next := n'\<rparr>)) p xs x = task_segment st p xs x"
    using assms(2) by (intro segment_cong) auto
  with assms show ?thesis by (simp add: segment_append)
qed

lemma segment_relink_prev:
  assumes "task_segment st p (x # xs) n" and "x \<notin> set xs" and "st x = Some t"
  shows "task_segment (st(x \<mapsto> t\<lparr>task_prev := p'\<rparr>)) p' (x # xs) n"
proof -
  have "task_segment (st(x \<mapsto> t\<lparr>task_prev := p'\<rparr>)) x xs n = task_segment st x xs n"
    using assms(2) by (intro segment_cong) auto
  with assms show ?thesis by simp
qed

section \<open>The queue\<close>

definition task_queue :: "'a task_state_scheme \<Rightarrow> u32 list \<Rightarrow> bool" where
  "task_queue s qs \<longleftrightarrow> distinct qs \<and> task_segment (tasks s) 0 qs 0 \<and> task_head s = first qs 0 \<and> task_tail s = final qs 0"

text \<open>A walk of the list from any task comes to its cyclic successor.\<close>

lemma segment_nth:
  assumes "task_segment st p xs n" and "i < length xs"
  shows "\<exists>t. st (xs ! i) = Some t \<and> task_next t = (if Suc i < length xs then xs ! Suc i else n)"
  using assms
proof (induction xs arbitrary: p i)
  case (Cons x xs)
  show ?case
  proof (cases i)
    case 0
    with Cons.prems show ?thesis by (cases xs) (auto split: option.splits)
  next
    case (Suc j)
    with Cons.prems Cons.IH [of x j] show ?thesis by (auto split: option.splits)
  qed
qed simp

lemma task_get_next_cyclic:
  assumes "task_queue s qs" and "i < length qs" and "current_task s = qs ! i"
  shows "task_get_next s = Some (qs ! (Suc i mod length qs))"
proof -
  have q: "task_segment (tasks s) 0 qs 0" "task_head s = first qs 0" using assms(1) by (simp_all add: task_queue_def)
  obtain t where t: "tasks s (qs ! i) = Some t" "task_next t = (if Suc i < length qs then qs ! Suc i else 0)"
    using segment_nth [OF q(1) assms(2)] by blast
  have nz: "0 \<notin> set qs" using segment_nz [OF q(1)] .
  show ?thesis
  proof (cases "Suc i < length qs")
    case True
    then have "qs ! Suc i \<noteq> 0" using nz nth_mem by fastforce
    with True t assms(3) show ?thesis by (simp add: task_get_next_def)
  next
    case False
    with assms(2) have e: "Suc i = length qs" by simp
    moreover have "task_head s = qs ! 0" using q(2) assms(2) by (cases qs) simp_all
    ultimately show ?thesis using t assms(3) by (simp add: task_get_next_def)
  qed
qed

section \<open>Removal from the list\<close>

lemma unlink_middle:
  assumes "task_segment st p (as @ x # bs) 0" and "distinct (as @ x # bs)" and "as \<noteq> []" and "bs \<noteq> []"
  shows "\<exists>st' t. unlink x st = Some st' \<and> task_segment st' p (as @ bs) 0 \<and> st' x = st x \<and> st x = Some t
    \<and> task_next t = first bs 0 \<and> task_prev t = final as p
    \<and> dom st' = dom st \<and> (\<forall>y u. st' y = Some u \<longrightarrow> (\<exists>v. st y = Some v \<and> page_directory u = page_directory v))"
proof -
  obtain as' a where as: "as = as' @ [a]" using assms(3) by (metis rev_exhaust)
  obtain b bs' where bs: "bs = b # bs'" using assms(4) by (cases bs) auto
  have seg: "task_segment st p (as' @ [a]) x" "task_segment st a [x] b" "task_segment st x (b # bs') 0"
    using assms(1) by (simp_all add: as bs segment_append split: option.splits)
  obtain t where t: "st x = Some t" "task_prev t = a" "task_next t = b" using seg(2) by (auto split: option.splits)
  obtain ta where ta: "st a = Some ta" using segment_task [OF seg(1)] by auto
  obtain tb where tb: "st b = Some tb" using segment_task [OF seg(3)] by auto
  have ds: "a \<notin> set as'" "b \<notin> set bs'" "x \<noteq> a" "x \<noteq> b" "a \<noteq> b" "a \<notin> set bs'" "b \<notin> set as'" "a \<noteq> 0"
    using assms(2) segment_nz [OF seg(1)] by (auto simp: as bs)
  let ?s1 = "st(a \<mapsto> ta\<lparr>task_next := b\<rparr>)"
  let ?s2 = "?s1(b \<mapsto> tb\<lparr>task_prev := a\<rparr>)"
  have "task_segment ?s1 p (as' @ [a]) b" by (rule segment_relink_next [OF seg(1) ds(1) ta])
  then have l: "task_segment ?s2 p (as' @ [a]) b"
    using ds by (subst segment_cong [where st = ?s1]) auto
  have "task_segment ?s1 x (b # bs') 0" using seg(3) ds by (subst segment_cong [where st = st]) auto
  then have r: "task_segment ?s2 a (b # bs') 0"
    using ds tb by (intro segment_relink_prev) auto
  have u: "unlink x st = Some ?s2" using t ta tb ds by (simp add: unlink_def Let_def)
  have "task_segment ?s2 p (as @ bs) 0"
    unfolding as bs segment_append [of _ _ "as' @ [a]"] using l r by (simp only: first_simps final_simps)
  moreover have "?s2 x = st x" using ds by simp
  moreover have "dom ?s2 = dom st" using ta tb by auto
  moreover have "\<forall>y w. ?s2 y = Some w \<longrightarrow> (\<exists>v. st y = Some v \<and> page_directory w = page_directory v)"
    using ta tb ds by (auto split: if_splits)
  ultimately show ?thesis using u t as bs by auto
qed

lemma unlink_last:
  assumes "task_segment st p (as @ [x]) 0" and "as \<noteq> []" and "x \<notin> set as" and "st 0 = None"
  shows "unlink x st = None"
proof -
  obtain as' a where as: "as = as' @ [a]" using assms(2) by (metis rev_exhaust)
  have seg: "task_segment st p (as' @ [a]) x" "task_segment st a [x] 0"
    using assms(1) by (simp_all add: as segment_append split: option.splits)
  obtain t where t: "st x = Some t" "task_prev t = a" "task_next t = 0" using seg(2) by (auto split: option.splits)
  obtain ta where ta: "st a = Some ta" using segment_task [OF seg(1)] by auto
  have "a \<noteq> x" "a \<noteq> 0" using assms(3) segment_nz [OF seg(1)] by (auto simp: as)
  with t ta assms(4) show ?thesis by (simp add: unlink_def Let_def)
qed

lemma unlink_first: "st x = Some t \<Longrightarrow> task_prev t = 0 \<Longrightarrow> unlink x st = Some st"
  by (simp add: unlink_def)

section \<open>What a task owns\<close>

text \<open>
  The heap blocks of a task: the task object, its page directory and tables, and the chunk
  that describes them. In a queue no block belongs to two tasks.
\<close>

definition task_blocks :: "'a task_state_scheme \<Rightarrow> u32 \<Rightarrow> u32 list" where
  "task_blocks s x = (case tasks s x of None \<Rightarrow> [] | Some t \<Rightarrow>
     x # (case chunks s (page_directory t) of None \<Rightarrow> []
       | Some c \<Rightarrow> chunk_blocks s (page_directory t) (directory_entry c)))"

definition task_owned :: "'a task_state_scheme \<Rightarrow> u32 \<Rightarrow> bool" where
  "task_owned s x \<longleftrightarrow> live_block (kernel_heap s) x
     \<and> (\<exists>t d. tasks s x = Some t \<and> chunk_owned s (page_directory t) d)"

definition queue_ok :: "'a task_state_scheme \<Rightarrow> u32 list \<Rightarrow> bool" where
  "queue_ok s qs \<longleftrightarrow> heap_wf (kernel_heap s) \<and> task_queue s qs \<and> tasks s 0 = None
     \<and> (\<forall>x \<in> set qs. task_owned s x) \<and> distinct (concat (map (task_blocks s) qs))"

definition task_dir :: "'a task_state_scheme \<Rightarrow> u32 \<Rightarrow> u32" where
  "task_dir s x = directory_entry (the (chunks s (page_directory (the (tasks s x)))))"

lemma task_owned_blocks:
  assumes "task_owned s x"
  obtains t where "tasks s x = Some t" "chunk_owned s (page_directory t) (task_dir s x)"
    "task_blocks s x = x # chunk_blocks s (page_directory t) (task_dir s x)"
    "paging_chunk_get_directory (page_directory t) s = Some (task_dir s x)"
  using assms by (auto simp: task_owned_def chunk_owned_def task_blocks_def task_dir_def paging_chunk_get_directory_def)

lemma task_blocks_live:
  assumes "task_owned s x" and "q \<in> set (task_blocks s x)"
  shows "live_block (kernel_heap s) q"
proof -
  obtain t where t: "tasks s x = Some t" "chunk_owned s (page_directory t) (task_dir s x)"
    "task_blocks s x = x # chunk_blocks s (page_directory t) (task_dir s x)"
    using assms(1) by (rule task_owned_blocks)
  with assms show ?thesis by (auto simp: task_owned_def chunk_owned_def)
qed

text \<open>A page that lies in a live block is kept by everything that keeps allocated memory.\<close>

text \<open>The bytes a directory lies in: its own page and those of its tables.\<close>

definition dir_byte :: "mem \<Rightarrow> u32 \<Rightarrow> u32 \<Rightarrow> bool" where
  "dir_byte m d a \<longleftrightarrow> page_frame a = d \<or> (\<exists>i < 1024. page_frame a = page_table m d i)"

text \<open>A directory whose entries leave every access to the tables: present, writable and open to ring 3.\<close>

definition dir_open :: "mem \<Rightarrow> u32 \<Rightarrow> bool" where
  "dir_open m d \<longleftrightarrow> (\<forall>i < 1024. read32 m (d + 4 * of_nat i) AND 7 = 7)"

text \<open>A table entry, and what a directory translates, depend on the bytes of their pages only.\<close>

lemma cell_same:
  assumes "\<And>a. page_frame a = t \<Longrightarrow> m' a = m a" and "t mod 4096 = 0" and "k < 1024"
  shows "read32 m' (t + 4 * of_nat k) = read32 m (t + 4 * of_nat k)"
proof -
  have "m' (t + 4 * of_nat k + of_nat j) = m (t + 4 * of_nat k + of_nat j)" if "j < 4" for j
    by (rule assms(1)) (rule page_frame_cell [OF assms(2,3) that])
  from this [of 0] this [of 1] this [of 2] this [of 3] show ?thesis by (simp add: read32_def)
qed

lemma directory_same:
  assumes "d mod 4096 = 0"
    and "\<And>a. page_frame a = d \<or> (\<exists>i < 1024. page_frame a = page_table m d i) \<Longrightarrow> m' a = m a"
  shows "page_entry m' d v = page_entry m d v"
proof -
  have t: "page_table m' d i = page_table m d i" if "i < 1024" for i
    unfolding page_table_def using cell_same [of d m' m, OF _ assms(1) that] assms(2) by simp
  have "read32 m' (page_table m d (dir_index v) + 4 * of_nat (table_index v)) = read32 m (page_table m d (dir_index v) + 4 * of_nat (table_index v))"
    using assms(2) dir_index_less [of v] by (intro cell_same page_table_aligned table_index_less) blast
  then show ?thesis by (simp add: page_entry_def t dir_index_less)
qed

text \<open>The bytes of a page are all free or all taken.\<close>

lemma free_page:
  assumes "heap_wf h"
  shows "free_byte h (page_frame a) = free_byte h a"
proof -
  have "saddr h mod 4096 = 0" using assms by (simp add: heap_wf_def heap_shape_def)
  from pool_block_page [OF this, of a] pool_block_page [OF this, of "page_frame a"]
  show ?thesis by (simp add: free_byte_def page_frame_id page_frame_aligned)
qed

lemma page_kept:
  assumes "heap_wf h" and "live_block h d" and "d mod 4096 = 0"
    and "\<And>a. \<not> free_byte h a \<Longrightarrow> m' a = m a" and "page_frame a = d"
  shows "m' a = m a"
proof -
  have "free_byte h a = free_byte h d" using free_page [OF assms(1), of a] assms(5) by simp
  with assms(4) [of a] live_not_free [OF assms(1,2)] show ?thesis by blast
qed

lemma cell_kept:
  assumes "heap_wf h" and "live_block h d" and "d mod 4096 = 0"
    and "\<And>a. \<not> free_byte h a \<Longrightarrow> m' a = m a" and "i < 1024"
  shows "read32 m' (d + 4 * of_nat i) = read32 m (d + 4 * of_nat i)"
proof -
  have k: "m' (d + 4 * of_nat i + of_nat j) = m (d + 4 * of_nat i + of_nat j)" if "j < 4" for j
    by (rule page_kept [where m' = m' and m = m, OF assms(1-4)]) (simp_all add: page_frame_cell [OF assms(3,5) that])
  show ?thesis using k [of 0] k [of 1] k [of 2] k [of 3] by (intro read32_cong) simp_all
qed

text \<open>
  What a task owns survives every change that keeps the live blocks, the bytes of allocated
  memory, and the task's own record of its directory.
\<close>

definition keeps :: "'a kheap_state_scheme \<Rightarrow> 'b kheap_state_scheme \<Rightarrow> bool" where
  "keeps s s' \<longleftrightarrow> (\<forall>q. live_block (kernel_heap s) q \<longrightarrow> live_block (kernel_heap s') q)
     \<and> (\<forall>a. \<not> free_byte (kernel_heap s) a \<longrightarrow> kmem s' a = kmem s a)"

lemma chunk_kept:
  fixes s s' :: "'a paging_state_scheme"
  assumes "heap_wf (kernel_heap s)" and "chunk_owned s c d" and "chunks s' c = chunks s c" and "keeps s s'"
  shows "chunk_owned s' c d" and "chunk_blocks s' c d = chunk_blocks s c d"
    and "page_entry (kmem s') d v = page_entry (kmem s) d v"
proof -
  have o: "map_option directory_entry (chunks s c) = Some d" "dir_wf (kmem s) d"
    "distinct (chunk_blocks s c d)" "\<And>q. q \<in> set (chunk_blocks s c d) \<Longrightarrow> live_block (kernel_heap s) q"
    using assms(2) by (auto simp: chunk_owned_def)
  have k: "\<And>a. \<not> free_byte (kernel_heap s) a \<Longrightarrow> kmem s' a = kmem s a"
    "\<And>q. live_block (kernel_heap s) q \<Longrightarrow> live_block (kernel_heap s') q"
    using assms(4) by (simp_all add: keeps_def)
  have d: "live_block (kernel_heap s) d" "d mod 4096 = 0"
    using o(2,4) by (auto simp: chunk_blocks_def dir_wf_def)
  have t: "page_table (kmem s') d i = page_table (kmem s) d i" if "i < 1024" for i
    using cell_kept [where m' = "kmem s'" and m = "kmem s", OF assms(1) d k(1) that] by (simp add: page_table_def)
  then show b: "chunk_blocks s' c d = chunk_blocks s c d" by (simp add: chunk_blocks_def)
  have "dir_wf (kmem s') d" using o(2) t by (simp add: dir_wf_def)
  with b o assms(3) k(2) show "chunk_owned s' c d" by (simp add: chunk_owned_def)
  let ?t = "page_table (kmem s) d (dir_index v)"
  have "live_block (kernel_heap s) ?t"
    using o(4) dir_index_less [of v] by (simp add: chunk_blocks_def)
  from cell_kept [where m' = "kmem s'" and m = "kmem s", OF assms(1) this page_table_aligned k(1) table_index_less [of v]]
  show "page_entry (kmem s') d v = page_entry (kmem s) d v"
    by (simp add: page_entry_def t dir_index_less)
qed

lemma task_kept:
  fixes s s' :: "'a task_state_scheme"
  assumes "heap_wf (kernel_heap s)" and "task_owned s x" and "keeps s s'" and "tasks s x = Some t"
    and "tasks s' x = Some t'" and "page_directory t' = page_directory t"
    and "chunks s' (page_directory t) = chunks s (page_directory t)"
  shows "task_owned s' x" and "task_blocks s' x = task_blocks s x" and "task_dir s' x = task_dir s x"
    and "page_entry (kmem s') (task_dir s x) v = page_entry (kmem s) (task_dir s x) v"
proof -
  have o: "chunk_owned s (page_directory t) (task_dir s x)"
    using assms(2,4) by (auto elim: task_owned_blocks)
  note k = chunk_kept [OF assms(1) o assms(7,3)]
  have "live_block (kernel_heap s') x" using assms(2,3) by (simp add: task_owned_def keeps_def)
  with k(1) assms(5,6) show "task_owned s' x" by (auto simp: task_owned_def)
  show dir: "task_dir s' x = task_dir s x" using assms(4-7) by (simp add: task_dir_def)
  obtain ch where ch: "chunks s (page_directory t) = Some ch" "directory_entry ch = task_dir s x"
    using o by (auto simp: chunk_owned_def)
  with k(2) assms(4-7) show "task_blocks s' x = task_blocks s x" by (simp add: task_blocks_def)
  show "page_entry (kmem s') (task_dir s x) v = page_entry (kmem s) (task_dir s x) v" by (rule k(3))
qed

text \<open>So does the whole queue.\<close>

lemma queue_kept:
  fixes s s' :: "'a task_state_scheme"
  assumes "queue_ok s qs" and "keeps s s'" and "heap_wf (kernel_heap s')" and "tasks s' = tasks s" and "chunks s' = chunks s"
    and "task_head s' = task_head s" and "task_tail s' = task_tail s"
  shows "queue_ok s' qs" and "x \<in> set qs \<Longrightarrow> task_dir s' x = task_dir s x"
    and "x \<in> set qs \<Longrightarrow> page_entry (kmem s') (task_dir s x) v = page_entry (kmem s) (task_dir s x) v"
proof -
  have wf: "heap_wf (kernel_heap s)" and own: "\<And>x. x \<in> set qs \<Longrightarrow> task_owned s x"
    using assms(1) by (simp_all add: queue_ok_def)
  have k: "task_owned s' x \<and> task_blocks s' x = task_blocks s x \<and> task_dir s' x = task_dir s x
      \<and> (\<forall>v. page_entry (kmem s') (task_dir s x) v = page_entry (kmem s) (task_dir s x) v)" if x: "x \<in> set qs" for x
  proof -
    obtain t where t: "tasks s x = Some t" using own [OF x] by (auto simp: task_owned_def)
    then have t': "tasks s' x = Some t" using assms(4) by simp
    have ch: "chunks s' (page_directory t) = chunks s (page_directory t)" using assms(5) by simp
    from task_kept [OF wf own [OF x] assms(2) t t' refl ch] show ?thesis by blast
  qed
  then have "map (task_blocks s') qs = map (task_blocks s) qs" by simp
  moreover have "distinct (concat (map (task_blocks s) qs))" using assms(1) by (simp add: queue_ok_def)
  ultimately have "distinct (concat (map (task_blocks s') qs))" by (simp only:)
  with k assms show "queue_ok s' qs" by (simp add: queue_ok_def task_queue_def)
  show "x \<in> set qs \<Longrightarrow> task_dir s' x = task_dir s x"
    "x \<in> set qs \<Longrightarrow> page_entry (kmem s') (task_dir s x) v = page_entry (kmem s) (task_dir s x) v"
    using k by blast+
qed

lemma paging_chunk_new_upd:
  assumes "paging_chunk_new n k flags s = Some (c, s')"
  shows "\<exists>h m cs. s' = s\<lparr>kernel_heap := h, kmem := m, chunks := cs\<rparr>"
proof -
  from assms obtain d s1 s2 s3 where st: "kzalloc (4 * word_of_int n) s = Some (d, s1)"
    "dir_entries_loop d k (ucast flags) 0 0 (nat n) s1 = Some s2" "kzalloc sizeof_paging_chunk s2 = Some (c, s3)"
    "s' = s3\<lparr>chunks := (chunks s3)(c \<mapsto> \<lparr>directory_entry = d, dir_count = n, entries_count = k\<rparr>)\<rparr>"
    by (auto simp: paging_chunk_new_def bind_eq_Some_conv split: if_splits)
  obtain h1 m1 where s1: "s1 = s\<lparr>kernel_heap := h1, kmem := m1\<rparr>" using kzalloc_upd [OF st(1)] by blast
  obtain h2 m2 where s2: "s2 = s1\<lparr>kernel_heap := h2, kmem := m2\<rparr>" using dir_entries_loop_upd [OF st(2)] by blast
  obtain h3 m3 where s3: "s3 = s2\<lparr>kernel_heap := h3, kmem := m3\<rparr>" using kzalloc_upd [OF st(3)] by blast
  let ?cs = "(chunks s3)(c \<mapsto> \<lparr>directory_entry = d, dir_count = n, entries_count = k\<rparr>)"
  have "s' = s\<lparr>kernel_heap := h3, kmem := m3, chunks := ?cs\<rparr>"
    unfolding st(4) by (simp add: s1 s2 s3)
  then show ?thesis by blast
qed

section \<open>A new task\<close>

definition fresh_task :: "u32 \<Rightarrow> u32 \<Rightarrow> task" where
  "fresh_task chunk process = \<lparr>page_directory = chunk,
     task_registers = zero_registers\<lparr>r_ip := 0x00400000, r_ss := 0x23, r_cs := 0x1B, r_esp := 0x003FF000\<rparr>,
     task_process = process, task_next = 0, task_prev = 0\<rparr>"

lemma task_init_spec:
  fixes s :: "'a task_state_scheme"
  assumes "heap_wf (kernel_heap s)" and "1027 \<le> free_count (blocks (kernel_heap s))"
  shows "\<exists>t c d s1 h m s'. kzalloc sizeof_task s = Some (t, s1) \<and> task_init t process s1 = Some (0, s')
    \<and> s' = s\<lparr>kernel_heap := h, kmem := m, chunks := (chunks s)(c \<mapsto> \<lparr>directory_entry = d, dir_count = 1024, entries_count = 1024\<rparr>),
        tasks := (tasks s)(t \<mapsto> fresh_task c process)\<rparr>
    \<and> t \<noteq> 0 \<and> c \<noteq> 0 \<and> heap_wf h \<and> keeps s s' \<and> free_count (blocks h) + 1027 = free_count (blocks (kernel_heap s))
    \<and> task_owned s' t \<and> distinct (task_blocks s' t) \<and> task_dir s' t = d
    \<and> (\<forall>q \<in> set (task_blocks s' t). \<not> live_block (kernel_heap s) q)
    \<and> \<not> live_block (kernel_heap s) c \<and> (\<forall>q. live_block h q \<longleftrightarrow> live_block (kernel_heap s) q \<or> q \<in> set (task_blocks s' t))
    \<and> (\<forall>a. \<not> free_byte (kernel_heap s) a \<longrightarrow> \<not> free_byte h a)
    \<and> (\<forall>v. page_entry m d v = page_frame v OR 5)
    \<and> (\<forall>a. dir_byte m d a \<longrightarrow> free_byte (kernel_heap s) a) \<and> dir_open m d"
proof -
  obtain t h1 m1 where t: "kzalloc 64 s = Some (t, s\<lparr>kernel_heap := h1, kmem := m1\<rparr>)" "t \<noteq> 0" "heap_wf h1"
    "Suc (free_count (blocks h1)) = free_count (blocks (kernel_heap s))"
    "\<And>a. \<not> free_byte (kernel_heap s) a \<Longrightarrow> \<not> free_byte h1 a \<and> m1 a = kmem s a"
    "\<not> live_block (kernel_heap s) t" "\<And>q. live_block h1 q \<longleftrightarrow> q = t \<or> live_block (kernel_heap s) q"
    using kzalloc_block [OF assms(1), of 64] assms(2) by auto
  let ?t0 = "\<lparr>page_directory = 0, task_registers = zero_registers, task_process = 0, task_next = 0, task_prev = 0\<rparr>"
  let ?s1 = "s\<lparr>kernel_heap := h1, kmem := m1, tasks := (tasks s)(t \<mapsto> ?t0)\<rparr>"
  have room: "heap_wf (kernel_heap ?s1)" "1026 \<le> free_count (blocks (kernel_heap ?s1))" using t(3,4) assms(2) by simp_all
  obtain c d s2 where n: "paging_chunk_new 1024 1024 5 ?s1 = Some (c, s2)" "c \<noteq> 0"
    "chunks s2 = (chunks s)(c \<mapsto> \<lparr>directory_entry = d, dir_count = 1024, entries_count = 1024\<rparr>)"
    "heap_wf (kernel_heap s2)" "free_count (blocks (kernel_heap s2)) + 1026 = free_count (blocks h1)"
    "\<And>v. page_entry (kmem s2) d v = page_frame v OR 5"
    "\<And>i. i < 1024 \<Longrightarrow> read32 (kmem s2) (d + 4 * of_nat i) = page_table (kmem s2) d i OR (5 OR PAGING_IS_WRITEABLE)"
    "\<And>a. \<not> free_byte h1 a \<Longrightarrow> kmem s2 a = m1 a \<and> \<not> free_byte (kernel_heap s2) a"
    "\<And>a. page_frame a = d \<or> (\<exists>i < 1024. page_frame a = page_table (kmem s2) d i) \<Longrightarrow>
        free_byte h1 a \<and> \<not> free_byte (kernel_heap s2) a"
    "chunk_owned s2 c d" "\<And>q. q \<in> set (chunk_blocks s2 c d) \<Longrightarrow> free_byte h1 q"
    "\<And>q. live_block (kernel_heap s2) q \<longleftrightarrow> q \<in> set (chunk_blocks s2 c d) \<or> live_block h1 q"
    using paging_chunk_new_spec [OF room, of 5] by simp blast
  obtain h m cs where s2: "s2 = ?s1\<lparr>kernel_heap := h, kmem := m, chunks := cs\<rparr>"
    using paging_chunk_new_upd [OF n(1)] by blast
  let ?s' = "s\<lparr>kernel_heap := h, kmem := m, chunks := (chunks s)(c \<mapsto> \<lparr>directory_entry = d, dir_count = 1024, entries_count = 1024\<rparr>),
        tasks := (tasks s)(t \<mapsto> fresh_task c process)\<rparr>"
  have cs: "cs = (chunks s)(c \<mapsto> \<lparr>directory_entry = d, dir_count = 1024, entries_count = 1024\<rparr>)"
    using n(3) by (simp add: s2)
  have init: "task_init t process (s\<lparr>kernel_heap := h1, kmem := m1\<rparr>) = Some (0, ?s')"
    using n(1,2) by (simp add: task_init_def s2 cs fresh_task_def Let_def PAGING_IS_PRESENT_def PAGING_ACCESS_FROM_ALL_def
        PAGING_TOTAL_DIR_ENTRIES_def PAGING_TOTAL_ENTRIES_PER_TABLE_def const_defs)
  have fb: "chunk_blocks ?s' c d = chunk_blocks s2 c d" by (simp add: chunk_blocks_def s2)
  have own: "chunk_owned ?s' c d" using n(10) fb by (simp add: chunk_owned_def s2 cs)
  have tb: "task_blocks ?s' t = t # chunk_blocks s2 c d"
    using fb by (simp add: task_blocks_def fresh_task_def)
  have fresh: "\<not> live_block h1 q" if "q \<in> set (chunk_blocks s2 c d)" for q
    using n(11) [OF that] live_not_free [OF t(3)] by blast
  then have tn: "t \<notin> set (chunk_blocks s2 c d)" using t(7) by blast
  have "c \<in> set (chunk_blocks s2 c d)" by (simp add: chunk_blocks_def)
  then have cl: "\<not> live_block (kernel_heap s) c" using fresh t(7) by blast
  have "keeps s ?s'" using t(5,7) n(8,12) by (auto simp: keeps_def s2)
  moreover have "task_owned ?s' t" using own n(12) t(7) by (auto simp: task_owned_def fresh_task_def s2)
  moreover have "distinct (task_blocks ?s' t)" using n(10) tn tb by (simp add: chunk_owned_def)
  moreover have "task_dir ?s' t = d" by (simp add: task_dir_def fresh_task_def)
  moreover have "\<forall>q \<in> set (task_blocks ?s' t). \<not> live_block (kernel_heap s) q" using fresh t(6,7) tb by auto
  moreover have "\<forall>q. live_block h q \<longleftrightarrow> live_block (kernel_heap s) q \<or> q \<in> set (task_blocks ?s' t)"
    using n(12) t(7) tb by (auto simp: s2)
  moreover have "\<forall>a. \<not> free_byte (kernel_heap s) a \<longrightarrow> \<not> free_byte h a" using t(5) n(8) by (auto simp: s2)
  moreover have "heap_wf h" "free_count (blocks h) + 1027 = free_count (blocks (kernel_heap s))" "\<forall>v. page_entry m d v = page_frame v OR 5"
    using n(4,5,6) t(4) by (auto simp: s2)
  moreover have "\<forall>a. dir_byte m d a \<longrightarrow> free_byte (kernel_heap s) a"
    using n(9) t(5) by (auto simp: s2 dir_byte_def)
  moreover have "dir_open m d"
    using n(7) by (simp add: dir_open_def s2 PAGING_IS_WRITEABLE_def bit.conj_disj_distrib2)
  ultimately show ?thesis using t(1,2) n(2) init cl
    by (intro exI [of _ t] exI [of _ c] exI [of _ d] exI [of _ "s\<lparr>kernel_heap := h1, kmem := m1\<rparr>"] exI [of _ h] exI [of _ m] exI [of _ ?s'])
      (simp add: sizeof_task_def)
qed

lemma segment_snoc:
  assumes "task_segment st 0 qs 0" and "distinct qs" and "qs \<noteq> []" and "t \<notin> set qs" and "t \<noteq> 0"
    and "st (final qs 0) = Some lt" and "task_next u = 0"
  shows "task_segment (st(final qs 0 \<mapsto> lt\<lparr>task_next := t\<rparr>, t \<mapsto> u\<lparr>task_prev := final qs 0\<rparr>)) 0 (qs @ [t]) 0"
proof -
  obtain as a where qs: "qs = as @ [a]" using assms(3) by (metis rev_exhaust)
  let ?st = "st(a \<mapsto> lt\<lparr>task_next := t\<rparr>)"
  have "task_segment ?st 0 (as @ [a]) t"
    using assms(1,2,6) by (intro segment_relink_next [where n = 0]) (simp_all add: qs)
  then have "task_segment (?st(t \<mapsto> u\<lparr>task_prev := a\<rparr>)) 0 (as @ [a]) t"
    using assms(4) by (subst segment_cong [where st = ?st]) (auto simp: qs)
  then show ?thesis
    using assms(5,7) unfolding qs segment_append [of _ _ "as @ [a]"] by simp
qed

text \<open>\<open>task_new\<close> appends a task of its own, with the whole address space mapped to itself.\<close>

lemma task_new_spec:
  fixes s :: "'a task_state_scheme"
  assumes "queue_ok s qs" and "1027 \<le> free_count (blocks (kernel_heap s))"
  shows "\<exists>t c d h m ts s'. task_new process s = Some (t, s')
    \<and> s' = s\<lparr>kernel_heap := h, kmem := m, chunks := (chunks s)(c \<mapsto> \<lparr>directory_entry = d, dir_count = 1024, entries_count = 1024\<rparr>),
        tasks := ts, task_head := first (qs @ [t]) 0, task_tail := t\<rparr>
    \<and> queue_ok s' (qs @ [t]) \<and> keeps s s' \<and> free_count (blocks h) + 1027 = free_count (blocks (kernel_heap s))
    \<and> (\<forall>a. \<not> free_byte (kernel_heap s) a \<longrightarrow> \<not> free_byte h a)
    \<and> ts t = Some ((fresh_task c process)\<lparr>task_prev := final qs 0\<rparr>) \<and> task_dir s' t = d
    \<and> (\<forall>v. page_entry m d v = page_frame v OR 5)
    \<and> (\<forall>a. dir_byte m d a \<longrightarrow> free_byte (kernel_heap s) a)
    \<and> (\<forall>x \<in> set qs. task_dir s' x = task_dir s x \<and> (\<forall>v. page_entry m (task_dir s x) v = page_entry (kmem s) (task_dir s x) v))
    \<and> dir_open m d"
proof -
  have wf: "heap_wf (kernel_heap s)" and q: "distinct qs" "task_segment (tasks s) 0 qs 0" "task_head s = first qs 0" "task_tail s = final qs 0"
    and z: "tasks s 0 = None" and own: "\<And>x. x \<in> set qs \<Longrightarrow> task_owned s x" and dist: "distinct (concat (map (task_blocks s) qs))"
    using assms(1) by (simp_all add: queue_ok_def task_queue_def)
  let ?ch = "\<lambda>d. \<lparr>directory_entry = d, dir_count = 1024, entries_count = 1024\<rparr>"
  obtain t c d s1 h m where n: "kzalloc sizeof_task s = Some (t, s1)" "t \<noteq> 0" "heap_wf h"
    and sA: "\<exists>sA. sA = s\<lparr>kernel_heap := h, kmem := m, chunks := (chunks s)(c \<mapsto> ?ch d), tasks := (tasks s)(t \<mapsto> fresh_task c process)\<rparr>
      \<and> task_init t process s1 = Some (0, sA) \<and> keeps s sA \<and> task_owned sA t \<and> distinct (task_blocks sA t) \<and> task_dir sA t = d
      \<and> (\<forall>q \<in> set (task_blocks sA t). \<not> live_block (kernel_heap s) q)"
    and r: "free_count (blocks h) + 1027 = free_count (blocks (kernel_heap s))" "\<not> live_block (kernel_heap s) c"
      "\<And>a. \<not> free_byte (kernel_heap s) a \<Longrightarrow> \<not> free_byte h a" "\<And>v. page_entry m d v = page_frame v OR 5"
      "\<And>a. dir_byte m d a \<Longrightarrow> free_byte (kernel_heap s) a" "dir_open m d"
    using task_init_spec [OF wf assms(2), of process] by blast
  let ?sA = "s\<lparr>kernel_heap := h, kmem := m, chunks := (chunks s)(c \<mapsto> ?ch d), tasks := (tasks s)(t \<mapsto> fresh_task c process)\<rparr>"
  have A: "task_init t process s1 = Some (0, ?sA)" "keeps s ?sA" "task_owned ?sA t" "distinct (task_blocks ?sA t)"
    "task_dir ?sA t = d" "\<And>q. q \<in> set (task_blocks ?sA t) \<Longrightarrow> \<not> live_block (kernel_heap s) q"
    using sA by blast+
  have tq: "t \<notin> set qs"
    using A(3,6) own by (metis list.set_intros(1) task_owned_blocks task_owned_def)
  have hd0: "first qs 0 = 0 \<longleftrightarrow> qs = []" using segment_nz [OF q(2)] by (cases qs) auto
  have fn: "qs \<noteq> [] \<Longrightarrow> \<exists>lt. tasks s (final qs 0) = Some lt \<and> final qs 0 \<in> set qs"
    using segment_task [OF q(2)] final_in by blast
  define ts where "ts = (if qs = [] then (tasks s)(t \<mapsto> fresh_task c process)
    else (tasks s)(final qs 0 \<mapsto> the (tasks s (final qs 0))\<lparr>task_next := t\<rparr>, t \<mapsto> (fresh_task c process)\<lparr>task_prev := final qs 0\<rparr>))"
  let ?s' = "s\<lparr>kernel_heap := h, kmem := m, chunks := (chunks s)(c \<mapsto> ?ch d), tasks := ts, task_head := first (qs @ [t]) 0, task_tail := t\<rparr>"
  have run: "task_new process s = Some (t, ?s')"
  proof (cases "qs = []")
    case True
    with n(1,2) A(1) q(3) show ?thesis by (simp add: task_new_def ISERR_def ts_def)
  next
    case False
    then obtain lt where lt: "tasks s (final qs 0) = Some lt" "final qs 0 \<noteq> t" using fn tq by blast
    have "first (qs @ [t]) 0 = task_head s" using False q(3) by (cases qs) simp_all
    then have "?s' = ?sA\<lparr>tasks := ts, task_tail := t\<rparr>" by simp
    moreover have "ts = (tasks s)(t \<mapsto> fresh_task c process, final qs 0 \<mapsto> lt\<lparr>task_next := t\<rparr>, t \<mapsto> (fresh_task c process)\<lparr>task_prev := final qs 0\<rparr>)"
      using False lt by (auto simp: ts_def)
    ultimately show ?thesis
      using False hd0 lt n(1,2) A(1) q(3,4) by (simp add: task_new_def ISERR_def Let_def)
  qed
  have tst: "ts t = Some ((fresh_task c process)\<lparr>task_prev := final qs 0\<rparr>)"
    by (simp add: ts_def fresh_task_def)
  have tsx: "\<exists>u u'. tasks s x = Some u \<and> ts x = Some u' \<and> page_directory u' = page_directory u" if "x \<in> set qs" for x
    using segment_task [OF q(2) that] fn that tq by (auto simp: ts_def)
  have k: "keeps s ?s'" using A(2) by (simp add: keeps_def)
  have chs: "chunks ?s' (page_directory u) = chunks s (page_directory u)" if "x \<in> set qs" "tasks s x = Some u" for x u
  proof -
    have "live_block (kernel_heap s) (page_directory u)"
      using own [OF that(1)] that(2) by (auto simp: task_owned_def chunk_owned_def chunk_blocks_def)
    with r(2) have "page_directory u \<noteq> c" by blast
    then show ?thesis by simp
  qed
  have old: "task_owned ?s' x \<and> task_blocks ?s' x = task_blocks s x \<and> task_dir ?s' x = task_dir s x
      \<and> (\<forall>v. page_entry m (task_dir s x) v = page_entry (kmem s) (task_dir s x) v)" if "x \<in> set qs" for x
  proof -
    from tsx [OF that] obtain u u' where u: "tasks s x = Some u" "ts x = Some u'" "page_directory u' = page_directory u"
      by blast
    have u2: "tasks ?s' x = Some u'" using u(2) by simp
    note K = task_kept [OF wf own [OF that] k u(1) u2 u(3) chs [OF that u(1)]]
    show ?thesis using K(1-3) K(4) by simp
  qed
  have new: "task_owned ?s' t" "task_blocks ?s' t = task_blocks ?sA t" "task_dir ?s' t = d"
    using A(3,5) tst by (simp_all add: task_owned_def task_blocks_def task_dir_def fresh_task_def chunk_owned_def chunk_blocks_def)
  have seg: "task_segment ts 0 (qs @ [t]) 0"
  proof (cases "qs = []")
    case True
    then show ?thesis using n(2) by (simp add: ts_def fresh_task_def)
  next
    case False
    with fn obtain lt where "tasks s (final qs 0) = Some lt" by blast
    with False show ?thesis using segment_snoc [OF q(2,1) False tq n(2), of lt "fresh_task c process"]
      by (simp add: ts_def fresh_task_def)
  qed
  have disj: "q \<notin> set (task_blocks s x)" if "q \<in> set (task_blocks ?s' t)" "x \<in> set qs" for q x
    using A(6) [of q] new(2) that(1) task_blocks_live [OF own [OF that(2)], of q] by metis
  have "map (task_blocks ?s') qs = map (task_blocks s) qs" using old by simp
  moreover have "set (concat (map (task_blocks s) qs)) \<inter> set (task_blocks ?s' t) = {}" using disj by auto
  moreover have "distinct (task_blocks ?s' t)" using A(4) new(2) by metis
  ultimately have "distinct (concat (map (task_blocks ?s') (qs @ [t])))"
    using dist by (simp only: map_append concat_append distinct_append list.map concat.simps append_Nil2)
  moreover have "ts 0 = None"
    using z n(2) final_in [of qs 0] segment_nz [OF q(2)] by (cases "qs = []") (auto simp: ts_def)
  ultimately have "queue_ok ?s' (qs @ [t])"
    using n(3) q(1) tq seg old new(1) by (simp add: queue_ok_def task_queue_def del: map_append first_simps)
  with run k r tst new(3) old show ?thesis
    by (intro exI [of _ t] exI [of _ c] exI [of _ d] exI [of _ h] exI [of _ m] exI [of _ ts] exI [of _ ?s']) simp
qed

section \<open>Taking turns\<close>

text \<open>
  The contract of a round-robin queue: one turn passes control to the cyclic successor of the
  current task and makes it the active one. \<open>queued s qs\<close> says that \<open>s\<close> holds the queue \<open>qs\<close>.
\<close>

fun turns :: "('s \<Rightarrow> 's option) \<Rightarrow> nat \<Rightarrow> 's \<Rightarrow> 's option" where
  "turns turn 0 s = Some s"
| "turns turn (Suc k) s = Option.bind (turns turn k s) turn"

locale round_robin =
  fixes queued :: "'s \<Rightarrow> 'q list \<Rightarrow> bool"
    and current :: "'s \<Rightarrow> 'q"
    and active :: "'s \<Rightarrow> 'q \<Rightarrow> bool"
    and turn :: "'s \<Rightarrow> 's option"
  assumes turn_next: "queued s qs \<Longrightarrow> i < length qs \<Longrightarrow> current s = qs ! i \<Longrightarrow>
    \<exists>s'. turn s = Some s' \<and> queued s' qs \<and> current s' = qs ! (Suc i mod length qs) \<and> active s' (current s')"
begin

lemma turns_index:
  assumes "queued s qs" and "i < length qs" and "current s = qs ! i"
  shows "\<exists>s'. turns turn k s = Some s' \<and> queued s' qs \<and> current s' = qs ! ((i + k) mod length qs)
    \<and> (0 < k \<longrightarrow> active s' (current s'))"
proof (induction k)
  case 0
  with assms show ?case by simp
next
  case (Suc k)
  then obtain s1 where s1: "turns turn k s = Some s1" "queued s1 qs" "current s1 = qs ! ((i + k) mod length qs)"
    by blast
  have "(i + k) mod length qs < length qs" using assms(2) by (intro mod_less_divisor) linarith
  from turn_next [OF s1(2) this s1(3)] s1(1) show ?case by (auto simp: mod_Suc_eq)
qed

text \<open>Nobody starves: every task of the queue has its turn before the current one has its second.\<close>

lemma turns_reach:
  assumes "queued s qs" and "current s \<in> set qs" and "x \<in> set qs"
  shows "\<exists>k s'. 0 < k \<and> k \<le> length qs \<and> turns turn k s = Some s' \<and> queued s' qs \<and> current s' = x \<and> active s' x"
proof -
  obtain i where i: "i < length qs" "current s = qs ! i" using assms(2) by (metis in_set_conv_nth)
  obtain j where j: "j < length qs" "x = qs ! j" using assms(3) by (metis in_set_conv_nth)
  define k where "k = (if i < j then j - i else length qs + j - i)"
  have k: "0 < k" "k \<le> length qs" "(i + k) mod length qs = j" using i(1) j(1) by (auto simp: k_def)
  with turns_index [OF assms(1) i, of k] j(2) show ?thesis by auto
qed

end

text \<open>A turn of the kernel: the next task is looked up and switched to.\<close>

definition task_turn :: "'a task_state_scheme \<Rightarrow> 'a task_state_scheme option" where
  "task_turn s = do {
     t \<leftarrow> task_get_next s;
     (r, s') \<leftarrow> task_switch t s;
     Some s'
   }"

lemma running_simps [simp]:
  fixes s :: "'a task_state_scheme"
  shows "chunk_blocks (s\<lparr>current_task := t, cr3 := d, current_directory := d\<rparr>) c e = chunk_blocks s c e"
    and "task_blocks (s\<lparr>current_task := t, cr3 := d, current_directory := d\<rparr>) = task_blocks s"
    and "task_dir (s\<lparr>current_task := t, cr3 := d, current_directory := d\<rparr>) x = task_dir s x"
  by (simp_all add: chunk_blocks_def task_blocks_def task_dir_def fun_eq_iff cong: option.case_cong)

lemma queue_ok_running [simp]:
  fixes s :: "'a task_state_scheme"
  shows "queue_ok (s\<lparr>current_task := t, cr3 := d, current_directory := d\<rparr>) qs = queue_ok s qs"
  by (simp add: queue_ok_def task_queue_def task_owned_def chunk_owned_def)

lemma task_switch_spec:
  assumes "queue_ok s qs" and "x \<in> set qs"
  shows "task_switch x s = Some (0, s\<lparr>current_task := x, cr3 := task_dir s x, current_directory := task_dir s x\<rparr>)"
proof -
  have "task_owned s x" using assms by (simp add: queue_ok_def)
  then obtain t where "tasks s x = Some t" "paging_chunk_get_directory (page_directory t) s = Some (task_dir s x)"
    by (rule task_owned_blocks)
  then show ?thesis by (simp add: task_switch_def paging_switch_def paging_load_directory_def)
qed

interpretation rr: round_robin queue_ok current_task "\<lambda>s x. cr3 s = task_dir s x" task_turn
proof unfold_locales
  fix s :: "'a task_state_scheme" and qs i
  assume a: "queue_ok s qs" "i < length qs" "current_task s = qs ! i"
  let ?x = "qs ! (Suc i mod length qs)"
  have "task_get_next s = Some ?x" using a(1) task_get_next_cyclic [OF _ a(2,3)] by (simp add: queue_ok_def)
  moreover have "Suc i mod length qs < length qs" using a(2) by (intro mod_less_divisor) linarith
  then have "?x \<in> set qs" by (rule nth_mem)
  ultimately show "\<exists>s'. task_turn s = Some s' \<and> queue_ok s' qs \<and> current_task s' = ?x \<and> cr3 s' = task_dir s' (current_task s')"
    using task_switch_spec [OF a(1), of ?x] a(1) by (simp add: task_turn_def)
qed

section \<open>Releasing a task\<close>

text \<open>A task whose blocks stay allocated is not affected when another one is released.\<close>

lemma task_same:
  fixes s s' :: "'a task_state_scheme"
  assumes "task_owned s x" and "kmem s' = kmem s" and "tasks s x = Some t" and "tasks s' x = Some t'"
    and "page_directory t' = page_directory t" and "chunks s' (page_directory t) = chunks s (page_directory t)"
    and "\<And>q. q \<in> set (task_blocks s x) \<Longrightarrow> live_block (kernel_heap s') q"
  shows "task_owned s' x" and "task_blocks s' x = task_blocks s x"
proof -
  obtain u where u: "tasks s x = Some u" "chunk_owned s (page_directory u) (task_dir s x)"
    "task_blocks s x = x # chunk_blocks s (page_directory u) (task_dir s x)"
    using assms(1) by (rule task_owned_blocks)
  have [simp]: "u = t" using u(1) assms(3) by simp
  have b: "chunk_blocks s' c d = chunk_blocks s c d" for c d using assms(2) by (simp add: chunk_blocks_def)
  obtain ch where ch: "chunks s (page_directory t) = Some ch" "directory_entry ch = task_dir s x"
    using u(2) by (auto simp: chunk_owned_def)
  show "task_blocks s' x = task_blocks s x" using assms(4-6) ch u(3) b by (simp add: task_blocks_def)
  show "task_owned s' x"
    using assms(2,4-7) u(2,3) b by (auto simp: task_owned_def chunk_owned_def)
qed

text \<open>
  The part of \<open>task_free\<close> around the list: the chunk and the task object go back to the heap.
\<close>

lemma task_free_steps:
  fixes s :: "'a task_state_scheme"
  assumes "heap_wf (kernel_heap s)" and "task_owned s x" and "distinct (task_blocks s x)"
  shows "\<exists>t h1. tasks s x = Some t
    \<and> task_free x s = Option.bind (task_list_remove x (s\<lparr>kernel_heap := h1, chunks := (chunks s)(page_directory t := None)\<rparr>))
        (\<lambda>s2. Option.bind (kfree x s2) (\<lambda>s3. Some (s3\<lparr>tasks := (tasks s3)(x := None)\<rparr>)))
    \<and> (\<forall>s2 :: 'a task_state_scheme. kernel_heap s2 = h1 \<longrightarrow> (\<exists>h. kfree x s2 = Some (s2\<lparr>kernel_heap := h\<rparr>) \<and> heap_wf h
        \<and> (\<forall>q. live_block h q \<longleftrightarrow> live_block (kernel_heap s) q \<and> q \<notin> set (task_blocks s x))))"
proof -
  obtain t where t: "tasks s x = Some t" "chunk_owned s (page_directory t) (task_dir s x)"
    "task_blocks s x = x # chunk_blocks s (page_directory t) (task_dir s x)"
    using assms(2) by (rule task_owned_blocks)
  obtain h1 where h1: "paging_chunk_free (page_directory t) s = Some (s\<lparr>kernel_heap := h1, chunks := (chunks s)(page_directory t := None)\<rparr>)"
    "heap_wf h1" "\<And>q. live_block h1 q \<longleftrightarrow> live_block (kernel_heap s) q \<and> q \<notin> set (chunk_blocks s (page_directory t) (task_dir s x))"
    using paging_chunk_free_spec [OF assms(1) t(2)] by blast
  have "live_block h1 x" using assms(2,3) t(3) h1(3) by (simp add: task_owned_def)
  then have "\<exists>h. kfree x s2 = Some (s2\<lparr>kernel_heap := h\<rparr>) \<and> heap_wf h
      \<and> (\<forall>q. live_block h q \<longleftrightarrow> live_block (kernel_heap s) q \<and> q \<notin> set (task_blocks s x))"
    if "kernel_heap s2 = h1" for s2 :: "'a task_state_scheme"
    using kfree_live [of s2 x] h1(2,3) that t(3) by auto
  moreover have "task_free x s = Option.bind (task_list_remove x (s\<lparr>kernel_heap := h1, chunks := (chunks s)(page_directory t := None)\<rparr>))
        (\<lambda>s2. Option.bind (kfree x s2) (\<lambda>s3. Some (s3\<lparr>tasks := (tasks s3)(x := None)\<rparr>)))"
    using t(1) h1(1) by (simp add: task_free_def)
  ultimately show ?thesis using t(1) by blast
qed

text \<open>The list after the removal of a task that has neighbours on both sides.\<close>

lemma task_list_remove_middle:
  fixes s :: "'a task_state_scheme"
  assumes "task_queue s (as @ x # bs)" and "as \<noteq> []" and "bs \<noteq> []"
  shows "\<exists>st. task_list_remove x s = Some (s\<lparr>tasks := st, current_task := (if current_task s = x then first bs 0 else current_task s)\<rparr>)
    \<and> task_segment st 0 (as @ bs) 0 \<and> dom st = dom (tasks s)
    \<and> (\<forall>y u. st y = Some u \<longrightarrow> (\<exists>v. tasks s y = Some v \<and> page_directory u = page_directory v))"
proof -
  have q: "distinct (as @ x # bs)" "task_segment (tasks s) 0 (as @ x # bs) 0"
    "task_head s = first (as @ x # bs) 0" "task_tail s = final (as @ x # bs) 0"
    using assms(1) by (simp_all add: task_queue_def del: first_simps final_simps)
  obtain st t where u: "unlink x (tasks s) = Some st" "task_segment st 0 (as @ bs) 0" "st x = tasks s x" "tasks s x = Some t"
    "task_next t = first bs 0" "dom st = dom (tasks s)"
    "\<forall>y u. st y = Some u \<longrightarrow> (\<exists>v. tasks s y = Some v \<and> page_directory u = page_directory v)"
    using unlink_middle [OF q(2,1) assms(2,3)] by blast
  have "0 \<notin> set bs" using segment_nz [OF q(2)] by simp
  then have "first bs 0 \<noteq> 0" using first_in [OF assms(3), of 0] by metis
  moreover have "x \<noteq> task_head s" using q(1,3) first_in [OF assms(2)] assms(2) by (cases as) auto
  moreover have "x \<noteq> task_tail s" using q(1,4) final_in [OF assms(3), of x] by auto
  ultimately have "task_list_remove x s = Some (s\<lparr>tasks := st, current_task := (if current_task s = x then first bs 0 else current_task s)\<rparr>)"
    using u(1,3-5) by (cases "current_task s = x") (auto simp: task_list_remove_def task_get_next_def Let_def)
  with u(2,6,7) show ?thesis by blast
qed

lemma task_free_middle:
  fixes s :: "'a task_state_scheme"
  assumes "queue_ok s (as @ x # bs)" and "as \<noteq> []" and "bs \<noteq> []"
  shows "\<exists>s'. task_free x s = Some s' \<and> queue_ok s' (as @ bs)
    \<and> (\<forall>q. live_block (kernel_heap s') q \<longleftrightarrow> live_block (kernel_heap s) q \<and> q \<notin> set (task_blocks s x))
    \<and> current_task s' = (if current_task s = x then first bs 0 else current_task s)"
proof -
  let ?qs = "as @ x # bs"
  have wf: "heap_wf (kernel_heap s)" and tq: "task_queue s ?qs" and z: "tasks s 0 = None"
    and own: "\<And>y. y \<in> set ?qs \<Longrightarrow> task_owned s y" and dist: "distinct (concat (map (task_blocks s) ?qs))"
    using assms(1) by (simp_all add: queue_ok_def del: set_append map_append)
  have dx: "distinct (task_blocks s x)" using dist by simp
  obtain t h1 where t: "tasks s x = Some t"
    and run: "task_free x s = Option.bind (task_list_remove x (s\<lparr>kernel_heap := h1, chunks := (chunks s)(page_directory t := None)\<rparr>))
        (\<lambda>s2. Option.bind (kfree x s2) (\<lambda>s3. Some (s3\<lparr>tasks := (tasks s3)(x := None)\<rparr>)))"
    and free: "\<And>s2 :: 'a task_state_scheme. kernel_heap s2 = h1 \<Longrightarrow> \<exists>h. kfree x s2 = Some (s2\<lparr>kernel_heap := h\<rparr>) \<and> heap_wf h
        \<and> (\<forall>q. live_block h q \<longleftrightarrow> live_block (kernel_heap s) q \<and> q \<notin> set (task_blocks s x))"
    using task_free_steps [OF wf own dx] by auto
  let ?s1 = "s\<lparr>kernel_heap := h1, chunks := (chunks s)(page_directory t := None)\<rparr>"
  let ?c = "if current_task s = x then first bs 0 else current_task s"
  have "task_queue ?s1 ?qs" using tq by (simp add: task_queue_def)
  from task_list_remove_middle [OF this assms(2,3)]
  obtain st where st: "task_list_remove x ?s1 = Some (?s1\<lparr>tasks := st, current_task := ?c\<rparr>)"
    "task_segment st 0 (as @ bs) 0" "dom st = dom (tasks s)"
    "\<forall>y u. st y = Some u \<longrightarrow> (\<exists>v. tasks s y = Some v \<and> page_directory u = page_directory v)"
    by (auto cong: if_cong)
  obtain h where h: "kfree x (?s1\<lparr>tasks := st, current_task := ?c\<rparr>) = Some (?s1\<lparr>tasks := st, current_task := ?c, kernel_heap := h\<rparr>)"
    "heap_wf h" "\<And>q. live_block h q \<longleftrightarrow> live_block (kernel_heap s) q \<and> q \<notin> set (task_blocks s x)"
    using free [of "?s1\<lparr>tasks := st, current_task := ?c\<rparr>"] by auto
  let ?s' = "s\<lparr>kernel_heap := h, chunks := (chunks s)(page_directory t := None), tasks := st(x := None), current_task := ?c\<rparr>"
  have r: "task_free x s = Some ?s'" using run st(1) h(1) by simp
  have xq: "x \<notin> set as" "x \<notin> set bs" "distinct (as @ bs)" using tq by (simp_all add: task_queue_def)
  have pd: "page_directory t \<in> set (task_blocks s x)"
    using own [of x] t by (auto elim: task_owned_blocks simp: chunk_blocks_def)
  have old: "task_owned ?s' y \<and> task_blocks ?s' y = task_blocks s y" if y: "y \<in> set (as @ bs)" for y
  proof -
    have oy: "task_owned s y" using own [of y] y by auto
    obtain v where v: "tasks s y = Some v" "chunk_owned s (page_directory v) (task_dir s y)"
      "task_blocks s y = y # chunk_blocks s (page_directory v) (task_dir s y)"
      using oy by (rule task_owned_blocks)
    have "y \<in> dom st" using v(1) st(3) by blast
    then obtain u where u: "st y = Some u" "page_directory u = page_directory v" using st(4) v(1) by fastforce
    have disj: "set (task_blocks s x) \<inter> set (task_blocks s y) = {}" using dist y by auto
    have "page_directory v \<in> set (task_blocks s y)" using v(3) by (simp add: chunk_blocks_def)
    with pd disj have "page_directory v \<noteq> page_directory t" by auto
    then have ch: "chunks ?s' (page_directory v) = chunks s (page_directory v)" by simp
    have ty: "tasks ?s' y = Some u" using u(1) xq y by auto
    have lv: "live_block (kernel_heap ?s') q" if "q \<in> set (task_blocks s y)" for q
      using h(3) task_blocks_live [OF oy that] disj that by auto
    have km: "kmem ?s' = kmem s" by simp
    show ?thesis using task_same [OF oy km v(1) ty u(2) ch lv] by blast
  qed
  have m: "map (task_blocks ?s') (as @ bs) = map (task_blocks s) (as @ bs)" using old by (intro map_cong) simp_all
  have "distinct (concat (map (task_blocks s) (as @ bs)))" using dist by auto
  then have "distinct (concat (map (task_blocks ?s') (as @ bs)))" by (simp only: m)
  moreover have "task_segment (st(x := None)) 0 (as @ bs) 0"
    using st(2) xq by (subst segment_cong [where st = st]) auto
  moreover have "first (as @ bs) 0 = first ?qs 0" "final (as @ bs) 0 = final ?qs 0"
    using assms(2,3) by (cases as; simp add: first_def final_def)+
  moreover have "(st(x := None)) 0 = None" using z st(3) by auto
  ultimately have "queue_ok ?s' (as @ bs)"
    using h(2) tq old xq(3) by (simp add: queue_ok_def task_queue_def del: map_append first_simps final_simps set_append distinct_append)
  with r h(3) show ?thesis by (intro exI [of _ ?s']) simp
qed

lemma task_list_remove_first:
  fixes s :: "'a task_state_scheme"
  assumes "task_queue s (x # bs)"
  shows "\<exists>tt. task_list_remove x s = Some (s\<lparr>task_head := first bs 0, task_tail := tt,
      current_task := (if current_task s = x then first bs 0 else current_task s)\<rparr>) \<and> (bs = [] \<longrightarrow> tt = 0)"
proof -
  have q: "x \<noteq> 0" "x \<notin> set bs" "task_head s = x" "task_tail s = final bs x" "task_segment (tasks s) x bs 0"
    using assms by (auto simp: task_queue_def split: option.splits)
  obtain t where t: "tasks s x = Some t" "task_prev t = 0" "task_next t = first bs 0"
    using assms by (auto simp: task_queue_def split: option.splits)
  have "0 \<notin> set bs" using segment_nz [OF q(5)] .
  then have z: "first bs 0 = 0 \<longleftrightarrow> bs = []" by (cases bs) auto
  have e: "s = s\<lparr>task_tail := task_tail s\<rparr>" by simp
  have id: "s\<lparr>current_task := current_task s\<rparr> = s" by simp
  have c: "bs \<noteq> [] \<Longrightarrow> task_tail s \<noteq> x" using q(2,4) final_in [of bs x] by auto
  show ?thesis
  proof (cases "bs = []")
    case True
    with q(3,4) t show ?thesis
      by (cases "current_task s = x")
        (auto simp: task_list_remove_def unlink_first task_get_next_def Let_def intro!: exI [of _ 0])
  next
    case False
    with q(3,4) t z c show ?thesis
      by (cases "current_task s = x")
        (auto simp: task_list_remove_def unlink_first task_get_next_def Let_def intro!: exI [of _ "task_tail s"])
  qed
qed

lemma task_free_at_ends:
  fixes s :: "'a task_state_scheme"
  assumes "queue_ok s (as @ x # bs)" and "as = [] \<or> bs = []"
  shows "(as \<noteq> [] \<longrightarrow> task_free x s = None)
    \<and> (as = [] \<longrightarrow> (\<exists>s'. task_free x s = Some s' \<and> task_head s' = first bs 0 \<and> tasks s' x = None
        \<and> (if bs = [] then queue_ok s' [] \<and> (\<forall>q. live_block (kernel_heap s') q \<longleftrightarrow> live_block (kernel_heap s) q \<and> q \<notin> set (task_blocks s x))
           else \<exists>u. tasks s' (first bs 0) = Some u \<and> task_prev u = x)))"
proof -
  let ?qs = "as @ x # bs"
  have wf: "heap_wf (kernel_heap s)" and tq: "task_queue s ?qs" and z: "tasks s 0 = None"
    and own: "task_owned s x" and dx: "distinct (task_blocks s x)"
    using assms(1) by (simp_all add: queue_ok_def del: first_simps final_simps)
  obtain t h1 where t: "tasks s x = Some t"
    and run: "task_free x s = Option.bind (task_list_remove x (s\<lparr>kernel_heap := h1, chunks := (chunks s)(page_directory t := None)\<rparr>))
        (\<lambda>s2. Option.bind (kfree x s2) (\<lambda>s3. Some (s3\<lparr>tasks := (tasks s3)(x := None)\<rparr>)))"
    and free: "\<And>s2 :: 'a task_state_scheme. kernel_heap s2 = h1 \<Longrightarrow> \<exists>h. kfree x s2 = Some (s2\<lparr>kernel_heap := h\<rparr>) \<and> heap_wf h
        \<and> (\<forall>q. live_block h q \<longleftrightarrow> live_block (kernel_heap s) q \<and> q \<notin> set (task_blocks s x))"
    using task_free_steps [OF wf own dx] by auto
  let ?s1 = "s\<lparr>kernel_heap := h1, chunks := (chunks s)(page_directory t := None)\<rparr>"
  have tq1: "task_queue ?s1 ?qs" using tq by (simp add: task_queue_def)
  show ?thesis
  proof (cases "as = []")
    case True
    let ?c = "if current_task ?s1 = x then first bs 0 else current_task ?s1"
    let ?S = "\<lambda>tt. ?s1\<lparr>task_head := first bs 0, task_tail := tt, current_task := ?c\<rparr>"
    have "task_queue ?s1 (x # bs)" using tq1 True by simp
    from task_list_remove_first [OF this]
    obtain tt where r: "task_list_remove x ?s1 = Some (?S tt)" "bs = [] \<longrightarrow> tt = 0" by blast
    let ?s2 = "?S tt"
    obtain h where h: "kfree x ?s2 = Some (?s2\<lparr>kernel_heap := h\<rparr>)" "heap_wf h"
      "\<And>q. live_block h q \<longleftrightarrow> live_block (kernel_heap s) q \<and> q \<notin> set (task_blocks s x)"
      using free [of ?s2] by auto
    have f: "task_free x s = Some (?s2\<lparr>kernel_heap := h, tasks := (tasks s)(x := None)\<rparr>)" using run r(1) h(1) by simp
    have "\<exists>u. ((tasks s)(x := None)) (first bs 0) = Some u \<and> task_prev u = x" if "bs \<noteq> []"
      using tq True that by (cases bs) (auto simp: task_queue_def split: option.splits)
    moreover have "queue_ok (?s2\<lparr>kernel_heap := h, tasks := (tasks s)(x := None)\<rparr>) []" if "bs = []"
      using h(2) r(2) z that by (simp add: queue_ok_def task_queue_def)
    ultimately show ?thesis
      using f h(3) True by (simp cong: if_cong)
  next
    case False
    with assms(2) have bs: "bs = []" by simp
    have "task_segment (tasks s) 0 (as @ [x]) 0" "x \<notin> set as" using tq bs by (simp_all add: task_queue_def)
    from unlink_last [OF this(1) False this(2) z] have "task_list_remove x ?s1 = None"
      by (simp add: task_list_remove_def)
    with run False show ?thesis by simp
  qed
qed

section \<open>The properties of the task list\<close>

definition blank_task :: "nat \<Rightarrow> task_state" where
  "blank_task n = (fs_state.extend (blank_fs (\<lambda>_. 0) [])
     \<lparr>tasks = Map.empty, current_task = 0, task_tail = 0, task_head = 0\<rparr>)\<lparr>kernel_heap := fresh_heap n\<rparr>"

lemma blank_task_simps [simp]:
  "kernel_heap (blank_task n) = fresh_heap n" "tasks (blank_task n) = Map.empty"
  "task_head (blank_task n) = 0" "task_tail (blank_task n) = 0"
  by (simp_all add: blank_task_def fs_state.defs)

lemma blank_task_ok: "n < 524288 \<Longrightarrow> queue_ok (blank_task n) []"
  by (simp add: queue_ok_def task_queue_def fresh_heap_wf)

lemma queue_of:
  "1027 * k < 524288 \<Longrightarrow> j \<le> k \<Longrightarrow>
    \<exists>(s :: task_state) qs. length qs = j \<and> queue_ok s qs \<and> free_count (blocks (kernel_heap s)) = 1027 * (k - j)"
proof (induction j)
  case 0
  then show ?case
    using blank_task_ok [of "1027 * k"]
    by (intro exI [of _ "blank_task (1027 * k)"] exI [of _ "[]"]) (simp add: fresh_heap_blocks free_count_replicate)
next
  case (Suc j)
  then obtain s :: task_state and qs where s: "length qs = j" "queue_ok s qs" "free_count (blocks (kernel_heap s)) = 1027 * (k - j)"
    by auto
  then have r: "1027 \<le> free_count (blocks (kernel_heap s))" using Suc.prems(2) by simp
  obtain t c d h m ts s' where n: "s' = s\<lparr>kernel_heap := h, kmem := m,
      chunks := (chunks s)(c \<mapsto> \<lparr>directory_entry = d, dir_count = 1024, entries_count = 1024\<rparr>),
      tasks := ts, task_head := first (qs @ [t]) 0, task_tail := t\<rparr>"
    "queue_ok s' (qs @ [t])" "free_count (blocks h) + 1027 = free_count (blocks (kernel_heap s))"
    using task_new_spec [OF s(2) r, of 0] by blast
  then have s': "queue_ok s' (qs @ [t])" "free_count (blocks (kernel_heap s')) + 1027 = free_count (blocks (kernel_heap s))"
    by simp_all
  then have "free_count (blocks (kernel_heap s')) = 1027 * (k - Suc j)" using s(3) by (simp add: diff_mult_distrib2)
  with s'(1) s(1) show ?case by (intro exI [of _ s'] exI [of _ "qs @ [t]"]) simp
qed



text \<open>
  C18. No task starves: in a queue of tasks, from whichever is current, every task becomes the
  current one, with its own page directory in \<open>cr3\<close>, within as many turns
  (\<open>task_get_next\<close>, then \<open>task_switch\<close>) as there are tasks.
\<close>

theorem task_round_robin:
  fixes s :: "'a task_state_scheme"
  assumes "queue_ok s qs" and "current_task s \<in> set qs" and "x \<in> set qs"
  shows "\<exists>k s'. 0 < k \<and> k \<le> length qs \<and> turns task_turn k s = Some s' \<and> queue_ok s' qs
    \<and> current_task s' = x \<and> cr3 s' = task_dir s' x"
  using assms by (rule rr.turns_reach)

theorem task_round_robin_witness:
  "\<exists>(s :: task_state) qs k s'. length qs = 3 \<and> current_task s = qs ! 0 \<and> turns task_turn k s = Some s' \<and> current_task s' = qs ! 2"
proof -
  obtain s :: task_state and qs where s: "length qs = 3" "queue_ok s qs" using queue_of [of 3 3] by auto
  let ?s = "s\<lparr>current_task := qs ! 0, cr3 := 0, current_directory := 0\<rparr>"
  have "queue_ok ?s qs" "current_task ?s \<in> set qs" "qs ! 2 \<in> set qs" using s by simp_all
  from task_round_robin [OF this] s(1) show ?thesis
    by (rule_tac exI [of _ ?s], rule_tac exI [of _ qs]) auto
qed

text \<open>
  C28. Releasing a task with neighbours on both sides takes exactly it out of the queue, gives
  back exactly its blocks, and hands the current task, if it was the one, to its successor.
\<close>

theorem task_free_removes:
  fixes s :: "'a task_state_scheme"
  assumes "queue_ok s (as @ x # bs)" and "as \<noteq> []" and "bs \<noteq> []"
  shows "\<exists>s'. task_free x s = Some s' \<and> queue_ok s' (as @ bs)
    \<and> (\<forall>q. live_block (kernel_heap s') q \<longleftrightarrow> live_block (kernel_heap s) q \<and> q \<notin> set (task_blocks s x))
    \<and> current_task s' = (if current_task s = x then hd bs else current_task s)"
proof -
  have "first bs 0 = hd bs" using assms(3) by (cases bs) simp_all
  with task_free_middle [OF assms] show ?thesis by (simp only:)
qed

theorem task_free_removes_witness:
  "\<exists>(s :: task_state) s' a x b. queue_ok s [a, x, b] \<and> task_free x s = Some s' \<and> queue_ok s' [a, b]"
proof -
  obtain s :: task_state and qs where s: "length qs = 3" "queue_ok s qs" using queue_of [of 3 3] by auto
  then obtain a x b where "qs = [a, x, b]" by (auto simp: numeral_3_eq_3 length_Suc_conv)
  with s(2) have q: "queue_ok s ([a] @ x # [b])" by simp
  obtain s' where "task_free x s = Some s'" "queue_ok s' [a, b]" using task_free_removes [OF q] by auto
  with q show ?thesis by (intro exI [of _ s] exI [of _ s'] exI [of _ a] exI [of _ x] exI [of _ b]) simp
qed

text \<open>
  C29. At the ends the removal goes wrong. The last of several tasks cannot be released: its
  \<open>next\<close> is null and is written through. Releasing the first one leaves its successor's
  \<open>prev\<close> pointing to the freed task. Only the single task of a queue is removed cleanly.
\<close>

theorem task_free_ends:
  fixes s :: "'a task_state_scheme"
  assumes "queue_ok s (as @ x # bs)" and "as = [] \<or> bs = []"
  shows "(as \<noteq> [] \<longrightarrow> task_free x s = None)
    \<and> (as = [] \<longrightarrow> (\<exists>s'. task_free x s = Some s' \<and> task_head s' = first bs 0 \<and> tasks s' x = None
        \<and> (if bs = [] then queue_ok s' [] \<and> (\<forall>q. live_block (kernel_heap s') q \<longleftrightarrow> live_block (kernel_heap s) q \<and> q \<notin> set (task_blocks s x))
           else \<exists>u. tasks s' (first bs 0) = Some u \<and> task_prev u = x)))"
  using assms by (rule task_free_at_ends)

theorem task_free_ends_witness:
  "\<exists>(s :: task_state) s' a b u. queue_ok s [a, b] \<and> task_free b s = None \<and> task_free a s = Some s' \<and> tasks s' a = None
    \<and> tasks s' b = Some u \<and> task_prev u = a"
proof -
  obtain s :: task_state and qs where s: "length qs = 2" "queue_ok s qs" using queue_of [of 3 2] by auto
  then obtain a b where "qs = [a, b]" by (auto simp: numeral_2_eq_2 length_Suc_conv)
  with s(2) have q: "queue_ok s ([a] @ b # [])" "queue_ok s ([] @ a # [b])" by simp_all
  have "task_free b s = None" using task_free_ends [OF q(1)] by simp
  moreover obtain s' u where "task_free a s = Some s'" "tasks s' a = None" "tasks s' b = Some u" "task_prev u = a"
    using task_free_ends [OF q(2)] by auto
  ultimately show ?thesis using q
    by (intro exI [of _ s] exI [of _ s'] exI [of _ a] exI [of _ b] exI [of _ u]) simp
qed

text \<open>
  C39. What an interrupt saves is what the task resumes with: after \<open>task_save_state\<close> of the
  current task, \<open>task_return\<close> restores every register of the interrupted program. The flags
  alone are not restored: they are the kernel's own, with interrupts enabled, whatever was
  saved.
\<close>

theorem task_save_return:
  assumes "tasks s (current_task s) = Some t" and "current_task s \<noteq> 0"
  shows "\<exists>s' t'. task_current_save_state f s = Some (Returns () s') \<and> tasks s' (current_task s') = Some t'
    \<and> page_directory t' = page_directory t \<and> task_next t' = task_next t \<and> task_prev t' = task_prev t
    \<and> (let c = task_return eflags (task_registers t') in
        r_edi c = f_edi f \<and> r_esi c = f_esi f \<and> r_ebp c = f_ebp f \<and> r_ebx c = f_ebx f \<and> r_edx c = f_edx f
        \<and> r_ecx c = f_ecx f \<and> r_eax c = f_eax f \<and> r_ip c = f_ip f \<and> r_cs c = f_cs f \<and> r_esp c = f_esp f \<and> r_ss c = f_ss f
        \<and> r_flags c = eflags OR 0x200)"
  using assms by (simp add: task_current_save_state_def task_save_state_def saved_registers_def task_return_def Let_def)

theorem task_save_return_witness:
  "\<exists>s'. task_current_save_state \<lparr>f_edi = 1, f_esi = 2, f_ebp = 3, f_reserved = 0, f_ebx = 4, f_edx = 5, f_ecx = 6, f_eax = 7,
      f_ip = 0x400010, f_cs = 0x1B, f_flags = 0x246, f_esp = 0x3FEFF0, f_ss = 0x23\<rparr>
      ((blank_task 4)\<lparr>current_task := 0x5000, tasks := [0x5000 \<mapsto> fresh_task 0x6000 0x7000]\<rparr>) = Some (Returns () s')"
  using task_save_return [of "(blank_task 4)\<lparr>current_task := 0x5000, tasks := [0x5000 \<mapsto> fresh_task 0x6000 0x7000]\<rparr>"] by fastforce

end
