(* ===== verification/Process.thy ===== *)
theory Process
  imports Task_List
begin

text \<open>
  Processes (\<^verbatim>\<open>src/task/process.c\<close>, \<^verbatim>\<open>process.h\<close>): loading a binary through the file layer,
  mapping its image and stack into the task's page directory, the table of processes, and
  the check of user pointers. The name stored in \<^verbatim>\<open>struct process\<close> is bytes of memory (its
  field is at offset 2); \<open>allocations\<close> is never used and has no field in the record.
\<close>

section \<open>State\<close>

record process =
  p_id :: u16
  p_task :: u32
  p_ptr :: u32
  p_ptr_virt :: u32
  p_stack :: u32
  p_stack_virt :: u32
  p_stack_size :: u32
  p_size :: u32

record process_state = task_state +
  processes :: "u32 list"
  procs :: "u32 \<rightharpoonup> process"

definition NUTSOS_MAX_PROCESSES :: int where [const_defs]: "NUTSOS_MAX_PROCESSES = 1024"
definition sizeof_process :: u32 where [const_defs]: "sizeof_process = 4384"
definition process_filename_offset :: u32 where [const_defs]: "process_filename_offset = 2"

definition zero_process :: process where
  "zero_process = \<lparr>p_id = 0, p_task = 0, p_ptr = 0, p_ptr_virt = 0, p_stack = 0, p_stack_virt = 0,
     p_stack_size = 0, p_size = 0\<rparr>"

definition process_init :: "u32 \<Rightarrow> 'a process_state_scheme \<Rightarrow> 'a process_state_scheme" where
  "process_init process s =
     s\<lparr>kmem := memset (kmem s) process 0 sizeof_process, procs := (procs s)(process \<mapsto> zero_process)\<rparr>"

definition process_get :: "int \<Rightarrow> 'a process_state_scheme \<Rightarrow> u32" where
  "process_get process_id s =
     (if process_id < 0 \<or> process_id \<ge> NUTSOS_MAX_PROCESSES then ERRTOPTR (- EINVARG)
      else processes s ! nat process_id)"

section \<open>Loading\<close>

text \<open>
  The exit at \<open>out\<close> closes \<open>fd->index\<close>; with a null \<open>fd\<close> that is a null dereference.
\<close>

definition load_out :: "int \<Rightarrow> u32 \<Rightarrow> 'a process_state_scheme \<Rightarrow> (int \<times> 'a process_state_scheme) option" where
  "load_out res fd s = do {
     d \<leftarrow> (if fd = 0 then None else fdescs s fd);
     (r, s1) \<leftarrow> fclose (fd_index d) s;
     Some (res, s1)
   }"

definition process_load_binary :: "u32 \<Rightarrow> u32 \<Rightarrow> 'a process_state_scheme \<Rightarrow> (int \<times> 'a process_state_scheme) option" where
  "process_load_binary filename process s = do {
     (fd, s1) \<leftarrow> fopen filename (lit_mem ''r'') 0 s;
     (if fd = 0 then load_out (- EIO) fd s1
      else do {
        d \<leftarrow> fdescs s1 fd;
        (res, st) \<leftarrow> fstat (fd_index d) s1;
        (if ISERR res then load_out res fd s1
         else do {
           stat \<leftarrow> st;
           (program_data_ptr, s2) \<leftarrow> kzalloc (stat_filesize stat) s1;
           (if program_data_ptr = 0 then load_out (- ENOMEM) fd s2
            else do {
              (n, s3) \<leftarrow> fread program_data_ptr (stat_filesize stat) 1 (fd_index d) s2;
              (if n \<noteq> 1 then load_out (- EIO) fd s3
               else do {
                 p \<leftarrow> procs s3 process;
                 load_out res fd (s3\<lparr>procs := (procs s3)(process \<mapsto> p\<lparr>p_ptr := program_data_ptr,
                   p_size := stat_filesize stat, p_ptr_virt := NUTSOS_PROGRAM_VIRTUAL_ADDRESS\<rparr>)\<rparr>)
               })
            })
         })
      })
   }"

definition process_load_data :: "u32 \<Rightarrow> u32 \<Rightarrow> 'a process_state_scheme \<Rightarrow> (int \<times> 'a process_state_scheme) option" where
  "process_load_data filename process s = process_load_binary filename process s"

text \<open>The directory of a process: \<open>process->task->page_directory->directory_entry\<close>.\<close>

definition process_directory :: "u32 \<Rightarrow> 'a process_state_scheme \<Rightarrow> u32 option" where
  "process_directory process s = do {
     p \<leftarrow> procs s process;
     t \<leftarrow> tasks s (p_task p);
     paging_chunk_get_directory (page_directory t) s
   }"

definition map_flags :: u32 where
  "map_flags = PAGING_IS_PRESENT OR PAGING_ACCESS_FROM_ALL OR PAGING_IS_WRITEABLE"

definition process_map_binary :: "u32 \<Rightarrow> 'a process_state_scheme \<Rightarrow> (int \<times> 'a process_state_scheme) option" where
  "process_map_binary process s = do {
     p \<leftarrow> procs s process;
     d \<leftarrow> process_directory process s;
     paging_map_to d NUTSOS_PROGRAM_VIRTUAL_ADDRESS (p_ptr p) (paging_align_address (p_ptr p + p_size p)) map_flags s
   }"

definition process_map_memory :: "u32 \<Rightarrow> 'a process_state_scheme \<Rightarrow> (int \<times> 'a process_state_scheme) option" where
  "process_map_memory process s = do {
     (res, s1) \<leftarrow> process_map_binary process s;
     (if ISERR res then Some (res, s1)
      else do {
        p \<leftarrow> procs s1 process;
        d \<leftarrow> process_directory process s1;
        paging_map_to d NUTSOS_PROGRAM_VIRTUAL_STACK_ADDRESS_END (p_stack p)
          (paging_align_address (p_stack p + NUTSOS_USER_PROGRAM_STACK_SIZE)) map_flags s1
      })
   }"

text \<open>The exit at \<open>out\<close> with an error: the task, if there is one, is freed.\<close>

definition slot_out :: "int \<Rightarrow> u32 \<Rightarrow> 'a process_state_scheme \<Rightarrow> (int \<times> u32 \<times> 'a process_state_scheme) option" where
  "slot_out res process s =
     (if process = 0 then Some (res, 0, s)
      else do {
        p \<leftarrow> procs s process;
        s1 \<leftarrow> (if p_task p \<noteq> 0 then task_free (p_task p) s else Some s);
        Some (res, 0, s1)
      })"

text \<open>The result code and what is stored in \<open>*out\<close> (0: nothing).\<close>

definition process_load_for_slot ::
    "u32 \<Rightarrow> int \<Rightarrow> 'a process_state_scheme \<Rightarrow> (int \<times> u32 \<times> 'a process_state_scheme) option" where
  "process_load_for_slot filename process_slot s =
     (if process_get process_slot s \<noteq> 0 then slot_out (- ETAKEN) 0 s
      else do {
        (process, s1) \<leftarrow> kzalloc sizeof_process s;
        (if process = 0 then slot_out (- ENOMEM) 0 s1
         else do {
           let s2 = process_init process s1;
           (res, s3) \<leftarrow> process_load_data filename process s2;
           (if res < 0 then slot_out res process s3
            else do {
              (program_stack_ptr, s4) \<leftarrow> kzalloc NUTSOS_USER_PROGRAM_STACK_SIZE s3;
              (if program_stack_ptr = 0 then slot_out (- ENOMEM) process s4
               else do {
                 let s5 = s4\<lparr>kmem := snd (strncpy (kmem s4) (process + process_filename_offset) filename NUTSOS_MAX_PATH)\<rparr>;
                 p \<leftarrow> procs s5 process;
                 let s6 = s5\<lparr>procs := (procs s5)(process \<mapsto> p\<lparr>p_stack := program_stack_ptr,
                   p_stack_virt := NUTSOS_PROGRAM_VIRTUAL_STACK_ADDRESS_END,
                   p_stack_size := NUTSOS_USER_PROGRAM_STACK_SIZE, p_id := word_of_int process_slot\<rparr>)\<rparr>;
                 (task, s7) \<leftarrow> task_new process s6;
                 p' \<leftarrow> procs s7 process;
                 let s8 = s7\<lparr>procs := (procs s7)(process \<mapsto> p'\<lparr>p_task := task\<rparr>)\<rparr>;
                 (res', s9) \<leftarrow> process_map_memory process s8;
                 (if ISERR res' then slot_out res' process s9
                  else Some (res', process, s9\<lparr>processes := (processes s9)[nat process_slot := process]\<rparr>))
               })
            })
         })
      })"

definition process_load :: "u32 \<Rightarrow> 'a process_state_scheme \<Rightarrow> (int \<times> u32 \<times> 'a process_state_scheme) option" where
  "process_load filename s =
     (case null_slot (processes s) 0 of
        None \<Rightarrow> Some (- ENOMEM, 0, s)
      | Some process_slot \<Rightarrow> process_load_for_slot filename (int process_slot) s)"

section \<open>User pointers\<close>

definition process_validate_pointer :: "process \<Rightarrow> u32 \<Rightarrow> bool" where
  "process_validate_pointer p ptr \<longleftrightarrow>
     (ptr \<ge> p_ptr_virt p \<and> ptr < p_ptr_virt p + p_size p)
   \<or> (ptr \<ge> p_stack_virt p \<and> ptr < p_stack_virt p + p_stack_size p)"

definition task_current_validate_pointer :: "u32 \<Rightarrow> 'a process_state_scheme \<Rightarrow> bool option" where
  "task_current_validate_pointer ptr s = do {
     t \<leftarrow> tasks s (current_task s);
     p \<leftarrow> procs s (task_process t);
     Some (process_validate_pointer p ptr)
   }"

end
