(* ===== verification/Process_Load.thy ===== *)
theory Process_Load
  imports Process
begin

text \<open>
  Loading a program: from a file of the mounted volume to a task whose address space shows the
  file's bytes at the program's address, and what the check of user pointers means there.
\<close>

section \<open>Frames\<close>

text \<open>Updates of the parts below leave the fields above the processes alone.\<close>

lemma process_more_simps [simp]:
  "process_state.more (s\<lparr>kmem := m\<rparr>) = process_state.more s" "process_state.more (s\<lparr>kernel_heap := h\<rparr>) = process_state.more s"
  "process_state.more (s\<lparr>chunks := cs\<rparr>) = process_state.more s" "process_state.more (s\<lparr>cr3 := d\<rparr>) = process_state.more s"
  "process_state.more (s\<lparr>current_directory := d\<rparr>) = process_state.more s"
  "process_state.more (s\<lparr>fat_items := its\<rparr>) = process_state.more s" "process_state.more (s\<lparr>fat_descs := fd\<rparr>) = process_state.more s"
  "process_state.more (s\<lparr>tasks := ts\<rparr>) = process_state.more s" "process_state.more (s\<lparr>current_task := t\<rparr>) = process_state.more s"
  "process_state.more (s\<lparr>task_head := t\<rparr>) = process_state.more s" "process_state.more (s\<lparr>task_tail := t\<rparr>) = process_state.more s"
  by (cases s; simp)+

lemma fs_frame_process:
  fixes s s' :: "'a process_state_scheme"
  assumes "fs_frame s s'"
  shows "tasks s' = tasks s" "current_task s' = current_task s" "task_tail s' = task_tail s" "task_head s' = task_head s"
    "processes s' = processes s" "procs s' = procs s" "process_state.more s' = process_state.more s"
proof -
  have m: "fs_state.more s' = fs_state.more s" using assms by (simp add: fs_frame_def)
  show "tasks s' = tasks s" using m by (cases s; cases s') simp
  show "current_task s' = current_task s" using m by (cases s; cases s') simp
  show "task_tail s' = task_tail s" using m by (cases s; cases s') simp
  show "task_head s' = task_head s" using m by (cases s; cases s') simp
  show "processes s' = processes s" using m by (cases s; cases s') simp
  show "procs s' = procs s" using m by (cases s; cases s') simp
  show "process_state.more s' = process_state.more s" using m by (cases s; cases s') simp
qed

text \<open>
  A region of free bytes lies inside the pool, so when the last byte of memory is not free the
  region ends below the last page.
\<close>

lemma free_region_end:
  assumes "heap_wf h" and "\<not> free_byte h 0xFFFFFFFF" and "0 < n" and "\<And>i. i < n \<Longrightarrow> free_byte h (p + of_nat i)"
  shows "unat p + n \<le> 4294963200"
proof -
  have shape: "length (blocks h) < 1048576" "0 < unat (saddr h)" "unat (saddr h) + 4096 * length (blocks h) \<le> 4294967296"
    "saddr h mod 4096 = 0"
    using assms(1) by (simp_all add: heap_wf_def heap_shape_def word_less_nat_alt)
  have f: "unat (a - saddr h) < 4096 * length (blocks h)" if "free_byte h a" for a
    using that by (auto simp: free_byte_def pool_block_def)
  have len: "4096 * length (blocks h) < 4294967296" using shape by linarith
  have "i < n \<Longrightarrow> unat (p - saddr h) + i < 4096 * length (blocks h)" for i
  proof (induction i)
    case 0
    then show ?case using f [OF assms(4) [of 0]] by simp
  next
    case (Suc i)
    then have b: "unat (p - saddr h) + Suc i < 4294967296" using len by simp
    then have "unat (of_nat (Suc i) :: u32) = Suc i" by (intro unat_of_nat_small) simp
    then have "unat ((p - saddr h) + of_nat (Suc i)) = unat (p - saddr h) + Suc i"
      using b by (subst unat_add_lem [THEN iffD1]) simp_all
    moreover have "p + of_nat (Suc i) - saddr h = (p - saddr h) + of_nat (Suc i)" by simp
    ultimately show ?case using f [OF assms(4) [OF Suc.prems]] by metis
  qed
  from this [of "n - 1"] assms(3) have e: "unat (p - saddr h) + n \<le> 4096 * length (blocks h)" by simp
  have "unat (saddr h + (p - saddr h)) = unat (saddr h) + unat (p - saddr h)"
    using e shape(3) assms(3) by (subst unat_add_lem [THEN iffD1]) simp_all
  then have top: "unat p + n \<le> 4294967296" using e shape(3) by simp
  let ?a = "p + of_nat (n - 1)"
  have "unat (of_nat (n - 1) :: u32) = n - 1" using top assms(3) by (intro unat_of_nat_small) linarith
  then have ua: "unat ?a = unat p + (n - 1)" using top assms(3) by (subst unat_add_lem [THEN iffD1]) simp_all
  show ?thesis
  proof (rule ccontr)
    assume "\<not> unat p + n \<le> 4294963200"
    then have "4294963200 \<le> unat ?a" using ua assms(3) by simp
    moreover have "x div 4096 = 1048575" if "4294963200 \<le> x" "x < 4294967296" for x :: nat
      using that by (intro div_nat_eqI) simp_all
    ultimately have "unat ?a div 4096 = 1048575" using unat_u32_less [of ?a] by blast
    then have "unat ?a - unat ?a mod 4096 = 4294963200" by (simp only: minus_mod_eq_div_mult)
    then have "unat (page_frame ?a) = unat (page_frame (0xFFFFFFFF :: u32))" by (simp only: unat_page_frame) simp
    then have "page_frame ?a = page_frame 0xFFFFFFFF" by (simp only: word_unat_eq_iff)
    then have "pool_block h ?a = pool_block h 0xFFFFFFFF" by (simp only: pool_block_page [OF shape(4)])
    moreover have "free_byte h ?a" using assms(3) by (intro assms(4)) simp
    ultimately show False using assms(2) by (simp add: free_byte_def)
  qed
qed

section \<open>Loading the binary\<close>

lemma fstat_at:
  assumes "file_at s n fd d fi cp i" and "n < 1024"
  shows "\<exists>st. fstat n s = Some (0, Some st) \<and> stat_filesize st = ditem_filesize (kmem s) cp"
proof -
  have "file_get_descriptor n s = fd"
    using assms by (simp add: file_at_def file_get_descriptor_def NUTSOS_MAX_FILE_DESCRIPTORS_def)
  then show ?thesis using assms(1) by (auto simp: file_at_def fstat_def fs_stat_op_def fat16_stat_def Let_def)
qed

text \<open>A loadable file: a path of the mounted volume leads to it, and it is not empty and readable.\<close>

definition loadable :: "'a fs_state_scheme \<Rightarrow> u32 \<Rightarrow> u8 list list \<Rightarrow> fat_private \<Rightarrow> nat \<Rightarrow> int \<Rightarrow> nat \<Rightarrow> bool" where
  "loadable s path names fp r c F \<longleftrightarrow> named_path s path names \<and> filesystem (the_disk s) = Some Fat16_Fs
     \<and> fat_ok s fp \<and> file_entry s fp names r c F
     \<and> chain_ok (disk_image s) fp c \<and> 0 < F \<and> F < 2147483648 \<and> readable (disk_image s) fp c 0 F"

text \<open>The blocks opening it needs at most: parts of the path, items, descriptors.\<close>

definition path_blocks :: "u8 list list \<Rightarrow> nat \<Rightarrow> nat" where
  "path_blocks names r = 2 * length names + r + 3"

text \<open>Opening, asking for the size, allocating and reading: the steps before the close.\<close>

lemma load_steps:
  fixes s :: "'a fs_state_scheme"
  assumes "heap_wf (kernel_heap s)" and "has_run (kernel_heap s) (k + blocks_for (of_nat F) + path_blocks names r)"
    and "loadable s path names fp r c F" and "null_slot (file_descriptors s) 0 = Some i" and "i < 1023"
  shows "\<exists>fd d fi cp st stat ptr s1 s2 s3. fopen path (lit_mem ''r'') 0 s = Some (fd, s1) \<and> fd \<noteq> 0
    \<and> fdescs s1 fd = Some \<lparr>fd_index = int i + 1, fd_filesystem = Some Fat16_Fs, fd_private = d, fd_mode = fst st, fd_disk = snd st\<rparr>
    \<and> fstat (int i + 1) s1 = Some (0, Some stat) \<and> stat_filesize stat = of_nat F
    \<and> kzalloc (of_nat F) s1 = Some (ptr, s2) \<and> ptr \<noteq> 0 \<and> ptr mod 4096 = 0
    \<and> fread ptr (of_nat F) 1 (int i + 1) s2 = Some (1, s3)
    \<and> file_at s3 (int i + 1) fd d fi cp 0 \<and> distinct [d, fi, cp] \<and> fs_frame s s3
    \<and> heap_wf (kernel_heap s3) \<and> has_run (kernel_heap s3) k \<and> kept s s3
    \<and> (\<forall>q \<in> {d, fi, cp}. live_block (kernel_heap s3) q \<and> \<not> live_block (kernel_heap s) q)
    \<and> (\<forall>q. live_block (kernel_heap s) q \<longrightarrow> live_block (kernel_heap s3) q)
    \<and> (\<forall>a. \<not> free_byte (kernel_heap s) a \<or> in_region ptr (of_nat F) a \<longrightarrow>
        \<not> free_byte (kernel_heap s3) a \<and> (\<forall>q \<in> {d, fi, cp}. \<not> in_chunk (kernel_heap s3) q a))
    \<and> (\<forall>a. in_region ptr (of_nat F) a \<longrightarrow> free_byte (kernel_heap s) a)
    \<and> (\<forall>l < F. kmem s3 (ptr + of_nat l) = file_bytes (disk_image s) fp c 0 F ! l)
    \<and> live_block (kernel_heap s3) ptr \<and> ptr \<notin> {d, fi, cp}"
proof -
  have L: "named_path s path names" "filesystem (the_disk s) = Some Fat16_Fs" "fat_ok s fp" "file_entry s fp names r c F"
    "chain_ok (disk_image s) fp c" "0 < F" "F < 2147483648" "readable (disk_image s) fp c 0 F"
    using assms(3) by (simp_all add: loadable_def)
  have uF: "unat (of_nat F :: u32) = F" using L(7) by (intro unat_of_nat_small) simp
  have F: "size_ok (of_nat F)" "(of_nat F :: u32) \<noteq> 0" using L(6,7) uF by (auto simp: size_ok_def simp flip: unat_eq_0)
  have r: "cstr (lit_mem ''r'') 0 (114 # [])" by (simp add: lit_mem_def bytes_of_def)
  have run0: "has_run (kernel_heap s) ((k + blocks_for (of_nat F)) + (2 * length names + r + 3))"
    using assms(2) by (simp add: path_blocks_def)
  obtain fd d fi cp s1 where o: "fopen path (lit_mem ''r'') 0 s = Some (fd, s1)" "file_at s1 (int i + 1) fd d fi cp 0"
    "uint (ditem_low_cluster (kmem s1) cp) = c" "unat (ditem_filesize (kmem s1) cp) = F" "item_held (kernel_heap s1) cp"
    "heap_wf (kernel_heap s1)" "kept s s1" "fs_frame s s1" "fat_ok s1 fp"
    "heap_used (2 * length names + r + 3) (kernel_heap s) (kernel_heap s1)"
    "\<forall>q. live_block (kernel_heap s) q \<longrightarrow> live_block (kernel_heap s1) q" "distinct [d, fi, cp]"
    and new: "\<forall>q \<in> {d, fi, cp}. live_block (kernel_heap s1) q \<and> \<not> live_block (kernel_heap s) q
        \<and> (\<forall>a. in_chunk (kernel_heap s1) q a \<longrightarrow> free_byte (kernel_heap s) a)"
    using fopen_opens [OF assms(1) run0 L(1) r L(2-4) assms(4)] by blast
  have i: "int i + 1 < 1024" using assms(5) by simp
  have ff: "ditem_filesize (kmem s1) cp = of_nat F" unfolding o(4) [symmetric] by simp
  obtain st where st: "fstat (int i + 1) s1 = Some (0, Some st)" "stat_filesize st = of_nat F"
    using fstat_at [OF o(2) i] ff by auto
  have run1: "has_run (kernel_heap s1) (k + blocks_for (of_nat F))" using o(10) run0 by (simp add: heap_used_def)
  obtain ptr h2 m2 where k: "kzalloc (of_nat F) s1 = Some (ptr, s1\<lparr>kernel_heap := h2, kmem := m2\<rparr>)" "ptr \<noteq> 0" "heap_wf h2" "has_run h2 k"
    "\<forall>a. in_region ptr (of_nat F) a \<longrightarrow> free_byte (kernel_heap s1) a \<and> \<not> free_byte h2 a \<and> m2 a = 0"
    "\<forall>a. \<not> free_byte (kernel_heap s1) a \<longrightarrow> \<not> free_byte h2 a \<and> m2 a = kmem s1 a"
    "\<not> live_block (kernel_heap s1) ptr" "\<forall>q. live_block h2 q \<longleftrightarrow> q = ptr \<or> live_block (kernel_heap s1) q"
    using kzalloc_run [OF o(6) F(2,1) run1] by blast
  let ?s2 = "s1\<lparr>kernel_heap := h2, kmem := m2\<rparr>"
  have al: "ptr mod 4096 = 0" using kz.alloc_aligned [OF o(6) k(1)] .
  have g: "heap_grown (kernel_heap s1) h2" using kzalloc_grown [OF o(6) F k(1,2)] by simp
  have at2: "file_at ?s2 (int i + 1) fd d fi cp 0" using o(2) by (simp add: file_at_def)
  have fpr: "fat_privates s1 = fat_privates s" "the_disk s1 = the_disk s" "disk_image s1 = disk_image s"
    using o(8) by (simp_all add: fs_frame_def)
  have ok2: "fat_ok ?s2 fp" using o(9) fat_ok_cong [of ?s2 s1] by simp
  have cp2: "same_item m2 cp (kmem s1) cp"
    using o(5) k(6) by (auto simp: same_item_def item_held_def)
  have reg: "in_region ptr (of_nat F) (ptr + of_nat l)" if "l < F" for l
    using that L(7) uF unat_of_nat_small [of l] by (simp add: in_region_def word_less_nat_alt)
  have ap: "apart cp ptr (1 * F)"
    unfolding apart_def
  proof (intro allI impI)
    fix x
    assume x: "x < (32 :: nat)"
    have "\<not> in_region ptr (of_nat F) (cp + of_nat x)" using o(5) k(5) x by (auto simp: item_held_def)
    then show "1 * F \<le> unat (cp + of_nat x - ptr)" by (simp add: in_region_def word_less_nat_alt uF)
  qed
  have "\<exists>s3. fread ptr (of_nat F) (of_nat 1) (int i + 1) ?s2 = Some (of_nat (min 1 ((F - 0) div F)), s3)
      \<and> kmem s3 = write_bytes (kmem ?s2) ptr (file_bytes (disk_image ?s2) fp c 0 (min 1 ((F - 0) div F) * F))
      \<and> fat_descs s3 = fat_descs ?s2 \<and> kernel_heap s3 = kernel_heap ?s2
      \<and> moved (?s2\<lparr>kmem := write_bytes (kmem ?s2) ptr (file_bytes (disk_image ?s2) fp c 0 (min 1 ((F - 0) div F) * F))\<rparr>) s3"
    by (rule fread_open_file [OF file_at_open [OF at2] i ok2])
      (use L ap same_item_fields [OF cp2] o(3,4) fpr in \<open>simp_all del: One_nat_def\<close>)
  then obtain s3 where s3: "fread ptr (of_nat F) 1 (int i + 1) ?s2 = Some (1, s3)"
    "moved (?s2\<lparr>kmem := write_bytes m2 ptr (file_bytes (disk_image s) fp c 0 F)\<rparr>) s3"
    using L(6) fpr(3) by auto
  let ?bs = "file_bytes (disk_image s) fp c 0 F"
  obtain ss where ss: "s3 = ?s2\<lparr>kmem := write_bytes m2 ptr ?bs, streams := ss\<rparr>"
    using s3(2) by (auto simp: moved_def)
  have bl: "length ?bs = F" by (simp add: file_bytes_def)
  have w: "write_bytes m2 ptr ?bs a = (if in_region ptr (of_nat F) a then ?bs ! unat (a - ptr) else m2 a)" for a
    using write_bytes_spec [of ?bs m2 ptr a] bl L(7) by (simp add: in_region_def word_less_nat_alt uF)
  have keep: "\<not> free_byte h2 a \<and> kmem s3 a = kmem s a" if "\<not> free_byte (kernel_heap s) a" for a
  proof -
    have a1: "\<not> free_byte (kernel_heap s1) a" "kmem s1 a = kmem s a" using o(7) that by (simp_all add: kept_def)
    then have "\<not> in_region ptr (of_nat F) a" using k(5) by blast
    with a1 k(6) show ?thesis by (simp add: ss w)
  qed
  have ext: "in_chunk h2 q = in_chunk (kernel_heap s1) q" "live_block h2 q" "q \<noteq> ptr" if "q \<in> {d, fi, cp}" for q
  proof -
    have l: "live_block (kernel_heap s1) q" using new that by blast
    with g show "in_chunk h2 q = in_chunk (kernel_heap s1) q" "live_block h2 q" by (auto simp: heap_grown_def)
    show "q \<noteq> ptr" using l k(7) by auto
  qed
  have own: "\<not> free_byte h2 a \<and> (\<forall>q \<in> {d, fi, cp}. \<not> in_chunk h2 q a)"
    if "\<not> free_byte (kernel_heap s) a \<or> in_region ptr (of_nat F) a" for a
    using that
  proof
    assume a: "\<not> free_byte (kernel_heap s) a"
    with keep new ext show ?thesis by metis
  next
    assume a: "in_region ptr (of_nat F) a"
    then have f: "free_byte (kernel_heap s1) a" "\<not> free_byte h2 a" using k(5) by auto
    moreover have "\<not> in_chunk h2 q a" if "q \<in> {d, fi, cp}" for q
      using ext(1) [OF that] f(1) kze.extent_taken [OF o(6)] by auto
    ultimately show ?thesis by blast
  qed
  have free: "free_byte (kernel_heap s) a" if "in_region ptr (of_nat F) a" for a
    using k(5) o(7) that by (auto simp: kept_def)
  have bytes: "kmem s3 (ptr + of_nat l) = ?bs ! l" if "l < F" for l
    using reg [OF that] that L(7) unat_of_nat_small [of l] by (simp add: ss w)
  obtain md dsk where "fdescs s1 fd = Some \<lparr>fd_index = int i + 1, fd_filesystem = Some Fat16_Fs, fd_private = d, fd_mode = md, fd_disk = dsk\<rparr>"
    "fd \<noteq> 0" using o(2) by (auto simp: file_at_def)
  moreover have "file_at s3 (int i + 1) fd d fi cp 0" using at2 by (simp add: file_at_def ss)
  moreover have "fs_frame s s3" using o(8) by (simp add: fs_frame_def ss)
  moreover have "kept s s3" using keep by (simp add: kept_def ss)
  moreover have "\<forall>q \<in> {d, fi, cp}. live_block h2 q \<and> \<not> live_block (kernel_heap s) q" using new ext(2) by blast
  moreover have "\<forall>q. live_block (kernel_heap s) q \<longrightarrow> live_block h2 q" using o(11) k(8) by blast
  moreover have "ptr \<notin> {d, fi, cp}" using ext(3) by blast
  moreover have "kernel_heap s3 = h2" by (simp add: ss)
  ultimately show ?thesis using o(1,12) st k(1-4,8) al s3(1) own free bytes
    by (rule_tac exI [of _ fd], rule_tac exI [of _ d], rule_tac exI [of _ fi], rule_tac exI [of _ cp], rule_tac exI [of _ "(md, dsk)"], rule_tac exI [of _ st],
        rule_tac exI [of _ ptr], rule_tac exI [of _ s1], rule_tac exI [of _ ?s2], rule_tac exI [of _ s3]) simp
qed

text \<open>What the parts of the kernel above the file layer see unchanged.\<close>

definition task_frame :: "'a process_state_scheme \<Rightarrow> 'a process_state_scheme \<Rightarrow> bool" where
  "task_frame s s' \<longleftrightarrow> tasks s' = tasks s \<and> current_task s' = current_task s \<and> task_tail s' = task_tail s
     \<and> task_head s' = task_head s \<and> processes s' = processes s \<and> chunks s' = chunks s \<and> cr3 s' = cr3 s
     \<and> cr0_pg s' = cr0_pg s \<and> screen s' = screen s \<and> process_state.more s' = process_state.more s"

lemma task_frame_refl [simp]: "task_frame s s" by (simp add: task_frame_def)

lemma task_frame_trans: "task_frame s s' \<Longrightarrow> task_frame s' s'' \<Longrightarrow> task_frame s s''" by (simp add: task_frame_def)

lemma process_load_binary_spec:
  fixes s :: "'a process_state_scheme"
  assumes "heap_wf (kernel_heap s)" and "has_run (kernel_heap s) (k + blocks_for (of_nat F) + path_blocks names r)"
    and "loadable s path names fp r c F" and "null_slot (file_descriptors s) 0 = Some i" and "i < 1023"
    and "procs s process = Some p"
  shows "\<exists>ptr s'. process_load_binary path process s = Some (0, s') \<and> ptr \<noteq> 0 \<and> ptr mod 4096 = 0
    \<and> procs s' = (procs s)(process \<mapsto> p\<lparr>p_ptr := ptr, p_size := of_nat F, p_ptr_virt := 0x00400000\<rparr>)
    \<and> heap_wf (kernel_heap s') \<and> has_run (kernel_heap s') k \<and> kept s s' \<and> task_frame s s'
    \<and> (\<forall>q. live_block (kernel_heap s) q \<longrightarrow> live_block (kernel_heap s') q)
    \<and> (\<forall>a. in_region ptr (of_nat F) a \<longrightarrow> free_byte (kernel_heap s) a \<and> \<not> free_byte (kernel_heap s') a)
    \<and> (\<forall>l < F. kmem s' (ptr + of_nat l) = file_bytes (disk_image s) fp c 0 F ! l)"
proof -
  obtain fd d fi cp st stat ptr s1 s2 s3 where o: "fopen path (lit_mem ''r'') 0 s = Some (fd, s1)" "fd \<noteq> 0"
    "fdescs s1 fd = Some \<lparr>fd_index = int i + 1, fd_filesystem = Some Fat16_Fs, fd_private = d, fd_mode = fst st, fd_disk = snd st\<rparr>"
    and stat: "fstat (int i + 1) s1 = Some (0, Some stat)" "stat_filesize stat = of_nat F"
    and k: "kzalloc (of_nat F) s1 = Some (ptr, s2)" "ptr \<noteq> 0" "ptr mod 4096 = 0"
    and r: "fread ptr (of_nat F) 1 (int i + 1) s2 = Some (1, s3)" "file_at s3 (int i + 1) fd d fi cp 0" "distinct [d, fi, cp]"
      "fs_frame s s3" "heap_wf (kernel_heap s3)" "has_run (kernel_heap s3) k" "kept s s3"
    and lv: "\<forall>q \<in> {d, fi, cp}. live_block (kernel_heap s3) q \<and> \<not> live_block (kernel_heap s) q"
      "\<forall>q. live_block (kernel_heap s) q \<longrightarrow> live_block (kernel_heap s3) q"
    and own: "\<forall>a. \<not> free_byte (kernel_heap s) a \<or> in_region ptr (of_nat F) a \<longrightarrow>
        \<not> free_byte (kernel_heap s3) a \<and> (\<forall>q \<in> {d, fi, cp}. \<not> in_chunk (kernel_heap s3) q a)"
    and free: "\<forall>a. in_region ptr (of_nat F) a \<longrightarrow> free_byte (kernel_heap s) a"
    and bytes: "\<forall>l < F. kmem s3 (ptr + of_nat l) = file_bytes (disk_image s) fp c 0 F ! l"
    using load_steps [OF assms(1-5)] by (elim exE conjE) (rule that)
  let ?p = "p\<lparr>p_ptr := ptr, p_size := of_nat F, p_ptr_virt := 0x00400000\<rparr>"
  let ?s4 = "s3\<lparr>procs := (procs s)(process \<mapsto> ?p)\<rparr>"
  have w4: "heap_wf (kernel_heap ?s4)" "file_at ?s4 (int i + 1) fd d fi cp 0" "int i + 1 < 1024"
    using r(2,5) assms(5) by (simp_all add: file_at_def)
  have l4: "live_block (kernel_heap ?s4) q" if "q \<in> {d, fi, cp}" for q using lv(1) that by auto
  obtain h where c: "fclose (int i + 1) ?s4 = Some (0, ?s4\<lparr>kernel_heap := h, fat_items := (fat_items ?s4)(fi := None), fat_descs := (fat_descs ?s4)(d := None)\<rparr>)"
    "heap_wf h" "\<forall>q. live_block h q \<longleftrightarrow> live_block (kernel_heap ?s4) q \<and> q \<notin> {d, fi, cp}"
    "\<forall>a. \<not> free_byte (kernel_heap ?s4) a \<longrightarrow> (\<forall>q \<in> {d, fi, cp}. \<not> in_chunk (kernel_heap ?s4) q a) \<longrightarrow> \<not> free_byte h a"
    "heap_used 0 (kernel_heap ?s4) h"
    using fclose_at [OF w4 r(3) l4] by blast
  let ?s' = "?s4\<lparr>kernel_heap := h, fat_items := (fat_items ?s4)(fi := None), fat_descs := (fat_descs ?s4)(d := None)\<rparr>"
  note fr = fs_frame_process [OF r(4)]
  obtain md dsk where d3: "fdescs s3 fd = Some \<lparr>fd_index = int i + 1, fd_filesystem = Some Fat16_Fs, fd_private = d, fd_mode = md, fd_disk = dsk\<rparr>"
    using r(2) by (auto simp: file_at_def)
  have out: "load_out 0 fd ?s4 = Some (0, ?s')" using c(1) d3 o(2) by (simp add: load_out_def)
  have run: "process_load_binary path process s = Some (0, ?s')"
    using o stat k(1,2) r(1) out assms(6)
    by (simp add: process_load_binary_def ISERR_def fr(6) NUTSOS_PROGRAM_VIRTUAL_ADDRESS_def)
  have nf: "\<not> free_byte h a" if "\<not> free_byte (kernel_heap s) a \<or> in_region ptr (of_nat F) a" for a
    using own c(4) that by simp
  have "kept s ?s'" using r(7) nf by (simp add: kept_def)
  moreover have "task_frame s ?s'" using fr r(4) by (simp add: task_frame_def fs_frame_def)
  moreover have "\<forall>q. live_block (kernel_heap s) q \<longrightarrow> live_block h q" using c(3) lv by auto
  moreover have "has_run h k" using c(5) r(6) by (simp add: heap_used_def)
  ultimately show ?thesis using run k(2,3) c(2) free nf bytes
    by (rule_tac exI [of _ ptr], rule_tac exI [of _ ?s']) simp
qed

section \<open>Mapping the image and the stack\<close>

text \<open>
  What the page tables of a process say: the stack is at its virtual range, the image at the
  program's address (rounded up to whole pages), and everything else as in \<open>m\<close>.
\<close>

definition image_span :: "process \<Rightarrow> u32" where
  "image_span p = paging_align_address (p_ptr p + p_size p) - p_ptr p"

definition in_image :: "process \<Rightarrow> u32 \<Rightarrow> bool" where
  "in_image p v \<longleftrightarrow> in_region 0x00400000 (image_span p) v"

definition in_stack :: "u32 \<Rightarrow> bool" where
  "in_stack v \<longleftrightarrow> in_region 0x003FB000 0x4000 v"

text \<open>The memory a process owns: the pages of its image, and its stack.\<close>

definition own_byte :: "process \<Rightarrow> u32 \<Rightarrow> bool" where
  "own_byte p a \<longleftrightarrow> in_region (p_ptr p) (image_span p) a \<or> in_region (p_stack p) 0x4000 a"

lemma align_end:
  assumes "unat a + n \<le> e" and "e < 4294967296" and "4096 dvd e"
  shows "unat (paging_align_address (a + of_nat n)) = (unat a + n + 4095) div 4096 * 4096" and "(unat a + n + 4095) div 4096 * 4096 \<le> e"
proof -
  have "n < 4294967296" using assms(1,2) by simp
  then have "unat (of_nat n :: u32) = n" by (intro unat_of_nat_small) simp
  then have u: "unat (a + of_nat n) = unat a + n"
    using assms(1,2) by (subst unat_add_lem [THEN iffD1]) simp_all
  obtain q where q: "e = 4096 * q" using assms(3) by (auto elim: dvdE)
  then have "(unat a + n + 4095) div 4096 \<le> q" using assms(1) by linarith
  then show le: "(unat a + n + 4095) div 4096 * 4096 \<le> e" using q by simp
  then show "unat (paging_align_address (a + of_nat n)) = (unat a + n + 4095) div 4096 * 4096"
    using assms(2) paging_align_address_spec [of "a + of_nat n"] by (simp add: u)
qed

text \<open>The pages of an image are those its bytes lie in.\<close>

lemma image_page:
  assumes "p_ptr p mod 4096 = 0" and "p_size p = of_nat F" and "unat (p_ptr p) + F \<le> e" and "e < 4294967296" and "4096 dvd e"
    and "in_region (p_ptr p) (image_span p) a"
  shows "in_region (p_ptr p) (of_nat F) (page_frame a)"
proof -
  let ?k = "a - p_ptr p"
  obtain q where q: "unat (p_ptr p) = 4096 * q" using assms(1) by (auto simp: page_aligned_iff elim: dvdE)
  have "(unat (p_ptr p) + F + 4095) div 4096 * 4096 = unat (p_ptr p) + (F + 4095) div 4096 * 4096"
    using div_mult_self2 [of 4096 "F + 4095" q] by (simp add: q add.assoc add.commute [of "4096 * q"])
  then have "unat (image_span p) = (F + 4095) div 4096 * 4096"
    using align_end(1) [OF assms(3-5)] assms(2) by (simp add: image_span_def unat_sub_if')
  then have k: "unat ?k < (F + 4095) div 4096 * 4096" using assms(6) by (simp add: in_region_def word_less_nat_alt)
  have s: "?k = (page_frame a - p_ptr p) + page_offset a" using page_split [of a] by (metis add_diff_eq diff_add_eq)
  have "page_frame ?k = page_frame a - p_ptr p"
    unfolding s by (rule page_frame_add(1) [OF page_aligned_minus [OF page_frame_aligned assms(1)] page_offset_less])
  moreover have "unat (page_frame ?k) < F"
  proof -
    obtain j where j: "unat ?k - unat ?k mod 4096 = 4096 * j" by (metis dvd_def dvd_minus_mod)
    then have "4096 * j < (F + 4095) div 4096 * 4096" using k by linarith
    then have "j < (F + 4095) div 4096" by simp
    then show ?thesis unfolding unat_page_frame j by linarith
  qed
  moreover have "unat (of_nat F :: u32) = F" using assms(3,4) by (intro unat_of_nat_small) simp
  ultimately show ?thesis by (simp add: in_region_def word_less_nat_alt)
qed

lemma process_map_memory_spec:
  fixes s :: "'a process_state_scheme"
  assumes "procs s process = Some p" and "tasks s (p_task p) = Some t"
    and "paging_chunk_get_directory (page_directory t) s = Some d" and "dir_wf (kmem s) d"
    and "p_ptr p mod 4096 = 0" and "p_stack p mod 4096 = 0" and "p_size p = of_nat F"
    and "unat (p_ptr p) + F \<le> e" and "unat (p_stack p) + 16384 \<le> e" and "e < 4294967296" and "4096 dvd e"
  shows "\<exists>m. process_map_memory process s = Some (0, s\<lparr>kmem := m\<rparr>) \<and> dir_wf m d \<and> F \<le> unat (image_span p)
    \<and> image_span p mod 4096 = 0
    \<and> (\<forall>v. page_entry m d v = (if in_stack v then (p_stack p + (page_frame v - 0x003FB000)) OR 7
          else if in_image p v then (p_ptr p + (page_frame v - 0x00400000)) OR 7 else page_entry (kmem s) d v))
    \<and> (\<forall>i < 1024. page_table m d i = page_table (kmem s) d i)
    \<and> (\<forall>a. (\<forall>i < 1024. page_frame a \<noteq> page_table (kmem s) d i) \<longrightarrow> m a = kmem s a)"
proof -
  let ?lim = "paging_align_address (p_ptr p + p_size p)"
  have ue: "unat ?lim = (unat (p_ptr p) + F + 4095) div 4096 * 4096"
    using align_end [OF assms(8,10,11)] by (simp add: assms(7))
  then have "4096 dvd unat ?lim" by simp
  then have al: "?lim mod 4096 = 0" by (simp only: page_aligned_iff)
  have le: "unat (p_ptr p) + F \<le> unat ?lim" unfolding ue by linarith
  then have ge: "p_ptr p \<le> ?lim" by (simp add: word_le_nat_alt)
  then have span: "unat (image_span p) = unat ?lim - unat (p_ptr p)" by (simp add: image_span_def unat_sub)
  have span_al: "image_span p mod 4096 = 0" using al assms(5) by (simp add: image_span_def page_aligned_minus)
  obtain m1 where m1: "paging_map_to d 0x00400000 (p_ptr p) ?lim 7 s = Some (0, s\<lparr>kmem := m1\<rparr>)" "dir_wf m1 d"
    "\<forall>v. page_entry m1 d v = (if in_region 0x00400000 (image_span p) (page_frame v)
          then (p_ptr p + (page_frame v - 0x00400000)) OR 7 else page_entry (kmem s) d v)"
    "\<forall>i < 1024. page_table m1 d i = page_table (kmem s) d i"
    "\<forall>a. (\<forall>i < 1024. page_frame a \<noteq> page_table (kmem s) d i) \<longrightarrow> m1 a = kmem s a"
    using paging_map_to_spec [OF assms(4) _ assms(5) al ge, of "0x00400000" 7] by (auto simp: image_span_def)
  let ?s1 = "s\<lparr>kmem := m1\<rparr>"
  let ?e2 = "paging_align_address (p_stack p + 16384)"
  have s0: "4096 dvd unat (p_stack p)" using assms(6) by (simp only: page_aligned_iff)
  have "unat ?e2 = unat (p_stack p) + 16384"
    using align_end(1) [OF assms(9-11)] s0 by (auto elim!: dvdE)
  moreover have "unat (p_stack p + 16384) = unat (p_stack p) + 16384"
    using assms(9,10) by (subst unat_add_lem [THEN iffD1]) simp_all
  ultimately have e2: "?e2 = p_stack p + 16384" by (simp add: word_unat_eq_iff)
  have ge2: "p_stack p \<le> p_stack p + 16384"
    using \<open>unat (p_stack p + 16384) = _\<close> by (simp add: word_le_nat_alt)
  have al2: "(p_stack p + 16384) mod 4096 = 0" using assms(6) by (intro page_aligned_add) simp_all
  have "dir_wf (kmem ?s1) d" using m1(2) by simp
  from paging_map_to_spec [OF this _ assms(6) al2 ge2, of "0x003FB000" 7]
  obtain m where m: "paging_map_to d 0x003FB000 (p_stack p) (p_stack p + 16384) 7 ?s1 = Some (0, ?s1\<lparr>kmem := m\<rparr>)" "dir_wf m d"
    "\<forall>v. page_entry m d v = (if in_region 0x003FB000 16384 (page_frame v)
          then (p_stack p + (page_frame v - 0x003FB000)) OR 7 else page_entry m1 d v)"
    "\<forall>i < 1024. page_table m d i = page_table m1 d i"
    "\<forall>a. (\<forall>i < 1024. page_frame a \<noteq> page_table m1 d i) \<longrightarrow> m a = m1 a"
    by auto
  have dir: "process_directory process s = Some d" "process_directory process ?s1 = Some d"
    using assms(1-3) by (simp_all add: process_directory_def paging_chunk_get_directory_def)
  have fl: "map_flags = 7" by (simp add: map_flags_def PAGING_IS_PRESENT_def PAGING_ACCESS_FROM_ALL_def PAGING_IS_WRITEABLE_def)
  have run: "process_map_memory process s = Some (0, s\<lparr>kmem := m\<rparr>)"
    using m1(1) m(1) dir assms(1) e2
    by (simp add: process_map_memory_def process_map_binary_def fl ISERR_def const_defs)
  have "F \<le> unat (image_span p)" using span le by simp
  moreover have "\<forall>v. page_entry m d v = (if in_stack v then (p_stack p + (page_frame v - 0x003FB000)) OR 7
          else if in_image p v then (p_ptr p + (page_frame v - 0x00400000)) OR 7 else page_entry (kmem s) d v)"
    using m(3) m1(3) region_page [of "0x003FB000" 16384] region_page [OF _ span_al, of "0x00400000"]
    by (simp add: in_stack_def in_image_def)
  ultimately show ?thesis using run m(2,4,5) m1(4,5) span_al by (rule_tac exI [of _ m]) simp
qed

text \<open>A change of memory that leaves the page tables where they are leaves the queue intact.\<close>

lemma queue_tables:
  fixes s :: "'a task_state_scheme"
  assumes "queue_ok s qs" and "\<And>x i. x \<in> set qs \<Longrightarrow> i < 1024 \<Longrightarrow> page_table m (task_dir s x) i = page_table (kmem s) (task_dir s x) i"
  shows "queue_ok (s\<lparr>kmem := m\<rparr>) qs"
proof -
  let ?s' = "s\<lparr>kmem := m\<rparr>"
  have own: "\<And>x. x \<in> set qs \<Longrightarrow> task_owned s x" and dist: "distinct (concat (map (task_blocks s) qs))"
    using assms(1) by (simp_all add: queue_ok_def)
  have k: "task_owned ?s' x \<and> task_blocks ?s' x = task_blocks s x" if x: "x \<in> set qs" for x
  proof -
    obtain t where t: "tasks s x = Some t" "chunk_owned s (page_directory t) (task_dir s x)"
      "task_blocks s x = x # chunk_blocks s (page_directory t) (task_dir s x)"
      using own [OF x] by (rule task_owned_blocks)
    have b: "chunk_blocks ?s' (page_directory t) (task_dir s x) = chunk_blocks s (page_directory t) (task_dir s x)"
      using assms(2) [OF x] by (simp add: chunk_blocks_def)
    have "dir_wf m (task_dir s x)" using t(2) assms(2) [OF x] by (simp add: chunk_owned_def dir_wf_def)
    then have o: "chunk_owned ?s' (page_directory t) (task_dir s x)" using t(2) b by (simp add: chunk_owned_def)
    obtain ch where ch: "chunks s (page_directory t) = Some ch" "directory_entry ch = task_dir s x"
      using t(2) by (auto simp: chunk_owned_def)
    have "task_owned ?s' x" using o own [OF x] t(1) by (auto simp: task_owned_def)
    moreover have "task_blocks ?s' x = task_blocks s x" using t(1,3) b ch by (simp add: task_blocks_def)
    ultimately show ?thesis ..
  qed
  then have "map (task_blocks ?s') qs = map (task_blocks s) qs" by simp
  with dist have "distinct (concat (map (task_blocks ?s') qs))" by (simp only:)
  with k assms(1) show ?thesis by (simp add: queue_ok_def task_queue_def)
qed

text \<open>The blocks of two tasks of a queue are apart.\<close>

lemma queue_apart:
  assumes "queue_ok s (qs @ [t])" and "x \<in> set qs" and "q \<in> set (task_blocks s x)"
  shows "q \<notin> set (task_blocks s t)"
proof -
  have "distinct (concat (map (task_blocks s) (qs @ [t])))" using assms(1) by (simp add: queue_ok_def)
  then have "set (concat (map (task_blocks s) qs)) \<inter> set (task_blocks s t) = {}"
    by (simp only: map_append concat_append distinct_append list.map concat.simps append_Nil2)
  then show ?thesis using assms(2,3) by auto
qed

lemma table_in_blocks:
  assumes "task_owned s x" and "i < 1024"
  shows "page_table (kmem s) (task_dir s x) i \<in> set (task_blocks s x)" and "task_dir s x \<in> set (task_blocks s x)"
    and "task_dir s x mod 4096 = 0"
proof -
  obtain t where t: "tasks s x = Some t" "chunk_owned s (page_directory t) (task_dir s x)"
    "task_blocks s x = x # chunk_blocks s (page_directory t) (task_dir s x)"
    using assms(1) by (rule task_owned_blocks)
  then show "page_table (kmem s) (task_dir s x) i \<in> set (task_blocks s x)" "task_dir s x \<in> set (task_blocks s x)"
    "task_dir s x mod 4096 = 0"
    using assms(2) by (simp_all add: chunk_blocks_def chunk_owned_def dir_wf_def)
qed

text \<open>Writing the tables of one task touches neither the tables nor the entries of another.\<close>

lemma other_tables:
  fixes s :: "'a task_state_scheme"
  assumes "queue_ok s (qs @ [t])" and "x \<in> set qs"
    and "\<And>a. \<forall>i < 1024. page_frame a \<noteq> page_table (kmem s) (task_dir s t) i \<Longrightarrow> m a = kmem s a"
  shows "i < 1024 \<Longrightarrow> page_table m (task_dir s x) i = page_table (kmem s) (task_dir s x) i"
    and "page_entry m (task_dir s x) v = page_entry (kmem s) (task_dir s x) v"
proof -
  have ox: "task_owned s x" and ot: "task_owned s t" using assms(1,2) by (simp_all add: queue_ok_def)
  have out: "m a = kmem s a" if "page_frame a \<in> set (task_blocks s x)" for a
    using assms(3) [of a] queue_apart [OF assms(1,2) that] table_in_blocks(1) [OF ot] by metis
  have cell: "read32 m (q + 4 * of_nat k) = read32 (kmem s) (q + 4 * of_nat k)"
    if "q \<in> set (task_blocks s x)" "q mod 4096 = 0" "k < 1024" for q k
  proof -
    have "m (q + 4 * of_nat k + of_nat j) = kmem s (q + 4 * of_nat k + of_nat j)" if "j < 4" for j
      using out page_frame_cell [OF \<open>q mod 4096 = 0\<close> \<open>k < 1024\<close> that] \<open>q \<in> _\<close> by simp
    from this [of 0] this [of 1] this [of 2] this [of 3] show ?thesis by (intro read32_cong) simp_all
  qed
  have tab: "page_table m (task_dir s x) i = page_table (kmem s) (task_dir s x) i" if "i < 1024" for i
    using cell [OF table_in_blocks(2,3) [OF ox that] that] by (simp add: page_table_def)
  then show "i < 1024 \<Longrightarrow> page_table m (task_dir s x) i = page_table (kmem s) (task_dir s x) i" .
  show "page_entry m (task_dir s x) v = page_entry (kmem s) (task_dir s x) v"
    using tab [OF dir_index_less] cell [OF table_in_blocks(1) [OF ox dir_index_less] page_table_aligned table_index_less]
    by (simp add: page_entry_def)
qed

section \<open>From the process to its task\<close>

text \<open>The translation a process's task has once its memory is mapped.\<close>

definition task_view :: "mem \<Rightarrow> u32 \<Rightarrow> process \<Rightarrow> bool" where
  "task_view m d p \<longleftrightarrow> (\<forall>v. page_entry m d v = (if in_stack v then (p_stack p + (page_frame v - 0x003FB000)) OR 7
     else if in_image p v then (p_ptr p + (page_frame v - 0x00400000)) OR 7 else page_frame v OR 5)) \<and> dir_open m d"

definition attach_task :: "u32 \<Rightarrow> 'a process_state_scheme \<Rightarrow> (int \<times> 'a process_state_scheme) option" where
  "attach_task process s = do {
     (task, s7) \<leftarrow> task_new process s;
     p' \<leftarrow> procs s7 process;
     process_map_memory process (s7\<lparr>procs := (procs s7)(process \<mapsto> p'\<lparr>p_task := task\<rparr>)\<rparr>)
   }"

lemma attach_task_spec:
  fixes s :: "'a process_state_scheme"
  assumes "queue_ok s qs" and "1027 \<le> free_count (blocks (kernel_heap s))" and "procs s process = Some p"
    and "p_ptr p mod 4096 = 0" and "p_stack p mod 4096 = 0" and "p_size p = of_nat F"
    and "unat (p_ptr p) + F \<le> e" and "unat (p_stack p) + 16384 \<le> e" and "e < 4294967296" and "4096 dvd e"
  shows "\<exists>t c s'. attach_task process s = Some (0, s') \<and> queue_ok s' (qs @ [t])
    \<and> procs s' = (procs s)(process \<mapsto> p\<lparr>p_task := t\<rparr>) \<and> processes s' = processes s \<and> current_task s' = current_task s
    \<and> tasks s' t = Some ((fresh_task c process)\<lparr>task_prev := final qs 0\<rparr>) \<and> task_view (kmem s') (task_dir s' t) p
    \<and> F \<le> unat (image_span p) \<and> image_span p mod 4096 = 0
    \<and> (\<forall>x \<in> set qs. task_dir s' x = task_dir s x \<and> (\<forall>v. page_entry (kmem s') (task_dir s x) v = page_entry (kmem s) (task_dir s x) v))
    \<and> (\<forall>a. \<not> free_byte (kernel_heap s) a \<longrightarrow> kmem s' a = kmem s a \<and> \<not> free_byte (kernel_heap s') a)
    \<and> (\<forall>a. dir_byte (kmem s') (task_dir s' t) a \<longrightarrow> free_byte (kernel_heap s) a)
    \<and> cr0_pg s' = cr0_pg s \<and> screen s' = screen s \<and> process_state.more s' = process_state.more s"
proof -
  obtain t c d h m ts s7 where n: "task_new process s = Some (t, s7)"
    "s7 = s\<lparr>kernel_heap := h, kmem := m, chunks := (chunks s)(c \<mapsto> \<lparr>directory_entry = d, dir_count = 1024, entries_count = 1024\<rparr>),
        tasks := ts, task_head := first (qs @ [t]) 0, task_tail := t\<rparr>"
    "queue_ok s7 (qs @ [t])" "keeps s s7" "\<forall>a. \<not> free_byte (kernel_heap s) a \<longrightarrow> \<not> free_byte h a"
    "ts t = Some ((fresh_task c process)\<lparr>task_prev := final qs 0\<rparr>)" "task_dir s7 t = d"
    "\<forall>v. page_entry m d v = page_frame v OR 5"
    "\<forall>a. dir_byte m d a \<longrightarrow> free_byte (kernel_heap s) a"
    "\<forall>x \<in> set qs. task_dir s7 x = task_dir s x \<and> (\<forall>v. page_entry m (task_dir s x) v = page_entry (kmem s) (task_dir s x) v)"
    "dir_open m d"
    using task_new_spec [OF assms(1,2), of process] by blast
  let ?p = "p\<lparr>p_task := t\<rparr>"
  let ?s8 = "s7\<lparr>procs := (procs s)(process \<mapsto> ?p)\<rparr>"
  have td: "task_dir ?s8 x = task_dir s7 x" for x by (simp add: task_dir_def)
  have cb: "chunk_blocks ?s8 = chunk_blocks s7" by (simp add: chunk_blocks_def fun_eq_iff)
  have tb: "task_blocks ?s8 = task_blocks s7" by (simp add: task_blocks_def cb fun_eq_iff cong: option.case_cong)
  have q8: "queue_ok ?s8 (qs @ [t])"
    using n(3) by (simp add: queue_ok_def task_queue_def task_owned_def chunk_owned_def cb tb)
  have ot: "task_owned ?s8 t" using q8 by (simp add: queue_ok_def)
  obtain u where u: "tasks ?s8 t = Some u" "chunk_owned ?s8 (page_directory u) d"
    "paging_chunk_get_directory (page_directory u) ?s8 = Some d"
    using ot n(7) td [of t] by (metis task_owned_blocks)
  have wf: "dir_wf (kmem ?s8) d" using u(2) by (simp add: chunk_owned_def)
  have pr: "procs ?s8 process = Some ?p" by simp
  have pp: "tasks ?s8 (p_task ?p) = Some u" using u(1) by simp
  have pm: "p_ptr ?p mod 4096 = 0" "p_stack ?p mod 4096 = 0" "p_size ?p = of_nat F"
    "unat (p_ptr ?p) + F \<le> e" "unat (p_stack ?p) + 16384 \<le> e"
    using assms(4-8) by simp_all
  obtain m9 where m9: "process_map_memory process ?s8 = Some (0, ?s8\<lparr>kmem := m9\<rparr>)" "F \<le> unat (image_span ?p)" "image_span ?p mod 4096 = 0"
    "\<forall>v. page_entry m9 d v = (if in_stack v then (p_stack ?p + (page_frame v - 0x003FB000)) OR 7
          else if in_image ?p v then (p_ptr ?p + (page_frame v - 0x00400000)) OR 7 else page_entry (kmem ?s8) d v)"
    "\<forall>i < 1024. page_table m9 d i = page_table (kmem ?s8) d i"
    "\<forall>a. (\<forall>i < 1024. page_frame a \<noteq> page_table (kmem ?s8) d i) \<longrightarrow> m9 a = kmem ?s8 a"
    using process_map_memory_spec [OF pr pp u(3) wf pm assms(9,10)] by (elim exE conjE) (rule that)
  have dt: "task_dir ?s8 t = d" using n(7) td by simp
  have out: "m9 a = kmem ?s8 a" if "\<forall>i < 1024. page_frame a \<noteq> page_table (kmem ?s8) (task_dir ?s8 t) i" for a
    using m9(6) that by (simp only: dt)
  note ot8 = other_tables [OF q8, of _ m9, OF _ out]
  have "page_table m9 (task_dir ?s8 x) i = page_table (kmem ?s8) (task_dir ?s8 x) i" if "x \<in> set (qs @ [t])" "i < 1024" for x i
    using that ot8(1) m9(5) dt by auto
  then have q9: "queue_ok (?s8\<lparr>kmem := m9\<rparr>) (qs @ [t])" by (rule queue_tables [OF q8])
  let ?s' = "?s8\<lparr>kmem := m9\<rparr>"
  have same: "image_span ?p = image_span p" "in_image ?p v = in_image p v" for v
    by (simp_all add: image_span_def in_image_def)
  have run: "attach_task process s = Some (0, ?s')"
    using n(1) assms(3) m9(1) by (simp add: attach_task_def n(2))
  have dir: "task_dir ?s' x = task_dir s7 x" for x by (simp add: task_dir_def)
  have "dir_open m9 d"
  proof -
    have "read32 m9 (d + 4 * of_nat i) = read32 m (d + 4 * of_nat i)" if "i < 1024" for i
    proof (rule cell_same [OF _ _ that])
      show "d mod 4096 = 0" using wf by (simp add: dir_wf_def)
      show "m9 a = m a" if "page_frame a = d" for a
      proof -
        have "\<forall>i < 1024. page_frame a \<noteq> page_table (kmem ?s8) d i" using wf that unfolding dir_wf_def by metis
        with m9(6) show ?thesis by (simp add: n(2))
      qed
    qed
    then show ?thesis using n(11) by (simp add: dir_open_def)
  qed
  then have "task_view m9 d p" using m9(4) n(8) same by (simp add: task_view_def n(2))
  moreover have "\<forall>x \<in> set qs. task_dir ?s' x = task_dir s x \<and> (\<forall>v. page_entry m9 (task_dir s x) v = page_entry (kmem s) (task_dir s x) v)"
    using n(10) ot8(2) dir td by (simp add: n(2))
  moreover have "m9 a = kmem s a \<and> \<not> free_byte h a" if a: "\<not> free_byte (kernel_heap s) a" for a
  proof -
    have "\<forall>i < 1024. page_frame a \<noteq> page_table m d i" using n(9) a by (auto simp: dir_byte_def)
    then have "m9 a = kmem ?s8 a" using m9(6) by (simp add: n(2))
    then show ?thesis using n(4,5) a by (simp add: keeps_def n(2))
  qed
  moreover have "free_byte (kernel_heap s) a" if "dir_byte m9 d a" for a
  proof -
    have "dir_byte m d a" using that m9(5) by (auto simp: dir_byte_def n(2))
    then show ?thesis using n(9) by blast
  qed
  ultimately show ?thesis using run q9 n(6,7) m9(2,3) dir same
    by (rule_tac exI [of _ t], rule_tac exI [of _ c], rule_tac exI [of _ ?s']) (simp add: n(2))
qed

section \<open>Loading a process\<close>

lemma loadable_kept:
  assumes "loadable s path names fp r c F" and "kept s s'" and "the_disk s' = the_disk s" and "fat_privates s' = fat_privates s"
    and "streams s' = streams s" and "disk_image s' = disk_image s"
  shows "loadable s' path names fp r c F"
  using assms(1,3,6) named_path_kept [OF _ assms(2)] file_entry_kept [OF _ assms(2,6)] fat_ok_cong [OF assms(4,3,5)]
  by (simp add: loadable_def)

text \<open>The steps of \<open>process_load_for_slot\<close> before the task: memory, file, stack and name.\<close>

lemma load_prepare:
  fixes s :: "'a process_state_scheme"
  assumes "heap_wf (kernel_heap s)" and "has_run (kernel_heap s) (k + blocks_for (of_nat F) + (path_blocks names r + 6))"
    and "loadable s path names fp r c F" and "null_slot (file_descriptors s) 0 = Some i" and "i < 1023"
  shows "\<exists>process p ptr stk s1 s3 s4 s5. kzalloc sizeof_process s = Some (process, s1) \<and> process \<noteq> 0
    \<and> process_load_data path process (process_init process s1) = Some (0, s3)
    \<and> kzalloc NUTSOS_USER_PROGRAM_STACK_SIZE s3 = Some (stk, s4) \<and> stk \<noteq> 0
    \<and> s5 = s4\<lparr>kmem := snd (strncpy (kmem s4) (process + process_filename_offset) path NUTSOS_MAX_PATH)\<rparr>
    \<and> procs s5 = (procs s)(process \<mapsto> p)
    \<and> p = zero_process\<lparr>p_ptr := ptr, p_size := of_nat F, p_ptr_virt := 0x00400000\<rparr>
    \<and> ptr mod 4096 = 0 \<and> stk mod 4096 = 0 \<and> heap_wf (kernel_heap s5) \<and> has_run (kernel_heap s5) k
    \<and> kept s s5 \<and> task_frame s s5 \<and> (\<forall>q. live_block (kernel_heap s) q \<longrightarrow> live_block (kernel_heap s5) q)
    \<and> (\<forall>a. in_region ptr (of_nat F) a \<or> in_region stk 16384 a \<longrightarrow> free_byte (kernel_heap s) a \<and> \<not> free_byte (kernel_heap s5) a)
    \<and> (\<forall>l < F. kmem s5 (ptr + of_nat l) = file_bytes (disk_image s) fp c 0 F ! l)
    \<and> (\<forall>a. in_region stk 16384 a \<longrightarrow> kmem s5 a = 0)
    \<and> (\<forall>a. in_region ptr (of_nat F) a \<longrightarrow> \<not> in_region stk 16384 a)"
proof -
  have bf: "blocks_for sizeof_process = 2" "blocks_for 16384 = 4"
    by (simp_all add: blocks_for_exact sizeof_process_def)
  have sz: "sizeof_process \<noteq> 0" "size_ok sizeof_process" "(16384 :: u32) \<noteq> 0" "size_ok 16384"
    by (simp_all add: sizeof_process_def size_ok_def)
  have run0: "has_run (kernel_heap s) ((k + 4 + blocks_for (of_nat F) + path_blocks names r) + blocks_for sizeof_process)"
    using assms(2) bf by (simp add: algebra_simps)
  obtain process h1 m1 where k1: "kzalloc sizeof_process s = Some (process, s\<lparr>kernel_heap := h1, kmem := m1\<rparr>)" "process \<noteq> 0" "heap_wf h1"
    "has_run h1 (k + 4 + blocks_for (of_nat F) + path_blocks names r)"
    "\<forall>a. in_region process sizeof_process a \<longrightarrow> free_byte (kernel_heap s) a \<and> \<not> free_byte h1 a \<and> m1 a = 0"
    "\<forall>a. \<not> free_byte (kernel_heap s) a \<longrightarrow> \<not> free_byte h1 a \<and> m1 a = kmem s a"
    "\<forall>q. live_block h1 q \<longleftrightarrow> q = process \<or> live_block (kernel_heap s) q"
    using kzalloc_run [OF assms(1) sz(1,2) run0] by blast
  let ?s1 = "s\<lparr>kernel_heap := h1, kmem := m1\<rparr>"
  let ?s2 = "process_init process ?s1"
  have i2: "kernel_heap ?s2 = h1" "procs ?s2 = (procs s)(process \<mapsto> zero_process)" "disk_image ?s2 = disk_image s"
    "the_disk ?s2 = the_disk s" "fat_privates ?s2 = fat_privates s" "streams ?s2 = streams s" "file_descriptors ?s2 = file_descriptors s"
    by (simp_all add: process_init_def)
  have m2: "kmem ?s2 a = (if in_region process sizeof_process a then 0 else m1 a)" for a
    by (simp add: process_init_def memset_apply)
  have kp2: "kept s ?s2" using k1(5,6) by (auto simp: kept_def i2 m2)
  have tf2: "task_frame s ?s2" by (simp add: task_frame_def process_init_def)
  have w2: "heap_wf (kernel_heap ?s2)" "has_run (kernel_heap ?s2) ((k + 4) + blocks_for (of_nat F) + path_blocks names r)"
    "null_slot (file_descriptors ?s2) 0 = Some i" "procs ?s2 process = Some zero_process"
    using k1(3,4) assms(4) by (simp_all add: i2)
  have l2: "loadable ?s2 path names fp r c F" by (rule loadable_kept [OF assms(3) kp2 i2(4-6) i2(3)])
  obtain ptr s3 where b: "process_load_binary path process ?s2 = Some (0, s3)" "ptr mod 4096 = 0"
    "procs s3 = (procs ?s2)(process \<mapsto> zero_process\<lparr>p_ptr := ptr, p_size := of_nat F, p_ptr_virt := 0x00400000\<rparr>)"
    "heap_wf (kernel_heap s3)" "has_run (kernel_heap s3) (k + 4)" "kept ?s2 s3" "task_frame ?s2 s3"
    "\<forall>q. live_block (kernel_heap ?s2) q \<longrightarrow> live_block (kernel_heap s3) q"
    "\<forall>a. in_region ptr (of_nat F) a \<longrightarrow> free_byte (kernel_heap ?s2) a \<and> \<not> free_byte (kernel_heap s3) a"
    "\<forall>l < F. kmem s3 (ptr + of_nat l) = file_bytes (disk_image ?s2) fp c 0 F ! l"
    using process_load_binary_spec [OF w2(1,2) l2 w2(3) assms(5) w2(4)] by (elim exE conjE) (rule that)
  have run3: "has_run (kernel_heap s3) (k + blocks_for 16384)" using b(5) bf by simp
  obtain stk h4 m4 where k4: "kzalloc 16384 s3 = Some (stk, s3\<lparr>kernel_heap := h4, kmem := m4\<rparr>)" "stk \<noteq> 0" "heap_wf h4" "has_run h4 k"
    "\<forall>a. in_region stk 16384 a \<longrightarrow> free_byte (kernel_heap s3) a \<and> \<not> free_byte h4 a \<and> m4 a = 0"
    "\<forall>a. \<not> free_byte (kernel_heap s3) a \<longrightarrow> \<not> free_byte h4 a \<and> m4 a = kmem s3 a"
    "\<forall>q. live_block h4 q \<longleftrightarrow> q = stk \<or> live_block (kernel_heap s3) q"
    using kzalloc_run [OF b(4) sz(3,4) run3] by blast
  have al4: "stk mod 4096 = 0" using kz.alloc_aligned [OF b(4) k4(1)] .
  let ?s4 = "s3\<lparr>kernel_heap := h4, kmem := m4\<rparr>"
  have k04: "kept s ?s4" using kept_trans [OF kp2 b(6)] k4(6) by (auto simp: kept_def)
  obtain t where t: "held s path ([48, 58, 47] @ t)" and nl: "length t \<le> 253"
    using assms(3) by (auto simp: loadable_def named_path_def)
  let ?t = "[48, 58, 47] @ t"
  have h4: "held ?s4 path ?t" using t k04 by (rule held_kept)
  let ?dest = "process + process_filename_offset"
  have preg: "in_region process sizeof_process (?dest + of_nat l)" if "l \<le> 256" for l
  proof -
    have "unat (2 + of_nat l :: u32) = 2 + l" using unat_of_nat_small [of "2 + l"] that by simp
    then show ?thesis using that
      by (simp add: in_region_def process_filename_offset_def sizeof_process_def word_less_nat_alt)
  qed
  have "length ?t < unat (?dest - path)"
  proof (rule ccontr)
    assume "\<not> length ?t < unat (?dest - path)"
    then have "unat (?dest - path) \<le> length ?t" by simp
    with t have "\<not> free_byte (kernel_heap s) (path + of_nat (unat (?dest - path)))" unfolding held_def by blast
    moreover have "free_byte (kernel_heap s) ?dest" using k1(5) preg [of 0] by simp
    ultimately show False by simp
  qed
  then have sc: "snd (strncpy m4 ?dest path NUTSOS_MAX_PATH) = write_bytes m4 ?dest (take (Suc (min (length ?t) 256)) (?t @ [0]))"
    using strncpy_cstr [of m4 path ?t ?dest NUTSOS_MAX_PATH] h4 by (simp add: held_def Let_def NUTSOS_MAX_PATH_def)
  let ?m5 = "write_bytes m4 ?dest (take (Suc (min (length ?t) 256)) (?t @ [0]))"
  have w5: "?m5 a = m4 a" if "\<not> in_region process sizeof_process a" for a
  proof -
    have "\<not> unat (a - ?dest) \<le> 256"
    proof
      assume "unat (a - ?dest) \<le> 256"
      from preg [OF this] that show False by simp
    qed
    then show ?thesis using nl write_bytes_spec [of "take (Suc (min (length ?t) 256)) (?t @ [0])" m4 ?dest a] by simp
  qed
  let ?s5 = "?s4\<lparr>kmem := ?m5\<rparr>"
  have nf2: "\<not> in_region process sizeof_process a" if "free_byte h1 a \<or> \<not> free_byte (kernel_heap s) a" for a
    using that k1(5) by blast
  have "kept s ?s5" using k04 w5 nf2 by (auto simp: kept_def)
  moreover have "task_frame s ?s5" using task_frame_trans [OF tf2 b(7)] by (simp add: task_frame_def)
  moreover have "\<forall>q. live_block (kernel_heap s) q \<longrightarrow> live_block h4 q" using k1(7) b(8) k4(7) by (simp add: i2)
  moreover have "free_byte (kernel_heap s) a \<and> \<not> free_byte h4 a" if "in_region ptr (of_nat F) a \<or> in_region stk 16384 a" for a
    using that b(9) k4(5,6) k1(6) b(6) by (auto simp: i2 kept_def)
  moreover have "?m5 (ptr + of_nat l) = file_bytes (disk_image s) fp c 0 F ! l" if "l < F" for l
  proof -
    have F: "F < 2147483648" using assms(3) by (simp add: loadable_def)
    then have r: "in_region ptr (of_nat F) (ptr + of_nat l)"
      using that by (simp add: in_region_def word_less_nat_alt unat_of_nat_small)
    then have "free_byte h1 (ptr + of_nat l)" "\<not> free_byte (kernel_heap s3) (ptr + of_nat l)" using b(9) by (auto simp: i2)
    then show ?thesis using w5 nf2 k4(6) b(10) that by (simp add: i2)
  qed
  moreover have "?m5 a = 0" if "in_region stk 16384 a" for a
  proof -
    have "free_byte (kernel_heap s3) a" "m4 a = 0" using k4(5) that by auto
    moreover have "free_byte h1 a" using \<open>free_byte (kernel_heap s3) a\<close> b(6) by (auto simp: kept_def i2)
    ultimately show ?thesis using w5 nf2 by simp
  qed
  moreover have "\<forall>a. in_region ptr (of_nat F) a \<longrightarrow> \<not> in_region stk 16384 a" using b(9) k4(5) by blast
  moreover have "procs ?s5 = (procs s)(process \<mapsto> zero_process\<lparr>p_ptr := ptr, p_size := of_nat F, p_ptr_virt := 0x00400000\<rparr>)"
    using b(3) by (simp add: i2)
  ultimately show ?thesis using k1(1,2) b(1,2) k4(1-4) al4 sc
    by (rule_tac exI [of _ process], rule_tac exI [of _ "zero_process\<lparr>p_ptr := ptr, p_size := of_nat F, p_ptr_virt := 0x00400000\<rparr>"],
        rule_tac exI [of _ ptr], rule_tac exI [of _ stk], rule_tac exI [of _ ?s1], rule_tac exI [of _ s3], rule_tac exI [of _ ?s4],
        rule_tac exI [of _ ?s5]) (simp add: process_load_data_def NUTSOS_USER_PROGRAM_STACK_SIZE_def)
qed

lemma process_load_spec:
  fixes s :: "'a process_state_scheme"
  assumes "queue_ok s qs" and "\<not> free_byte (kernel_heap s) 0xFFFFFFFF"
    and "has_run (kernel_heap s) (1027 + blocks_for (of_nat F) + (path_blocks names r + 6))"
    and "loadable s path names fp r c F" and "null_slot (file_descriptors s) 0 = Some i" and "i < 1023"
    and "null_slot (processes s) 0 = Some slot" and "slot < 1024"
  shows "\<exists>process p t ch s'. process_load path s = Some (0, process, s') \<and> process \<noteq> 0
    \<and> processes s' = (processes s)[slot := process] \<and> procs s' process = Some p
    \<and> p_task p = t \<and> p_id p = of_nat slot \<and> p_ptr_virt p = 0x00400000 \<and> p_size p = of_nat F
    \<and> p_stack_virt p = 0x003FB000 \<and> p_stack_size p = 0x4000 \<and> p_ptr p mod 4096 = 0 \<and> p_stack p mod 4096 = 0
    \<and> queue_ok s' (qs @ [t]) \<and> current_task s' = current_task s
    \<and> tasks s' t = Some ((fresh_task ch process)\<lparr>task_prev := final qs 0\<rparr>)
    \<and> task_view (kmem s') (task_dir s' t) p \<and> F \<le> unat (image_span p) \<and> image_span p mod 4096 = 0
    \<and> (\<forall>l < F. kmem s' (p_ptr p + of_nat l) = file_bytes (disk_image s) fp c 0 F ! l)
    \<and> (\<forall>l < 16384. kmem s' (p_stack p + of_nat l) = 0)
    \<and> (\<forall>x \<in> set qs. task_dir s' x = task_dir s x \<and> (\<forall>v. page_entry (kmem s') (task_dir s x) v = page_entry (kmem s) (task_dir s x) v))
    \<and> (\<forall>a. \<not> free_byte (kernel_heap s) a \<longrightarrow> kmem s' a = kmem s a)
    \<and> (\<forall>a. in_region (p_ptr p) (of_nat F) a \<or> in_region (p_stack p) 0x4000 a
        \<longrightarrow> free_byte (kernel_heap s) a \<and> \<not> free_byte (kernel_heap s') a)
    \<and> (\<forall>a. own_byte p a \<longrightarrow> free_byte (kernel_heap s) a \<and> \<not> dir_byte (kmem s') (task_dir s' t) a)
    \<and> (\<forall>a. dir_byte (kmem s') (task_dir s' t) a \<longrightarrow> free_byte (kernel_heap s) a)
    \<and> cr0_pg s' = cr0_pg s \<and> screen s' = screen s \<and> process_state.more s' = process_state.more s
    \<and> (\<forall>a. in_region (p_ptr p) (of_nat F) a \<longrightarrow> \<not> in_region (p_stack p) 0x4000 a)"
proof -
  have wf: "heap_wf (kernel_heap s)" using assms(1) by (simp add: queue_ok_def)
  have F: "0 < F" "F < 2147483648" using assms(4) by (simp_all add: loadable_def)
  obtain process p0 ptr stk s1 s3 s4 s5 where l: "kzalloc sizeof_process s = Some (process, s1)" "process \<noteq> 0"
    "process_load_data path process (process_init process s1) = Some (0, s3)"
    "kzalloc NUTSOS_USER_PROGRAM_STACK_SIZE s3 = Some (stk, s4)" "stk \<noteq> 0"
    "s5 = s4\<lparr>kmem := snd (strncpy (kmem s4) (process + process_filename_offset) path NUTSOS_MAX_PATH)\<rparr>"
    "procs s5 = (procs s)(process \<mapsto> p0)" "p0 = zero_process\<lparr>p_ptr := ptr, p_size := of_nat F, p_ptr_virt := 0x00400000\<rparr>"
    "ptr mod 4096 = 0" "stk mod 4096 = 0" "heap_wf (kernel_heap s5)" "has_run (kernel_heap s5) 1027" "kept s s5" "task_frame s s5"
    "\<forall>q. live_block (kernel_heap s) q \<longrightarrow> live_block (kernel_heap s5) q"
    "\<forall>a. in_region ptr (of_nat F) a \<or> in_region stk 16384 a \<longrightarrow> free_byte (kernel_heap s) a \<and> \<not> free_byte (kernel_heap s5) a"
    "\<forall>l < F. kmem s5 (ptr + of_nat l) = file_bytes (disk_image s) fp c 0 F ! l"
    "\<forall>a. in_region stk 16384 a \<longrightarrow> kmem s5 a = 0" "\<forall>a. in_region ptr (of_nat F) a \<longrightarrow> \<not> in_region stk 16384 a"
    using load_prepare [OF wf assms(3-6)] by (elim exE conjE) (rule that)
  have rp: "in_region ptr (of_nat F) (ptr + of_nat l)" if "l < F" for l
    using that F(2) by (simp add: in_region_def word_less_nat_alt unat_of_nat_small)
  have rs: "in_region stk 16384 (stk + of_nat l)" if "l < 16384" for l
    using that by (simp add: in_region_def word_less_nat_alt unat_of_nat_small)
  let ?p = "p0\<lparr>p_stack := stk, p_stack_virt := 0x003FB000, p_stack_size := 0x4000, p_id := of_nat slot\<rparr>"
  let ?s6 = "s5\<lparr>procs := (procs s5)(process \<mapsto> ?p)\<rparr>"
  have kp: "keeps s ?s6" using l(13,15) by (simp add: keeps_def kept_def)
  note fr = l(14) [unfolded task_frame_def]
  have eqs: "heap_wf (kernel_heap ?s6)" "tasks ?s6 = tasks s" "chunks ?s6 = chunks s" "task_head ?s6 = task_head s" "task_tail ?s6 = task_tail s"
    using l(11) fr by simp_all
  note qk = queue_kept [OF assms(1) kp eqs]
  have room: "1027 \<le> free_count (blocks (kernel_heap ?s6))" using has_run_free_count [OF l(12)] by simp
  have pr: "procs ?s6 process = Some ?p" by simp
  have al: "p_ptr ?p mod 4096 = 0" "p_stack ?p mod 4096 = 0" "p_size ?p = of_nat F" using l(8-10) by simp_all
  have ends: "unat (p_ptr ?p) + F \<le> 4294963200" "unat (p_stack ?p) + 16384 \<le> 4294963200"
    using free_region_end [OF wf assms(2) F(1), of ptr] free_region_end [OF wf assms(2), of 16384 stk] rp rs l(8,16) by simp_all
  have top: "4294963200 < (4294967296 :: nat)" "4096 dvd (4294963200 :: nat)" by simp_all
  obtain t ch s' where a: "attach_task process ?s6 = Some (0, s')" "queue_ok s' (qs @ [t])"
    "procs s' = (procs ?s6)(process \<mapsto> ?p\<lparr>p_task := t\<rparr>)" "processes s' = processes ?s6" "current_task s' = current_task ?s6"
    "tasks s' t = Some ((fresh_task ch process)\<lparr>task_prev := final qs 0\<rparr>)" "task_view (kmem s') (task_dir s' t) ?p"
    "F \<le> unat (image_span ?p)" "image_span ?p mod 4096 = 0"
    "\<forall>x \<in> set qs. task_dir s' x = task_dir ?s6 x \<and> (\<forall>v. page_entry (kmem s') (task_dir ?s6 x) v = page_entry (kmem ?s6) (task_dir ?s6 x) v)"
    "\<forall>a. \<not> free_byte (kernel_heap ?s6) a \<longrightarrow> kmem s' a = kmem ?s6 a \<and> \<not> free_byte (kernel_heap s') a"
    "\<forall>a. dir_byte (kmem s') (task_dir s' t) a \<longrightarrow> free_byte (kernel_heap ?s6) a"
    "cr0_pg s' = cr0_pg ?s6" "screen s' = screen ?s6" "process_state.more s' = process_state.more ?s6"
    using attach_task_spec [OF qk(1) room pr al ends top] by (elim exE conjE) (rule that)
  let ?q = "?p\<lparr>p_task := t\<rparr>"
  let ?s' = "s'\<lparr>processes := (processes s')[slot := process]\<rparr>"
  have slot: "slot < length (processes s)" "processes s ! slot = 0" using null_slot_Some [OF assms(7)] by simp_all
  obtain tk s7 p' where t: "task_new process ?s6 = Some (tk, s7)" "procs s7 process = Some p'"
    "process_map_memory process (s7\<lparr>procs := (procs s7)(process \<mapsto> p'\<lparr>p_task := tk\<rparr>)\<rparr>) = Some (0, s')"
    using a(1) by (auto simp: attach_task_def bind_eq_Some_conv)
  have run: "process_load path s = Some (0, process, ?s')"
    using assms(7,8) slot l(1-5) l(6,7) t
    by (simp add: process_load_def process_load_for_slot_def process_get_def NUTSOS_MAX_PROCESSES_def ISERR_def Let_def
        NUTSOS_PROGRAM_VIRTUAL_STACK_ADDRESS_END_def NUTSOS_PROGRAM_VIRTUAL_STACK_ADDRESS_START_def NUTSOS_USER_PROGRAM_STACK_SIZE_def)
  have cb: "chunk_blocks ?s' = chunk_blocks s'" by (simp add: chunk_blocks_def fun_eq_iff)
  have tb: "task_blocks ?s' = task_blocks s'" by (simp add: task_blocks_def cb fun_eq_iff cong: option.case_cong)
  have qq: "queue_ok ?s' (qs @ [t])"
    using a(2) by (simp add: queue_ok_def task_queue_def task_owned_def chunk_owned_def cb tb)
  have dir: "task_dir ?s' x = task_dir s' x" for x by (simp add: task_dir_def)
  have same: "image_span ?q = image_span ?p" "task_view m d ?q = task_view m d ?p" for m d
    by (simp_all add: image_span_def task_view_def in_image_def)
  have img: "kmem s' (ptr + of_nat k) = file_bytes (disk_image s) fp c 0 F ! k" if "k < F" for k
    using a(11) l(16,17) rp [OF that] that by simp
  have st: "kmem s' (stk + of_nat k) = 0" if "k < 16384" for k
    using a(11) l(16,18) rs [OF that] by simp
  have mem: "kmem s' x = kmem s x" if "\<not> free_byte (kernel_heap s) x" for x
    using a(11) l(13) that by (simp add: kept_def)
  have own: "free_byte (kernel_heap s) x \<and> \<not> free_byte (kernel_heap s') x" if "in_region ptr (of_nat F) x \<or> in_region stk 0x4000 x" for x
    using a(11) l(16) that by auto
  have oth: "task_dir s' x = task_dir s x \<and> (\<forall>v. page_entry (kmem s') (task_dir s x) v = page_entry (kmem s) (task_dir s x) v)"
    if "x \<in> set qs" for x using a(10) qk(2,3) that by simp
  have whole: "free_byte (kernel_heap s) x \<and> \<not> dir_byte (kmem s') (task_dir s' t) x" if "own_byte ?q x" for x
  proof -
    have "in_region ptr (of_nat F) (page_frame x) \<or> in_region stk 0x4000 x"
      using that image_page [OF al(1,3) ends(1) top, of x] l(8) by (auto simp: own_byte_def image_span_def)
    then have "free_byte (kernel_heap s) x" "\<not> free_byte (kernel_heap s5) x"
      using l(16) free_page [OF wf, of x] free_page [OF l(11), of x] by auto
    then show ?thesis using a(12) by auto
  qed
  have tabs: "free_byte (kernel_heap s) x" if "dir_byte (kmem s') (task_dir s' t) x" for x
    using a(12) l(13) that by (auto simp: kept_def)
  have q: "p_task ?q = t" "p_id ?q = of_nat slot" "p_ptr_virt ?q = 0x00400000" "p_size ?q = of_nat F" "p_ptr ?q = ptr"
    "p_stack_virt ?q = 0x003FB000" "p_stack_size ?q = 0x4000" "p_stack ?q = stk" using l(8) by simp_all
  have cells: "processes ?s' = (processes s)[slot := process]" "procs ?s' process = Some ?q" "current_task ?s' = current_task s"
    "tasks ?s' t = Some ((fresh_task ch process)\<lparr>task_prev := final qs 0\<rparr>)" "kmem ?s' = kmem s'" "kernel_heap ?s' = kernel_heap s'"
    using a(3-6) fr by simp_all
  have upper: "cr0_pg ?s' = cr0_pg s" "screen ?s' = screen s" "process_state.more ?s' = process_state.more s" using a(13-15) fr by simp_all
  have view: "task_view (kmem s') (task_dir s' t) ?q" "F \<le> unat (image_span ?q)" "image_span ?q mod 4096 = 0"
    unfolding same by (rule a(7-9))+
  obtain q9 where q9: "q9 = ?q" by blast
  obtain s9 where s9: "s9 = ?s'" by blast
  show ?thesis
    using run [folded s9] l(2,9,10) cells [folded q9 s9] q [folded q9] view [folded q9] qq [folded s9] dir [folded s9] upper [folded s9] img st oth mem own whole [folded q9] tabs l(19)
    by (rule_tac exI [of _ process], rule_tac exI [of _ q9], rule_tac exI [of _ t], rule_tac exI [of _ ch], rule_tac exI [of _ s9]) simp
qed

section \<open>What a loaded program sees\<close>

text \<open>
  The state in which a program can be loaded: the task queue is well formed, the heap has room
  for \<open>n\<close> blocks beside a task and its address space, and there is a free descriptor and a free
  process slot.
\<close>

definition can_load :: "'a process_state_scheme \<Rightarrow> u32 list \<Rightarrow> nat \<Rightarrow> bool" where
  "can_load s qs n \<longleftrightarrow> queue_ok s qs \<and> \<not> free_byte (kernel_heap s) 0xFFFFFFFF
     \<and> has_run (kernel_heap s) (1033 + n)
     \<and> (case null_slot (file_descriptors s) 0 of Some i \<Rightarrow> i < 1023 | None \<Rightarrow> False)
     \<and> (case null_slot (processes s) 0 of Some i \<Rightarrow> i < 1024 | None \<Rightarrow> False)"

lemma can_loadD:
  assumes "can_load s qs (blocks_for (of_nat F) + path_blocks names r)"
  obtains i slot where "queue_ok s qs" "\<not> free_byte (kernel_heap s) 0xFFFFFFFF"
    "has_run (kernel_heap s) (1027 + blocks_for (of_nat F) + (path_blocks names r + 6))" "null_slot (file_descriptors s) 0 = Some i" "i < 1023"
    "null_slot (processes s) 0 = Some slot" "slot < 1024"
proof -
  have "1027 + blocks_for (of_nat F) + (path_blocks names r + 6) = 1033 + (blocks_for (of_nat F) + path_blocks names r)" by simp
  with assms that show ?thesis by (auto simp: can_load_def simp del: add_Suc split: option.splits)
qed

lemma in_region_base: "in_region b n (b + x) \<longleftrightarrow> x < n"
  by (simp add: in_region_def)

lemma view_image:
  assumes "task_view m d p" and "p_ptr p mod 4096 = 0" and "image_span p mod 4096 = 0" and "in_image p v" and "\<not> in_stack v"
  shows "translate m d v = p_ptr p + (v - 0x00400000)"
proof (rule mapped_translate)
  show "page_entry m d v = (p_ptr p + (page_frame v - 0x00400000)) OR 7"
    using assms(1,4,5) by (simp add: task_view_def)
qed (use assms(2) in \<open>simp_all add: page_frame_def\<close>)

lemma view_stack:
  assumes "task_view m d p" and "p_stack p mod 4096 = 0" and "in_stack v"
  shows "translate m d v = p_stack p + (v - 0x003FB000)"
proof (rule mapped_translate)
  show "page_entry m d v = (p_stack p + (page_frame v - 0x003FB000)) OR 7"
    using assms(1,3) by (simp add: task_view_def)
qed (use assms(2) in \<open>simp_all add: page_frame_def\<close>)

lemma page_frame_flags: "page_frame 5 = 0" "page_frame 7 = 0"
  by (simp_all add: page_frame_def)

lemma view_rest:
  assumes "task_view m d p" and "\<not> in_stack v" and "\<not> in_image p v"
  shows "translate m d v = v"
proof -
  have "translate m d v = 0 + (v - 0)"
    by (rule mapped_translate [where flags = 5]) (use assms in \<open>simp_all add: task_view_def page_frame_flags\<close>)
  then show ?thesis by simp
qed

lemma image_address:
  assumes "l < F" and "F < 2147483648" and "F \<le> unat (image_span p)"
  shows "in_image p (0x00400000 + of_nat l)" and "\<not> in_stack (0x00400000 + of_nat l)"
proof -
  have u: "unat (of_nat l :: u32) = l" using assms(1,2) by (intro unat_of_nat_small) simp
  show "in_image p (0x00400000 + of_nat l)"
    using assms(1,3) u by (simp add: in_image_def in_region_base word_less_nat_alt)
  have "unat (0x5000 + of_nat l :: u32) = 0x5000 + l"
    using assms(1,2) u by (subst unat_add_lem [THEN iffD1]) simp_all
  then show "\<not> in_stack (0x00400000 + of_nat l)"
    by (simp add: in_stack_def in_region_def word_less_nat_alt)
qed

text \<open>What the check of a pointer accepts.\<close>

lemma validated_address:
  assumes "F < 2147483648" and "process_validate_pointer p v"
    and "p_ptr_virt p = 0x00400000" and "p_size p = of_nat F" and "p_stack_virt p = 0x003FB000" and "p_stack_size p = 0x4000"
  shows "in_stack v \<or> (\<exists>l < F. v = 0x00400000 + of_nat l)"
proof (rule disjCI)
  assume "\<not> (\<exists>l < F. v = 0x00400000 + of_nat l)"
  have u: "unat (0x00400000 + of_nat F :: u32) = 0x00400000 + F"
    using assms(1) unat_of_nat_small [of F] by (subst unat_add_lem [THEN iffD1]) simp_all
  have "\<not> (0x00400000 \<le> v \<and> v < 0x00400000 + of_nat F)"
  proof
    assume v: "0x00400000 \<le> v \<and> v < 0x00400000 + of_nat F"
    then have "unat v - 0x00400000 < F" "v = 0x00400000 + of_nat (unat v - 0x00400000)"
      using u by (auto simp: word_less_nat_alt word_le_nat_alt)
    then show False using \<open>\<not> (\<exists>l < F. v = 0x00400000 + of_nat l)\<close> by blast
  qed
  then have "0x003FB000 \<le> v" "v < 0x003FF000" using assms(2-6) by (auto simp: process_validate_pointer_def)
  then show "in_stack v" by (simp add: in_stack_def in_region_def word_less_nat_alt word_le_nat_alt unat_sub_if')
qed

section \<open>A program on the volume with a directory\<close>

text \<open>The machine when the disk has been mounted: no task, no process, \<open>N\<close> blocks of heap.\<close>

definition blank_machine :: "nat \<Rightarrow> (nat \<Rightarrow> u8) \<Rightarrow> u8 list \<Rightarrow> process_state" where
  "blank_machine N img t = (task_state.extend (fs_state.extend (blank_fs img t)
     \<lparr>tasks = Map.empty, current_task = 0, task_tail = 0, task_head = 0\<rparr>)
     \<lparr>processes = replicate 1024 0, procs = Map.empty\<rparr>)\<lparr>kernel_heap := fresh_heap N\<rparr>"

lemma blank_machine_simps [simp]:
  "kernel_heap (blank_machine N img t) = fresh_heap N" "disk_image (blank_machine N img t) = img"
  "kmem (blank_machine N img t) = write_bytes (\<lambda>_. 0) 0x1000 t" "fat_descs (blank_machine N img t) = Map.empty"
  "tasks (blank_machine N img t) = Map.empty" "task_head (blank_machine N img t) = 0" "task_tail (blank_machine N img t) = 0"
  "processes (blank_machine N img t) = replicate 1024 0"
  using blank_fs_simps [of img t] by (simp_all add: blank_machine_def task_state.defs fs_state.defs)

text \<open>With the heap of the kernel, 25600 blocks, the program on the volume can be loaded.\<close>

lemma demo_can_load:
  "\<exists>dir crs frs drs s. disk_search_and_init (fs_init (blank_machine 25600 tree_image ([48, 58, 47] @ boot_name))) = Some s
    \<and> can_load s [] (blocks_for (of_nat 1000) + path_blocks [bin_name, empty_name] 5)
    \<and> loadable s 0x1000 [bin_name, empty_name] (tree_private dir crs frs drs) 5 2 1000 \<and> disk_image s = tree_image"
proof -
  let ?s0 = "blank_machine 25600 tree_image ([48, 58, 47] @ boot_name)"
  have N: "(25600 :: nat) < 524288" "1100 + 6 \<le> (25600 :: nat)" by simp_all
  obtain dir crs frs drs s where r: "disk_search_and_init (fs_init ?s0) = Some s"
    "fat_ok s (tree_private dir crs frs drs)" "heap_wf (kernel_heap s)" "has_run (kernel_heap s) 1100"
    "disk_image s = tree_image" "filesystem (the_disk s) = Some Fat16_Fs"
    "file_descriptors s = replicate 1024 0" "held s 0x1000 ([48, 58, 47] @ boot_name)"
    "\<forall>a. \<not> free_byte (fresh_heap 25600) a \<longrightarrow> \<not> free_byte (kernel_heap s) a"
    "root_held s (tree_private dir crs frs drs)" "fat_descs s = Map.empty" "fs_state.more s = fs_state.more ?s0"
    "\<forall>i < 32. kmem s (dir + of_nat i) = tree_root ! i"
    using started [OF boot_name_ok blank_machine_simps(1) N blank_machine_simps(2-4) tree_volume tree_geometry(2) tree_root_bytes]
    unfolding tree_mounted by (elim exE conjE) (rule that)
  have m: "tasks s = tasks ?s0" "task_head s = task_head ?s0" "task_tail s = task_tail ?s0" "processes s = processes ?s0"
    using r(12) by (cases s; cases ?s0; simp)+
  have "\<not> free_byte (fresh_heap 25600) 0xFFFFFFFF" by (rule fresh_outside) simp
  then have top: "\<not> free_byte (kernel_heap s) 0xFFFFFFFF" using r(9) by blast
  have bl: "blocks_for (of_nat 1000) = 1" by (rule blocks_for_small) simp_all
  have "has_run (kernel_heap s) (1033 + (1 + path_blocks [bin_name, empty_name] 5))"
    using r(4) by (rule has_run_mono) (simp add: path_blocks_def)
  then have "can_load s [] (blocks_for (of_nat 1000) + path_blocks [bin_name, empty_name] 5)"
    using r(3,7) m top first_slot unfolding bl by (simp add: can_load_def queue_ok_def task_queue_def)
  moreover have "loadable s 0x1000 [bin_name, empty_name] (tree_private dir crs frs drs) 5 2 1000"
    using r(2,5,6) tree_named [OF r(8)] tree_file_entry [OF r(10,5,13)] tree_chain_ok tree_readable by (simp add: loadable_def)
  ultimately show ?thesis using r(1,5) by blast
qed

section \<open>The properties of loading\<close>

lemma process_load_effect:
  fixes s :: "'a process_state_scheme"
  assumes "can_load s qs (blocks_for (of_nat F) + path_blocks names r)" and "loadable s path names fp r c F"
  shows "\<exists>process t ch p s' slot. process_load path s = Some (0, process, s') \<and> process \<noteq> 0
    \<and> null_slot (processes s) 0 = Some slot \<and> processes s' = (processes s)[slot := process]
    \<and> queue_ok s' (qs @ [t]) \<and> current_task s' = current_task s
    \<and> tasks s' t = Some ((fresh_task ch process)\<lparr>task_prev := final qs 0\<rparr>)
    \<and> procs s' process = Some p \<and> p_task p = t \<and> cr0_pg s' = cr0_pg s \<and> screen s' = screen s \<and> process_state.more s' = process_state.more s
    \<and> task_view (kmem s') (task_dir s' t) p \<and> p_ptr p mod 4096 = 0 \<and> p_stack p mod 4096 = 0 \<and> image_span p mod 4096 = 0
    \<and> (\<forall>a. own_byte p a \<longrightarrow> free_byte (kernel_heap s) a \<and> \<not> dir_byte (kmem s') (task_dir s' t) a)
    \<and> (\<forall>a. dir_byte (kmem s') (task_dir s' t) a \<longrightarrow> free_byte (kernel_heap s) a)
    \<and> (\<forall>l < F. kmem s' (translate (kmem s') (task_dir s' t) (0x00400000 + of_nat l)) = file_bytes (disk_image s) fp c 0 F ! l)
    \<and> (\<forall>l < 0x4000. kmem s' (translate (kmem s') (task_dir s' t) (0x003FB000 + of_nat l)) = 0)
    \<and> (\<forall>x \<in> set qs. task_dir s' x = task_dir s x \<and> (\<forall>v. translate (kmem s') (task_dir s x) v = translate (kmem s) (task_dir s x) v))
    \<and> (\<forall>a. \<not> free_byte (kernel_heap s) a \<longrightarrow> kmem s' a = kmem s a)
    \<and> p_ptr_virt p = 0x00400000 \<and> p_size p = of_nat F \<and> F \<le> unat (image_span p)
    \<and> (\<forall>a. in_region (p_ptr p) (of_nat F) a \<longrightarrow> \<not> in_region (p_stack p) 0x4000 a)"
proof -
  obtain i slot where pre: "queue_ok s qs" "\<not> free_byte (kernel_heap s) 0xFFFFFFFF"
    "has_run (kernel_heap s) (1027 + blocks_for (of_nat F) + (path_blocks names r + 6))" "null_slot (file_descriptors s) 0 = Some i" "i < 1023"
    "null_slot (processes s) 0 = Some slot" "slot < 1024" using assms(1) by (rule can_loadD)
  have F: "F < 2147483648" using assms(2) by (simp add: loadable_def)
  obtain process p t ch s' where r: "process_load path s = Some (0, process, s')" "process \<noteq> 0"
    "processes s' = (processes s)[slot := process]" "procs s' process = Some p"
    "p_task p = t" "p_id p = of_nat slot" "p_ptr_virt p = 0x00400000" "p_size p = of_nat F"
    "p_stack_virt p = 0x003FB000" "p_stack_size p = 0x4000" "p_ptr p mod 4096 = 0" "p_stack p mod 4096 = 0"
    "queue_ok s' (qs @ [t])" "current_task s' = current_task s"
    "tasks s' t = Some ((fresh_task ch process)\<lparr>task_prev := final qs 0\<rparr>)"
    "task_view (kmem s') (task_dir s' t) p" "F \<le> unat (image_span p)" "image_span p mod 4096 = 0"
    "\<forall>l < F. kmem s' (p_ptr p + of_nat l) = file_bytes (disk_image s) fp c 0 F ! l"
    "\<forall>l < 16384. kmem s' (p_stack p + of_nat l) = 0"
    "\<forall>x \<in> set qs. task_dir s' x = task_dir s x \<and> (\<forall>v. page_entry (kmem s') (task_dir s x) v = page_entry (kmem s) (task_dir s x) v)"
    "\<forall>a. \<not> free_byte (kernel_heap s) a \<longrightarrow> kmem s' a = kmem s a"
    "\<forall>a. in_region (p_ptr p) (of_nat F) a \<or> in_region (p_stack p) 0x4000 a
        \<longrightarrow> free_byte (kernel_heap s) a \<and> \<not> free_byte (kernel_heap s') a"
    "\<forall>a. own_byte p a \<longrightarrow> free_byte (kernel_heap s) a \<and> \<not> dir_byte (kmem s') (task_dir s' t) a"
    "\<forall>a. dir_byte (kmem s') (task_dir s' t) a \<longrightarrow> free_byte (kernel_heap s) a"
    "cr0_pg s' = cr0_pg s" "screen s' = screen s" "process_state.more s' = process_state.more s"
    "\<forall>a. in_region (p_ptr p) (of_nat F) a \<longrightarrow> \<not> in_region (p_stack p) 0x4000 a"
    using process_load_spec [OF pre(1-3) assms(2) pre(4-7)] by (elim exE conjE) (rule that)
  have image: "kmem s' (translate (kmem s') (task_dir s' t) (0x00400000 + of_nat l)) = file_bytes (disk_image s) fp c 0 F ! l"
    if "l < F" for l
    using view_image [OF r(16,11,18) image_address [OF that F r(17)]] r(19) that by simp
  have stack: "kmem s' (translate (kmem s') (task_dir s' t) (0x003FB000 + of_nat l)) = 0" if "l < 0x4000" for l
  proof -
    have "in_stack (0x003FB000 + of_nat l)"
      using that by (simp add: in_stack_def in_region_base word_less_nat_alt unat_of_nat_small)
    then show ?thesis using view_stack [OF r(16,12)] r(20) that by simp
  qed
  have others: "\<forall>x \<in> set qs. task_dir s' x = task_dir s x \<and> (\<forall>v. translate (kmem s') (task_dir s x) v = translate (kmem s) (task_dir s x) v)"
    using r(21) by (simp add: translate_def)
  show ?thesis
    by (rule exI [of _ process], rule exI [of _ t], rule exI [of _ ch], rule exI [of _ p], rule exI [of _ s'],
        rule exI [of _ slot])
      (intro conjI r(1,2,4,5,11-16,18,22,24-28) others pre(6) r(3) r(7,8,17,29) [rule_format] allI impI image stack)
qed



text \<open>
  C10. The check of user pointers is sound for the program it is made for: after \<open>process_load\<close>,
  an address \<open>process_validate_pointer\<close> accepts leads, through the task's directory, to a byte
  of the program's own image or stack, which was free before and is allocated now. It is
  not what confines the program: every address outside its image and stack is mapped to
  itself, present and open to ring 3 for reading (flags 5).
\<close>

theorem process_pointer_confined:
  fixes s :: "'a process_state_scheme"
  assumes "can_load s qs (blocks_for (of_nat F) + path_blocks names r)" and "loadable s path names fp r c F"
  shows "\<exists>process t p s'. process_load path s = Some (0, process, s') \<and> procs s' process = Some p
    \<and> p_task p = t \<and> queue_ok s' (qs @ [t])
    \<and> (\<forall>v. process_validate_pointer p v \<longrightarrow>
        (let a = translate (kmem s') (task_dir s' t) v in
          (in_region (p_ptr p) (p_size p) a \<or> in_region (p_stack p) (p_stack_size p) a)
          \<and> free_byte (kernel_heap s) a \<and> \<not> free_byte (kernel_heap s') a))
    \<and> (\<forall>v. \<not> in_image p v \<longrightarrow> \<not> in_stack v \<longrightarrow>
        translate (kmem s') (task_dir s' t) v = v \<and> page_entry (kmem s') (task_dir s' t) v = page_frame v OR 5)"
proof -
  obtain i slot where pre: "queue_ok s qs" "\<not> free_byte (kernel_heap s) 0xFFFFFFFF"
    "has_run (kernel_heap s) (1027 + blocks_for (of_nat F) + (path_blocks names r + 6))" "null_slot (file_descriptors s) 0 = Some i" "i < 1023"
    "null_slot (processes s) 0 = Some slot" "slot < 1024" using assms(1) by (rule can_loadD)
  have F: "F < 2147483648" using assms(2) by (simp add: loadable_def)
  obtain process p t ch s' where l: "process_load path s = Some (0, process, s')" "process \<noteq> 0"
    "processes s' = (processes s)[slot := process]" "procs s' process = Some p"
    "p_task p = t" "p_id p = of_nat slot" "p_ptr_virt p = 0x00400000" "p_size p = of_nat F"
    "p_stack_virt p = 0x003FB000" "p_stack_size p = 0x4000" "p_ptr p mod 4096 = 0" "p_stack p mod 4096 = 0"
    "queue_ok s' (qs @ [t])" "current_task s' = current_task s"
    "tasks s' t = Some ((fresh_task ch process)\<lparr>task_prev := final qs 0\<rparr>)"
    "task_view (kmem s') (task_dir s' t) p" "F \<le> unat (image_span p)" "image_span p mod 4096 = 0"
    "\<forall>l < F. kmem s' (p_ptr p + of_nat l) = file_bytes (disk_image s) fp c 0 F ! l"
    "\<forall>l < 16384. kmem s' (p_stack p + of_nat l) = 0"
    "\<forall>x \<in> set qs. task_dir s' x = task_dir s x \<and> (\<forall>v. page_entry (kmem s') (task_dir s x) v = page_entry (kmem s) (task_dir s x) v)"
    "\<forall>a. \<not> free_byte (kernel_heap s) a \<longrightarrow> kmem s' a = kmem s a"
    "\<forall>a. in_region (p_ptr p) (of_nat F) a \<or> in_region (p_stack p) 0x4000 a
        \<longrightarrow> free_byte (kernel_heap s) a \<and> \<not> free_byte (kernel_heap s') a"
    "\<forall>a. own_byte p a \<longrightarrow> free_byte (kernel_heap s) a \<and> \<not> dir_byte (kmem s') (task_dir s' t) a"
    "\<forall>a. dir_byte (kmem s') (task_dir s' t) a \<longrightarrow> free_byte (kernel_heap s) a"
    "cr0_pg s' = cr0_pg s" "screen s' = screen s" "process_state.more s' = process_state.more s"
    "\<forall>a. in_region (p_ptr p) (of_nat F) a \<longrightarrow> \<not> in_region (p_stack p) 0x4000 a"
    using process_load_spec [OF pre(1-3) assms(2) pre(4-7)] by (elim exE conjE) (rule that)
  note r = l(1,4,5,7-13,16-18,23)
  have "in_region (p_ptr p) (of_nat F) (translate (kmem s') (task_dir s' t) v)
      \<or> in_region (p_stack p) 0x4000 (translate (kmem s') (task_dir s' t) v)" if "process_validate_pointer p v" for v
    using validated_address [OF F that r(4-7)]
  proof
    assume "in_stack v"
    then show ?thesis using view_stack [OF r(11,9)] by (simp add: in_region_base in_stack_def in_region_def)
  next
    assume "\<exists>l < F. v = 0x00400000 + of_nat l"
    then obtain l where l: "l < F" "v = 0x00400000 + of_nat l" by blast
    have "(of_nat l :: u32) < of_nat F" using l(1) F by (simp add: word_less_nat_alt unat_of_nat_small)
    then show ?thesis using view_image [OF r(11,8,13) image_address [OF l(1) F r(12)]] l(2) by (simp add: in_region_base)
  qed
  then have "\<forall>v. process_validate_pointer p v \<longrightarrow>
        (let a = translate (kmem s') (task_dir s' t) v in
          (in_region (p_ptr p) (p_size p) a \<or> in_region (p_stack p) (p_stack_size p) a)
          \<and> free_byte (kernel_heap s) a \<and> \<not> free_byte (kernel_heap s') a)"
    using r(14) unfolding Let_def r(5,7) by blast
  moreover have "page_entry (kmem s') (task_dir s' t) v = page_frame v OR 5" if "\<not> in_image p v" "\<not> in_stack v" for v
    using r(11) that by (simp add: task_view_def)
  ultimately show ?thesis using r(1-3,10) view_rest [OF r(11)] by blast
qed

theorem process_pointer_confined_witness:
  "\<exists>s process t p s'. process_load 0x1000 s = Some (0, process, s') \<and> procs s' process = Some p
    \<and> queue_ok (s :: process_state) [] \<and> queue_ok s' [t]
    \<and> (\<forall>v. process_validate_pointer p v \<longrightarrow> free_byte (kernel_heap s) (translate (kmem s') (task_dir s' t) v))"
proof -
  obtain fp s where s: "can_load (s :: process_state) [] (blocks_for (of_nat 1000) + path_blocks [bin_name, empty_name] 5)"
    "loadable s 0x1000 [bin_name, empty_name] fp 5 2 1000"
    using demo_can_load by blast
  have "queue_ok s []" using s(1) by (simp add: can_load_def)
  moreover obtain process t p s' where "process_load 0x1000 s = Some (0, process, s')" "procs s' process = Some p"
    "queue_ok s' ([] @ [t])"
    "\<forall>v. process_validate_pointer p v \<longrightarrow> free_byte (kernel_heap s) (translate (kmem s') (task_dir s' t) v)"
    using process_pointer_confined [OF s] by (auto simp: Let_def)
  ultimately show ?thesis
    by (rule_tac exI [of _ s], rule_tac exI [of _ process], rule_tac exI [of _ t], rule_tac exI [of _ p], rule_tac exI [of _ s']) simp
qed

section \<open>Paths that name no program\<close>

text \<open>
  C15. Loading a program that is not there has no result: for a path that is too long or without a drive,
  and for the name of a file the root directory does not have, \<open>process_load\<close> makes the process and calls
  \<open>fopen\<close>, which returns, and then follows a bad pointer. In the first case it is the null pointer \<open>fopen\<close>
  returned, on the way to the error exit; in the second the error code \<open>fopen\<close> took for a file. So the
  error \<open>kmain\<close> would panic on never reaches it.
\<close>

theorem process_load_unopened:
  fixes s :: "'a process_state_scheme"
  assumes "heap_wf (kernel_heap s)" and "has_run (kernel_heap s) 9" and "held s path t"
    and "null_slot (processes s) 0 = Some slot" and "slot < 1024"
    and "256 < length t \<or> \<not> valid_drive t
      \<or> (\<exists>name fp i. simple_path s path name \<and> filesystem (the_disk s) = Some Fat16_Fs \<and> disk_private s = Some fp \<and> root_held s fp
          \<and> root_find s fp name = None \<and> null_slot (file_descriptors s) 0 = Some i \<and> i < 1023 \<and> fat_descs s (- 1) = None)"
  shows "\<exists>process s1 fd s2. kzalloc sizeof_process s = Some (process, s1) \<and> process \<noteq> 0
    \<and> fopen path (lit_mem ''r'') 0 (process_init process s1) = Some (fd, s2)
    \<and> (if 256 < length t \<or> \<not> valid_drive t then fd = 0
       else \<exists>d. fdescs s2 fd = Some d \<and> fd_private d = - 1 \<and> fstat (fd_index d) s2 = None)
    \<and> process_load path s = None"
proof -
  have bf: "blocks_for sizeof_process = 2" by (simp add: blocks_for_exact sizeof_process_def)
  have sz: "sizeof_process \<noteq> 0" "size_ok sizeof_process" by (simp_all add: sizeof_process_def size_ok_def)
  have run0: "has_run (kernel_heap s) (7 + blocks_for sizeof_process)" using assms(2) bf by simp
  obtain process h1 m1 where k: "kzalloc sizeof_process s = Some (process, s\<lparr>kernel_heap := h1, kmem := m1\<rparr>)" "process \<noteq> 0" "heap_wf h1"
    "has_run h1 7" "\<forall>a. in_region process sizeof_process a \<longrightarrow> free_byte (kernel_heap s) a \<and> \<not> free_byte h1 a \<and> m1 a = 0"
    "\<forall>a. \<not> free_byte (kernel_heap s) a \<longrightarrow> \<not> free_byte h1 a \<and> m1 a = kmem s a"
    using kzalloc_run [OF assms(1) sz run0] by blast
  obtain s2 where s2: "s2 = process_init process (s\<lparr>kernel_heap := h1, kmem := m1\<rparr>)" by blast
  have i2: "kernel_heap s2 = h1" "disk_image s2 = disk_image s" "the_disk s2 = the_disk s" "fat_privates s2 = fat_privates s"
    "file_descriptors s2 = file_descriptors s" "fat_descs s2 = fat_descs s" "disk_private s2 = disk_private s"
    by (simp_all add: s2 process_init_def disk_private_def)
  have m2: "kmem s2 a = (if in_region process sizeof_process a then 0 else m1 a)" for a
    by (simp add: s2 process_init_def memset_apply)
  have kp: "kept s s2" using k(5,6) by (auto simp: kept_def i2 m2)
  have load: "process_load path s = None" if "process_load_binary path process s2 = None"
    using that assms(4,5) null_slot_Some [OF assms(4)] k(1,2)
    by (simp add: process_load_def process_load_for_slot_def process_get_def process_load_data_def NUTSOS_MAX_PROCESSES_def Let_def s2)
  show ?thesis
  proof (cases "256 < length t \<or> \<not> valid_drive t")
    case True
    have "cstr (kmem s2) path t" using held_kept [OF assms(3) kp] by (simp add: held_def)
    from fopen_bad_path [OF this True] have o: "fopen path (lit_mem ''r'') 0 s2 = Some (0, s2\<lparr>errno := - EINVARG\<rparr>)" .
    then have "process_load_binary path process s2 = None" by (simp add: process_load_binary_def load_out_def)
    with load o True k(1,2) show ?thesis by (simp add: s2)
  next
    case False
    with assms(6) obtain name fp i where f: "simple_path s path name" "filesystem (the_disk s) = Some Fat16_Fs" "disk_private s = Some fp"
      "root_held s fp" "root_find s fp name = None" "null_slot (file_descriptors s) 0 = Some i" "i < 1023" "fat_descs s (- 1) = None"
      by blast
    have sp: "simple_path s2 path name" using f(1) held_kept [OF _ kp] by (auto simp: simple_path_def)
    have c: "cstr (lit_mem ''r'') 0 (114 # [])" by (simp add: lit_mem_def bytes_of_def)
    have r: "root_held s2 fp" "root_find s2 fp name = None" using root_find_kept [OF f(4) kp] f(5) by simp_all
    have g: "heap_wf (kernel_heap s2)" "7 \<le> free_count (blocks (kernel_heap s2))" using k(3) has_run_free_count [OF k(4)] by (simp_all add: i2)
    obtain fd s3 d where o: "fopen path (lit_mem ''r'') 0 s2 = Some (fd, s3)" "fd \<noteq> 0" "fdescs s3 fd = Some d" "fd_private d = - 1"
      "fd_index d = int i + 1" "fstat (int i + 1) s3 = None"
      using missing_file_opened [OF g sp c _ _ r, of i] f(2,3,6-8) by (auto simp: i2)
    then have "process_load_binary path process s2 = None" by (simp add: process_load_binary_def)
    with load have "process_load path s = None" .
    with o False k(1,2) show ?thesis
      by (intro exI [of _ process] exI [of _ "s\<lparr>kernel_heap := h1, kmem := m1\<rparr>"] exI [of _ fd] exI [of _ s3]) (simp add: s2)
  qed
qed

theorem process_load_unopened_witness:
  "process_load 0x1000 (blank_machine 64 tree_image [97, 58, 47]) = None"
proof -
  let ?s = "blank_machine 64 tree_image [97, 58, 47]"
  have h: "held ?s 0x1000 [97, 58, 47]" by (rule path_held [where N = 64]) simp_all
  have p: "heap_wf (kernel_heap ?s)" "has_run (kernel_heap ?s) 9" by (simp_all add: fresh_heap_wf)
  have v: "256 < length [97, 58, 47 :: u8] \<or> \<not> valid_drive [97, 58, 47]" by (simp add: valid_drive_def isdigit_def)
  have slot: "null_slot (processes ?s) 0 = Some 0" using first_slot by simp
  have "0 < (1024 :: nat)" by simp
  note load = process_load_unopened [OF p h slot this]
  show ?thesis by (rule exE [OF load]) (use v in blast)+
qed

end
