(* ===== verification/Isr80h.thy ===== *)
theory Isr80h
  imports Process_Load
begin

text \<open>
  System calls (\<^verbatim>\<open>src/isr80h/\<close>) and the interrupt descriptor table with the handler of
  interrupt 0x80 (\<^verbatim>\<open>src/idt/\<close>).
\<close>

section \<open>Commands\<close>

datatype isr80h_command = Command_Sum | Command_Print

definition INT80H_COMMAND_SUM :: int where [const_defs]: "INT80H_COMMAND_SUM = 0"
definition INT80H_COMMAND_PRINT :: int where [const_defs]: "INT80H_COMMAND_PRINT = 1"
definition INT80H_COMMMAND_MAX :: int where [const_defs]: "INT80H_COMMMAND_MAX = 2"

record idt_desc =
  offset_low :: u16
  selector :: u16
  unused :: u8
  type_attr :: u8
  offset_high :: u16

record idtr_desc =
  idtr_limit :: u16
  idtr_base :: u32

record isr_state = process_state +
  isr80h_commands :: "isr80h_command option list"
  idt_descriptors :: "idt_desc list"
  idtr_descriptor :: idtr_desc
  idtr_loaded :: "idtr_desc option"
  ports_written :: "(u16 \<times> u8) list"

definition isr80h_command_sum :: "'a isr_state_scheme \<Rightarrow> (u32, 'a isr_state_scheme) outcome option" where
  "isr80h_command_sum s = Some (Returns 10 s)"

definition isr80h_command_print :: "'a isr_state_scheme \<Rightarrow> (u32, 'a isr_state_scheme) outcome option" where
  "isr80h_command_print s = do {
     r \<leftarrow> task_current_get_stack_item 0 s;
     (case r of
        Returns msg_ptr s1 \<Rightarrow> do {
          valid \<leftarrow> task_current_validate_pointer msg_ptr s1;
          (if \<not> valid then Some (Returns (- 1) s1)
           else do {
             s2 \<leftarrow> print (view s1) s1 msg_ptr;
             Some (Returns 0 s2)
           })
        }
      | Panics msg s1 \<Rightarrow> Some (Panics msg s1)
      | Enters_User c s1 \<Rightarrow> Some (Enters_User c s1))
   }"

definition isr80h_handle_command :: "int \<Rightarrow> 'a isr_state_scheme \<Rightarrow> (u32, 'a isr_state_scheme) outcome option" where
  "isr80h_handle_command command s =
     (if command < 0 \<or> command \<ge> INT80H_COMMMAND_MAX then Some (Returns 0 s)
      else case isr80h_commands s ! nat command of
        None \<Rightarrow> Some (Returns 0 s)
      | Some Command_Sum \<Rightarrow> isr80h_command_sum s
      | Some Command_Print \<Rightarrow> isr80h_command_print s)"

definition isr80h_register_command ::
    "int \<Rightarrow> isr80h_command \<Rightarrow> 'a isr_state_scheme \<Rightarrow> (unit, 'a isr_state_scheme) outcome" where
  "isr80h_register_command command_id command s =
     (if command_id < 0 \<or> command_id \<ge> INT80H_COMMMAND_MAX
      then panic (''The command is out of bounds'' @ [CHR 0x0A]) s
      else if isr80h_commands s ! nat command_id \<noteq> None
      then panic (''Your attempting to overwrite an existing command'' @ [CHR 0x0A]) s
      else Returns () (s\<lparr>isr80h_commands := (isr80h_commands s)[nat command_id := Some command]\<rparr>))"

text \<open>What follows a call that may panic.\<close>

definition andthen :: "('b, 's) outcome \<Rightarrow> ('b \<Rightarrow> 's \<Rightarrow> ('c, 's) outcome) \<Rightarrow> ('c, 's) outcome" where
  "andthen r f = (case r of Returns x s \<Rightarrow> f x s | Panics m s \<Rightarrow> Panics m s | Enters_User c s \<Rightarrow> Enters_User c s)"

definition isr80h_register_commands :: "'a isr_state_scheme \<Rightarrow> (unit, 'a isr_state_scheme) outcome" where
  "isr80h_register_commands s =
     andthen (isr80h_register_command INT80H_COMMAND_SUM Command_Sum s)
       (\<lambda>_ s1. isr80h_register_command INT80H_COMMAND_PRINT Command_Print s1)"

section \<open>The interrupt descriptor table\<close>

definition NUTSOS_TOTAL_INTERRUPTS :: nat where [const_defs]: "NUTSOS_TOTAL_INTERRUPTS = 512"
definition IDT_ATTR_INT32 :: u8 where [const_defs]: "IDT_ATTR_INT32 = 0b00001110"
definition IDT_ATTR_PRESENT :: u8 where [const_defs]: "IDT_ATTR_PRESENT = 0b10000000"
definition IDT_ATTR_RING :: "u8 \<Rightarrow> u8" where "IDT_ATTR_RING v = push_bit 5 (v AND 0b00000011)"
definition IDT_OFFSET_LOW :: "u32 \<Rightarrow> u16" where "IDT_OFFSET_LOW v = ucast (v AND 0x0000FFFF)"
definition IDT_OFFSET_HIGH :: "u32 \<Rightarrow> u16" where "IDT_OFFSET_HIGH v = ucast (drop_bit 16 v)"

definition idt_entry :: "u32 \<Rightarrow> idt_desc" where
  "idt_entry address = \<lparr>offset_low = IDT_OFFSET_LOW address, selector = ucast GDT_KERNEL_CODE_OFFSET, unused = 0,
     type_attr = IDT_ATTR_PRESENT OR IDT_ATTR_INT32 OR IDT_ATTR_RING 3, offset_high = IDT_OFFSET_HIGH address\<rparr>"

definition idt_set :: "nat \<Rightarrow> u32 \<Rightarrow> 'a isr_state_scheme \<Rightarrow> 'a isr_state_scheme option" where
  "idt_set interrupt_no address s =
     (if interrupt_no < length (idt_descriptors s)
      then Some (s\<lparr>idt_descriptors := (idt_descriptors s)[interrupt_no := idt_entry address]\<rparr>) else None)"

text \<open>
  The addresses the linker gives the handlers and the table: parameters of the model.
\<close>

record link_map =
  addr_no_interrupt :: u32
  addr_idt_zero :: u32
  addr_int21h :: u32
  addr_isr80h_wrapper :: u32
  addr_idt_descriptors :: u32
  addr_tss :: u32
  addr_gdt_raw :: u32
  addr_filename :: u32

fun idt_fill :: "u32 \<Rightarrow> nat \<Rightarrow> nat \<Rightarrow> 'a isr_state_scheme \<Rightarrow> 'a isr_state_scheme option" where
  "idt_fill address i 0 s = Some s"
| "idt_fill address i (Suc n) s = do {
     s1 \<leftarrow> idt_set i address s;
     idt_fill address (Suc i) n s1
   }"

definition zero_desc :: idt_desc where
  "zero_desc = \<lparr>offset_low = 0, selector = 0, unused = 0, type_attr = 0, offset_high = 0\<rparr>"

definition idt_init :: "link_map \<Rightarrow> 'a isr_state_scheme \<Rightarrow> 'a isr_state_scheme option" where
  "idt_init l s = do {
     let s1 = s\<lparr>idt_descriptors := replicate NUTSOS_TOTAL_INTERRUPTS zero_desc,
                idtr_descriptor := \<lparr>idtr_limit = of_nat (8 * NUTSOS_TOTAL_INTERRUPTS - 1),
                                    idtr_base = addr_idt_descriptors l\<rparr>\<rparr>;
     s2 \<leftarrow> idt_fill (addr_no_interrupt l) 0 NUTSOS_TOTAL_INTERRUPTS s1;
     s3 \<leftarrow> idt_set 0x00 (addr_idt_zero l) s2;
     s4 \<leftarrow> idt_set 0x21 (addr_int21h l) s3;
     s5 \<leftarrow> idt_set 0x80 (addr_isr80h_wrapper l) s4;
     Some (s5\<lparr>idtr_loaded := Some (idtr_descriptor s5)\<rparr>)
   }"

section \<open>Handlers\<close>

definition outb :: "u16 \<Rightarrow> u8 \<Rightarrow> 'a isr_state_scheme \<Rightarrow> 'a isr_state_scheme" where
  "outb p v s = s\<lparr>ports_written := ports_written s @ [(p, v)]\<rparr>"

definition int21h_handler :: "'a isr_state_scheme \<Rightarrow> 'a isr_state_scheme" where
  "int21h_handler s = outb 0x20 0x20 (print_lit s (''Keyboard pressed!'' @ [CHR 0x0A]))"

definition no_interrupt_handler :: "'a isr_state_scheme \<Rightarrow> 'a isr_state_scheme" where
  "no_interrupt_handler s = outb 0x20 0x20 s"

definition idt_zero :: "'a isr_state_scheme \<Rightarrow> 'a isr_state_scheme" where
  "idt_zero s = print_lit s (''Divide by zero error'' @ [CHR 0x0A])"

definition isr80h_handler ::
    "int \<Rightarrow> interrupt_frame \<Rightarrow> 'a isr_state_scheme \<Rightarrow> (u32, 'a isr_state_scheme) outcome option" where
  "isr80h_handler command frame s = do {
     r \<leftarrow> task_current_save_state frame s;
     (case r of
        Returns u s1 \<Rightarrow> isr80h_handle_command command s1
      | Panics msg s1 \<Rightarrow> Some (Panics msg s1)
      | Enters_User c s1 \<Rightarrow> Some (Enters_User c s1))
   }"

text \<open>
  \<open>isr80h_wrapper\<close> (\<^verbatim>\<open>idt.asm\<close>): the frame's \<open>eax\<close> is the command, and the caller resumes
  with its registers except for \<open>eax\<close>, the result.
\<close>

definition isr80h_wrapper ::
    "interrupt_frame \<Rightarrow> 'a isr_state_scheme \<Rightarrow> (interrupt_frame, 'a isr_state_scheme) outcome option" where
  "isr80h_wrapper frame s = do {
     r \<leftarrow> isr80h_handler (sint (f_eax frame)) frame s;
     Some (case r of
        Returns x s1 \<Rightarrow> Returns (frame\<lparr>f_eax := x\<rparr>) s1
      | Panics msg s1 \<Rightarrow> Panics msg s1
      | Enters_User c s1 \<Rightarrow> Enters_User c s1)
   }"

section \<open>The table after start-up\<close>

text \<open>Where a gate leads, and the handler each interrupt is meant to have.\<close>

definition idt_target :: "idt_desc \<Rightarrow> u32" where
  "idt_target d = ucast (offset_low d) OR push_bit 16 (ucast (offset_high d))"

definition handler_of :: "link_map \<Rightarrow> nat \<Rightarrow> u32" where
  "handler_of l i = (if i = 0 then addr_idt_zero l else if i = 0x21 then addr_int21h l
     else if i = 0x80 then addr_isr80h_wrapper l else addr_no_interrupt l)"

lemma idt_target_entry [simp]: "idt_target (idt_entry a) = a"
proof -
  have m: "(0x0000FFFF :: u32) = mask 16" by (simp add: mask_eq_exp_minus_1)
  show ?thesis
  proof (rule bit_word_eqI)
    fix n
    assume "n < LENGTH(32)"
    then show "bit (idt_target (idt_entry a)) n = bit a n"
      by (cases "n < 16") (auto simp: idt_target_def idt_entry_def IDT_OFFSET_LOW_def IDT_OFFSET_HIGH_def m bit_simps)
  qed
qed

lemma idt_entry_gate: "selector (idt_entry a) = 8" "type_attr (idt_entry a) = 0xEE" "unused (idt_entry a) = 0"
  by (simp_all add: idt_entry_def IDT_ATTR_RING_def const_defs)

lemma idt_fill_spec:
  "i + n \<le> length (idt_descriptors s) \<Longrightarrow> idt_fill a i n s
    = Some (s\<lparr>idt_descriptors := take i (idt_descriptors s) @ replicate n (idt_entry a) @ drop (i + n) (idt_descriptors s)\<rparr>)"
proof (induction n arbitrary: i s)
  case (Suc n)
  let ?ds = "idt_descriptors s"
  have i: "i < length ?ds" using Suc.prems by simp
  have "take (Suc i) (?ds[i := idt_entry a]) = take i ?ds @ [idt_entry a]"
    using i by (simp add: take_Suc_conv_app_nth)
  then show ?case using i Suc.prems Suc.IH [of "Suc i" "s\<lparr>idt_descriptors := ?ds[i := idt_entry a]\<rparr>"]
    by (simp add: idt_set_def)
qed simp

lemma idt_init_spec:
  "idt_init l s = Some (s\<lparr>idt_descriptors := map (\<lambda>i. idt_entry (handler_of l i)) [0..<512],
     idtr_descriptor := \<lparr>idtr_limit = 4095, idtr_base = addr_idt_descriptors l\<rparr>,
     idtr_loaded := Some \<lparr>idtr_limit = 4095, idtr_base = addr_idt_descriptors l\<rparr>\<rparr>)"
proof -
  have "map (\<lambda>i. idt_entry (handler_of l i)) [0..<512]
      = (replicate 512 (idt_entry (addr_no_interrupt l)))[0 := idt_entry (addr_idt_zero l),
          33 := idt_entry (addr_int21h l), 128 := idt_entry (addr_isr80h_wrapper l)]"
    by (rule nth_equalityI) (auto simp: handler_of_def nth_list_update)
  then show ?thesis by (simp add: idt_init_def idt_fill_spec idt_set_def NUTSOS_TOTAL_INTERRUPTS_def Let_def)
qed

text \<open>
  After \<open>idt_init\<close> the processor's register points at a full table of 512 gates. Divide
  error, keyboard and system call lead to their handlers and every other vector to the default
  one; every gate is a present 32-bit interrupt gate into the kernel's code segment, open to
  ring 3. Nothing but the table and its register changes.
\<close>

lemma idt_init_handlers:
  "\<exists>s'. idt_init l s = Some s'
    \<and> map idt_target (idt_descriptors s') = map (handler_of l) [0..<512]
    \<and> list_all (\<lambda>d. selector d = 8 \<and> type_attr d = 0xEE \<and> unused d = 0) (idt_descriptors s')
    \<and> idtr_loaded s' = Some \<lparr>idtr_limit = 4095, idtr_base = addr_idt_descriptors l\<rparr>
    \<and> s' = s\<lparr>idt_descriptors := idt_descriptors s', idtr_descriptor := idtr_descriptor s', idtr_loaded := idtr_loaded s'\<rparr>"
  by (simp add: idt_init_spec idt_entry_gate list_all_iff)

end
