(* ===== verification/Kernel.thy ===== *)
theory Kernel
  imports Isr80h
begin

text \<open>
  The boot sequence (\<^verbatim>\<open>src/kernel.c\<close>): terminal, descriptor tables, heap, filesystems, disk,
  interrupts, task state segment, paging, system calls and the first process.
\<close>

record tss =
  tss_link :: u32
  tss_esp0 :: u32
  tss_ss0 :: u32
  tss_esp1 :: u32
  tss_ss1 :: u32
  tss_esp2 :: u32
  tss_ss2 :: u32
  tss_cr3 :: u32
  tss_eip :: u32
  tss_eflags :: u32
  tss_eax :: u32
  tss_ecx :: u32
  tss_edx :: u32
  tss_ebx :: u32
  tss_esp :: u32
  tss_ebp :: u32
  tss_esi :: u32
  tss_edi :: u32
  tss_es :: u32
  tss_cs :: u32
  tss_ss :: u32
  tss_ds :: u32
  tss_fs :: u32
  tss_gs :: u32
  tss_ldtr :: u32
  tss_iopb :: u32

text \<open>What \<open>memset\<close> leaves.\<close>

definition zero_tss :: tss where
  "zero_tss = \<lparr>tss_link = 0, tss_esp0 = 0, tss_ss0 = 0, tss_esp1 = 0, tss_ss1 = 0, tss_esp2 = 0, tss_ss2 = 0, tss_cr3 = 0, tss_eip = 0,
     tss_eflags = 0, tss_eax = 0, tss_ecx = 0, tss_edx = 0, tss_ebx = 0, tss_esp = 0, tss_ebp = 0, tss_esi = 0, tss_edi = 0,
     tss_es = 0, tss_cs = 0, tss_ss = 0, tss_ds = 0, tss_fs = 0, tss_gs = 0, tss_ldtr = 0, tss_iopb = 0\<rparr>"

record kernel_state = isr_state +
  gdt_raw_table :: "gdt_raw list"
  gdtr_loaded :: "(u32 \<times> int) option"
  kernel_tss :: tss
  tr_loaded :: "u32 option"
  kernel_chunk :: u32

definition kprint :: "string \<Rightarrow> 'a kterm_scheme \<Rightarrow> 'a kterm_scheme" where
  "kprint msg s = print_lit (print_lit s ''[K] '') msg"

definition gdt_load :: "u32 \<Rightarrow> int \<Rightarrow> 'a kernel_state_scheme \<Rightarrow> 'a kernel_state_scheme" where
  "gdt_load tbl sz s = s\<lparr>gdtr_loaded := Some (tbl, sz)\<rparr>"

definition tss_load :: "u32 \<Rightarrow> 'a kernel_state_scheme \<Rightarrow> 'a kernel_state_scheme" where
  "tss_load segment s = s\<lparr>tr_loaded := Some segment\<rparr>"

definition nl :: string where "nl = [CHR 0x0A]"

text \<open>The steps up to the disks.\<close>

definition kmain_early :: "link_map \<Rightarrow> 'a kernel_state_scheme \<Rightarrow> 'a kernel_state_scheme option" where
  "kmain_early l s = do {
     let s1 = kprint (''Terminal initialized.'' @ nl) (terminal_initialize s);
     let s2 = kprint ''Setting up GDT...'' s1;
     raw \<leftarrow> get_raw_gdt_struct (kernel_gdt (addr_tss l));
     let s3 = gdt_load (addr_gdt_raw l) (8 * 6) (s2\<lparr>gdt_raw_table := raw\<rparr>);
     let s4 = kprint ''Initializing kernel heap...'' (kprint ('' done'' @ nl) s3);
     s5 \<leftarrow> kheap_init s4;
     let s6 = kprint ''Initializing file systems...'' (kprint ('' done'' @ nl) s5);
     let s7 = fs_init s6;
     let s8 = kprint ''Searching for disks...'' (kprint ('' done'' @ nl) s7);
     s9 \<leftarrow> disk_search_and_init s8;
     Some (kprint ('' done'' @ nl) s9)
   }"

text \<open>The steps from the interrupts to paging.\<close>

definition kmain_late :: "link_map \<Rightarrow> 'a kernel_state_scheme \<Rightarrow> 'a kernel_state_scheme option" where
  "kmain_late l s = do {
     let s1 = kprint ''Initializing interrupts...'' s;
     s2 \<leftarrow> idt_init l s1;
     let s3 = kprint ''Initializing TSS...'' (kprint ('' done'' @ nl) s2);
     let s4 = tss_load GDT_TSS_OFFSET (s3\<lparr>kernel_tss := zero_tss\<lparr>tss_ss0 := GDT_KERNEL_DATA_OFFSET, tss_esp0 := 0x00600000\<rparr>\<rparr>);
     let s5 = kprint ''Setting up paging...'' (kprint ('' done'' @ nl) s4);
     (c, s6) \<leftarrow> paging_chunk_new PAGING_TOTAL_DIR_ENTRIES PAGING_TOTAL_ENTRIES_PER_TABLE
       (ucast (PAGING_IS_WRITEABLE OR PAGING_IS_PRESENT OR PAGING_ACCESS_FROM_ALL)) s5;
     d \<leftarrow> paging_chunk_get_directory c s6;
     let s7 = enable_paging (paging_switch d (s6\<lparr>kernel_chunk := c\<rparr>));
     Some (kprint ''Registering system call interrupts...'' (kprint ('' done'' @ nl) s7))
   }"

definition kmain :: "link_map \<Rightarrow> u32 \<Rightarrow> 'a kernel_state_scheme \<Rightarrow> (unit, 'a kernel_state_scheme) outcome option" where
  "kmain l eflags s = do {
     s1 \<leftarrow> kmain_early l s;
     s2 \<leftarrow> kmain_late l s1;
     (case isr80h_register_commands s2 of
        Returns u s3 \<Rightarrow> do {
          let s4 = kprint (''Starting first process...'' @ nl @ nl) (kprint ('' done'' @ nl) s3);
          (res, process, s5) \<leftarrow> process_load (addr_filename l) s4;
          (if ISERR res then Some (panic ''Unable to load first task!'' s5)
           else do {
             p \<leftarrow> (if process = 0 then None else procs s5 process);
             r \<leftarrow> task_run_as_task0 eflags (p_task p) s5;
             (case r of
                Returns u s6 \<Rightarrow> Some (panic ''Process 0 terminated!'' s6)
              | Panics m s6 \<Rightarrow> Some (Panics m s6)
              | Enters_User c s6 \<Rightarrow> Some (Enters_User c s6))
           })
        }
      | Panics m s3 \<Rightarrow> Some (Panics m s3)
      | Enters_User c s3 \<Rightarrow> Some (Enters_User c s3))
   }"

end
