(* ===== verification/Boot.thy ===== *)
theory Boot
  imports Kernel
begin

text \<open>
  What starting the kernel achieves: the tables the processor uses, the mounted disk, the
  identity-mapped address space, and at last a program running in user mode.
\<close>

section \<open>Messages\<close>

text \<open>
  The terminal writes within the bytes a 16-bit row can address from 0xB8000 on. All of them lie
  below the pool of the heap.
\<close>

definition window :: "u32 \<Rightarrow> bool" where
  "window a \<longleftrightarrow> in_region 0xB8000 10485760 a"

definition screen_ok :: "'a kterm_scheme \<Rightarrow> bool" where
  "screen_ok s \<longleftrightarrow> video_mem s = 0xB8000 \<and> cursor_ok s"

definition printed :: "'a kterm_scheme \<Rightarrow> 'a kterm_scheme \<Rightarrow> bool" where
  "printed s s' \<longleftrightarrow> screen_ok s' \<and> (\<exists>m r c. s' = s\<lparr>kmem := m, terminal_row := r, terminal_col := c\<rparr>)
     \<and> (\<forall>a. \<not> window a \<longrightarrow> kmem s' a = kmem s a)"

lemma printed_refl: "screen_ok s \<Longrightarrow> printed s s"
proof -
  have "s = s\<lparr>kmem := kmem s, terminal_row := terminal_row s, terminal_col := terminal_col s\<rparr>" by simp
  then show "screen_ok s \<Longrightarrow> printed s s" unfolding printed_def by blast
qed

lemma printed_trans:
  assumes "printed s s'" and "printed s' s''"
  shows "printed s s''"
proof -
  obtain m r c where 1: "s' = s\<lparr>kmem := m, terminal_row := r, terminal_col := c\<rparr>" using assms(1) by (auto simp: printed_def)
  obtain m' r' c' where 2: "s'' = s'\<lparr>kmem := m', terminal_row := r', terminal_col := c'\<rparr>" using assms(2) by (auto simp: printed_def)
  have "s'' = s\<lparr>kmem := m', terminal_row := r', terminal_col := c'\<rparr>" unfolding 2 1 by simp
  moreover have "kmem s'' a = kmem s a" if "\<not> window a" for a using assms that by (simp add: printed_def)
  ultimately show ?thesis using assms(2) unfolding printed_def by blast
qed

lemma putchar_shape: "\<exists>m. terminal_putchar s x y c k = s\<lparr>kmem := m\<rparr>"
  unfolding terminal_putchar_def by blast

lemma writechar_shape: "\<exists>m r c. terminal_writechar s ch k = s\<lparr>kmem := m, terminal_row := r, terminal_col := c\<rparr>"
proof -
  have id: "s = s\<lparr>kmem := kmem s, terminal_row := terminal_row s, terminal_col := terminal_col s\<rparr>" by simp
  obtain m where m: "terminal_putchar s (uint (terminal_col s)) (uint (terminal_row s)) ch k = s\<lparr>kmem := m\<rparr>"
    using putchar_shape by blast
  have 1: "s\<lparr>terminal_row := r, terminal_col := c\<rparr> = s\<lparr>kmem := kmem s, terminal_row := r, terminal_col := c\<rparr>" for r c by simp
  have 2: "s\<lparr>kmem := m, terminal_col := c\<rparr> = s\<lparr>kmem := m, terminal_row := terminal_row s, terminal_col := c\<rparr>" for c by simp
  show ?thesis
  proof (cases "ch = 10")
    case True
    then have "terminal_writechar s ch k = s\<lparr>kmem := kmem s, terminal_row := terminal_row s + 1, terminal_col := 0\<rparr>"
      by (simp add: terminal_writechar_def)
    then show ?thesis by blast
  next
    case False
    then have w: "terminal_writechar s ch k = (if VGA_WIDTH \<le> uint (terminal_col s + 1)
        then s\<lparr>kmem := m, terminal_row := terminal_row s + 1, terminal_col := 0\<rparr>
        else s\<lparr>kmem := m, terminal_row := terminal_row s, terminal_col := terminal_col s + 1\<rparr>)"
      by (simp add: terminal_writechar_def m Let_def)
    show ?thesis unfolding w by (cases "VGA_WIDTH \<le> uint (terminal_col s + 1)") (simp_all only: if_True if_False, blast+)
  qed
qed

lemma printed_writechar: "screen_ok s \<Longrightarrow> printed s (terminal_writechar s c k)"
  using writechar_shape [of s c k] by (simp add: printed_def screen_ok_def writechar_cursor_ok writechar_frame window_def)

lemma printed_bytes: "screen_ok s \<Longrightarrow> printed s (print_bytes s cs)"
proof (induction cs arbitrary: s)
  case Nil
  then show ?case by (simp add: printed_refl)
next
  case (Cons c cs)
  have p: "printed s (terminal_writechar s c 15)" using printed_writechar [OF Cons.prems] .
  then have "screen_ok (terminal_writechar s c 15)" by (simp add: printed_def)
  from printed_trans [OF p Cons.IH [OF this]] show ?case by simp
qed

lemma printed_screen: "printed s s' \<Longrightarrow> screen_ok s'"
  by (simp add: printed_def)

lemma printed_lit: "screen_ok s \<Longrightarrow> printed s (print_lit s msg)"
  unfolding print_lit_def by (rule printed_bytes)

lemma printed_kprint:
  assumes "screen_ok s"
  shows "printed s (kprint msg s)"
  unfolding kprint_def
  using printed_trans [OF printed_lit [OF assms] printed_lit [OF printed_screen [OF printed_lit [OF assms]]]] .

text \<open>The messages between two steps: one that is done and one that announces the next.\<close>

lemma printed_kprint2:
  assumes "screen_ok s"
  shows "printed s (kprint msg (kprint msg' s))"
  using printed_trans [OF printed_kprint [OF assms] printed_kprint [OF printed_screen [OF printed_kprint [OF assms]]]] .

lemma putchar_frame:
  assumes "video_mem s = 0xB8000" and "0 \<le> x" and "x < 80" and "0 \<le> y" and "y < 65536" and "\<not> window a"
  shows "kmem (terminal_putchar s x y c k) a = kmem s a"
proof -
  let ?n = "nat (y * 80 + x)"
  have n: "2 * ?n + 1 < 10485760" using assms(2-5) by linarith
  have off: "a - 0xB8000 \<noteq> of_nat j" if "j < 10485760" for j
  proof
    assume "a - 0xB8000 = of_nat j"
    then have "unat (a - 0xB8000) = j" using that by (simp add: unat_of_nat)
    with assms(6) that show False by (simp add: window_def in_region_def word_less_nat_alt)
  qed
  have "word_of_int (y * VGA_WIDTH + x) = (of_nat ?n :: u32)" using assms(2,4) by (simp add: of_nat_nat VGA_WIDTH_def)
  then have addr: "video_mem s + 2 * word_of_int (y * VGA_WIDTH + x) = 0xB8000 + of_nat (2 * ?n)" using assms(1) by simp
  have "a \<noteq> 0xB8000 + of_nat (2 * ?n)" "a \<noteq> 0xB8000 + of_nat (2 * ?n) + 1"
    using off [of "2 * ?n"] off [of "2 * ?n + 1"] n by (auto simp: algebra_simps)
  then show ?thesis unfolding terminal_putchar_def addr by (simp add: write16_outside)
qed

text \<open>Clearing the screen.\<close>

lemma initialize_spec:
  "\<exists>m. terminal_initialize s = s\<lparr>kmem := m, video_mem := 0xB8000, terminal_row := 0, terminal_col := 0\<rparr>
    \<and> (\<forall>a. \<not> window a \<longrightarrow> m a = kmem s a)"
proof -
  have row: "\<exists>m. fold (\<lambda>x s. terminal_putchar s x y 32 0) xs t = t\<lparr>kmem := m\<rparr> \<and> (\<forall>a. \<not> window a \<longrightarrow> m a = kmem t a)"
    if "\<forall>x \<in> set xs. 0 \<le> x \<and> x < 80" "0 \<le> y" "y < 65536" "video_mem t = 0xB8000" for xs y and t :: "'a kterm_scheme"
    using that
  proof (induction xs arbitrary: t)
    case Nil
    then show ?case by (intro exI [of _ "kmem t"]) simp
  next
    case (Cons x xs)
    obtain m1 where m1: "terminal_putchar t x y 32 0 = t\<lparr>kmem := m1\<rparr>" using putchar_shape by blast
    have f: "\<not> window a \<Longrightarrow> m1 a = kmem t a" for a
      using putchar_frame [of t x y a 32 0] Cons.prems m1 by simp
    obtain m where "fold (\<lambda>x s. terminal_putchar s x y 32 0) xs (t\<lparr>kmem := m1\<rparr>) = (t\<lparr>kmem := m1\<rparr>)\<lparr>kmem := m\<rparr>"
      "\<forall>a. \<not> window a \<longrightarrow> m a = kmem (t\<lparr>kmem := m1\<rparr>) a"
      using Cons.IH [of "t\<lparr>kmem := m1\<rparr>"] Cons.prems by auto
    with f show ?case by (intro exI [of _ m]) (simp add: m1)
  qed
  have all: "\<exists>m. fold (\<lambda>y s. fold (\<lambda>x s. terminal_putchar s x y 32 0) [0..VGA_WIDTH - 1] s) ys t = t\<lparr>kmem := m\<rparr>
      \<and> (\<forall>a. \<not> window a \<longrightarrow> m a = kmem t a)"
    if "\<forall>y \<in> set ys. 0 \<le> y \<and> y < 65536" "video_mem t = 0xB8000" for ys and t :: "'a kterm_scheme"
    using that
  proof (induction ys arbitrary: t)
    case Nil
    then show ?case by (intro exI [of _ "kmem t"]) simp
  next
    case (Cons y ys)
    have "\<forall>x \<in> set [0..VGA_WIDTH - 1]. 0 \<le> x \<and> x < 80" by (simp add: VGA_WIDTH_def)
    then obtain m1 where m1: "fold (\<lambda>x s. terminal_putchar s x y 32 0) [0..VGA_WIDTH - 1] t = t\<lparr>kmem := m1\<rparr>"
      "\<forall>a. \<not> window a \<longrightarrow> m1 a = kmem t a" using row [of "[0..VGA_WIDTH - 1]" y t] Cons.prems by auto
    obtain m where "fold (\<lambda>y s. fold (\<lambda>x s. terminal_putchar s x y 32 0) [0..VGA_WIDTH - 1] s) ys (t\<lparr>kmem := m1\<rparr>) = (t\<lparr>kmem := m1\<rparr>)\<lparr>kmem := m\<rparr>"
      "\<forall>a. \<not> window a \<longrightarrow> m a = kmem (t\<lparr>kmem := m1\<rparr>) a"
      using Cons.IH [of "t\<lparr>kmem := m1\<rparr>"] Cons.prems by auto
    with m1 show ?case by (intro exI [of _ m]) simp
  qed
  obtain m where "fold (\<lambda>y s. fold (\<lambda>x s. terminal_putchar s x y 32 0) [0..VGA_WIDTH - 1] s) [0..VGA_HEIGHT - 1]
      (s\<lparr>video_mem := 0xB8000, terminal_row := 0, terminal_col := 0\<rparr>)
      = (s\<lparr>video_mem := 0xB8000, terminal_row := 0, terminal_col := 0\<rparr>)\<lparr>kmem := m\<rparr>" "\<forall>a. \<not> window a \<longrightarrow> m a = kmem s a"
    using all [of "[0..VGA_HEIGHT - 1]" "s\<lparr>video_mem := 0xB8000, terminal_row := 0, terminal_col := 0\<rparr>"]
    by (auto simp: VGA_HEIGHT_def)
  then show ?thesis by (intro exI [of _ m]) (simp add: terminal_initialize_def Let_def)
qed

lemma window_low: "window a \<Longrightarrow> unat a < 0x01000000"
proof -
  assume "window a"
  then have "unat (a - 0xB8000) < 10485760" by (simp add: window_def in_region_def word_less_nat_alt)
  then show ?thesis by (simp add: unat_sub_if' split: if_splits)
qed

lemma window_taken: "window a \<Longrightarrow> n < 524288 \<Longrightarrow> \<not> free_byte (fresh_heap n) a"
  using window_low fresh_low by blast

lemma printed_fields:
  fixes s :: "'a fs_state_scheme"
  assumes "printed s s'"
  shows "kernel_heap s' = kernel_heap s" "chunks s' = chunks s" "cr3 s' = cr3 s" "cr0_pg s' = cr0_pg s"
    "current_directory s' = current_directory s" "disk_image s' = disk_image s" "the_disk s' = the_disk s" "streams s' = streams s"
    "fat_privates s' = fat_privates s" "fat_descs s' = fat_descs s" "filesystems s' = filesystems s"
    "file_descriptors s' = file_descriptors s" "fs_state.more s' = fs_state.more s"
  using assms by (auto simp: printed_def)

lemma more_fields:
  fixes s s' :: "'a kernel_state_scheme"
  assumes "fs_state.more s' = fs_state.more s"
  shows "tasks s' = tasks s" "current_task s' = current_task s" "task_head s' = task_head s" "task_tail s' = task_tail s"
    "processes s' = processes s" "procs s' = procs s" "isr80h_commands s' = isr80h_commands s" "idt_descriptors s' = idt_descriptors s"
    "idtr_loaded s' = idtr_loaded s" "gdt_raw_table s' = gdt_raw_table s" "gdtr_loaded s' = gdtr_loaded s"
    "kernel_tss s' = kernel_tss s" "tr_loaded s' = tr_loaded s" "kernel_chunk s' = kernel_chunk s"
  using assms by (cases s; cases s'; simp)+

section \<open>Up to the disks\<close>

text \<open>The root directory as it lies on the disk.\<close>

definition root_image :: "(nat \<Rightarrow> u8) \<Rightarrow> nat \<Rightarrow> u8 list" where
  "root_image img n = map (\<lambda>i. img (512 * root_sector img + i)) [0..<32 * live_entries img n]"

text \<open>Memory the kernel leaves alone while it starts: outside the pool and the terminal's window.\<close>

definition spared :: "u32 \<Rightarrow> bool" where
  "spared a \<longleftrightarrow> \<not> window a \<and> \<not> free_byte (fresh_heap 131072) a"

lemma low_spared:
  assumes "k < 0xB8000"
  shows "spared (of_nat k)"
proof -
  have k: "unat (of_nat k :: u32) = k" using assms by (intro unat_of_nat_small) simp
  have "\<not> free_byte (fresh_heap 131072) (of_nat k)" using assms k by (intro fresh_low) simp_all
  moreover have "\<not> window (of_nat k)" using assms k by (simp add: window_def in_region_def word_less_nat_alt unat_sub_if')
  ultimately show ?thesis by (simp add: spared_def)
qed

lemma root_mounted:
  fixes s :: "'a fat_state_scheme"
  assumes "fat_volume (disk_image s) n"
    and "\<forall>i < root_bytes (disk_image s). \<not> free_byte (kernel_heap s) (dir + of_nat i)
        \<and> kmem s (dir + of_nat i) = disk_image s (512 * root_sector (disk_image s) + i)"
  shows "root_held s (mounted_private (disk_image s) n dir crs frs drs)"
    and "root_listing s (mounted_private (disk_image s) n dir crs frs drs) = root_image (disk_image s) n"
    and "32 * live_entries (disk_image s) n < 2147483648"
proof -
  let ?img = "disk_image s"
  have "live_entries ?img n \<le> n" unfolding live_entries_def by (metis diff_zero length_filter_le length_upt)
  moreover have "32 * n < root_bytes ?img" "root_bytes ?img < 2147483648" using assms(1) by (simp_all add: fat_volume_def)
  ultimately have n: "32 * live_entries ?img n < root_bytes ?img" "32 * live_entries ?img n < 2147483648" by simp_all
  then show "32 * live_entries ?img n < 2147483648" by simp
  have "\<not> free_byte (kernel_heap s) (dir + 32 * of_nat k + of_nat i)" if "k < live_entries ?img n" "i < 32" for k i
    using spec [OF assms(2), of "32 * k + i"] that n(1) by (simp add: add.assoc)
  then show "root_held s (mounted_private ?img n dir crs frs drs)"
    by (simp add: root_held_def item_held_def mounted_private_def)
  show "root_listing s (mounted_private ?img n dir crs frs drs) = root_image ?img n"
    using assms(2) n(1) by (intro nth_equalityI) (simp_all add: root_listing_def root_image_def nth_read_bytes mounted_private_def)
qed

lemma kernel_gdt_decodes: "\<exists>rs. get_raw_gdt_struct (kernel_gdt a) = Some rs \<and> map decode_gdt_entry rs = kernel_gdt a"
proof (rule gdt_table_decodes)
  have "(0xFFFFFFFF :: u32) AND 0xFFF = 0xFFF" by simp
  then show "\<forall>g \<in> set (kernel_gdt a). gdt_limit g < 0x100000 \<or> 0x100000 < gdt_limit g \<and> gdt_limit g AND 0xFFF = 0xFFF"
    by (simp add: kernel_gdt_def sizeof_tss_def)
qed

lemma kmain_early_spec:
  fixes s :: "'a kernel_state_scheme"
  assumes "fat_volume (disk_image s) n" and "k + blocks_for (of_nat (root_bytes (disk_image s))) + 5 \<le> 131072"
  shows "\<exists>dir crs frs drs rs s'. kmain_early l s = Some s' \<and> screen_ok s' \<and> heap_wf (kernel_heap s') \<and> has_run (kernel_heap s') k
    \<and> fat_ok s' (mounted_private (disk_image s) n dir crs frs drs) \<and> filesystem (the_disk s') = Some Fat16_Fs
    \<and> disk_image s' = disk_image s \<and> file_descriptors s' = replicate 1024 0
    \<and> map decode_gdt_entry rs = kernel_gdt (addr_tss l)
    \<and> fs_state.more s' = fs_state.more (s\<lparr>gdt_raw_table := rs, gdtr_loaded := Some (addr_gdt_raw l, 48)\<rparr>)
    \<and> (\<forall>a. \<not> free_byte (fresh_heap 131072) a \<longrightarrow> \<not> free_byte (kernel_heap s') a)
    \<and> (\<forall>a. spared a \<longrightarrow> kmem s' a = kmem s a)
    \<and> (\<forall>i < root_bytes (disk_image s). \<not> window (dir + of_nat i) \<and> \<not> free_byte (kernel_heap s') (dir + of_nat i)
        \<and> kmem s' (dir + of_nat i) = disk_image s (512 * root_sector (disk_image s) + i))"
proof -
  obtain m0 where m0: "terminal_initialize s = s\<lparr>kmem := m0, video_mem := 0xB8000, terminal_row := 0, terminal_col := 0\<rparr>"
    "\<forall>a. \<not> window a \<longrightarrow> m0 a = kmem s a" using initialize_spec by blast
  obtain t0 where t0: "t0 = s\<lparr>kmem := m0, video_mem := 0xB8000, terminal_row := 0, terminal_col := 0\<rparr>" by blast
  have ok0: "screen_ok t0" by (simp add: t0 screen_ok_def cursor_ok_def VGA_WIDTH_def)
  obtain s2 where s2: "s2 = kprint ''Setting up GDT...'' (kprint (''Terminal initialized.'' @ nl) t0)" by blast
  have p2: "printed t0 s2" unfolding s2 by (rule printed_kprint2 [OF ok0])
  note f2 = printed_fields [OF p2]
  obtain rs where rs: "get_raw_gdt_struct (kernel_gdt (addr_tss l)) = Some rs" "map decode_gdt_entry rs = kernel_gdt (addr_tss l)"
    using kernel_gdt_decodes by blast
  obtain s3 where s3: "s3 = gdt_load (addr_gdt_raw l) (8 * 6) (s2\<lparr>gdt_raw_table := rs\<rparr>)" by blast
  have ok3: "screen_ok s3" using printed_screen [OF p2] by (simp add: s3 gdt_load_def screen_ok_def cursor_ok_def)
  obtain s4 where s4: "s4 = kprint ''Initializing kernel heap...'' (kprint ('' done'' @ nl) s3)" by blast
  have p4: "printed s3 s4" unfolding s4 by (rule printed_kprint2 [OF ok3])
  note f4 = printed_fields [OF p4]
  obtain s5 where s5: "s5 = s4\<lparr>kernel_heap := fresh_heap 131072\<rparr>" by blast
  have ok5: "screen_ok s5" using printed_screen [OF p4] by (simp add: s5 screen_ok_def cursor_ok_def)
  obtain s6 where s6: "s6 = kprint ''Initializing file systems...'' (kprint ('' done'' @ nl) s5)" by blast
  have p6: "printed s5 s6" unfolding s6 by (rule printed_kprint2 [OF ok5])
  note f6 = printed_fields [OF p6]
  obtain s7 where s7: "s7 = fs_init s6" by blast
  have ok7: "screen_ok s7" using printed_screen [OF p6]
    by (simp add: s7 fs_init_def fs_insert_filesystem_def screen_ok_def cursor_ok_def Let_def split: option.splits)
  obtain s8 where s8: "s8 = kprint ''Searching for disks...'' (kprint ('' done'' @ nl) s7)" by blast
  have p8: "printed s7 s8" unfolding s8 by (rule printed_kprint2 [OF ok7])
  note f8 = printed_fields [OF p8]
  have h8: "kernel_heap s8 = fresh_heap 131072" "disk_image s8 = disk_image s" "filesystems s8 = Some Fat16_Fs # replicate 15 None"
    "file_descriptors s8 = replicate 1024 0"
    using f8 f6 f4 f2 by (simp_all add: s7 fs_init_simps s5 s3 gdt_load_def t0)
  have more8: "fs_state.more s8 = fs_state.more (s\<lparr>gdt_raw_table := rs, gdtr_loaded := Some (addr_gdt_raw l, 48)\<rparr>)"
  proof -
    have "fs_state.more s8 = fs_state.more s3" using f8(13) f6(13) f4(13) by (simp add: s7 fs_init_simps s5)
    also have "\<dots> = fs_state.more (s\<lparr>gdt_raw_table := rs, gdtr_loaded := Some (addr_gdt_raw l, 48)\<rparr>)"
      using p2 by (cases s) (auto simp: printed_def s3 gdt_load_def t0)
    finally show ?thesis .
  qed
  have mem8: "kmem s8 a = kmem s a" if "\<not> window a" for a
    using p8 p6 p4 p2 that m0(2) by (simp add: printed_def s7 fs_init_simps s5 s3 gdt_load_def t0)
  have pre: "heap_wf (kernel_heap s8)" "fat_volume (disk_image s8) n"
    "has_run (kernel_heap s8) (k + blocks_for (of_nat (root_bytes (disk_image s8))) + 5)"
    using assms by (simp_all add: h8 fresh_heap_wf)
  obtain dir crs frs drs s9 where d: "disk_search_and_init s8 = Some s9" "fat_ok s9 (mounted_private (disk_image s8) n dir crs frs drs)"
    "filesystem (the_disk s9) = Some Fat16_Fs" "heap_wf (kernel_heap s9)" "has_run (kernel_heap s9) k" "kept s8 s9"
    "disk_image s9 = disk_image s8" "file_descriptors s9 = file_descriptors s8" "fdescs s9 = fdescs s8" "fat_descs s9 = fat_descs s8"
    "fs_state.more s9 = fs_state.more s8" "video_mem s9 = video_mem s8" "terminal_row s9 = terminal_row s8" "terminal_col s9 = terminal_col s8"
    "\<forall>i < root_bytes (disk_image s8). free_byte (kernel_heap s8) (dir + of_nat i) \<and> \<not> free_byte (kernel_heap s9) (dir + of_nat i)
        \<and> kmem s9 (dir + of_nat i) = disk_image s8 (512 * root_sector (disk_image s8) + i)"
    using disk_search_spec [OF pre h8(3)] by (elim exE conjE) (rule that)
  have ok9: "screen_ok s9" using printed_screen [OF p8] d(12-14) by (simp add: screen_ok_def cursor_ok_def)
  obtain s10 where s10: "s10 = kprint ('' done'' @ nl) s9" by blast
  have p10: "printed s9 s10" unfolding s10 by (rule printed_kprint [OF ok9])
  note f10 = printed_fields [OF p10]
  have h: "kheap_init s4 = Some s5" by (simp add: kheap_init_fresh s5)
  have run: "kmain_early l s = Some s10"
    unfolding kmain_early_def Let_def m0(1) t0 [symmetric] s2 [symmetric] rs(1) bind.bind_lunit s3 [symmetric] s4 [symmetric] h
      s6 [symmetric] s7 [symmetric] s8 [symmetric] d(1) s10 [symmetric] ..
  have ok: "fat_ok s10 (mounted_private (disk_image s) n dir crs frs drs)"
    using d(2) f10(7-9) by (simp add: fat_ok_def disk_private_def stream_ok_def h8(2))
  have mem: "kmem s10 a = kmem s a" if "spared a" for a
    using p10 d(6) mem8 that by (simp add: printed_def spared_def kept_def h8(1))
  have taken: "\<not> free_byte (kernel_heap s10) a" if "\<not> free_byte (fresh_heap 131072) a" for a
    using d(6) that by (simp add: kept_def h8(1) f10(1))
  have root: "\<not> window (dir + of_nat i) \<and> \<not> free_byte (kernel_heap s10) (dir + of_nat i)
      \<and> kmem s10 (dir + of_nat i) = disk_image s (512 * root_sector (disk_image s) + i)" if "i < root_bytes (disk_image s)" for i
  proof -
    have b: "free_byte (fresh_heap 131072) (dir + of_nat i)" "\<not> free_byte (kernel_heap s9) (dir + of_nat i)"
      "kmem s9 (dir + of_nat i) = disk_image s (512 * root_sector (disk_image s) + i)" using d(15) that by (simp_all add: h8)
    have "\<not> window (dir + of_nat i)" using window_taken [of _ 131072] b(1) by auto
    then show ?thesis using b p10 by (simp add: printed_def f10(1))
  qed
  show ?thesis
    using run printed_screen [OF p10] f10 ok d(3-5,7,8,11) rs(2) more8 h8(2,4) mem taken root
    by (rule_tac exI [of _ dir], rule_tac exI [of _ crs], rule_tac exI [of _ frs], rule_tac exI [of _ drs], rule_tac exI [of _ rs],
        rule_tac exI [of _ s10]) simp
qed

section \<open>From the interrupts to paging\<close>

lemma dir_entries_used:
  assumes "dir_entries_loop d 1024 flags offset i n s = Some s'" and "heap_wf (kernel_heap s)"
  shows "heap_used n (kernel_heap s) (kernel_heap s') \<and> heap_wf (kernel_heap s')"
  using assms
proof (induction n arbitrary: offset i s)
  case (Suc n)
  obtain entry s1 s2 s3 where st: "kzalloc 4096 s = Some (entry, s1)" "page_entries_loop entry offset flags 0 1024 s1 = Some s2"
    "poke32 d (of_nat i) (entry OR (flags OR PAGING_IS_WRITEABLE)) s2 = Some s3"
    "dir_entries_loop d 1024 flags (offset + word_of_int 1024 * PAGING_PAGE_SIZE) (Suc i) n s3 = Some s'"
    using Suc.prems(1) by (auto simp: bind_eq_Some_conv)
  have sz: "(4096 :: u32) \<noteq> 0" "size_ok 4096" "blocks_for 4096 = 1" using blocks_for_small [of 4096] by (simp_all add: size_ok_def)
  have h: "kernel_heap s3 = kernel_heap s1"
    using page_entries_loop_upd [OF st(2)] st(3) by (auto simp: poke32_def split: if_splits)
  have u: "heap_used 1 (kernel_heap s) (kernel_heap s1)" using kzalloc_used [OF Suc.prems(2) sz(1,2) st(1)] sz(3) by simp
  have "heap_wf (kernel_heap s3)" using kz.alloc_ok [OF Suc.prems(2) sz(2) st(1)] h by simp
  from Suc.IH [OF st(4) this] h have "heap_used n (kernel_heap s1) (kernel_heap s')" "heap_wf (kernel_heap s')" by simp_all
  with u show ?case using heap_used_trans [of 1 _ "kernel_heap s1" n _ "Suc n"] by simp
qed simp

lemma paging_chunk_new_used:
  assumes "paging_chunk_new 1024 1024 flags s = Some (c, s')" and "heap_wf (kernel_heap s)"
  shows "heap_used 1026 (kernel_heap s) (kernel_heap s')"
proof -
  obtain d s1 s2 s3 where st: "kzalloc 4096 s = Some (d, s1)" "dir_entries_loop d 1024 (ucast flags) 0 0 1024 s1 = Some s2"
    "kzalloc sizeof_paging_chunk s2 = Some (c, s3)" "kernel_heap s' = kernel_heap s3"
    using assms(1) by (auto simp: paging_chunk_new_def bind_eq_Some_conv split: if_splits)
  have sz: "(4096 :: u32) \<noteq> 0" "size_ok 4096" "blocks_for 4096 = 1" "sizeof_paging_chunk \<noteq> 0" "size_ok sizeof_paging_chunk"
    "blocks_for sizeof_paging_chunk = 1"
    using blocks_for_small [of 4096] blocks_for_small [of sizeof_paging_chunk] by (simp_all add: size_ok_def sizeof_paging_chunk_def)
  have 1: "heap_used 1 (kernel_heap s) (kernel_heap s1)" using kzalloc_used [OF assms(2) sz(1,2) st(1)] sz(3) by simp
  note 2 = dir_entries_used [OF st(2) kz.alloc_ok [OF assms(2) sz(2) st(1)]]
  have 3: "heap_used 1 (kernel_heap s2) (kernel_heap s3)" using kzalloc_used [OF 2 [THEN conjunct2] sz(4,5) st(3)] sz(6) by simp
  have "heap_used 1025 (kernel_heap s) (kernel_heap s2)" using 1 2 [THEN conjunct1] by (rule heap_used_trans) simp
  then show ?thesis unfolding st(4) using 3 by (rule heap_used_trans) simp
qed

lemma identity_entry: "page_entry m d v = page_frame v OR 7 \<Longrightarrow> translate m d v = v"
proof -
  assume e: "page_entry m d v = page_frame v OR 7"
  have "page_frame (7 :: u32) = 0" by (rule page_frame_small) simp
  with mapped_translate [of m d v 0 0 7] e show ?thesis by simp
qed

lemma kmain_late_spec:
  fixes s :: "'a kernel_state_scheme"
  assumes "screen_ok s" and "heap_wf (kernel_heap s)" and "has_run (kernel_heap s) (k + 1026)"
    and "\<forall>a. window a \<longrightarrow> \<not> free_byte (kernel_heap s) a"
  shows "\<exists>c d s'. kmain_late l s = Some s' \<and> screen_ok s' \<and> heap_wf (kernel_heap s') \<and> has_run (kernel_heap s') k
    \<and> (\<forall>m. (\<forall>a. dir_byte (kmem s') d a \<longrightarrow> m a = kmem s' a) \<longrightarrow> (\<forall>v. page_entry m d v = page_frame v OR 7))
    \<and> (\<forall>a. dir_byte (kmem s') d a \<longrightarrow> \<not> window a \<and> \<not> free_byte (kernel_heap s') a)
    \<and> (\<forall>a. \<not> free_byte (kernel_heap s) a \<longrightarrow> \<not> free_byte (kernel_heap s') a)
    \<and> (\<forall>a. \<not> window a \<longrightarrow> \<not> free_byte (kernel_heap s) a \<longrightarrow> kmem s' a = kmem s a)
    \<and> (\<exists>h m cs r cl. s' = s\<lparr>kernel_heap := h, kmem := m, chunks := cs, terminal_row := r, terminal_col := cl,
        idt_descriptors := map (\<lambda>i. idt_entry (handler_of l i)) [0..<512],
        idtr_descriptor := \<lparr>idtr_limit = 4095, idtr_base = addr_idt_descriptors l\<rparr>,
        idtr_loaded := Some \<lparr>idtr_limit = 4095, idtr_base = addr_idt_descriptors l\<rparr>,
        kernel_tss := zero_tss\<lparr>tss_ss0 := 0x10, tss_esp0 := 0x00600000\<rparr>, tr_loaded := Some 0x28,
        kernel_chunk := c, cr3 := d, current_directory := d, cr0_pg := True\<rparr>)"
proof -
  obtain s1 where s1: "s1 = kprint ''Initializing interrupts...'' s" by blast
  have p1: "printed s s1" unfolding s1 by (rule printed_kprint [OF assms(1)])
  obtain m1 r1 c1 where e1: "s1 = s\<lparr>kmem := m1, terminal_row := r1, terminal_col := c1\<rparr>" using p1 by (auto simp: printed_def)
  obtain s2 where s2: "idt_init l s1 = Some s2" "s2 = s1\<lparr>idt_descriptors := map (\<lambda>i. idt_entry (handler_of l i)) [0..<512],
     idtr_descriptor := \<lparr>idtr_limit = 4095, idtr_base = addr_idt_descriptors l\<rparr>,
     idtr_loaded := Some \<lparr>idtr_limit = 4095, idtr_base = addr_idt_descriptors l\<rparr>\<rparr>" using idt_init_spec by blast
  have ok2: "screen_ok s2" using printed_screen [OF p1] by (simp add: s2(2) screen_ok_def cursor_ok_def)
  obtain s3 where s3: "s3 = kprint ''Initializing TSS...'' (kprint ('' done'' @ nl) s2)" by blast
  have p3: "printed s2 s3" unfolding s3 by (rule printed_kprint2 [OF ok2])
  obtain m3 r3 c3 where e3: "s3 = s2\<lparr>kmem := m3, terminal_row := r3, terminal_col := c3\<rparr>" using p3 by (auto simp: printed_def)
  obtain s4 where s4: "s4 = tss_load GDT_TSS_OFFSET (s3\<lparr>kernel_tss := zero_tss\<lparr>tss_ss0 := GDT_KERNEL_DATA_OFFSET, tss_esp0 := 0x00600000\<rparr>\<rparr>)" by blast
  have e4: "s4 = s3\<lparr>kernel_tss := zero_tss\<lparr>tss_ss0 := 0x10, tss_esp0 := 0x00600000\<rparr>, tr_loaded := Some 0x28\<rparr>"
    by (simp add: s4 tss_load_def const_defs)
  have ok4: "screen_ok s4" using printed_screen [OF p3] by (simp add: e4 screen_ok_def cursor_ok_def)
  obtain s5 where s5: "s5 = kprint ''Setting up paging...'' (kprint ('' done'' @ nl) s4)" by blast
  have p5: "printed s4 s5" unfolding s5 by (rule printed_kprint2 [OF ok4])
  obtain m5 r5 c5 where e5: "s5 = s4\<lparr>kmem := m5, terminal_row := r5, terminal_col := c5\<rparr>" using p5 by (auto simp: printed_def)
  have h5: "kernel_heap s5 = kernel_heap s" by (simp add: e5 e4 e3 s2(2) e1)
  have mem5: "kmem s5 a = kmem s a" if "\<not> window a" for a
    using p1 p3 p5 that by (simp add: printed_def s2(2) e4)
  have w5: "heap_wf (kernel_heap s5)" "1026 \<le> free_count (blocks (kernel_heap s5))"
    using assms(2) has_run_free_count [OF assms(3)] by (simp_all add: h5)
  obtain c d s6 where c: "paging_chunk_new 1024 1024 7 s5 = Some (c, s6)" "c \<noteq> 0"
    "chunks s6 = (chunks s5)(c \<mapsto> \<lparr>directory_entry = d, dir_count = 1024, entries_count = 1024\<rparr>)"
    "dir_wf (kmem s6) d" "heap_wf (kernel_heap s6)"
    "\<forall>v. page_entry (kmem s6) d v = page_frame v OR ucast (7 :: u8)"
    "\<forall>a. \<not> free_byte (kernel_heap s5) a \<longrightarrow> kmem s6 a = kmem s5 a \<and> \<not> free_byte (kernel_heap s6) a"
    "\<forall>a. page_frame a = d \<or> (\<exists>i < 1024. page_frame a = page_table (kmem s6) d i) \<longrightarrow>
        free_byte (kernel_heap s5) a \<and> \<not> free_byte (kernel_heap s6) a"
    using paging_chunk_new_spec [OF w5, of 7] by blast
  have fl: "(ucast (PAGING_IS_WRITEABLE OR PAGING_IS_PRESENT OR PAGING_ACCESS_FROM_ALL) :: u8) = 7" by (simp add: const_defs)
  have n: "PAGING_TOTAL_DIR_ENTRIES = 1024" "PAGING_TOTAL_ENTRIES_PER_TABLE = 1024" by (simp_all add: const_defs)
  obtain h6 m6 cs where e6: "s6 = s5\<lparr>kernel_heap := h6, kmem := m6, chunks := cs\<rparr>" using paging_chunk_new_upd [OF c(1)] by blast
  have dir: "paging_chunk_get_directory c s6 = Some d" by (simp add: paging_chunk_get_directory_def c(3))
  obtain s7 where s7: "s7 = enable_paging (paging_switch d (s6\<lparr>kernel_chunk := c\<rparr>))" by blast
  have e7: "s7 = s6\<lparr>kernel_chunk := c, cr3 := d, current_directory := d, cr0_pg := True\<rparr>"
    by (simp add: s7 enable_paging_def paging_switch_def paging_load_directory_def)
  have ok7: "screen_ok s7" using printed_screen [OF p5] by (simp add: e7 e6 screen_ok_def cursor_ok_def)
  obtain s8 where s8: "s8 = kprint ''Registering system call interrupts...'' (kprint ('' done'' @ nl) s7)" by blast
  have p8: "printed s7 s8" unfolding s8 by (rule printed_kprint2 [OF ok7])
  obtain m8 r8 c8 where e8: "s8 = s7\<lparr>kmem := m8, terminal_row := r8, terminal_col := c8\<rparr>" using p8 by (auto simp: printed_def)
  have run: "kmain_late l s = Some s8"
    unfolding kmain_late_def Let_def s1 [symmetric] s2(1) bind.bind_lunit s3 [symmetric] s4 [symmetric] s5 [symmetric] fl n c(1)
      prod.case dir s7 [symmetric] s8 [symmetric] ..
  have k8: "kmem s8 = m8" "kernel_heap s8 = kernel_heap s6" by (simp_all add: e8 e7)
  have m8: "m8 a = kmem s6 a" if "\<not> window a" for a using p8 that by (simp add: printed_def e8 e7)
  have dirs: "\<not> window a \<and> \<not> free_byte (kernel_heap s8) a" if "dir_byte (kmem s6) d a" for a
    using c(8) that assms(4) by (auto simp: dir_byte_def h5 k8)
  have d: "d mod 4096 = 0" using c(4) by (simp add: dir_wf_def)
  have entry8: "page_table m8 d i = page_table (kmem s6) d i" if "i < 1024" for i
    unfolding page_table_def using cell_same [of d m8 "kmem s6", OF _ d that] dirs m8 by (simp add: dir_byte_def)
  then have same: "dir_byte (kmem s8) d = dir_byte (kmem s6) d" by (auto simp: fun_eq_iff dir_byte_def k8)
  have pages: "page_entry m d v = page_frame v OR 7" if "\<forall>a. dir_byte (kmem s8) d a \<longrightarrow> m a = kmem s8 a" for m v
  proof -
    have "m a = kmem s6 a" if "dir_byte (kmem s6) d a" for a
      using that \<open>\<forall>a. dir_byte (kmem s8) d a \<longrightarrow> m a = kmem s8 a\<close> [unfolded same] dirs m8 by (simp add: k8)
    then have "page_entry m d v = page_entry (kmem s6) d v" using d by (intro directory_same) (simp_all add: dir_byte_def)
    then show ?thesis using c(6) by simp
  qed
  have "has_run (kernel_heap s8) k"
    using paging_chunk_new_used [OF c(1) w5(1)] assms(3) by (simp add: heap_used_def h5 k8)
  moreover have "\<not> free_byte (kernel_heap s8) a" if "\<not> free_byte (kernel_heap s) a" for a using c(7) that by (simp add: h5 k8)
  moreover have "kmem s8 a = kmem s a" if "\<not> window a" "\<not> free_byte (kernel_heap s) a" for a
    using c(7) m8 [OF that(1)] mem5 that by (simp add: h5 k8)
  moreover have "s8 = s\<lparr>kernel_heap := h6, kmem := m8, chunks := cs, terminal_row := r8, terminal_col := c8,
        idt_descriptors := map (\<lambda>i. idt_entry (handler_of l i)) [0..<512],
        idtr_descriptor := \<lparr>idtr_limit = 4095, idtr_base = addr_idt_descriptors l\<rparr>,
        idtr_loaded := Some \<lparr>idtr_limit = 4095, idtr_base = addr_idt_descriptors l\<rparr>,
        kernel_tss := zero_tss\<lparr>tss_ss0 := 0x10, tss_esp0 := 0x00600000\<rparr>, tr_loaded := Some 0x28,
        kernel_chunk := c, cr3 := d, current_directory := d, cr0_pg := True\<rparr>"
    unfolding e8 e7 e6 e5 e4 e3 s2(2) e1 by simp
  moreover have "heap_wf (kernel_heap s8)" using c(5) by (simp add: k8)
  moreover have "\<forall>m. (\<forall>a. dir_byte (kmem s8) d a \<longrightarrow> m a = kmem s8 a) \<longrightarrow> (\<forall>v. page_entry m d v = page_frame v OR 7)" using pages by blast
  moreover have "\<forall>a. dir_byte (kmem s8) d a \<longrightarrow> \<not> window a \<and> \<not> free_byte (kernel_heap s8) a" using dirs by (simp add: same)
  ultimately show ?thesis using run printed_screen [OF p8] by blast
qed

section \<open>Files of a volume\<close>

text \<open>
  What the driver reads depends on the geometry of the volume only, not on where the driver's own
  objects lie; so the files of a volume can be named before it is mounted.
\<close>

definition volume :: "(nat \<Rightarrow> u8) \<Rightarrow> nat \<Rightarrow> fat_private" where
  "volume img n = mounted_private img n 0 0 0 0"

lemma mounted_basics:
  "cluster_pos (mounted_private img n dir crs frs drs) = cluster_pos (volume img n)"
  "cluster_ok (mounted_private img n dir crs frs drs) = cluster_ok (volume img n)"
  "bpc (mounted_private img n dir crs frs drs) = bpc (volume img n)"
  "next_cluster im (mounted_private img n dir crs frs drs) = next_cluster im (volume img n)"
  by (simp_all add: fun_eq_iff volume_def mounted_private_def cluster_pos_def cluster_ok_def bpc_def spc_def next_cluster_def fat_entry_def)

lemma mounted_nth: "nth_cluster im (mounted_private img n dir crs frs drs) k c = nth_cluster im (volume img n) k c"
  by (induction k arbitrary: c) (simp_all add: mounted_basics cong: Option.bind_cong)

lemma mounted_chain_read:
  "chain_read im (mounted_private img n dir crs frs drs) c i k = chain_read im (volume img n) c i k"
proof (induction im "volume img n" c i k rule: chain_read.induct)
  case (1 im c i k)
  then show ?case
    by (subst (1 2) chain_read.simps) (simp add: mounted_basics mounted_nth cluster_slice_def Let_def split: option.splits)
qed

lemma mounted_readings:
  "chain_ok im (mounted_private img n dir crs frs drs) = chain_ok im (volume img n)"
  "file_bytes im (mounted_private img n dir crs frs drs) = file_bytes im (volume img n)"
  "readable im (mounted_private img n dir crs frs drs) = readable im (volume img n)"
  "live_count im (mounted_private img n dir crs frs drs) = live_count im (volume img n)"
  by (simp_all add: fun_eq_iff chain_ok_def file_bytes_def file_byte_def readable_def live_count_def mounted_basics mounted_nth mounted_chain_read
      cong: option.case_cong)

lemma mounted_directories:
  "sub_bytes im (mounted_private img n dir crs frs drs) = sub_bytes im (volume img n)"
  "sub_dir im (mounted_private img n dir crs frs drs) = sub_dir im (volume img n)"
  by (simp_all add: fun_eq_iff sub_bytes_def sub_dir_def mounted_readings mounted_basics)

lemma mounted_leads:
  "leads im (volume img n) bs names r bs' k \<Longrightarrow> leads im (mounted_private img n dir crs frs drs) bs names r bs' k"
proof (induction rule: leads.induct)
  case (leads_file bs t k)
  then show ?case by (rule leads.leads_file)
next
  case (leads_sub bs t j c m names r bs' k)
  then show ?case
    using leads.leads_sub [of bs t j c im "mounted_private img n dir crs frs drs" m names r bs' k]
    by (simp add: mounted_directories mounted_readings)
qed

text \<open>A file of the volume: its path, room for the walk, first cluster and size.\<close>

definition volume_file :: "(nat \<Rightarrow> u8) \<Rightarrow> nat \<Rightarrow> u8 list list \<Rightarrow> nat \<Rightarrow> int \<Rightarrow> nat \<Rightarrow> bool" where
  "volume_file img n names r c F \<longleftrightarrow>
     (\<exists>bs k. leads img (volume img n) (root_image img n) names r bs k
        \<and> uint (ditem_low_cluster (buf_mem bs) (32 * of_nat k)) = c \<and> unat (ditem_filesize (buf_mem bs) (32 * of_nat k)) = F)
     \<and> chain_ok img (volume img n) c \<and> 0 < F \<and> F < 2147483648 \<and> readable img (volume img n) c 0 F"

lemma volume_file_loadable:
  fixes s :: "'a fs_state_scheme"
  assumes "volume_file (disk_image s) n names r c F" and "fat_volume (disk_image s) n"
    and "named_path s path names" and "filesystem (the_disk s) = Some Fat16_Fs"
    and "fat_ok s (mounted_private (disk_image s) n dir crs frs drs)"
    and "\<forall>i < root_bytes (disk_image s). \<not> free_byte (kernel_heap s) (dir + of_nat i)
        \<and> kmem s (dir + of_nat i) = disk_image s (512 * root_sector (disk_image s) + i)"
  shows "loadable s path names (mounted_private (disk_image s) n dir crs frs drs) r c F"
proof -
  note root = root_mounted [OF assms(2,6)]
  have "nat (dir_total (root_directory (mounted_private (disk_image s) n dir crs frs drs))) = live_entries (disk_image s) n"
    by (simp add: mounted_private_def)
  moreover obtain bs k where l: "leads (disk_image s) (volume (disk_image s) n) (root_image (disk_image s) n) names r bs k"
    "uint (ditem_low_cluster (buf_mem bs) (32 * of_nat k)) = c" "unat (ditem_filesize (buf_mem bs) (32 * of_nat k)) = F"
    using assms(1) by (auto simp: volume_file_def)
  ultimately have "file_entry s (mounted_private (disk_image s) n dir crs frs drs) names r c F"
    unfolding file_entry_def using root mounted_leads [OF l(1)] l(2,3) by simp blast
  then show ?thesis using assms by (simp add: loadable_def volume_file_def mounted_readings)
qed

section \<open>Ready for the first program\<close>

text \<open>The tables the processor works with, and the commands of the system call.\<close>

definition kernel_tables :: "link_map \<Rightarrow> 'a kernel_state_scheme \<Rightarrow> bool" where
  "kernel_tables l s \<longleftrightarrow> map decode_gdt_entry (gdt_raw_table s) = kernel_gdt (addr_tss l) \<and> gdtr_loaded s = Some (addr_gdt_raw l, 48)
     \<and> map idt_target (idt_descriptors s) = map (handler_of l) [0..<512]
     \<and> (\<forall>d \<in> set (idt_descriptors s). selector d = 8 \<and> type_attr d = 0xEE)
     \<and> idtr_loaded s = Some \<lparr>idtr_limit = 4095, idtr_base = addr_idt_descriptors l\<rparr>
     \<and> tr_loaded s = Some 0x28 \<and> tss_ss0 (kernel_tss s) = 0x10 \<and> tss_esp0 (kernel_tss s) = 0x00600000
     \<and> isr80h_commands s = [Some Command_Sum, Some Command_Print]"

lemma kernel_tables_kept:
  fixes s s' :: "'a kernel_state_scheme"
  assumes "process_state.more s' = process_state.more s"
  shows "kernel_tables l s' = kernel_tables l s"
  using assms by (cases s; cases s'; simp add: kernel_tables_def)

lemma register_commands:
  "isr80h_commands s = [None, None] \<Longrightarrow>
    isr80h_register_commands s = Returns () (s\<lparr>isr80h_commands := [Some Command_Sum, Some Command_Print]\<rparr>)"
  by (simp add: isr80h_register_commands_def isr80h_register_command_def andthen_def const_defs)

text \<open>What stays of a state over messages.\<close>

lemma printed_ok:
  fixes s :: "'a fs_state_scheme"
  assumes "printed s s'" and "fat_ok s fp"
  shows "fat_ok s' fp"
  using assms(2) printed_fields(7-9) [OF assms(1)] by (simp add: fat_ok_def disk_private_def stream_ok_def)

lemma kmain_ready_spec:
  fixes s :: "'a kernel_state_scheme"
  assumes "fat_volume (disk_image s) n" and "k + blocks_for (of_nat (root_bytes (disk_image s))) + 1031 \<le> 131072"
    and "isr80h_commands s = [None, None]"
  shows "\<exists>dir crs frs drs d s1 s2 s3 s4. kmain_early l s = Some s1 \<and> kmain_late l s1 = Some s2
    \<and> isr80h_register_commands s2 = Returns () s3
    \<and> s4 = kprint (''Starting first process...'' @ nl @ nl) (kprint ('' done'' @ nl) s3)
    \<and> screen_ok s4 \<and> heap_wf (kernel_heap s4) \<and> has_run (kernel_heap s4) k
    \<and> fat_ok s4 (mounted_private (disk_image s) n dir crs frs drs) \<and> filesystem (the_disk s4) = Some Fat16_Fs
    \<and> disk_image s4 = disk_image s \<and> file_descriptors s4 = replicate 1024 0
    \<and> tasks s4 = tasks s \<and> current_task s4 = current_task s \<and> task_head s4 = task_head s \<and> task_tail s4 = task_tail s
    \<and> processes s4 = processes s \<and> kernel_tables l s4
    \<and> cr0_pg s4 \<and> cr3 s4 = d
    \<and> (\<forall>m. (\<forall>a. \<not> window a \<longrightarrow> m a = kmem s4 a) \<longrightarrow> (\<forall>v. page_entry m d v = page_frame v OR 7))
    \<and> (\<forall>a. \<not> free_byte (fresh_heap 131072) a \<longrightarrow> \<not> free_byte (kernel_heap s4) a)
    \<and> (\<forall>a. spared a \<longrightarrow> kmem s4 a = kmem s a)
    \<and> (\<forall>i < root_bytes (disk_image s). \<not> free_byte (kernel_heap s4) (dir + of_nat i)
        \<and> kmem s4 (dir + of_nat i) = disk_image s (512 * root_sector (disk_image s) + i))"
proof -
  have room: "(k + 1026) + blocks_for (of_nat (root_bytes (disk_image s))) + 5 \<le> 131072" using assms(2) by simp
  obtain dir crs frs drs rs s1 where e: "kmain_early l s = Some s1" "screen_ok s1" "heap_wf (kernel_heap s1)" "has_run (kernel_heap s1) (k + 1026)"
    "fat_ok s1 (mounted_private (disk_image s) n dir crs frs drs)" "filesystem (the_disk s1) = Some Fat16_Fs"
    "disk_image s1 = disk_image s" "file_descriptors s1 = replicate 1024 0" "map decode_gdt_entry rs = kernel_gdt (addr_tss l)"
    "fs_state.more s1 = fs_state.more (s\<lparr>gdt_raw_table := rs, gdtr_loaded := Some (addr_gdt_raw l, 48)\<rparr>)"
    "\<forall>a. \<not> free_byte (fresh_heap 131072) a \<longrightarrow> \<not> free_byte (kernel_heap s1) a" "\<forall>a. spared a \<longrightarrow> kmem s1 a = kmem s a"
    "\<forall>i < root_bytes (disk_image s). \<not> window (dir + of_nat i) \<and> \<not> free_byte (kernel_heap s1) (dir + of_nat i)
        \<and> kmem s1 (dir + of_nat i) = disk_image s (512 * root_sector (disk_image s) + i)"
    using kmain_early_spec [where l = l, OF assms(1) room] by (elim exE conjE) (rule that)
  note f1 = more_fields [OF e(10)]
  have win: "\<forall>a. window a \<longrightarrow> \<not> free_byte (kernel_heap s1) a" using e(11) window_taken [of _ 131072] by simp
  obtain c d s2 h m cs r cl where t: "kmain_late l s1 = Some s2" "screen_ok s2" "heap_wf (kernel_heap s2)" "has_run (kernel_heap s2) k"
    "\<forall>m. (\<forall>a. dir_byte (kmem s2) d a \<longrightarrow> m a = kmem s2 a) \<longrightarrow> (\<forall>v. page_entry m d v = page_frame v OR 7)"
    "\<forall>a. dir_byte (kmem s2) d a \<longrightarrow> \<not> window a \<and> \<not> free_byte (kernel_heap s2) a"
    "\<forall>a. \<not> free_byte (kernel_heap s1) a \<longrightarrow> \<not> free_byte (kernel_heap s2) a"
    "\<forall>a. \<not> window a \<longrightarrow> \<not> free_byte (kernel_heap s1) a \<longrightarrow> kmem s2 a = kmem s1 a"
    "s2 = s1\<lparr>kernel_heap := h, kmem := m, chunks := cs, terminal_row := r, terminal_col := cl,
        idt_descriptors := map (\<lambda>i. idt_entry (handler_of l i)) [0..<512],
        idtr_descriptor := \<lparr>idtr_limit = 4095, idtr_base = addr_idt_descriptors l\<rparr>,
        idtr_loaded := Some \<lparr>idtr_limit = 4095, idtr_base = addr_idt_descriptors l\<rparr>,
        kernel_tss := zero_tss\<lparr>tss_ss0 := 0x10, tss_esp0 := 0x00600000\<rparr>, tr_loaded := Some 0x28,
        kernel_chunk := c, cr3 := d, current_directory := d, cr0_pg := True\<rparr>"
    using kmain_late_spec [where l = l, OF e(2,3,4) win] by (elim exE conjE) (rule that)
  obtain s3 where s3: "s3 = s2\<lparr>isr80h_commands := [Some Command_Sum, Some Command_Print]\<rparr>" by blast
  have com: "isr80h_register_commands s2 = Returns () s3"
    unfolding s3 by (rule register_commands) (simp add: t(9) f1 assms(3))
  have ok3: "screen_ok s3" using t(2) by (simp add: s3 screen_ok_def cursor_ok_def)
  obtain s4 where s4: "s4 = kprint (''Starting first process...'' @ nl @ nl) (kprint ('' done'' @ nl) s3)" by blast
  have p: "printed s3 s4" unfolding s4 by (rule printed_kprint2 [OF ok3])
  note f4 = printed_fields [OF p] more_fields [OF printed_fields(13) [OF p]]
  have h4: "kernel_heap s4 = kernel_heap s2" by (simp add: f4 s3)
  have m4: "kmem s4 a = kmem s2 a" if "\<not> window a" for a using p that by (simp add: printed_def s3)
  have m2: "kmem s4 a = kmem s1 a" if "\<not> window a" "\<not> free_byte (kernel_heap s1) a" for a using m4 t(8) that by simp
  have dirs: "page_entry m' d v = page_frame v OR 7" if "\<forall>a. \<not> window a \<longrightarrow> m' a = kmem s4 a" for m' v
    using t(5,6) m4 that by (metis (full_types))
  have tabs: "kernel_tables l s4"
    using e(9) f1 by (simp add: kernel_tables_def f4 s3 t(9) map_map comp_def idt_entry_gate)
  have fok: "fat_ok s4 (mounted_private (disk_image s) n dir crs frs drs)"
    using printed_ok [OF p] e(5) by (simp add: fat_ok_def disk_private_def stream_ok_def s3 t(9))
  have free: "\<not> free_byte (kernel_heap s4) a" if "\<not> free_byte (fresh_heap 131072) a" for a
    using e(11) t(7) that by (simp add: h4)
  have spare: "kmem s4 a = kmem s a" if "spared a" for a
    using m2 e(11,12) that by (simp add: spared_def)
  have root: "\<not> free_byte (kernel_heap s4) (dir + of_nat i) \<and> kmem s4 (dir + of_nat i) = disk_image s (512 * root_sector (disk_image s) + i)"
    if "i < root_bytes (disk_image s)" for i
    using spec [OF e(13), of i] m2 t(7) that by (simp add: h4)
  have cmp: "filesystem (the_disk s4) = Some Fat16_Fs" "disk_image s4 = disk_image s" "file_descriptors s4 = replicate 1024 0"
    "tasks s4 = tasks s" "current_task s4 = current_task s" "task_head s4 = task_head s" "task_tail s4 = task_tail s"
    "processes s4 = processes s" "cr0_pg s4" "cr3 s4 = d"
    using e(6-8) f1 by (simp_all add: f4 s3 t(9))
  show ?thesis
    by (rule exI [of _ dir], rule exI [of _ crs], rule exI [of _ frs], rule exI [of _ drs], rule exI [of _ d], rule exI [of _ s1],
        rule exI [of _ s2], rule exI [of _ s3], rule exI [of _ s4])
      (intro conjI allI impI e(1) t(1) com s4 printed_screen [OF p] fok cmp tabs dirs free spare root,
       simp_all add: h4 t(3,4) root [THEN conjunct1] root [THEN conjunct2])
qed

section \<open>The first program\<close>

text \<open>
  The state the boot loader leaves: the kernel's zeroed data, no task and no process, and the
  path of the first program in memory start-up does not write to.
\<close>

definition cold :: "link_map \<Rightarrow> u8 list \<Rightarrow> 'a kernel_state_scheme \<Rightarrow> bool" where
  "cold l t s \<longleftrightarrow> isr80h_commands s = [None, None] \<and> tasks s = Map.empty \<and> task_head s = 0 \<and> task_tail s = 0
     \<and> processes s = replicate 1024 0 \<and> cstr (kmem s) (addr_filename l) ([48, 58, 47] @ t)
     \<and> (\<forall>i \<le> length t + 3. spared (addr_filename l + of_nat i))"

lemma cold_path:
  fixes s s' :: "'a kernel_state_scheme"
  assumes "cold l t s" and "names \<noteq> []" and "split_path t = names" and "length t \<le> 253"
    and "\<forall>a. \<not> free_byte (fresh_heap 131072) a \<longrightarrow> \<not> free_byte (kernel_heap s') a" and "\<forall>a. spared a \<longrightarrow> kmem s' a = kmem s a"
  shows "named_path s' (addr_filename l) names"
proof -
  let ?p = "[48, 58, 47] @ t :: u8 list"
  have sp: "spared (addr_filename l + of_nat i)" if "i \<le> length ?p" for i using assms(1) that by (simp add: cold_def)
  have "cstr (kmem s') (addr_filename l) ?p"
  proof (rule cstr_cong)
    show "cstr (kmem s) (addr_filename l) ?p" using assms(1) by (simp add: cold_def)
    show "kmem s' (addr_filename l + of_nat i) = kmem s (addr_filename l + of_nat i)" if "i \<le> length ?p" for i
      using assms(6) sp [OF that] by blast
  qed
  moreover have "\<not> free_byte (kernel_heap s') (addr_filename l + of_nat i)" if "i \<le> length ?p" for i
    using assms(5) sp [OF that] by (simp add: spared_def)
  ultimately show ?thesis using assms(2-4) unfolding named_path_def held_def by blast
qed

text \<open>Entering a task that is alone in the queue.\<close>

lemma run_first_task:
  assumes "queue_ok s [x]" and "tasks s x = Some t"
  shows "task_run_as_task0 eflags x s = Some (Enters_User (task_return eflags (task_registers t))
    (s\<lparr>current_task := x, cr3 := task_dir s x, current_directory := task_dir s x\<rparr>))"
proof -
  have "x = task_head s" using assms(1) by (simp add: queue_ok_def task_queue_def)
  then show ?thesis using task_switch_spec [OF assms(1), of x] assms(2) by (simp add: task_run_as_task0_def)
qed

lemma kmain_effect:
  fixes s :: "'a kernel_state_scheme"
  assumes "cold l t s" and "split_path t = names" and "names \<noteq> []" and "length t \<le> 253"
    and "fat_volume (disk_image s) n" and "volume_file (disk_image s) n names r c F"
    and "blocks_for (of_nat (root_bytes (disk_image s))) + blocks_for (of_nat F) + path_blocks names r + 2064 \<le> 131072"
  shows "\<exists>cpu task process p s'. kmain l eflags s = Some (Enters_User cpu s')
    \<and> r_ip cpu = 0x00400000 \<and> r_esp cpu = 0x003FF000 \<and> r_cs cpu = 0x1B \<and> r_ss cpu = 0x23 \<and> r_flags cpu = eflags OR 0x200
    \<and> cr0_pg s' \<and> queue_ok s' [task] \<and> current_task s' = task \<and> cr3 s' = task_dir s' task
    \<and> process \<noteq> 0 \<and> processes s' = process # replicate 1023 0
    \<and> (\<forall>i < F. view s' (kmem s') (0x00400000 + of_nat i) = file_bytes (disk_image s) (volume (disk_image s) n) c 0 F ! i)
    \<and> (\<forall>i < 0x4000. view s' (kmem s') (0x003FB000 + of_nat i) = 0)
    \<and> kernel_tables l s' \<and> (\<forall>a. spared a \<longrightarrow> kmem s' a = kmem s a)
    \<and> screen_ok s' \<and> procs s' process = Some p \<and> (\<exists>u. tasks s' task = Some u \<and> task_process u = process)
    \<and> task_view (kmem s') (cr3 s') p \<and> p_ptr p mod 4096 = 0 \<and> p_stack p mod 4096 = 0 \<and> image_span p mod 4096 = 0
    \<and> (\<forall>a. own_byte p a \<longrightarrow> \<not> window a \<and> \<not> dir_byte (kmem s') (cr3 s') a)
    \<and> (\<forall>a. dir_byte (kmem s') (cr3 s') a \<longrightarrow> \<not> window a)
    \<and> p_ptr_virt p = 0x00400000 \<and> p_size p = of_nat F \<and> F \<le> unat (image_span p) \<and> (\<forall>a. in_region (p_ptr p) (of_nat F) a \<longrightarrow> \<not> in_region (p_stack p) 0x4000 a)"
proof -
  let ?k = "1033 + (blocks_for (of_nat F) + path_blocks names r)"
  have room: "?k + blocks_for (of_nat (root_bytes (disk_image s))) + 1031 \<le> 131072" using assms(7) by simp
  have com: "isr80h_commands s = [None, None]" using assms(1) by (simp add: cold_def)
  obtain dir crs frs drs d s1 s2 s3 s4 where b: "kmain_early l s = Some s1" "kmain_late l s1 = Some s2"
    "isr80h_register_commands s2 = Returns () s3"
    "s4 = kprint (''Starting first process...'' @ nl @ nl) (kprint ('' done'' @ nl) s3)"
    "screen_ok s4" "heap_wf (kernel_heap s4)" "has_run (kernel_heap s4) ?k"
    "fat_ok s4 (mounted_private (disk_image s) n dir crs frs drs)" "filesystem (the_disk s4) = Some Fat16_Fs"
    "disk_image s4 = disk_image s" "file_descriptors s4 = replicate 1024 0"
    "tasks s4 = tasks s" "current_task s4 = current_task s" "task_head s4 = task_head s" "task_tail s4 = task_tail s"
    "processes s4 = processes s" "kernel_tables l s4"
    "cr0_pg s4" "cr3 s4 = d" "\<forall>m. (\<forall>a. \<not> window a \<longrightarrow> m a = kmem s4 a) \<longrightarrow> (\<forall>v. page_entry m d v = page_frame v OR 7)"
    "\<forall>a. \<not> free_byte (fresh_heap 131072) a \<longrightarrow> \<not> free_byte (kernel_heap s4) a" "\<forall>a. spared a \<longrightarrow> kmem s4 a = kmem s a"
    "\<forall>i < root_bytes (disk_image s). \<not> free_byte (kernel_heap s4) (dir + of_nat i)
        \<and> kmem s4 (dir + of_nat i) = disk_image s (512 * root_sector (disk_image s) + i)"
    using kmain_ready_spec [where l = l, OF assms(5) room com] by (elim exE conjE) (rule that)
  have path: "named_path s4 (addr_filename l) names" by (rule cold_path [OF assms(1,3,2,4) b(21,22)])
  have load: "loadable s4 (addr_filename l) names (mounted_private (disk_image s) n dir crs frs drs) r c F"
    using volume_file_loadable [of s4 n names r c F, unfolded b(10), OF assms(6,5) path b(9,8,23)] .
  have top: "\<not> free_byte (kernel_heap s4) 0xFFFFFFFF"
    using b(21) fresh_outside [of 131072 "0xFFFFFFFF"] by simp
  have can: "can_load s4 [] (blocks_for (of_nat F) + path_blocks names r)"
    using b(6,7,11,12,14-16) assms(1) top first_slot by (simp add: can_load_def queue_ok_def task_queue_def cold_def)
  obtain process x ch p s5 slot where r: "process_load (addr_filename l) s4 = Some (0, process, s5)" "process \<noteq> 0"
    "null_slot (processes s4) 0 = Some slot" "processes s5 = (processes s4)[slot := process]"
    "queue_ok s5 ([] @ [x])" "current_task s5 = current_task s4"
    "tasks s5 x = Some ((fresh_task ch process)\<lparr>task_prev := final [] 0\<rparr>)"
    "procs s5 process = Some p" "p_task p = x" "cr0_pg s5 = cr0_pg s4" "screen s5 = screen s4" "process_state.more s5 = process_state.more s4"
    "task_view (kmem s5) (task_dir s5 x) p" "p_ptr p mod 4096 = 0" "p_stack p mod 4096 = 0" "image_span p mod 4096 = 0"
    "\<forall>a. own_byte p a \<longrightarrow> free_byte (kernel_heap s4) a \<and> \<not> dir_byte (kmem s5) (task_dir s5 x) a"
    "\<forall>a. dir_byte (kmem s5) (task_dir s5 x) a \<longrightarrow> free_byte (kernel_heap s4) a"
    "\<forall>i < F. kmem s5 (translate (kmem s5) (task_dir s5 x) (0x00400000 + of_nat i))
        = file_bytes (disk_image s4) (mounted_private (disk_image s) n dir crs frs drs) c 0 F ! i"
    "\<forall>i < 0x4000. kmem s5 (translate (kmem s5) (task_dir s5 x) (0x003FB000 + of_nat i)) = 0"
    "\<forall>y \<in> set []. task_dir s5 y = task_dir s4 y \<and> (\<forall>v. translate (kmem s5) (task_dir s4 y) v = translate (kmem s4) (task_dir s4 y) v)"
    "\<forall>a. \<not> free_byte (kernel_heap s4) a \<longrightarrow> kmem s5 a = kmem s4 a"
    "p_ptr_virt p = 0x00400000" "p_size p = of_nat F" "F \<le> unat (image_span p)"
    "\<forall>a. in_region (p_ptr p) (of_nat F) a \<longrightarrow> \<not> in_region (p_stack p) 0x4000 a"
    using process_load_effect [OF can load] by (elim exE conjE) (rule that)
  have q: "queue_ok s5 [x]" using r(5) by simp
  obtain s6 where s6: "s6 = s5\<lparr>current_task := x, cr3 := task_dir s5 x, current_directory := task_dir s5 x\<rparr>" by blast
  note enter = run_first_task [OF q r(7), where eflags = eflags, folded s6]
  have run: "kmain l eflags s
      = Some (Enters_User (task_return eflags (task_registers ((fresh_task ch process)\<lparr>task_prev := final [] 0\<rparr>))) s6)"
    unfolding kmain_def b(1,2) bind.bind_lunit b(3) outcome.case Let_def b(4) [symmetric] r(1) prod.case
    using r(2,8,9) enter by (simp add: ISERR_def)
  have f6: "cr0_pg s6" "queue_ok s6 [x]" "current_task s6 = x" "cr3 s6 = task_dir s6 x" "kmem s6 = kmem s5" "task_dir s6 x = task_dir s5 x"
    "processes s6 = processes s5"
    using b(18) q r(10) by (simp_all add: s6)
  have view: "view s6 (kmem s6) a = kmem s5 (translate (kmem s5) (task_dir s5 x) a)" for a
    using f6 by (simp add: view_def)
  have "process_state.more s6 = process_state.more s4" using r(12) by (cases s5) (simp add: s6)
  then have tabs: "kernel_tables l s6" using b(17) kernel_tables_kept [of s6 s4] by simp
  have slot: "processes s6 = process # replicate 1023 0"
  proof -
    have "processes s4 = replicate 1024 0" using b(16) assms(1) by (simp add: cold_def)
    moreover have "slot = 0" using r(3) first_slot calculation by simp
    moreover have "replicate 1024 (0 :: u32) = 0 # replicate 1023 0" by (simp flip: replicate_Suc)
    ultimately show ?thesis using r(4) by (simp add: f6)
  qed
  have spare: "kmem s6 a = kmem s a" if "spared a" for a
    using r(22) b(21,22) that by (simp add: f6 spared_def)
  have data: "view s6 (kmem s6) (0x00400000 + of_nat i) = file_bytes (disk_image s) (volume (disk_image s) n) c 0 F ! i" if "i < F" for i
    using r(19) that by (simp add: view b(10) mounted_readings)
  have stack: "view s6 (kmem s6) (0x003FB000 + of_nat i) = 0" if "i < 0x4000" for i
    using r(20) that by (simp add: view)
  have scr: "screen_ok s6" using b(5) r(11) by (simp add: s6 screen_ok_def cursor_ok_def)
  have own: "\<not> window a \<and> \<not> dir_byte (kmem s6) (cr3 s6) a" if "own_byte p a" for a
    using r(17) that b(21) window_taken [of a 131072] by (auto simp: f6)
  have dirs: "\<not> window a" if "dir_byte (kmem s6) (cr3 s6) a" for a
    using r(18) that b(21) window_taken [of a 131072] by (auto simp: f6)
  have prc: "procs s6 process = Some p" "\<exists>u. tasks s6 x = Some u \<and> task_process u = process"
    "task_view (kmem s6) (cr3 s6) p" "p_ptr p mod 4096 = 0" "p_stack p mod 4096 = 0" "image_span p mod 4096 = 0"
    using r(7,8,13-16) by (simp_all add: f6) (simp_all add: s6 fresh_task_def)
  have cpu: "r_ip (task_return eflags (task_registers ((fresh_task ch process)\<lparr>task_prev := final [] 0\<rparr>))) = 0x00400000"
    "r_esp (task_return eflags (task_registers ((fresh_task ch process)\<lparr>task_prev := final [] 0\<rparr>))) = 0x003FF000"
    "r_cs (task_return eflags (task_registers ((fresh_task ch process)\<lparr>task_prev := final [] 0\<rparr>))) = 0x1B"
    "r_ss (task_return eflags (task_registers ((fresh_task ch process)\<lparr>task_prev := final [] 0\<rparr>))) = 0x23"
    "r_flags (task_return eflags (task_registers ((fresh_task ch process)\<lparr>task_prev := final [] 0\<rparr>))) = eflags OR 0x200"
    by (simp_all add: task_return_def fresh_task_def)
  show ?thesis
    by (rule exI, rule exI [of _ x], rule exI [of _ process], rule exI [of _ p], rule exI [of _ s6])
      (rule conjI [OF run], intro conjI cpu f6(1-4) r(2) slot tabs scr prc allI impI data stack spare own [THEN conjunct1] own [THEN conjunct2] dirs r(23-25) r(26) [rule_format])
qed


text \<open>A machine that holds the volume with a directory, and the path of the program at 0x1000.\<close>

definition cold_machine :: kernel_state where
  "cold_machine = isr_state.extend (process_state.extend (blank_machine 0 tree_image ([48, 58, 47] @ boot_name))
     \<lparr>isr80h_commands = [None, None], idt_descriptors = [], idtr_descriptor = \<lparr>idtr_limit = 0, idtr_base = 0\<rparr>, idtr_loaded = None,
       ports_written = []\<rparr>)
     \<lparr>gdt_raw_table = [], gdtr_loaded = None, kernel_tss = zero_tss, tr_loaded = None, kernel_chunk = 0\<rparr>"

definition demo_links :: link_map where
  "demo_links = \<lparr>addr_no_interrupt = 0x00100100, addr_idt_zero = 0x00100200, addr_int21h = 0x00100300, addr_isr80h_wrapper = 0x00100400,
     addr_idt_descriptors = 0x00101000, addr_tss = 0x00103000, addr_gdt_raw = 0x00104000, addr_filename = 0x1000\<rparr>"

lemma cold_machine_simps:
  "isr80h_commands cold_machine = [None, None]" "tasks cold_machine = Map.empty" "task_head cold_machine = 0" "task_tail cold_machine = 0"
  "processes cold_machine = replicate 1024 0" "kmem cold_machine = write_bytes (\<lambda>_. 0) 0x1000 ([48, 58, 47] @ boot_name)"
  "disk_image cold_machine = tree_image"
  using blank_machine_simps [of 0 tree_image "[48, 58, 47] @ boot_name"]
  by (simp_all add: cold_machine_def isr_state.defs process_state.defs)

lemma cold_machine_cold: "cold demo_links boot_name cold_machine"
proof -
  let ?s = "cold_machine\<lparr>kernel_heap := fresh_heap 131072\<rparr>"
  have "held ?s 0x1000 ([48, 58, 47] @ boot_name)"
    using boot_name_ok by (intro path_held [where N = 131072]) (simp_all add: cold_machine_simps)
  then have "cstr (kmem cold_machine) 0x1000 ([48, 58, 47] @ boot_name)" by (simp add: held_def)
  moreover have "spared (0x1000 + of_nat i)" if "i \<le> length boot_name + 3" for i
    using low_spared [of "0x1000 + i"] boot_name_ok(2) that by simp
  ultimately show ?thesis by (simp add: cold_def cold_machine_simps demo_links_def)
qed

lemma tree_volume_file: "volume_file tree_image 1 [bin_name, empty_name] 5 2 1000"
proof -
  have v: "volume tree_image 1 = tree_private 0 0 0 0" unfolding volume_def tree_mounted ..
  have r: "root_image tree_image 1 = tree_root"
    using tree_root_bytes by (intro nth_equalityI) (simp_all add: root_image_def tree_volume(2) del: One_nat_def)
  have b: "\<forall>i < 32. buf_mem tree_sub (0 + of_nat i) = tree_sub ! i" by (auto simp: buf_mem_def unat_of_nat_small)
  show ?thesis unfolding volume_file_def v r
    using tree_leads [of 0 0 0 0] tree_sub_entry(2,3) [OF b] tree_chain_ok [of 2] tree_readable by (auto intro!: exI [of _ tree_sub] exI [of _ 0])
qed

text \<open>It has the program on its volume, and blocks enough for it.\<close>

lemma demo_room:
  "fat_volume (disk_image cold_machine) 1" "volume_file (disk_image cold_machine) 1 [bin_name, empty_name] 5 2 1000"
  "blocks_for (of_nat (root_bytes (disk_image cold_machine))) + blocks_for (of_nat 1000) + path_blocks [bin_name, empty_name] 5 + 2064 \<le> 131072"
proof -
  have bl: "blocks_for (of_nat 1000) = 1" "blocks_for (of_nat 512) = 1" by (rule blocks_for_small; simp)+
  show "blocks_for (of_nat (root_bytes (disk_image cold_machine))) + blocks_for (of_nat 1000) + path_blocks [bin_name, empty_name] 5 + 2064 \<le> 131072"
    unfolding cold_machine_simps tree_geometry bl by (simp add: path_blocks_def)
  show "fat_volume (disk_image cold_machine) 1" "volume_file (disk_image cold_machine) 1 [bin_name, empty_name] 5 2 1000"
    unfolding cold_machine_simps by (rule tree_volume(1), rule tree_volume_file)
qed


section \<open>Kernel memory under paging\<close>



end
