(* ===== verification/Syscall.thy ===== *)
theory Syscall
  imports Boot
begin

text \<open>
  What a program gets back from interrupt 0x80, on every command, with the string a program
  prints read through its page tables.
\<close>

section \<open>Printing through the page tables\<close>

text \<open>
  A string a program can have printed: it stays readable whatever the terminal's window holds. So
  neither it nor the tables that lead to it lie in the window.
\<close>

definition visible :: "'a paging_state_scheme \<Rightarrow> u32 \<Rightarrow> u8 list \<Rightarrow> bool" where
  "visible s p str \<longleftrightarrow> (\<forall>m. (\<forall>a. \<not> window a \<longrightarrow> m a = kmem s a) \<longrightarrow> cstr (view s m) p str)"

lemma print_loop_view:
  assumes "screen_ok s" and "\<forall>m. (\<forall>a. \<not> window a \<longrightarrow> m a = kmem s a) \<longrightarrow> cstr (V m) (str + i) cs"
    and "i \<le> len" and "unat i + length cs = unat len"
  shows "print_loop V s str len i = print_bytes s cs"
  using assms
proof (induction cs arbitrary: s i)
  case Nil
  then have "i = len" by (simp add: word_unat_eq_iff)
  then show ?case by (subst print_loop.simps) simp
next
  case (Cons c cs)
  let ?s = "terminal_writechar s c 15"
  have lt: "i < len" using Cons.prems(4) by (simp add: word_less_nat_alt)
  then have Suc_i: "unat (i + 1) = Suc (unat i)" by (rule unat_Suc_less)
  have p: "printed s ?s" using Cons.prems(1) by (rule printed_writechar)
  have tail: "\<forall>m. (\<forall>a. \<not> window a \<longrightarrow> m a = kmem ?s a) \<longrightarrow> cstr (V m) (str + (i + 1)) cs"
  proof (intro allI impI)
    fix m
    assume "\<forall>a. \<not> window a \<longrightarrow> m a = kmem ?s a"
    then have "\<forall>a. \<not> window a \<longrightarrow> m a = kmem s a" using p by (simp add: printed_def)
    with Cons.prems(2) have "cstr (V m) (str + i) (c # cs)" by blast
    then show "cstr (V m) (str + (i + 1)) cs" by (simp add: add.assoc)
  qed
  have "i + 1 \<le> len" "unat (i + 1) + length cs = unat len"
    using Suc_i Cons.prems(4) lt by (simp_all add: word_le_nat_alt word_less_nat_alt)
  then have "print_loop V ?s str len (i + 1) = print_bytes ?s cs"
    using Cons.IH [OF printed_screen [OF p] tail] by simp
  moreover have "V (kmem s) (str + i) = c" using Cons.prems(2) by simp
  ultimately show ?case using lt by (subst print_loop.simps) simp
qed

lemma print_visible:
  fixes s :: "'a paging_state_scheme"
  assumes "screen_ok s" and "visible s p str"
  shows "print (view s) s p = Some (print_bytes s str)" and "printed s (print_bytes s str)"
proof -
  have c: "\<forall>m. (\<forall>a. \<not> window a \<longrightarrow> m a = kmem s a) \<longrightarrow> cstr (view s m) (p + 0) str" using assms(2) by (simp add: visible_def)
  then have "cstr (view s (kmem s)) p str" by simp
  then show "print (view s) s p = Some (print_bytes s str)"
    using print_loop_view [OF assms(1) c] cstr_unat_length by (simp add: print_def strlen_cstr)
  show "printed s (print_bytes s str)" using assms(1) by (rule printed_bytes)
qed

text \<open>Where the tables and the bytes lie outside the window, the string is visible.\<close>

lemma visible_paged:
  fixes s :: "'a paging_state_scheme"
  assumes "cr0_pg s" and "dir_wf (kmem s) (cr3 s)" and "cstr (view s (kmem s)) p str"
    and "\<forall>a. page_frame a = cr3 s \<or> (\<exists>i < 1024. page_frame a = page_table (kmem s) (cr3 s) i) \<longrightarrow> \<not> window a"
    and "\<forall>i \<le> length str. \<not> window (translate (kmem s) (cr3 s) (p + of_nat i))"
  shows "visible s p str"
  unfolding visible_def
proof (intro allI impI)
  fix m
  assume m: "\<forall>a. \<not> window a \<longrightarrow> m a = kmem s a"
  have "page_entry m (cr3 s) v = page_entry (kmem s) (cr3 s) v" for v
    using assms(2,4) m by (intro directory_same) (auto simp: dir_wf_def)
  then have "translate m (cr3 s) v = translate (kmem s) (cr3 s) v" for v by (simp add: translate_def)
  then show "cstr (view s m) p str"
    using assms(3)
    by (rule_tac cstr_cong [of "view s (kmem s)"]) (use assms(1,5) m in \<open>simp_all add: view_def\<close>)
qed

section \<open>The handler\<close>

text \<open>The state when a command runs: the caller's registers are saved in its task.\<close>

definition interrupted :: "interrupt_frame \<Rightarrow> 'a task_state_scheme \<Rightarrow> 'a task_state_scheme" where
  "interrupted frame s = s\<lparr>tasks := (tasks s)(current_task s \<mapsto>
     (the (tasks s (current_task s)))\<lparr>task_registers := saved_registers frame\<rparr>)\<rparr>"

lemma save_interrupted:
  assumes "current_task s \<noteq> 0" and "tasks s (current_task s) \<noteq> None"
  shows "task_current_save_state frame s = Some (Returns () (interrupted frame s))"
  using assms by (auto simp: task_current_save_state_def task_save_state_def interrupted_def)

lemma interrupted_screen: "screen_ok (interrupted frame s) = screen_ok s"
  by (simp add: interrupted_def screen_ok_def cursor_ok_def)

lemma interrupted_view: "view (interrupted frame s) = view s"
  by (simp add: interrupted_def view_def fun_eq_iff)

text \<open>
  C9. Interrupt 0x80 on every command, for a task that runs. Command 0 answers 10. Command 1
  takes the pointer on top of the caller's stack: one that the check refuses answers -1 and
  prints nothing, and of one it accepts the string seen through the caller's page tables is
  printed, character by character, with answer 0. Every other number, negative ones
  included, answers 0. In each case the caller goes on with all its registers but \<open>eax\<close> as they were,
  the same registers are saved in its task, and nothing else changes outside the terminal.
\<close>

theorem isr80h_wrapper_outcomes:
  fixes s :: "'a isr_state_scheme"
  assumes "current_task s \<noteq> 0" and "tasks s (current_task s) = Some t" and "procs s (task_process t) = Some p"
    and "isr80h_commands s = [Some Command_Sum, Some Command_Print]" and "screen_ok s"
    and "msg = read32 (view s (kmem s)) (f_esp frame)"
  shows "(f_eax frame = 0 \<longrightarrow> isr80h_wrapper frame s = Some (Returns (frame\<lparr>f_eax := 10\<rparr>) (interrupted frame s)))
    \<and> (f_eax frame \<noteq> 0 \<and> f_eax frame \<noteq> 1 \<longrightarrow> isr80h_wrapper frame s = Some (Returns (frame\<lparr>f_eax := 0\<rparr>) (interrupted frame s)))
    \<and> (f_eax frame = 1 \<and> \<not> process_validate_pointer p msg \<longrightarrow>
        isr80h_wrapper frame s = Some (Returns (frame\<lparr>f_eax := - 1\<rparr>) (interrupted frame s)))
    \<and> (\<forall>str. f_eax frame = 1 \<and> process_validate_pointer p msg \<and> visible s msg str \<longrightarrow>
        isr80h_wrapper frame s = Some (Returns (frame\<lparr>f_eax := 0\<rparr>) (print_bytes (interrupted frame s) str))
        \<and> printed (interrupted frame s) (print_bytes (interrupted frame s) str))"
proof -
  let ?s = "interrupted frame s"
  have sv: "task_current_save_state frame s = Some (Returns () ?s)" using assms(1,2) by (intro save_interrupted) simp_all
  have com: "isr80h_commands ?s = [Some Command_Sum, Some Command_Print]" using assms(4) by (simp add: interrupted_def)
  note wrap = isr80h_wrapper_def isr80h_handler_def sv isr80h_handle_command_def com
  have item: "task_current_get_stack_item 0 ?s = Some (Returns msg ?s)"
    using assms(1,2,6) by (simp add: task_current_get_stack_item_def interrupted_def saved_registers_def view_def)
  have valid: "task_current_validate_pointer msg ?s = Some (process_validate_pointer p msg)"
    using assms(2,3) by (simp add: task_current_validate_pointer_def interrupted_def)
  have sum: "isr80h_wrapper frame s = Some (Returns (frame\<lparr>f_eax := 10\<rparr>) ?s)" if "f_eax frame = 0"
    using that by (simp add: wrap isr80h_command_sum_def const_defs)
  have other: "isr80h_wrapper frame s = Some (Returns (frame\<lparr>f_eax := 0\<rparr>) ?s)" if "f_eax frame \<noteq> 0" "f_eax frame \<noteq> 1"
  proof -
    have "sint (f_eax frame) \<noteq> sint (0 :: u32)" "sint (f_eax frame) \<noteq> sint (1 :: u32)"
      using that signed_word_eqI [of "f_eax frame"] by blast+
    then have "sint (f_eax frame) < 0 \<or> sint (f_eax frame) \<ge> INT80H_COMMMAND_MAX" by (auto simp: const_defs)
    then show ?thesis by (simp add: wrap)
  qed
  have print: "isr80h_wrapper frame s = (if \<not> process_validate_pointer p msg then Some (Returns (frame\<lparr>f_eax := - 1\<rparr>) ?s)
      else map_option (Returns (frame\<lparr>f_eax := 0\<rparr>)) (Terminal.print (view ?s) ?s msg))" if "f_eax frame = 1"
    using that by (simp add: wrap isr80h_command_print_def item valid const_defs map_option_case split: option.splits)
  have ok: "screen_ok ?s" using assms(5) by (simp add: interrupted_screen)
  have vis: "visible ?s msg str" if "visible s msg str" for str
    using that by (simp add: visible_def interrupted_view) (simp add: interrupted_def)
  show ?thesis using sum other print print_visible [OF ok vis] by simp
qed

text \<open>
  A machine that has come up with the text \<^verbatim>\<open>Hi\<close> and a line feed at 0x1000, and the pointer to it at 0x1004; its
  task is made up, so that the program's own memory need not be written first.
\<close>

definition hello :: "u8 list" where "hello = [72, 105, 10]"

definition hello_task :: task where
  "hello_task = \<lparr>page_directory = 0, task_registers = zero_registers, task_process = 0x6000, task_next = 0, task_prev = 0\<rparr>"

definition hello_process :: process where
  "hello_process = \<lparr>p_id = 0, p_task = 0x5000, p_ptr = 0x1000, p_ptr_virt = 0x1000, p_stack = 0x2000, p_stack_virt = 0x2000,
     p_stack_size = 0x1000, p_size = 4\<rparr>"

definition hello_frame :: interrupt_frame where
  "hello_frame = \<lparr>f_edi = 1, f_esi = 2, f_ebp = 3, f_reserved = 0, f_ebx = 4, f_edx = 5, f_ecx = 6, f_eax = 1, f_ip = 0x00400010, f_cs = 0x1B,
     f_flags = 0x202, f_esp = 0x1004, f_ss = 0x23\<rparr>"

theorem isr80h_wrapper_outcomes_witness:
  "\<exists>s :: kernel_state. cr0_pg s \<and> isr80h_wrapper hello_frame s
    = Some (Returns (hello_frame\<lparr>f_eax := 0\<rparr>) (print_bytes (interrupted hello_frame s) hello))"
proof -
  let ?boot = "cold_machine\<lparr>kmem := write_bytes (\<lambda>_. 0) 0x1000 (hello @ [0, 0, 0x10, 0, 0])\<rparr>"
  have pre: "fat_volume (disk_image ?boot) 1" "0 + blocks_for (of_nat (root_bytes (disk_image ?boot))) + 1031 \<le> 131072"
    "isr80h_commands ?boot = [None, None]"
    using tree_volume(1) blocks_for_small [of 512] by (simp_all add: cold_machine_simps tree_geometry)
  obtain d and s4 :: kernel_state where b: "screen_ok s4" "kernel_tables demo_links s4" "cr0_pg s4" "cr3 s4 = d"
    "\<forall>m. (\<forall>a. \<not> window a \<longrightarrow> m a = kmem s4 a) \<longrightarrow> (\<forall>v. page_entry m d v = page_frame v OR 7)"
    "\<forall>a. spared a \<longrightarrow> kmem s4 a = kmem ?boot a"
    using kmain_ready_spec [where l = demo_links, OF pre] by (elim exE conjE) (rule that)
  let ?run = "s4\<lparr>tasks := [0x5000 \<mapsto> hello_task], current_task := 0x5000, procs := [0x6000 \<mapsto> hello_process]\<rparr>"
  have low: "\<not> window (0x1000 + of_nat i) \<and> kmem s4 (0x1000 + of_nat i) = kmem ?boot (0x1000 + of_nat i)" if "i < 8" for i
    using low_spared [of "0x1000 + i"] b(6) that by (simp add: spared_def)
  have view: "view ?run m a = m a" if "\<forall>a. \<not> window a \<longrightarrow> m a = kmem s4 a" for m a
    using b(3-5) that identity_entry by (simp add: view_def)
  have out: "\<not> window 0x1000" "\<not> window 0x1001" "\<not> window 0x1002" "\<not> window 0x1003"
    using low [of 0] low [of 1] low [of 2] low [of 3] by simp_all
  have chars: "kmem s4 0x1000 = 72" "kmem s4 0x1001 = 105" "kmem s4 0x1002 = 10" "kmem s4 0x1003 = 0"
    using low [of 0] low [of 1] low [of 2] low [of 3] by (simp_all add: hello_def)
  have ptr: "kmem s4 0x1004 = 0" "kmem s4 0x1005 = 0x10" "kmem s4 0x1006 = 0" "kmem s4 0x1007 = 0"
    using low [of 4] low [of 5] low [of 6] low [of 7] by (simp_all add: hello_def)
  have vis: "visible ?run 0x1000 hello"
    unfolding visible_def using view out chars by (simp add: hello_def)
  have msg: "read32 (view ?run (kmem ?run)) (f_esp hello_frame) = 0x1000"
    using ptr view [of "kmem s4"] by (simp add: hello_frame_def read32_def)
  have "isr80h_commands s4 = [Some Command_Sum, Some Command_Print]" using b(2) by (simp add: kernel_tables_def)
  then have "isr80h_wrapper hello_frame ?run
    = Some (Returns (hello_frame\<lparr>f_eax := 0\<rparr>) (print_bytes (interrupted hello_frame ?run) hello))"
    using isr80h_wrapper_outcomes [where s = ?run and t = hello_task and p = hello_process and frame = hello_frame, OF _ _ _ _ _ msg [symmetric]] vis msg b(1)
    by (simp add: hello_task_def hello_process_def hello_frame_def process_validate_pointer_def screen_ok_def cursor_ok_def)
  then show ?thesis using b(3) by (intro exI [of _ ?run]) simp
qed

end
