(* ===== verification/Machine.thy ===== *)
theory Machine
  imports Syscall
begin

text \<open>
  The machine after start-up, as a step relation: the program runs in ring 3 and stores where the
  page tables let it, and interrupts come, which it may also raise itself: every gate is open to
  ring 3. What the program computes is left open. Two things end a run of this relation. The
  gate of interrupt 0 leads to \<open>idt_zero\<close>, a C function that returns with \<open>ret\<close>: the processor then
  goes on with the program's code in ring 0. And a fault of the processor that pushes an error code, as a store
  the page tables forbid, reaches \<open>no_interrupt\<close>, whose \<open>iret\<close> does not drop it.
\<close>

section \<open>Steps\<close>

text \<open>
  A store of ring 3 needs the present, writable and user bits in the entry of the directory and in the
  entry of the table.
\<close>

definition user_writable :: "mem \<Rightarrow> u32 \<Rightarrow> u32 \<Rightarrow> bool" where
  "user_writable m d v \<longleftrightarrow> read32 m (d + 4 * of_nat (dir_index v)) AND 7 = 7 \<and> page_entry m d v AND 7 = 7"

inductive machine_step :: "'a kernel_state_scheme \<Rightarrow> 'a kernel_state_scheme \<Rightarrow> bool" where
  user_store: "user_writable (kmem s) (cr3 s) v \<Longrightarrow> machine_step s (s\<lparr>kmem := (kmem s)(translate (kmem s) (cr3 s) v := b)\<rparr>)"
| keyboard: "machine_step s (int21h_handler s)"
| other_interrupt: "machine_step s (no_interrupt_handler s)"
| system_call: "isr80h_wrapper frame s = Some (Returns frame' s') \<Longrightarrow> machine_step s s'"

section \<open>Effects of the handlers\<close>

lemma printed_loop: "screen_ok s \<Longrightarrow> printed s (print_loop V s str len i)"
proof (induction V s str len i rule: print_loop.induct)
  case (1 V s str len i)
  show ?case
  proof (cases "i < len")
    case True
    let ?s = "terminal_writechar s (V (kmem s) (str + i)) 15"
    have p: "printed s ?s" using 1(2) by (rule printed_writechar)
    from printed_trans [OF p 1(1) [OF True printed_screen [OF p]]] True show ?thesis by (subst print_loop.simps) simp
  next
    case False
    with 1(2) show ?thesis by (subst print_loop.simps) (simp add: printed_refl)
  qed
qed

lemma printed_print:
  assumes "screen_ok s" and "Terminal.print V s p = Some s'"
  shows "printed s s'"
  using assms printed_loop by (auto simp: print_def bind_eq_Some_conv)

text \<open>A system call of a task that runs only prints: it never panics.\<close>

lemma wrapper_effect:
  assumes "current_task s \<noteq> 0" and "tasks s (current_task s) \<noteq> None" and "screen_ok s" and "isr80h_wrapper frame s = Some r"
  shows "\<exists>f s'. r = Returns f s' \<and> printed (interrupted frame s) s'"
proof -
  let ?s = "interrupted frame s"
  have sv: "task_current_save_state frame s = Some (Returns () ?s)" using assms(1,2) by (rule save_interrupted)
  have cur: "current_task ?s \<noteq> 0" "screen_ok ?s" using assms(1,3) by (simp_all add: interrupted_screen) (simp add: interrupted_def)
  obtain x where x: "isr80h_handle_command (sint (f_eax frame)) ?s = Some x"
    "r = (case x of Returns x s1 \<Rightarrow> Returns (frame\<lparr>f_eax := x\<rparr>) s1 | Panics msg s1 \<Rightarrow> Panics msg s1 | Enters_User c s1 \<Rightarrow> Enters_User c s1)"
    using assms(4) by (auto simp: isr80h_wrapper_def isr80h_handler_def sv bind_eq_Some_conv)
  have "\<exists>y s'. x = Returns y s' \<and> printed ?s s'"
  proof -
    have "\<exists>y s'. z = Returns y s' \<and> printed ?s s'" if z: "isr80h_command_print ?s = Some z" for z
    proof -
      obtain w where w: "task_current_get_stack_item 0 ?s = Some (Returns w ?s)"
        using z cur(1) by (auto simp: isr80h_command_print_def task_current_get_stack_item_def bind_eq_Some_conv)
      show ?thesis using z printed_print [OF cur(2)] printed_refl [OF cur(2)]
        by (auto simp: isr80h_command_print_def w bind_eq_Some_conv split: if_splits)
    qed
    then show ?thesis using x(1) printed_refl [OF cur(2)]
      by (auto simp: isr80h_handle_command_def isr80h_command_sum_def split: if_splits option.splits isr80h_command.splits)
  qed
  with x(2) show ?thesis by auto
qed

section \<open>What a program can change\<close>

text \<open>A program that runs: its address space, and where its own memory and its tables lie.\<close>

definition runs_program :: "process \<Rightarrow> 'a kernel_state_scheme \<Rightarrow> bool" where
  "runs_program p s \<longleftrightarrow> screen_ok s \<and> cr0_pg s \<and> current_task s \<noteq> 0 \<and> tasks s (current_task s) \<noteq> None \<and> cr3 s mod 4096 = 0
     \<and> task_view (kmem s) (cr3 s) p \<and> p_ptr p mod 4096 = 0 \<and> p_stack p mod 4096 = 0 \<and> image_span p mod 4096 = 0
     \<and> (\<forall>a. own_byte p a \<longrightarrow> \<not> window a \<and> \<not> dir_byte (kmem s) (cr3 s) a) \<and> (\<forall>a. dir_byte (kmem s) (cr3 s) a \<longrightarrow> \<not> window a)"

text \<open>
  The frame: the state of the start except for the cursor, the registers saved in the
  task, the ports and memory, and that only in the window of the terminal and in the program's own.
\<close>

definition confined :: "process \<Rightarrow> 'a kernel_state_scheme \<Rightarrow> 'a kernel_state_scheme \<Rightarrow> bool" where
  "confined p s s' \<longleftrightarrow> screen_ok s' \<and> (\<forall>a. \<not> window a \<longrightarrow> \<not> own_byte p a \<longrightarrow> kmem s' a = kmem s a)
     \<and> (\<exists>m row col rs ports. s' = s\<lparr>kmem := m, terminal_row := row, terminal_col := col,
          tasks := (tasks s)(current_task s \<mapsto> (the (tasks s (current_task s)))\<lparr>task_registers := rs\<rparr>), ports_written := ports\<rparr>)"

lemma confined_refl:
  assumes "runs_program p s"
  shows "confined p s s"
proof -
  obtain t where t: "tasks s (current_task s) = Some t" using assms by (auto simp: runs_program_def)
  then have "(tasks s)(current_task s \<mapsto> (the (tasks s (current_task s)))\<lparr>task_registers := task_registers t\<rparr>) = tasks s" by (simp add: fun_upd_idem)
  then have "s = s\<lparr>kmem := kmem s, terminal_row := terminal_row s, terminal_col := terminal_col s,
      tasks := (tasks s)(current_task s \<mapsto> (the (tasks s (current_task s)))\<lparr>task_registers := task_registers t\<rparr>), ports_written := ports_written s\<rparr>"
    by simp
  then show ?thesis using assms unfolding confined_def runs_program_def by blast
qed

lemma confined_fields:
  fixes s s' :: "'a kernel_state_scheme"
  assumes "confined p s s'"
  shows "cr3 s' = cr3 s" "cr0_pg s' = cr0_pg s" "current_task s' = current_task s" "tasks s' (current_task s) \<noteq> None" "screen_ok s'"
    "kernel_tables l s' = kernel_tables l s"
  using assms by (auto simp: confined_def kernel_tables_def)

lemma confined_pages:
  fixes s s' :: "'a kernel_state_scheme"
  assumes "runs_program p s" and "confined p s s'"
  shows "page_entry (kmem s') (cr3 s) v = page_entry (kmem s) (cr3 s) v"
proof (rule directory_same)
  show "cr3 s mod 4096 = 0" using assms(1) by (simp add: runs_program_def)
  fix a
  assume "page_frame a = cr3 s \<or> (\<exists>i < 1024. page_frame a = page_table (kmem s) (cr3 s) i)"
  then have "dir_byte (kmem s) (cr3 s) a" by (simp add: dir_byte_def)
  then show "kmem s' a = kmem s a" using assms unfolding runs_program_def confined_def by blast
qed

lemma confined_printed:
  fixes s s' s'' :: "'a kernel_state_scheme"
  assumes "confined p s s'" and "printed s' s''"
  shows "confined p s s''"
proof -
  obtain m row col rs ports where c: "s' = s\<lparr>kmem := m, terminal_row := row, terminal_col := col,
      tasks := (tasks s)(current_task s \<mapsto> (the (tasks s (current_task s)))\<lparr>task_registers := rs\<rparr>), ports_written := ports\<rparr>"
    using assms(1) by (auto simp: confined_def)
  obtain m' r' c' where p: "s'' = s'\<lparr>kmem := m', terminal_row := r', terminal_col := c'\<rparr>" using assms(2) by (auto simp: printed_def)
  have "s'' = s\<lparr>kmem := m', terminal_row := r', terminal_col := c',
      tasks := (tasks s)(current_task s \<mapsto> (the (tasks s (current_task s)))\<lparr>task_registers := rs\<rparr>), ports_written := ports\<rparr>"
    unfolding p c by simp
  moreover have "\<forall>a. \<not> window a \<longrightarrow> \<not> own_byte p a \<longrightarrow> kmem s'' a = kmem s a"
    using assms by (simp add: confined_def printed_def)
  ultimately show ?thesis using printed_screen [OF assms(2)] unfolding confined_def by blast
qed

lemma confined_outb:
  fixes s s' :: "'a kernel_state_scheme"
  assumes "confined p s s'"
  shows "confined p s (outb prt b s')"
proof -
  obtain m row col rs ports where c: "s' = s\<lparr>kmem := m, terminal_row := row, terminal_col := col,
      tasks := (tasks s)(current_task s \<mapsto> (the (tasks s (current_task s)))\<lparr>task_registers := rs\<rparr>), ports_written := ports\<rparr>"
    using assms by (auto simp: confined_def)
  have "outb prt b s' = s\<lparr>kmem := m, terminal_row := row, terminal_col := col,
      tasks := (tasks s)(current_task s \<mapsto> (the (tasks s (current_task s)))\<lparr>task_registers := rs\<rparr>), ports_written := ports @ [(prt, b)]\<rparr>"
    unfolding outb_def c by simp
  moreover have "screen_ok (outb prt b s')" "kmem (outb prt b s') = kmem s'"
    using assms by (simp_all add: confined_def outb_def screen_ok_def cursor_ok_def)
  ultimately show ?thesis using assms unfolding confined_def by metis
qed

lemma confined_interrupted:
  fixes s s' :: "'a kernel_state_scheme"
  assumes "confined p s s'"
  shows "confined p s (interrupted frame s')"
proof -
  obtain m row col rs ports where c: "s' = s\<lparr>kmem := m, terminal_row := row, terminal_col := col,
      tasks := (tasks s)(current_task s \<mapsto> (the (tasks s (current_task s)))\<lparr>task_registers := rs\<rparr>), ports_written := ports\<rparr>"
    using assms by (auto simp: confined_def)
  have "interrupted frame s' = s\<lparr>kmem := m, terminal_row := row, terminal_col := col,
      tasks := (tasks s)(current_task s \<mapsto> (the (tasks s (current_task s)))\<lparr>task_registers := saved_registers frame\<rparr>), ports_written := ports\<rparr>"
    unfolding interrupted_def c by simp
  moreover have "screen_ok (interrupted frame s')" "kmem (interrupted frame s') = kmem s'"
    using confined_fields(5) [OF assms] interrupted_screen by auto (simp add: interrupted_def)
  ultimately show ?thesis using assms unfolding confined_def by metis
qed

text \<open>Where the page tables let a program store: in its own memory.\<close>

lemma writable_own:
  fixes s s' :: "'a kernel_state_scheme"
  assumes "runs_program p s" and "confined p s s'" and "user_writable (kmem s') (cr3 s') v"
  shows "own_byte p (translate (kmem s') (cr3 s') v)"
proof -
  have tv: "task_view (kmem s) (cr3 s) p" and al: "p_ptr p mod 4096 = 0" "p_stack p mod 4096 = 0" "image_span p mod 4096 = 0"
    using assms(1) by (simp_all add: runs_program_def)
  have e: "page_entry (kmem s') (cr3 s') w = page_entry (kmem s) (cr3 s) w" for w
    using confined_pages [OF assms(1,2)] confined_fields(1) [OF assms(2)] by simp
  then have tr: "translate (kmem s') (cr3 s') v = translate (kmem s) (cr3 s) v" by (simp add: translate_def)
  have "page_frame v AND 7 = 0" by (simp add: page_frame_def and.assoc)
  then have "(page_frame v OR 5) AND 7 \<noteq> 7" by (simp add: bit.conj_disj_distrib2)
  moreover have "page_entry (kmem s) (cr3 s) v AND 7 = 7" using assms(3) e by (simp add: user_writable_def)
  ultimately have "in_stack v \<or> in_image p v" using tv [unfolded task_view_def, THEN conjunct1, THEN spec, of v] by (auto split: if_splits)
  then show ?thesis
  proof (cases "in_stack v")
    case True
    then show ?thesis using view_stack [OF tv al(2) True] by (simp add: tr own_byte_def in_region_base in_stack_def in_region_def)
  next
    case False
    then have i: "in_image p v" using \<open>in_stack v \<or> in_image p v\<close> by simp
    then show ?thesis using view_image [OF tv al(1,3) i False] by (simp add: tr own_byte_def in_region_base in_image_def in_region_def)
  qed
qed

lemma confined_store:
  fixes s s' :: "'a kernel_state_scheme"
  assumes "confined p s s'" and "own_byte p a"
  shows "confined p s (s'\<lparr>kmem := (kmem s')(a := b)\<rparr>)"
proof -
  obtain m row col rs ports where c: "s' = s\<lparr>kmem := m, terminal_row := row, terminal_col := col,
      tasks := (tasks s)(current_task s \<mapsto> (the (tasks s (current_task s)))\<lparr>task_registers := rs\<rparr>), ports_written := ports\<rparr>"
    using assms(1) by (auto simp: confined_def)
  have "s'\<lparr>kmem := (kmem s')(a := b)\<rparr> = s\<lparr>kmem := m(a := b), terminal_row := row, terminal_col := col,
      tasks := (tasks s)(current_task s \<mapsto> (the (tasks s (current_task s)))\<lparr>task_registers := rs\<rparr>), ports_written := ports\<rparr>"
    unfolding c by simp
  moreover have "screen_ok (s'\<lparr>kmem := (kmem s')(a := b)\<rparr>)" using assms(1) by (simp add: confined_def screen_ok_def cursor_ok_def)
  moreover have "\<forall>x. \<not> window x \<longrightarrow> \<not> own_byte p x \<longrightarrow> kmem (s'\<lparr>kmem := (kmem s')(a := b)\<rparr>) x = kmem s x"
    using assms by (auto simp: confined_def)
  ultimately show ?thesis unfolding confined_def by blast
qed

text \<open>The frame is an invariant of the machine.\<close>

lemma confined_step:
  fixes s s' s'' :: "'a kernel_state_scheme"
  assumes "runs_program p s" and "confined p s s'" and "machine_step s' s''"
  shows "confined p s s''"
  using assms(3,2)
proof (cases rule: machine_step.cases)
  case (user_store v b)
  then show ?thesis using confined_store [OF assms(2) writable_own [OF assms(1,2)]] by simp
next
  case keyboard
  then show ?thesis unfolding keyboard int21h_handler_def
    by (intro confined_outb confined_printed [OF assms(2)] printed_lit confined_fields(5) [OF assms(2)])
next
  case other_interrupt
  then show ?thesis unfolding other_interrupt no_interrupt_handler_def by (intro confined_outb assms(2))
next
  case (system_call frame frame')
  have "printed (interrupted frame s') s''"
    using wrapper_effect [OF _ _ _ system_call] confined_fields(3-5) [OF assms(2)] assms(1) by (auto simp: runs_program_def)
  then show ?thesis using confined_printed [OF confined_interrupted [OF assms(2)]] by blast
qed

lemma confined_run:
  fixes s s' :: "'a kernel_state_scheme"
  assumes "runs_program p s" and "machine_step\<^sup>*\<^sup>* s s'"
  shows "confined p s s'"
  using assms(2) by (induction rule: rtranclp_induct) (use confined_refl [OF assms(1)] confined_step [OF assms(1)] in blast)+

text \<open>The state \<open>kmain\<close> enters the program in is one in which a program runs.\<close>

lemma entered_program:
  fixes s :: "'a kernel_state_scheme"
  assumes "cr0_pg s" and "queue_ok s [task]" and "current_task s = task" and "cr3 s = task_dir s task" and "screen_ok s" and "tasks s task = Some u"
    and "task_view (kmem s) (cr3 s) p" and "p_ptr p mod 4096 = 0" and "p_stack p mod 4096 = 0" and "image_span p mod 4096 = 0"
    and "\<forall>a. own_byte p a \<longrightarrow> \<not> window a \<and> \<not> dir_byte (kmem s) (cr3 s) a" and "\<forall>a. dir_byte (kmem s) (cr3 s) a \<longrightarrow> \<not> window a"
  shows "runs_program p s"
proof -
  have own: "task_owned s task" "tasks s 0 = None" using assms(2) by (simp_all add: queue_ok_def)
  then show ?thesis
    using assms table_in_blocks(3) [OF own(1), of 0] by (auto simp: runs_program_def)
qed



end
