(* ===== verification/Boot_Sector.thy ===== *)
theory Boot_Sector
  imports Fat16_Mount Gdt
begin

text \<open>
  Before C: the boot sector (\<^verbatim>\<open>src/boot/boot.asm\<close>), which switches to protected mode, loads the kernel
  with port instructions and jumps to it, and the kernel's entry (\<^verbatim>\<open>src/kernel.asm\<close>), which
  programs the interrupt controller and calls \<open>kmain\<close>. The assembly is modelled in its order, one
  function per label, on the ports of Disk; the registers the kernel is left with are a record.

  Memory is addressed flat, with the A20 line open and no segment limits, as on the emulator
  the \<^verbatim>\<open>Makefile\<close> names. The code relies on both: \<open>load32\<close> stores above one megabyte while \<open>es\<close> is
  still the real-mode segment of 64 KB, and before \<open>_start\<close> opens the line.
\<close>

section \<open>The parameter block\<close>

text \<open>The first 62 bytes of the disk: a short jump to \<open>start\<close> and the fields of the volume.\<close>

definition boot_header :: "u8 list" where
  "boot_header = [0xEB, 0x3C, 0x90] @ bytes_of ''MSWIN4.1'' @ [0x00, 0x02] @ [0x80] @ [200, 0] @ [2] @ [0x40, 0] @ [0, 0] @ [0xF8]
     @ [0x00, 0x01] @ [0x20, 0] @ [0x40, 0] @ [0, 0, 0, 0] @ [0x94, 0x35, 0x77, 0x00]
     @ [0x80] @ [0x00] @ [0x29] @ [0x05, 0xD1, 0x00, 0x00] @ bytes_of ''NUTSOS BOOT'' @ bytes_of ''FAT16   ''"

section \<open>The segments of the boot sector\<close>

definition boot_gdt :: "gdt_raw list" where
  "boot_gdt =
     [\<lparr>limit_low_16bits = 0, base_low_16bits = 0, base_mid_8bits = 0, access = 0, limit_high_and_flags = 0, base_high_8bits = 0\<rparr>,
      \<lparr>limit_low_16bits = 0xFFFF, base_low_16bits = 0, base_mid_8bits = 0, access = 0x9A, limit_high_and_flags = 0b11001111,
       base_high_8bits = 0\<rparr>,
      \<lparr>limit_low_16bits = 0xFFFF, base_low_16bits = 0, base_mid_8bits = 0, access = 0x92, limit_high_and_flags = 0b11001111,
       base_high_8bits = 0\<rparr>]"

text \<open>The registers both files set: segments, stack, protection, the interrupt flag and the table in use.\<close>

record boot_cpu =
  b_cs :: u16
  b_ds :: u16
  b_es :: u16
  b_fs :: u16
  b_gs :: u16
  b_ss :: u16
  b_esp :: u32
  b_ebp :: u32
  b_cr0 :: u32
  b_if :: bool
  b_gdtr :: "(u16 \<times> u32) option"

definition CODE_SEG :: u16 where "CODE_SEG = 8"
definition DATA_SEG :: u16 where "DATA_SEG = 16"

text \<open>\<open>start\<close> and \<open>setup_segments\<close>: real mode, so that \<open>mov sp\<close> leaves the upper half of \<open>esp\<close>.\<close>

definition setup_segments :: "boot_cpu \<Rightarrow> boot_cpu" where
  "setup_segments c = c\<lparr>b_cs := 0, b_ds := 0, b_es := 0, b_ss := 0, b_esp := (b_esp c AND 0xFFFF0000) OR 0x7C00, b_if := True\<rparr>"

text \<open>\<open>.load_protected\<close>, with the address of \<open>gdt_start\<close>: the register takes the size of the table less one.\<close>

definition load_protected :: "u32 \<Rightarrow> boot_cpu \<Rightarrow> boot_cpu" where
  "load_protected gdt_start c =
     c\<lparr>b_if := False, b_gdtr := Some (of_nat (8 * length boot_gdt) - 1, gdt_start), b_cr0 := b_cr0 c OR 1, b_cs := CODE_SEG\<rparr>"

section \<open>Loading the kernel\<close>

text \<open>The register writes before the loop of \<open>ata_lba_read\<close>: \<open>eax\<close> is the first sector, \<open>ecx\<close> the number.\<close>

definition ata_select :: "'d io_ports \<Rightarrow> u32 \<Rightarrow> u32 \<Rightarrow> 'd \<Rightarrow> 'd" where
  "ata_select io eax ecx d =
     (let ebx = eax;
          d1 = port_outb io 0x1F6 (ucast (drop_bit 24 eax OR 0xE0)) d;
          d2 = port_outb io 0x1F2 (ucast ecx) d1;
          d3 = port_outb io 0x1F3 (ucast ebx) d2;
          d4 = port_outb io 0x1F4 (ucast (drop_bit 8 ebx)) d3;
          d5 = port_outb io 0x1F5 (ucast (drop_bit 16 ebx)) d4
      in port_outb io 0x1F7 0x20 d5)"

text \<open>\<open>.try_again\<close>: \<open>in\<close>, \<open>test al, 8\<close>, \<open>jz\<close>.\<close>

partial_function (option) try_again :: "'d io_ports \<Rightarrow> 'd \<Rightarrow> 'd option" where
  "try_again io d =
     (case port_insb io 0x1F7 d of (al, d1) \<Rightarrow> if al AND 8 = 0 then try_again io d1 else Some d1)"

text \<open>\<open>rep insw\<close>: \<open>ecx\<close> words to \<open>edi\<close> on, which moves along.\<close>

fun rep_insw :: "'d io_ports \<Rightarrow> nat \<Rightarrow> u32 \<Rightarrow> mem \<Rightarrow> 'd \<Rightarrow> u32 \<times> mem \<times> 'd" where
  "rep_insw io 0 edi m d = (edi, m, d)"
| "rep_insw io (Suc ecx) edi m d =
     (case port_insw io 0x1F0 d of (w, d1) \<Rightarrow> rep_insw io ecx (edi + 2) (write_bytes m edi [ucast w, ucast (drop_bit 8 w)]) d1)"

text \<open>
  \<open>.next_sector\<close>: a sector for each round of \<open>loop\<close>, which counts \<open>ecx\<close> down first and so runs
  \<open>2 ^ 32\<close> rounds from zero.
\<close>

fun next_sector :: "'d io_ports \<Rightarrow> nat \<Rightarrow> u32 \<Rightarrow> mem \<Rightarrow> 'd \<Rightarrow> (u32 \<times> mem \<times> 'd) option" where
  "next_sector io 0 edi m d = Some (edi, m, d)"
| "next_sector io (Suc rounds) edi m d = do {
     d1 \<leftarrow> try_again io d;
     let (edi1, m1, d2) = rep_insw io 256 edi m d1;
     next_sector io rounds edi1 m1 d2
   }"

definition ata_lba_read :: "'d io_ports \<Rightarrow> u32 \<Rightarrow> u32 \<Rightarrow> u32 \<Rightarrow> mem \<Rightarrow> 'd \<Rightarrow> (u32 \<times> mem \<times> 'd) option" where
  "ata_lba_read io eax ecx edi m d =
     next_sector io (if ecx = 0 then 2 ^ 32 else unat ecx) edi m (ata_select io eax ecx d)"

text \<open>\<open>load32\<close>: a hundred sectors from sector 1 on to 0x100000, where the jump goes.\<close>

definition load32 :: "'d io_ports \<Rightarrow> mem \<Rightarrow> 'd \<Rightarrow> (u32 \<times> mem \<times> 'd) option" where
  "load32 io m d = do {
     (edi, m1, d1) \<leftarrow> ata_lba_read io 1 100 0x00100000 m d;
     Some (0x00100000, m1, d1)
   }"

section \<open>The entry of the kernel\<close>

text \<open>\<open>_start\<close>: segments and stack, the A20 line, and the offset of the first interrupt controller.\<close>

definition kernel_start :: "'d io_ports \<Rightarrow> boot_cpu \<Rightarrow> 'd \<Rightarrow> boot_cpu \<times> 'd" where
  "kernel_start io c d =
     (let c1 = c\<lparr>b_ds := DATA_SEG, b_es := DATA_SEG, b_fs := DATA_SEG, b_gs := DATA_SEG, b_ss := DATA_SEG,
                 b_ebp := 0x00200000, b_esp := 0x00200000\<rparr>
      in case port_insb io 0x92 d of (al, d1) \<Rightarrow>
        let d2 = port_outb io 0x92 (al OR 2) d1;
            d3 = port_outb io 0x20 0b00010001 d2;
            d4 = port_outb io 0x21 0x20 d3
        in (c1, port_outb io 0x21 0b00000001 d4))"

text \<open>From the first instruction of the boot sector to the call of \<open>kmain\<close>; the far jump goes to \<open>CODE_SEG\<close>.\<close>

definition boot_to_kmain :: "'d io_ports \<Rightarrow> u32 \<Rightarrow> boot_cpu \<Rightarrow> mem \<Rightarrow> 'd \<Rightarrow> (boot_cpu \<times> mem \<times> 'd) option" where
  "boot_to_kmain io gdt_start c m d = do {
     let c1 = load_protected gdt_start (setup_segments c);
     (eip, m1, d1) \<leftarrow> load32 io m d;
     (if eip \<noteq> 0x00100000 then None
      else let (c2, d2) = kernel_start io (c1\<lparr>b_cs := CODE_SEG\<rparr>) d1 in Some (c2, m1, d2))
   }"

section \<open>The boot sector's volume and segments\<close>

text \<open>A disk that starts with the boot sector is a volume of the driver, once its root directory ends.\<close>

lemma boot_geometry:
  assumes "\<forall>i < 62. img i = boot_header ! i"
  shows "root_sector img = 712" and "root_bytes img = 2048" and "hdr_sectors_per_cluster (image_header img) = 128"
    and "hdr_signature (image_header img) = NUTOS_FAT16_SIGNATURE"
proof -
  have "length boot_header = 62" by (simp add: boot_header_def bytes_of_def)
  then have h: "image_header img = boot_header"
    using assms by (intro nth_equalityI) (simp_all add: image_header_def sizeof_fat_header_def)
  have v: "hdr_signature boot_header = 0x29" "hdr_sectors_per_cluster boot_header = 128" "hdr_reserved_sectors boot_header = 200"
    "hdr_fat_copies boot_header = 2" "hdr_root_dir_entries boot_header = 64" "hdr_sectors_per_fat boot_header = 256"
    by (simp_all add: boot_header_def bytes_of_def hdr_signature_def hdr_sectors_per_cluster_def hdr_reserved_sectors_def
        hdr_fat_copies_def hdr_root_dir_entries_def hdr_sectors_per_fat_def hdr_u8_def hdr_u16_def le16_def)
  show "root_sector img = 712" "root_bytes img = 2048" "hdr_sectors_per_cluster (image_header img) = 128"
    "hdr_signature (image_header img) = NUTOS_FAT16_SIGNATURE"
    by (simp_all add: root_sector_def root_bytes_def h v Let_def NUTOS_FAT16_SIGNATURE_def)
qed

lemma boot_volume:
  assumes "\<forall>i < 62. img i = boot_header ! i"
  shows "fat_volume img n \<longleftrightarrow> n < 64 \<and> entry_mark img 364544 n = 0 \<and> (\<forall>k < n. entry_mark img 364544 k \<noteq> 0)"
  by (simp add: fat_volume_def boot_geometry [OF assms])

text \<open>Both segments are flat, of ring 0, code and data.\<close>

lemma boot_segments:
  "map decode_gdt_entry boot_gdt = [\<lparr>gdt_base = 0, gdt_limit = 0, gdt_type = 0\<rparr>,
     \<lparr>gdt_base = 0, gdt_limit = 0xFFFFFFFF, gdt_type = 0x9A\<rparr>, \<lparr>gdt_base = 0, gdt_limit = 0xFFFFFFFF, gdt_type = 0x92\<rparr>]"
  by (simp add: boot_gdt_def decode_gdt_entry_def Let_def)

section \<open>The loader and the driver\<close>

lemma byte_drop: "(ucast (drop_bit n w OR v) :: u8) = ucast (signed_drop_bit n w OR v)" if "n + 8 \<le> 32" for w v :: u32
  by (rule bit_word_eqI) (use that in \<open>auto simp: bit_simps\<close>)

lemma ata_select_disk: "ata_select io lba c d = disk_select io lba c d"
proof -
  have "lba AND 0xFF = take_bit 8 lba" by (simp only: take_bit_eq_mask mask_eq_exp_minus_1) simp
  then have "(ucast (lba AND 0xFF) :: u8) = ucast lba" by (simp only:) (rule bit_word_eqI, auto simp: bit_simps)
  then show ?thesis using byte_drop [of 24 lba] byte_drop [of 8 lba 0] byte_drop [of 16 lba 0]
    by (simp add: ata_select_def disk_select_def Let_def)
qed

lemma try_again_disk: "try_again io d = disk_wait io d"
proof -
  have 1: "disk_wait io d = Some y" if "try_again io d = Some y" for y
    using that
    by (rule try_again.raw_induct [where P = "\<lambda>io d y. disk_wait io d = Some y", rotated])
      (subst disk_wait.simps, auto simp: Let_def split: prod.splits if_splits)
  have 2: "try_again io d = Some y" if "disk_wait io d = Some y" for y
    using that
    by (rule disk_wait.raw_induct [where P = "\<lambda>io d y. try_again io d = Some y", rotated])
      (subst try_again.simps, auto simp: Let_def split: prod.splits if_splits)
  show ?thesis using 1 2 by (cases "try_again io d"; cases "disk_wait io d") auto
qed

lemma rep_insw_disk:
  "rep_insw io n edi m d = (case disk_words io n d of (bs, d') \<Rightarrow> (edi + of_nat (2 * n), write_bytes m edi bs, d'))"
proof (induction n arbitrary: edi m d)
  case (Suc n)
  obtain w d1 where w: "port_insw io 0x1F0 d = (w, d1)" by (cases "port_insw io 0x1F0 d")
  obtain bs d2 where bs: "disk_words io n d1 = (bs, d2)" by (cases "disk_words io n d1")
  have e: "edi + 2 + of_nat (2 * n) = edi + of_nat (2 * Suc n)" by (simp add: algebra_simps)
  have m: "write_bytes (write_bytes m edi [ucast w, ucast (drop_bit 8 w)]) (edi + 2) bs = write_bytes m edi (ucast w # ucast (drop_bit 8 w) # bs)"
    using write_bytes_append [of m edi "[ucast w, ucast (drop_bit 8 w)]" bs] by (simp add: add.assoc)
  have "disk_words io (Suc n) d = (ucast w # ucast (drop_bit 8 w) # bs, d2)" by (simp add: w bs)
  moreover have "rep_insw io (Suc n) edi m d = rep_insw io n (edi + 2) (write_bytes m edi [ucast w, ucast (drop_bit 8 w)]) d1"
    by (simp only: rep_insw.simps w prod.case)
  ultimately show ?case by (simp only: Suc.IH bs prod.case e m)
qed simp

lemma length_disk_words: "disk_words io n d = (bs, d') \<Longrightarrow> length bs = 2 * n"
  by (induction n arbitrary: d bs d') (auto simp: Let_def split: prod.splits)

lemma next_sector_disk:
  "next_sector io n edi m d = map_option (\<lambda>(bs, d'). (edi + of_nat (512 * n), write_bytes m edi bs, d')) (disk_sectors io n d)"
proof (induction n arbitrary: edi m d)
  case (Suc n)
  show ?case
  proof (cases "disk_wait io d")
    case None
    then show ?thesis by (simp add: try_again_disk)
  next
    case (Some d1)
    obtain bs d2 where bs: "disk_words io 256 d1 = (bs, d2)" by (cases "disk_words io 256 d1")
    have len: "length bs = 512" using length_disk_words [OF bs] by simp
    have e: "edi + 512 + of_nat (512 * n) = edi + of_nat (512 * Suc n)" by (simp add: algebra_simps)
    have "next_sector io (Suc n) edi m d = next_sector io n (edi + 512) (write_bytes m edi bs) d2"
      by (simp add: try_again_disk Some rep_insw_disk bs)
    also have "\<dots> = map_option (\<lambda>(bs', d'). (edi + of_nat (512 * Suc n), write_bytes m edi (bs @ bs'), d')) (disk_sectors io n d2)"
      by (simp only: Suc.IH e write_bytes_append len) (simp add: len)
    also have "\<dots> = map_option (\<lambda>(bs', d'). (edi + of_nat (512 * Suc n), write_bytes m edi bs', d')) (disk_sectors io (Suc n) d)"
      by (simp add: Some bs del: of_nat_mult of_nat_Suc) (cases "disk_sectors io n d2"; auto simp del: of_nat_mult of_nat_Suc)
    finally show ?thesis .
  qed
qed simp

lemma sectors_image:
  assumes "unat lba + n < 2 ^ 32"
  shows "concat (map (\<lambda>k. sector_of dimg (lba + of_nat k)) [0..<n]) = map dimg [512 * unat lba..<512 * (unat lba + n)]"
  using assms
proof (induction n)
  case (Suc n)
  have u: "unat (lba + of_nat n :: u32) = unat lba + n"
    using Suc.prems by (simp add: unat_add_lem [THEN iffD1] unat_of_nat)
  have "sector_of dimg (lba + of_nat n) = map dimg [512 * (unat lba + n)..<512 * (unat lba + n) + 512]"
    by (rule nth_equalityI) (simp_all add: sector_of_def u)
  moreover have "[512 * unat lba..<512 * (unat lba + Suc n)]
    = [512 * unat lba..<512 * (unat lba + n)] @ [512 * (unat lba + n)..<512 * (unat lba + n) + 512]"
    using upt_add_eq_append [of "512 * unat lba" "512 * (unat lba + n)" 512] by (simp add: ac_simps)
  ultimately show ?case using Suc by simp
qed simp

lemma ata_lba_read_disk:
  assumes "0 < sint ecx"
  shows "ata_lba_read io lba ecx edi m d
    = map_option (\<lambda>(res, bs, d'). (edi + 512 * ecx, write_bytes m edi bs, d')) (disk_read_sector io lba ecx d)"
proof -
  have nz: "ecx \<noteq> 0" using assms by auto
  have "uint ecx = sint ecx"
    using assms sint_lt [of ecx] uint_sint [of ecx] by (simp add: take_bit_int_eq_self)
  then have "nat (sint ecx) = unat ecx" by (metis unat_eq_nat_uint)
  then show ?thesis
    by (cases "disk_sectors io (unat ecx) (disk_select io lba ecx d)")
      (auto simp: ata_lba_read_def nz next_sector_disk ata_select_disk disk_read_sector_def)
qed

lemma ata_lba_read_image:
  assumes "ata_protocol io reg pending wait (sector_of dimg)" and "0 < n" "n < 256" and "unat lba < 268435456"
  shows "\<exists>m' d'. ata_lba_read io lba (of_nat n) edi m d = Some (edi + 512 * of_nat n, m', d')
    \<and> (\<forall>a. m' a = (if unat (a - edi) < 512 * n then dimg (512 * unat lba + unat (a - edi)) else m a))"
proof -
  let ?bs = "map dimg [512 * unat lba..<512 * (unat lba + n)]"
  obtain d' where read: "disk_read_sector io lba (of_nat n) d = Some (0, ?bs, d')"
    using disk_read_sector_ata [OF assms(1) _ assms(4) refl assms(3), of d] sectors_image [of lba n dimg] assms(3,4) by auto
  have "unat (of_nat n :: u32) = n" using assms(3) by (simp add: unat_of_nat)
  then have "0 < sint (of_nat n :: u32)" using assms(2,3) by (simp add: sint_small)
  from ata_lba_read_disk [OF this, of io lba edi m d] read
  have run: "ata_lba_read io lba (of_nat n) edi m d = Some (edi + 512 * of_nat n, write_bytes m edi ?bs, d')" by simp
  have "write_bytes m edi ?bs a = (if unat (a - edi) < 512 * n then dimg (512 * unat lba + unat (a - edi)) else m a)" for a
    using assms(3) by (subst write_bytes_spec) auto
  with run show ?thesis by blast
qed

section \<open>Properties\<close>

text \<open>
  C14. The assembly that loads the kernel and the C driver are the same reader: on every
  controller, one that keeps the protocol or not, \<open>ata_lba_read\<close> puts in memory from \<open>edi\<close> on exactly
  what \<open>disk_read_sector\<close> reads, leaves the controller in the same state, and polls without end
  exactly when the driver does.
\<close>

theorem loader_reads_as_driver:
  assumes "0 < sint ecx"
  shows "ata_lba_read io lba ecx edi m d
    = map_option (\<lambda>(res, bs, d'). (edi + 512 * ecx, write_bytes m edi bs, d')) (disk_read_sector io lba ecx d)"
  using assms by (rule ata_lba_read_disk)

theorem loader_reads_as_driver_witness:
  "\<exists>d'. ata_lba_read (sim_ports (\<lambda>l. replicate 512 (ucast l))) 7 1 0x8000 (\<lambda>_. 0) (\<lambda>_. 0, [], 5)
    = Some (0x8200, write_bytes (\<lambda>_. 0) 0x8000 (replicate 512 7), d')"
proof -
  let ?io = "sim_ports (\<lambda>l. replicate 512 (ucast l))"
  obtain d' where "disk_read_sector ?io 7 1 (\<lambda>_. 0, [], 5) = Some (0, replicate 512 7, d')"
    using disk_read_sector_ata [OF sim_ports_protocol, where img = "\<lambda>l. replicate 512 (ucast l)" and lba = 7 and n = 1
        and total_sectors = 1 and d = "(\<lambda>_. 0, [], 5)"] by auto
  then show ?thesis
    using loader_reads_as_driver [where ecx = 1 and io = ?io and lba = 7 and edi = "0x8000" and m = "\<lambda>_. 0" and d = "(\<lambda>_. 0, [], 5)"]
    by (intro exI [of _ d']) simp
qed


definition reset_cpu :: boot_cpu where
  "reset_cpu = \<lparr>b_cs = 0, b_ds = 0, b_es = 0, b_fs = 0, b_gs = 0, b_ss = 0, b_esp = 0, b_ebp = 0, b_cr0 = 0, b_if = True, b_gdtr = None\<rparr>"


end
