(* ===== verification/Segments.thy ===== *)
theory Segments
  imports Machine Boot_Sector
begin

text \<open>
  The types of segments: what the processor demands of a descriptor before it accepts the selector in a
  register, and that every selector the kernel loads, or leaves for the processor to load, meets it.
\<close>

section \<open>Segment types\<close>

text \<open>Code that is not conforming, data that may be written or not, a free 32-bit task state segment, and the rest.\<close>

datatype segment_type = Code_Segment | Data_Segment bool | Available_TSS | Other_Segment

definition segment_type :: "u8 \<Rightarrow> segment_type" where
  "segment_type a =
     (if bit a 4 then (if bit a 3 then (if bit a 2 then Other_Segment else Code_Segment) else Data_Segment (bit a 1))
      else if a AND 0x0F = 0x09 then Available_TSS else Other_Segment)"

definition privilege :: "u8 \<Rightarrow> u8" where
  "privilege a = drop_bit 5 a AND 3"

text \<open>
  What a selector names in a table as the processor decodes it: a present entry of the global table, not the
  first. A local table (bit 2) is never loaded.
\<close>

definition named_segment :: "gdt list \<Rightarrow> u32 \<Rightarrow> gdt option" where
  "named_segment tbl sel =
     (let i = unat (drop_bit 3 sel)
      in if bit sel 2 \<or> i = 0 \<or> i \<ge> length tbl then None
         else if bit (gdt_type (tbl ! i)) 7 then Some (tbl ! i) else None)"

text \<open>The judgement: \<open>sel\<close> names a segment of this type, privilege, base and limit.\<close>

definition has_type :: "gdt list \<Rightarrow> u32 \<Rightarrow> segment_type \<Rightarrow> u8 \<Rightarrow> u32 \<times> u32 \<Rightarrow> bool" where
  "has_type tbl sel ty ring extent \<longleftrightarrow> (case named_segment tbl sel of
     None \<Rightarrow> False
   | Some g \<Rightarrow> segment_type (gdt_type g) = ty \<and> privilege (gdt_type g) = ring \<and> (gdt_base g, gdt_limit g) = extent)"

abbreviation flat :: "u32 \<times> u32" where "flat \<equiv> (0, 0xFFFFFFFF)"

text \<open>
  The tables agree: every gate is a present 32-bit interrupt gate into code of ring 0 and open to ring 3, the stack the
  processor then switches to is writable data of ring 0, and the task register names the task state
  segment the kernel fills.
\<close>

definition tables_typed :: "link_map \<Rightarrow> 'a kernel_state_scheme \<Rightarrow> bool" where
  "tables_typed l s \<longleftrightarrow> (let tbl = map decode_gdt_entry (gdt_raw_table s) in
     (\<forall>d \<in> set (idt_descriptors s). has_type tbl (ucast (selector d)) Code_Segment 0 flat
        \<and> bit (type_attr d) 7 \<and> privilege (type_attr d) = 3 \<and> type_attr d AND 0x1F = 0x0E)
   \<and> has_type tbl (tss_ss0 (kernel_tss s)) (Data_Segment True) 0 flat
   \<and> (\<exists>tr. tr_loaded s = Some tr \<and> has_type tbl tr Available_TSS 3 (addr_tss l, sizeof_tss - 1)))"

section \<open>The kernel's table\<close>

lemma kernel_gdt_entries:
  "kernel_gdt a =
     [\<lparr>gdt_base = 0, gdt_limit = 0, gdt_type = 0\<rparr>, \<lparr>gdt_base = 0, gdt_limit = 0xFFFFFFFF, gdt_type = 0x9A\<rparr>,
      \<lparr>gdt_base = 0, gdt_limit = 0xFFFFFFFF, gdt_type = 0x92\<rparr>, \<lparr>gdt_base = 0, gdt_limit = 0xFFFFFFFF, gdt_type = 0xF8\<rparr>,
      \<lparr>gdt_base = 0, gdt_limit = 0xFFFFFFFF, gdt_type = 0xF2\<rparr>, \<lparr>gdt_base = a, gdt_limit = sizeof_tss - 1, gdt_type = 0xE9\<rparr>]"
  by (simp add: kernel_gdt_def GDT_SEG_RW_def GDT_SEG_EX_def GDT_SEG_DESC_def GDT_SEG_PRIV_def GDT_SEG_PRES_def GDT_TSS_PRIV_def
      GDT_TSS_PRES_def GDT_TSS_32BIT_def GDT_TSS_TSSLDT_def)

lemma kernel_gdt_typed:
  "has_type (kernel_gdt a) 0x08 Code_Segment 0 flat" "has_type (kernel_gdt a) 0x10 (Data_Segment True) 0 flat"
  "has_type (kernel_gdt a) 0x1B Code_Segment 3 flat" "has_type (kernel_gdt a) 0x23 (Data_Segment True) 3 flat"
  "has_type (kernel_gdt a) 0x28 Available_TSS 3 (a, sizeof_tss - 1)"
  by (simp_all add: has_type_def named_segment_def kernel_gdt_entries segment_type_def privilege_def Let_def bit_simps)

lemma kernel_tables_typed:
  assumes "kernel_tables l s"
  shows "tables_typed l s"
proof -
  have t: "map decode_gdt_entry (gdt_raw_table s) = kernel_gdt (addr_tss l)" "tr_loaded s = Some 0x28" "tss_ss0 (kernel_tss s) = 0x10"
    "\<forall>d \<in> set (idt_descriptors s). selector d = 8 \<and> type_attr d = 0xEE"
    using assms by (simp_all add: kernel_tables_def)
  have "bit (0xEE :: u8) 7" "privilege 0xEE = 3" "(0xEE :: u8) AND 0x1F = 0x0E" by (simp_all add: privilege_def bit_simps)
  then show ?thesis using t kernel_gdt_typed unfolding tables_typed_def Let_def by auto
qed

text \<open>The boot sector's selectors mean the same in both tables, so the registers loaded under its table stay typed.\<close>

lemma boot_selectors_typed:
  "has_type (map decode_gdt_entry boot_gdt) 0x08 Code_Segment 0 flat"
  "has_type (map decode_gdt_entry boot_gdt) 0x10 (Data_Segment True) 0 flat"
  unfolding boot_segments
  by (simp_all add: has_type_def named_segment_def segment_type_def privilege_def Let_def bit_simps)

section \<open>Properties\<close>



end
