(* ===== verification/Program.thy ===== *)
theory Program
  imports Machine
begin

text \<open>
  The first user program (\<^verbatim>\<open>programs/empty/src/main.c\<close>) on the machine \<open>kmain\<close> leaves: its stores go
  through the page tables and its system call through the handler.
\<close>

section \<open>The program\<close>

definition local_msg :: "u8 list" where
  "local_msg = bytes_of ''Empty program is running yo!''"

text \<open>A store of ring 3, byte by byte; \<open>None\<close> is the fault of a store the page tables forbid.\<close>

fun user_stores :: "u32 \<Rightarrow> u8 list \<Rightarrow> 'a kernel_state_scheme \<Rightarrow> 'a kernel_state_scheme option" where
  "user_stores v [] s = Some s"
| "user_stores v (b # bs) s =
     (if user_writable (kmem s) (cr3 s) v
      then user_stores (v + 1) bs (s\<lparr>kmem := (kmem s)(translate (kmem s) (cr3 s) v := b)\<rparr>) else None)"

text \<open>\<open>push\<close>.\<close>

definition user_push :: "u32 \<Rightarrow> interrupt_frame \<Rightarrow> 'a kernel_state_scheme \<Rightarrow> (interrupt_frame \<times> 'a kernel_state_scheme) option" where
  "user_push w frame s = do {
     let esp = f_esp frame - 4;
     s1 \<leftarrow> user_stores esp [ucast w, ucast (drop_bit 8 w), ucast (drop_bit 16 w), ucast (drop_bit 24 w)] s;
     Some (frame\<lparr>f_esp := esp\<rparr>, s1)
   }"

text \<open>
  The assembly of \<open>main\<close>, with the address the linker gives the message and the registers before it: \<open>mov\<close>,
  \<open>push\<close>, \<open>int\<close> and \<open>add\<close>. The empty loop follows.
\<close>

definition program_main ::
    "u32 \<Rightarrow> interrupt_frame \<Rightarrow> 'a kernel_state_scheme \<Rightarrow> (interrupt_frame, 'a kernel_state_scheme) outcome option" where
  "program_main msg frame s = do {
     (frame1, s1) \<leftarrow> user_push msg (frame\<lparr>f_eax := 1\<rparr>) s;
     r \<leftarrow> isr80h_wrapper frame1 s1;
     Some (case r of
        Returns frame2 s2 \<Rightarrow> Returns (frame2\<lparr>f_esp := f_esp frame2 + 8\<rparr>) s2
      | Panics m s2 \<Rightarrow> Panics m s2
      | Enters_User c s2 \<Rightarrow> Enters_User c s2)
   }"

section \<open>Stores to the stack\<close>

text \<open>The entries of the directory stay.\<close>

lemma confined_cells:
  fixes s s' :: "'a kernel_state_scheme"
  assumes "runs_program p s" and "confined p s s'" and "i < 1024"
  shows "read32 (kmem s') (cr3 s + 4 * of_nat i) = read32 (kmem s) (cr3 s + 4 * of_nat i)"
proof (rule cell_same [OF _ _ assms(3)])
  show "cr3 s mod 4096 = 0" using assms(1) by (simp add: runs_program_def)
  show "kmem s' a = kmem s a" if "page_frame a = cr3 s" for a
  proof -
    have "dir_byte (kmem s) (cr3 s) a" using that by (simp add: dir_byte_def)
    then show ?thesis using assms unfolding runs_program_def confined_def by blast
  qed
qed

text \<open>Every address of the stack can be stored to, and leads to its byte of the stack.\<close>

lemma stack_writable:
  fixes s s' :: "'a kernel_state_scheme"
  assumes "runs_program p s" and "confined p s s'" and "in_stack v"
  shows "user_writable (kmem s') (cr3 s') v" and "translate (kmem s') (cr3 s') v = p_stack p + (v - 0x003FB000)"
proof -
  have tv: "task_view (kmem s) (cr3 s) p" and al: "p_stack p mod 4096 = 0" using assms(1) by (simp_all add: runs_program_def)
  have c: "cr3 s' = cr3 s" using confined_fields(1) [OF assms(2)] .
  have "page_entry (kmem s) (cr3 s) v AND 7 = 7"
    using tv assms(3) by (simp add: task_view_def bit.conj_disj_distrib2)
  moreover have "read32 (kmem s) (cr3 s + 4 * of_nat (dir_index v)) AND 7 = 7"
    using tv dir_index_less [of v] by (simp add: task_view_def dir_open_def)
  ultimately show "user_writable (kmem s') (cr3 s') v"
    using confined_cells [OF assms(1,2) dir_index_less] confined_pages [OF assms(1,2)] by (simp add: user_writable_def c)
  show "translate (kmem s') (cr3 s') v = p_stack p + (v - 0x003FB000)"
    using view_stack [OF tv al assms(3)] confined_pages [OF assms(1,2)] by (simp add: translate_def c)
qed

lemma stack_stores:
  fixes s s' :: "'a kernel_state_scheme"
  assumes "runs_program p s" and "confined p s s'" and "\<forall>i < length bs. in_stack (v + of_nat i)"
    and "s'' = s'\<lparr>kmem := write_bytes (kmem s') (p_stack p + (v - 0x003FB000)) bs\<rparr>"
  shows "user_stores v bs s' = Some s'' \<and> confined p s s'' \<and> machine_step\<^sup>*\<^sup>* s' s''"
  using assms(2-4)
proof (induction bs arbitrary: v s')
  case Nil
  then show ?case by simp
next
  case (Cons b bs)
  have v: "in_stack v" using Cons.prems(2) [rule_format, of 0] by simp
  note w = stack_writable [OF assms(1) Cons.prems(1) v]
  let ?q = "p_stack p + (v - 0x003FB000)"
  let ?s1 = "s'\<lparr>kmem := (kmem s')(?q := b)\<rparr>"
  have c: "confined p s ?s1"
    using confined_store [OF Cons.prems(1), of ?q b] writable_own [OF assms(1) Cons.prems(1) w(1)] by (simp add: w(2))
  have st: "machine_step s' ?s1" using machine_step.user_store [OF w(1), of b] by (simp add: w(2))
  have rest: "\<forall>i < length bs. in_stack (v + 1 + of_nat i)"
  proof (intro allI impI)
    fix i
    assume "i < length bs"
    then show "in_stack (v + 1 + of_nat i)" using Cons.prems(2) [rule_format, of "Suc i"] by (simp add: add.assoc)
  qed
  have q1: "p_stack p + (v + 1 - 0x003FB000) = ?q + 1" by simp
  have "s'' = ?s1\<lparr>kmem := write_bytes (kmem ?s1) (p_stack p + (v + 1 - 0x003FB000)) bs\<rparr>" using Cons.prems(3) unfolding q1 by simp
  from Cons.IH [OF c rest this] w st show ?case by (auto intro: converse_rtranclp_into_rtranclp)
qed

section \<open>The message\<close>

text \<open>What a run on the program's own memory keeps of its address space.\<close>

lemma confined_dir_wf:
  fixes s s' :: "'a kernel_state_scheme"
  assumes "runs_program p s" and "confined p s s'" and "dir_wf (kmem s) (cr3 s)"
  shows "dir_wf (kmem s') (cr3 s')"
proof -
  have "page_table (kmem s') (cr3 s) i = page_table (kmem s) (cr3 s) i" if "i < 1024" for i
    using confined_cells [OF assms(1,2) that] by (simp add: page_table_def)
  then show ?thesis using assms(3) confined_fields(1) [OF assms(2)] by (simp add: dir_wf_def)
qed

lemma confined_dir_window:
  fixes s s' :: "'a kernel_state_scheme"
  assumes "runs_program p s" and "confined p s s'"
  shows "\<forall>a. page_frame a = cr3 s' \<or> (\<exists>i < 1024. page_frame a = page_table (kmem s') (cr3 s') i) \<longrightarrow> \<not> window a"
proof -
  have "page_table (kmem s') (cr3 s) i = page_table (kmem s) (cr3 s) i" if "i < 1024" for i
    using confined_cells [OF assms that] by (simp add: page_table_def)
  moreover have "\<forall>a. page_frame a = cr3 s \<or> (\<exists>i < 1024. page_frame a = page_table (kmem s) (cr3 s) i) \<longrightarrow> \<not> window a"
    using assms(1) by (simp add: runs_program_def dir_byte_def)
  ultimately show ?thesis using confined_fields(1) [OF assms(2)] by (simp cong: conj_cong)
qed

lemma read32_parts:
  assumes "m v = ucast w" and "m (v + 1) = ucast (drop_bit 8 w)" and "m (v + 2) = ucast (drop_bit 16 w)" and "m (v + 3) = ucast (drop_bit 24 w)"
  shows "read32 m v = w"
proof -
  have "write32 m v w = m" using assms by (auto simp: write32_def fun_eq_iff)
  then show ?thesis using read32_write32_same [of m v w] by simp
qed

text \<open>\<open>push\<close> writes the word, and only that, to the stack.\<close>

lemma push_stack:
  fixes s :: "'a kernel_state_scheme"
  assumes "runs_program p s" and "0x003FB004 \<le> f_esp frame" and "f_esp frame \<le> 0x003FF000"
  shows "\<exists>s1. user_push w frame s = Some (frame\<lparr>f_esp := f_esp frame - 4\<rparr>, s1) \<and> confined p s s1 \<and> machine_step\<^sup>*\<^sup>* s s1
    \<and> s1 = s\<lparr>kmem := kmem s1\<rparr> \<and> read32 (view s1 (kmem s1)) (f_esp frame - 4) = w
    \<and> (\<forall>a. \<not> in_region (p_stack p) 0x4000 a \<longrightarrow> kmem s1 a = kmem s a)"
proof -
  let ?v = "f_esp frame - 4"
  let ?bs = "[ucast w, ucast (drop_bit 8 w), ucast (drop_bit 16 w), ucast (drop_bit 24 w)] :: u8 list"
  let ?q = "p_stack p + (?v - 0x003FB000)"
  obtain s1 where s1: "s1 = s\<lparr>kmem := write_bytes (kmem s) ?q ?bs\<rparr>" by blast
  have low: "unat (?v - 0x003FB000) + 4 \<le> 0x4000"
    using assms(2,3) by (simp add: word_le_nat_alt unat_sub_if' split: if_splits)
  have off: "unat (?v - 0x003FB000 + of_nat i) = unat (?v - 0x003FB000) + i" if "i < 4" for i
  proof -
    have "unat (of_nat i :: u32) = i" using that by (intro unat_of_nat_small) simp
    then show ?thesis using low that by (subst unat_add_lem [THEN iffD1]) simp_all
  qed
  have stk: "in_stack (?v + of_nat i)" if "i < 4" for i
  proof -
    have "?v + of_nat i - 0x003FB000 = ?v - 0x003FB000 + of_nat i" by simp
    then show ?thesis using off [OF that] low that unfolding in_stack_def in_region_def by (simp only: word_less_nat_alt) simp
  qed
  have st: "user_stores ?v ?bs s = Some s1 \<and> confined p s s1 \<and> machine_step\<^sup>*\<^sup>* s s1"
    by (rule stack_stores [OF assms(1) confined_refl [OF assms(1)] _ s1]) (use stk in simp)
  have mem: "kmem s1 a = (if unat (a - ?q) < 4 then ?bs ! unat (a - ?q) else kmem s a)" for a
    unfolding s1 by (simp add: write_bytes_spec del: write_bytes.simps(2))
  have pg: "cr0_pg s1" using assms(1) by (simp add: s1 runs_program_def)
  have byte: "view s1 (kmem s1) (?v + of_nat i) = ?bs ! i" if "i < 4" for i
  proof -
    have "translate (kmem s1) (cr3 s1) (?v + of_nat i) = ?q + of_nat i"
      using stack_writable(2) [OF assms(1) conjunct1 [OF conjunct2 [OF st]] stk [OF that]] by simp
    moreover have "unat (of_nat i :: u32) = i" using that by (intro unat_of_nat_small) simp
    ultimately show ?thesis using that pg by (simp add: view_def mem)
  qed
  have word: "read32 (view s1 (kmem s1)) ?v = w"
  proof (rule read32_parts)
    show "view s1 (kmem s1) ?v = ucast w" using byte [of 0] by simp
    show "view s1 (kmem s1) (?v + 1) = ucast (drop_bit 8 w)" using byte [of 1] by simp
    show "view s1 (kmem s1) (?v + 2) = ucast (drop_bit 16 w)" using byte [of 2] by simp
    show "view s1 (kmem s1) (?v + 3) = ucast (drop_bit 24 w)" using byte [of 3] by simp
  qed
  have "kmem s1 a = kmem s a" if "\<not> in_region (p_stack p) 0x4000 a" for a
  proof -
    have "\<not> unat (a - ?q) < 4"
    proof
      assume lt: "unat (a - ?q) < 4"
      have "a - p_stack p = ?v - 0x003FB000 + of_nat (unat (a - ?q))" by simp
      then have "unat (a - p_stack p) < 0x4000" using off [OF lt] low lt by simp
      with that show False by (simp add: in_region_def word_less_nat_alt)
    qed
    then show ?thesis by (simp add: mem)
  qed
  moreover have "s1 = s\<lparr>kmem := kmem s1\<rparr>" unfolding s1 by simp
  ultimately show ?thesis using st word by (intro exI [of _ s1]) (simp add: user_push_def Let_def)
qed

text \<open>\<open>main\<close> has the kernel print the string its pointer names.\<close>

lemma program_prints:
  fixes s :: "'a kernel_state_scheme"
  assumes "runs_program p s" and "dir_wf (kmem s) (cr3 s)" and "isr80h_commands s = [Some Command_Sum, Some Command_Print]"
    and "tasks s (current_task s) = Some t" and "procs s (task_process t) = Some p"
    and "p_ptr_virt p = 0x00400000" and "p_size p = of_nat F" and "F \<le> unat (image_span p)" and "F < 2147483648"
    and "\<forall>a. in_region (p_ptr p) (of_nat F) a \<longrightarrow> \<not> in_region (p_stack p) 0x4000 a"
    and "j + length str < F" and "cstr (view s (kmem s)) (0x00400000 + of_nat j) str"
    and "0x003FB004 \<le> f_esp frame" and "f_esp frame \<le> 0x003FF000"
  shows "\<exists>s1 s2. program_main (0x00400000 + of_nat j) frame s = Some (Returns (frame\<lparr>f_eax := 0, f_esp := f_esp frame + 4\<rparr>) s2)
    \<and> s2 = print_bytes s1 str \<and> printed s1 s2 \<and> confined p s s1 \<and> machine_step\<^sup>*\<^sup>* s s2
    \<and> terminal_row s1 = terminal_row s \<and> terminal_col s1 = terminal_col s"
proof -
  let ?msg = "0x00400000 + of_nat j :: u32"
  let ?f = "(frame\<lparr>f_eax := 1\<rparr>)\<lparr>f_esp := f_esp frame - 4\<rparr>"
  obtain sa where a: "user_push ?msg (frame\<lparr>f_eax := 1\<rparr>) s = Some (?f, sa)" "confined p s sa" "machine_step\<^sup>*\<^sup>* s sa"
    "sa = s\<lparr>kmem := kmem sa\<rparr>" "read32 (view sa (kmem sa)) (f_esp ?f) = ?msg"
    "\<forall>a. \<not> in_region (p_stack p) 0x4000 a \<longrightarrow> kmem sa a = kmem s a"
    using push_stack [OF assms(1), of "frame\<lparr>f_eax := 1\<rparr>" ?msg] assms(13,14) by auto
  have keep: "current_task sa = current_task s" "tasks sa = tasks s" "procs sa = procs s" "isr80h_commands sa = isr80h_commands s"
    "terminal_row sa = terminal_row s" "terminal_col sa = terminal_col s"
    by (subst a(4), simp)+
  note fields = confined_fields [OF a(2)]
  have pg: "cr0_pg sa" "cr0_pg s" "current_task sa \<noteq> 0" using fields(2,3) assms(1) by (simp_all add: runs_program_def)
  have addr: "translate (kmem sa) (cr3 sa) (?msg + of_nat i) = p_ptr p + of_nat (j + i)
      \<and> translate (kmem s) (cr3 s) (?msg + of_nat i) = p_ptr p + of_nat (j + i)
      \<and> in_region (p_ptr p) (of_nat F) (p_ptr p + of_nat (j + i))" if "i \<le> length str" for i
  proof -
    have l: "j + i < F" using that assms(11) by simp
    have v: "task_view (kmem s) (cr3 s) p" "p_ptr p mod 4096 = 0" "image_span p mod 4096 = 0"
      using assms(1) by (simp_all add: runs_program_def)
    have "translate (kmem s) (cr3 s) (?msg + of_nat i) = p_ptr p + of_nat (j + i)"
      using view_image [OF v image_address [OF l assms(9,8)]] by (simp add: add.assoc)
    moreover have "translate (kmem sa) (cr3 sa) (?msg + of_nat i) = translate (kmem s) (cr3 s) (?msg + of_nat i)"
      using confined_pages [OF assms(1) a(2)] fields(1) by (simp add: translate_def)
    moreover have "in_region (p_ptr p) (of_nat F) (p_ptr p + of_nat (j + i))"
      using l assms(9) by (simp only: in_region_base word_less_nat_alt) (simp add: unat_of_nat_small del: of_nat_add)
    ultimately show ?thesis by simp
  qed
  have own: "own_byte p (p_ptr p + of_nat (j + i))" if "i \<le> length str" for i
  proof -
    have "unat (of_nat (j + i) :: u32) = j + i" using that assms(9,11) by (intro unat_of_nat_small) simp
    then have "of_nat (j + i) < image_span p" using that assms(8,11) by (simp add: word_less_nat_alt del: of_nat_add)
    then show ?thesis by (simp add: own_byte_def in_region_base del: of_nat_add)
  qed
  have "cstr (view sa (kmem sa)) ?msg str"
  proof (rule cstr_cong [OF assms(12)])
    show "view sa (kmem sa) (?msg + of_nat i) = view s (kmem s) (?msg + of_nat i)" if "i \<le> length str" for i
      using addr [OF that] a(6) assms(10) pg by (simp add: view_def del: of_nat_add)
  qed
  moreover have "\<forall>i \<le> length str. \<not> window (translate (kmem sa) (cr3 sa) (?msg + of_nat i))"
    using addr own assms(1) by (auto simp: runs_program_def simp del: of_nat_add)
  ultimately have vis: "visible sa ?msg str"
    using visible_paged [OF pg(1) confined_dir_wf [OF assms(1) a(2) assms(2)] _ confined_dir_window [OF assms(1) a(2)]] by blast
  have valid: "process_validate_pointer p ?msg"
  proof -
    have "unat (of_nat j :: u32) = j" "unat (of_nat F :: u32) = F" using assms(9,11) by (simp_all add: unat_of_nat_small)
    then have "unat ?msg = 0x00400000 + j" "unat (0x00400000 + of_nat F :: u32) = 0x00400000 + F"
      using assms(9,11) by (simp_all add: unat_add_lem [THEN iffD1])
    then show ?thesis using assms(6,7,11) by (simp add: process_validate_pointer_def word_le_nat_alt word_less_nat_alt)
  qed
  let ?si = "interrupted ?f sa"
  have call: "isr80h_wrapper ?f sa = Some (Returns (?f\<lparr>f_eax := 0\<rparr>) (print_bytes ?si str))" "printed ?si (print_bytes ?si str)"
    using isr80h_wrapper_outcomes [where s = sa and t = t and p = p and frame = ?f and msg = ?msg, OF pg(3)] assms(3-5) keep fields(5) a(5) valid vis
    by simp_all
  have "program_main ?msg frame s = Some (Returns (frame\<lparr>f_eax := 0, f_esp := f_esp frame + 4\<rparr>) (print_bytes ?si str))"
    by (simp add: program_main_def a(1) call(1))
  moreover have "confined p s ?si" using confined_interrupted [OF a(2)] .
  moreover have "machine_step\<^sup>*\<^sup>* s (print_bytes ?si str)"
    using a(3) machine_step.system_call [OF call(1)] by (rule rtranclp.rtrancl_into_rtrancl)
  moreover have "terminal_row ?si = terminal_row s" "terminal_col ?si = terminal_col s" by (simp_all add: interrupted_def keep)
  ultimately show ?thesis using call(2) by blast
qed

section \<open>Properties\<close>

lemma local_msg_chars: "length local_msg = 28" "\<forall>c \<in> set local_msg. c \<noteq> 0"
  by (simp_all add: local_msg_def bytes_of_def)

lemma message_cstr:
  assumes "take 29 (drop j bs) = local_msg @ [0]" and "\<And>i. i < length bs \<Longrightarrow> m (0x00400000 + of_nat i) = bs ! i"
  shows "j + 28 < length bs" and "cstr m (0x00400000 + of_nat j) local_msg"
proof -
  have "length (take 29 (drop j bs)) = 29" by (simp only: assms(1)) (simp add: local_msg_chars)
  then show len: "j + 28 < length bs" by simp
  have nth: "m (0x00400000 + of_nat j + of_nat i) = (local_msg @ [0]) ! i" if "i < 29" for i
  proof -
    have "(local_msg @ [0]) ! i = bs ! (j + i)" unfolding assms(1) [symmetric] using that len by simp
    then show ?thesis using assms(2) [of "j + i"] that len by (simp add: add.assoc)
  qed
  have "m (0x00400000 + of_nat j + of_nat i) = local_msg ! i \<and> local_msg ! i \<noteq> 0" if "i < length local_msg" for i
    using nth [of i] that nth_mem [OF that] local_msg_chars by (auto simp: nth_append)
  moreover have "m (0x00400000 + of_nat j + of_nat (length local_msg)) = 0"
    using nth [of 28] by (simp only: local_msg_chars nth_append_length [of local_msg, unfolded local_msg_chars])
  ultimately show "cstr m (0x00400000 + of_nat j) local_msg" by (simp only: cstr_iff) blast
qed



end
