(* ===== verification/Port_IO.thy ===== *)
theory Port_IO
  imports Disk
begin

text \<open>
  The port routines (\<^verbatim>\<open>src/io/io.asm\<close>) at the level of the processor: stack frame, registers and the port
  instruction. What a C caller sees of them are the functions of \<open>io_ports\<close>.
\<close>

section \<open>Frames\<close>

record port_cpu =
  x_eax :: u32
  x_edx :: u32
  x_ebp :: u32
  x_esp :: u32
  x_eip :: u32

text \<open>\<open>push ebp\<close>, \<open>mov ebp, esp\<close>; and at the end \<open>pop ebp\<close>, \<open>ret\<close>.\<close>

definition enter_frame :: "port_cpu \<Rightarrow> mem \<Rightarrow> port_cpu \<times> mem" where
  "enter_frame c m =
     (let c1 = c\<lparr>x_esp := x_esp c - 4\<rparr>; m1 = write32 m (x_esp c1) (x_ebp c)
      in (c1\<lparr>x_ebp := x_esp c1\<rparr>, m1))"

definition leave_frame :: "port_cpu \<Rightarrow> mem \<Rightarrow> port_cpu" where
  "leave_frame c m =
     (let c1 = c\<lparr>x_ebp := read32 m (x_esp c), x_esp := x_esp c + 4\<rparr>
      in c1\<lparr>x_eip := read32 m (x_esp c1), x_esp := x_esp c1 + 4\<rparr>)"

section \<open>The routines\<close>

text \<open>\<open>in al, dx\<close> replaces the low byte of \<open>eax\<close>, \<open>in ax, dx\<close> its low half.\<close>

definition insb_asm :: "'d io_ports \<Rightarrow> port_cpu \<Rightarrow> mem \<Rightarrow> 'd \<Rightarrow> port_cpu \<times> mem \<times> 'd" where
  "insb_asm io c m d =
     (let (c1, m1) = enter_frame c m;
          c2 = c1\<lparr>x_eax := 0\<rparr>;
          c3 = c2\<lparr>x_edx := read32 m1 (x_ebp c2 + 8)\<rparr>;
          (al, d1) = port_insb io (ucast (x_edx c3)) d;
          c4 = c3\<lparr>x_eax := (x_eax c3 AND 0xFFFFFF00) OR ucast al\<rparr>
      in (leave_frame c4 m1, m1, d1))"

definition insw_asm :: "'d io_ports \<Rightarrow> port_cpu \<Rightarrow> mem \<Rightarrow> 'd \<Rightarrow> port_cpu \<times> mem \<times> 'd" where
  "insw_asm io c m d =
     (let (c1, m1) = enter_frame c m;
          c2 = c1\<lparr>x_eax := 0\<rparr>;
          c3 = c2\<lparr>x_edx := read32 m1 (x_ebp c2 + 8)\<rparr>;
          (ax, d1) = port_insw io (ucast (x_edx c3)) d;
          c4 = c3\<lparr>x_eax := (x_eax c3 AND 0xFFFF0000) OR ucast ax\<rparr>
      in (leave_frame c4 m1, m1, d1))"

definition outb_asm :: "'d io_ports \<Rightarrow> port_cpu \<Rightarrow> mem \<Rightarrow> 'd \<Rightarrow> port_cpu \<times> mem \<times> 'd" where
  "outb_asm io c m d =
     (let (c1, m1) = enter_frame c m;
          c2 = c1\<lparr>x_eax := read32 m1 (x_ebp c1 + 12)\<rparr>;
          c3 = c2\<lparr>x_edx := read32 m1 (x_ebp c2 + 8)\<rparr>;
          d1 = port_outb io (ucast (x_edx c3)) (ucast (x_eax c3)) d
      in (leave_frame c3 m1, m1, d1))"

text \<open>Nothing calls \<open>outw\<close>; the effect of a word on a port is its own parameter.\<close>

definition outw_asm :: "(u16 \<Rightarrow> u16 \<Rightarrow> 'd \<Rightarrow> 'd) \<Rightarrow> port_cpu \<Rightarrow> mem \<Rightarrow> 'd \<Rightarrow> port_cpu \<times> mem \<times> 'd" where
  "outw_asm port_outw c m d =
     (let (c1, m1) = enter_frame c m;
          c2 = c1\<lparr>x_eax := read32 m1 (x_ebp c1 + 12)\<rparr>;
          c3 = c2\<lparr>x_edx := read32 m1 (x_ebp c2 + 8)\<rparr>;
          d1 = port_outw (ucast (x_edx c3)) (ucast (x_eax c3)) d
      in (leave_frame c3 m1, m1, d1))"

section \<open>What a caller sees\<close>

text \<open>
  A C call: the return address on top of the stack, the arguments above. The routine returns there with the
  caller's frame pointer, the return address popped, and no byte written but the word below the stack.
\<close>

definition returned :: "port_cpu \<Rightarrow> mem \<Rightarrow> port_cpu \<Rightarrow> mem \<Rightarrow> bool" where
  "returned c m c' m' \<longleftrightarrow> x_eip c' = read32 m (x_esp c) \<and> x_esp c' = x_esp c + 4 \<and> x_ebp c' = x_ebp c
     \<and> m' = write32 m (x_esp c - 4) (x_ebp c)"

lemma above_stack:
  "read32 (write32 m (a - 4) w) a = read32 m a" "read32 (write32 m (a - 4) w) (a + 4) = read32 m (a + 4)"
  "read32 (write32 m (a - 4) w) (a + 8) = read32 m (a + 8)" "read32 (write32 m (a - 4) w) (4 + a) = read32 m (a + 4)"
  "read32 (write32 m (a - 4) w) (8 + a) = read32 m (a + 8)"
  by (simp_all add: read32_def write32_def add.commute [of _ a])

lemma in_byte: "(0 AND 0xFFFFFF00 :: u32) OR ucast (al :: u8) = ucast al" "(0 AND 0xFFFF0000 :: u32) OR ucast (ax :: u16) = ucast ax"
  by simp_all

text \<open>The routines are the port functions, results zero-extended and arguments cut to their types.\<close>

lemma port_routines:
  "case port_insb io (ucast (read32 m (x_esp c + 4))) d of (al, d1) \<Rightarrow>
     \<exists>c' m'. insb_asm io c m d = (c', m', d1) \<and> x_eax c' = ucast al \<and> returned c m c' m'"
  "case port_insw io (ucast (read32 m (x_esp c + 4))) d of (ax, d1) \<Rightarrow>
     \<exists>c' m'. insw_asm io c m d = (c', m', d1) \<and> x_eax c' = ucast ax \<and> returned c m c' m'"
  "\<exists>c' m'. outb_asm io c m d = (c', m', port_outb io (ucast (read32 m (x_esp c + 4))) (ucast (read32 m (x_esp c + 8))) d) \<and> returned c m c' m'"
  "\<exists>c' m'. outw_asm ow c m d = (c', m', ow (ucast (read32 m (x_esp c + 4))) (ucast (read32 m (x_esp c + 8))) d) \<and> returned c m c' m'"
  using above_stack [of m "x_esp c" "x_ebp c"]
  by (auto simp: insb_asm_def insw_asm_def outb_asm_def outw_asm_def enter_frame_def leave_frame_def returned_def Let_def split: prod.splits)

end
